(* ===== verification/Prelude.thy ===== *)
theory Prelude
  imports Complex_Main "HOL-Library.Word" "HOL-Library.AList" "HOL-Library.Monad_Syntax"
begin

text \<open>
  Vocabulary and automation shared by every theory of the development: machine types, clock
  readings, slices of a byte buffer, association lists standing for the program's hash maps, and
  the generic lemmas about them.

  \<^item> \<open>byte\<close>, \<open>u16\<close>, \<open>u32\<close> and \<open>u64\<close> are words of the source's width.
  \<^item> \<open>time\<close> is a \<^verbatim>\<open>chrono::DateTime<Utc>\<close>: nanoseconds since the epoch, as an integer.
    \<open>duration\<close> is a \<^verbatim>\<open>std::time::Duration\<close>: a non-negative number of nanoseconds.
  \<^item> A Rust \<^verbatim>\<open>Option\<close> chain written with \<open>?\<close> is a \<open>do\<close> block of the option monad.
  \<^item> A \<^verbatim>\<open>HashMap\<close> that is iterated is an association list with distinct keys. Its order stands
    for the iteration order, which the source leaves open, so every lemma quantifies over it.
\<close>

type_synonym byte = "8 word"
type_synonym u16 = "16 word"
type_synonym u32 = "32 word"
type_synonym u64 = "64 word"

named_theorems byte_simps \<open>evaluation rules for reads of a byte buffer\<close>
named_theorems text_simps \<open>definitions of the string operations\<close>
named_theorems inv_intros \<open>preservation lemmas of the components' invariants\<close>

subsection \<open>Clock readings\<close>

type_synonym time = int
type_synonym duration = nat

definition secs :: "nat \<Rightarrow> duration" where
  "secs n = n * 1000000000"

text \<open>\<^verbatim>\<open>TimeDelta::to_std\<close>: an error for a negative difference.\<close>

definition to_std :: "int \<Rightarrow> duration option" where
  "to_std d = (if d < 0 then None else Some (nat d))"

text \<open>\<^verbatim>\<open>TimeDelta::from_std\<close>: an error past its documented maximum of \<open>i64::MAX\<close> milliseconds.\<close>

definition delta_max :: nat where
  "delta_max = (2 ^ 63 - 1) * 1000000"

definition from_std :: "duration \<Rightarrow> int option" where
  "from_std d = (if d \<le> delta_max then Some (int d) else None)"

text \<open>Whole seconds of a difference, truncated towards zero as \<^verbatim>\<open>num_seconds\<close> does.\<close>

definition num_seconds :: "int \<Rightarrow> int" where
  "num_seconds d = sgn d * (\<bar>d\<bar> div 1000000000)"

definition num_hours :: "int \<Rightarrow> int" where
  "num_hours d = sgn d * (\<bar>d\<bar> div (3600 * 1000000000))"

definition as_secs :: "duration \<Rightarrow> nat" where
  "as_secs d = d div 1000000000"

text \<open>The UTC day, and the day and its minute in a zone so many seconds east of UTC.\<close>

definition day_of :: "time \<Rightarrow> int" where
  "day_of t = t div (86400 * 1000000000)"

definition local_day :: "int \<Rightarrow> time \<Rightarrow> int" where
  "local_day offset now = (now div 1000000000 + offset) div 86400"

definition local_minute :: "int \<Rightarrow> time \<Rightarrow> nat" where
  "local_minute offset now = nat ((now div 1000000000 + offset) mod 86400 div 60)"

lemma to_std_Some_iff: "to_std d = Some e \<longleftrightarrow> 0 \<le> d \<and> e = nat d"
  by (auto simp: to_std_def)

lemma to_std_None_iff: "to_std d = None \<longleftrightarrow> d < 0"
  by (simp add: to_std_def)

subsection \<open>Options\<close>

text \<open>\<^verbatim>\<open>a.or(b)\<close>, \<^verbatim>\<open>a.or_else(|| b)\<close>, and the guard \<^verbatim>\<open>if a.is_none() { a = b }\<close>.\<close>

definition or_else :: "'a option \<Rightarrow> 'a option \<Rightarrow> 'a option" where
  "or_else x y = (case x of Some _ \<Rightarrow> x | None \<Rightarrow> y)"

subsection \<open>Reads of a buffer\<close>

text \<open>\<^verbatim>\<open>slice.get(i)\<close> and \<^verbatim>\<open>slice.get(a..b)\<close>: out of range is \<open>None\<close>, never a panic.\<close>

definition byte_at :: "'a list \<Rightarrow> nat \<Rightarrow> 'a option" where
  "byte_at xs i = (if i < length xs then Some (xs ! i) else None)"

definition slice :: "'a list \<Rightarrow> nat \<Rightarrow> nat \<Rightarrow> 'a list option" where
  "slice xs a b = (if a \<le> b \<and> b \<le> length xs then Some (take (b - a) (drop a xs)) else None)"

definition be16 :: "byte \<Rightarrow> byte \<Rightarrow> u16" where
  "be16 hi lo = word_of_nat (unat hi * 256 + unat lo)"

lemma byte_at_Some_iff: "byte_at xs i = Some b \<longleftrightarrow> i < length xs \<and> b = xs ! i"
  by (auto simp: byte_at_def)

lemma slice_Some_iff:
  "slice xs a b = Some ys \<longleftrightarrow> a \<le> b \<and> b \<le> length xs \<and> ys = take (b - a) (drop a xs)"
  by (auto simp: slice_def)

lemma slice_length: "slice xs a b = Some ys \<Longrightarrow> length ys = b - a"
  by (auto simp: slice_Some_iff)

lemma slice_le: "slice xs a b = Some ys \<Longrightarrow> a \<le> b \<and> b \<le> length xs"
  by (auto simp: slice_Some_iff)

lemma unat_be16: "unat (be16 hi lo) = unat hi * 256 + unat lo"
proof -
  have "unat hi < 256" and "unat lo < 256"
    using unsigned_less [of hi, where 'a = nat] unsigned_less [of lo, where 'a = nat] by simp_all
  then have "unat hi * 256 + unat lo < 65536" by linarith
  then show ?thesis unfolding be16_def by (subst unat_of_nat) simp
qed

subsection \<open>Fallible steps\<close>

text \<open>
  A fallible step is a value of \<open>'e + 'a\<close>: \<open>Inl\<close> the error, \<open>Inr\<close> the result. \<open>ensure\<close> is the source's
  \<^verbatim>\<open>if cond { bail!(e) }\<close> and \<open>and_then\<close> the \<^verbatim>\<open>?\<close> that follows a step returning \<^verbatim>\<open>()\<close>.
\<close>

definition ensure :: "bool \<Rightarrow> 'e \<Rightarrow> 'e + unit" where
  "ensure ok e = (if ok then Inr () else Inl e)"

definition and_then :: "'e + unit \<Rightarrow> 'e + 'a \<Rightarrow> 'e + 'a" where
  "and_then r k = (case r of Inl e \<Rightarrow> Inl e | Inr _ \<Rightarrow> k)"

fun ensure_all :: "('e + unit) list \<Rightarrow> 'e + unit" where
  "ensure_all [] = Inr ()" |
  "ensure_all (r # rs) = and_then r (ensure_all rs)"

lemma ensure_Inr_iff [simp]: "ensure ok e = Inr u \<longleftrightarrow> ok"
  by (simp add: ensure_def)

lemma ensure_Inl_iff [simp]: "ensure ok e = Inl e' \<longleftrightarrow> \<not> ok \<and> e' = e"
  by (auto simp: ensure_def)

lemma and_then_Inr_iff [simp]: "and_then r k = Inr v \<longleftrightarrow> r = Inr () \<and> k = Inr v"
  by (auto simp: and_then_def split: sum.splits)

lemma ensure_all_Inr_iff: "ensure_all rs = Inr u \<longleftrightarrow> list_all (\<lambda>r. r = Inr ()) rs"
  by (induction rs) auto

end
