(* ===== verification/Text.thy ===== *)
theory Text
  imports Prelude "HOL-Library.Sublist" "HOL-Library.Char_ord" "HOL-Library.List_Lexorder"
begin

text \<open>
  The operations of Rust's \<^verbatim>\<open>str\<close> and \<^verbatim>\<open>String\<close> the program uses. A string is the list of the
  bytes of its UTF-8 encoding, one \<open>char\<close> for each byte, so \<open>length\<close> is \<^verbatim>\<open>str::len\<close>, the ASCII
  operations work byte by byte, and the operations on code points (white space, control
  characters, the count of characters) recognise the encodings. The tables are those of the
  standard library's documentation.
\<close>

subsection \<open>Bytes and digits\<close>

definition ordc :: "char \<Rightarrow> nat" where
  "ordc c = of_char c"

definition chr :: "nat \<Rightarrow> char" where
  "chr n = char_of n"

lemma ordc_chr [simp]: "n < 256 \<Longrightarrow> ordc (chr n) = n"
  by (simp add: ordc_def chr_def)

lemma chr_ordc [simp]: "chr (ordc c) = c"
  by (simp add: ordc_def chr_def)

lemma ordc_less [simp]: "ordc c < 256"
  using of_char_mod_256 [of c, where 'a = nat] by (metis mod_less_divisor ordc_def zero_less_numeral)

lemma ordc_inject [simp]: "ordc c = ordc d \<longleftrightarrow> c = d"
  by (metis chr_ordc)

lemma chr_eq_iff: "n < 256 \<Longrightarrow> c = chr n \<longleftrightarrow> ordc c = n"
  using ordc_chr by force

definition is_digit :: "char \<Rightarrow> bool" where
  "is_digit c \<longleftrightarrow> 48 \<le> ordc c \<and> ordc c \<le> 57"

definition hexdig :: "nat \<Rightarrow> char" where
  "hexdig n = (if n < 10 then chr (48 + n) else chr (87 + n))"

definition hexdig_upper :: "nat \<Rightarrow> char" where
  "hexdig_upper n = (if n < 10 then chr (48 + n) else chr (55 + n))"

definition hexval :: "char \<Rightarrow> nat option" where
  "hexval c = (let n = ordc c in
     if 48 \<le> n \<and> n \<le> 57 then Some (n - 48)
     else if 97 \<le> n \<and> n \<le> 102 then Some (n - 87)
     else if 65 \<le> n \<and> n \<le> 70 then Some (n - 55)
     else None)"

lemma hexval_hexdig [simp]: "n < 16 \<Longrightarrow> hexval (hexdig n) = Some n"
  by (simp add: hexval_def hexdig_def Let_def)

lemma hexval_less: "hexval c = Some n \<Longrightarrow> n < 16"
  by (auto simp: hexval_def Let_def split: if_splits)

lemma ordc_hexdig: "n < 16 \<Longrightarrow> ordc (hexdig n) = (if n < 10 then 48 + n else 87 + n)"
  by (simp add: hexdig_def)

text \<open>Decimal rendering (\<^verbatim>\<open>{}\<close> of an unsigned integer) and hexadecimal rendering.\<close>

fun show_nat :: "nat \<Rightarrow> string" where
  "show_nat n = (if n < 10 then [chr (48 + n)] else show_nat (n div 10) @ [chr (48 + n mod 10)])"

declare show_nat.simps [simp del]

fun show_hex :: "nat \<Rightarrow> string" where
  "show_hex n = (if n < 16 then [hexdig n] else show_hex (n div 16) @ [hexdig (n mod 16)])"

declare show_hex.simps [simp del]

fun digits_val :: "nat \<Rightarrow> string \<Rightarrow> nat option" where
  "digits_val acc [] = Some acc" |
  "digits_val acc (c # cs) =
     (if is_digit c then digits_val (acc * 10 + (ordc c - 48)) cs else None)"

text \<open>\<^verbatim>\<open>u64::from_str\<close>: an optional plus sign, at least one digit, and no overflow.\<close>

definition parse_u64 :: "string \<Rightarrow> nat option" where
  "parse_u64 s =
     (let ds = (case s of [] \<Rightarrow> [] | c # cs \<Rightarrow> if c = CHR ''+'' then cs else s) in
      if ds = [] then None
      else case digits_val 0 ds of
             Some n \<Rightarrow> if n < 2 ^ 64 then Some n else None
           | None \<Rightarrow> None)"

lemma is_digit_chr [simp]: "n < 10 \<Longrightarrow> is_digit (chr (48 + n))"
  by (simp add: is_digit_def)

lemma show_nat_nonempty [simp]: "show_nat n \<noteq> []"
  by (subst show_nat.simps) simp

lemma show_nat_digits: "c \<in> set (show_nat n) \<Longrightarrow> is_digit c"
proof (induction n rule: show_nat.induct)
  case (1 n)
  show ?case
  proof (cases "n < 10")
    case True
    then show ?thesis using 1(2) by (simp add: show_nat.simps [of n])
  next
    case False
    then show ?thesis using 1 by (auto simp: show_nat.simps [of n])
  qed
qed

lemma digits_val_append:
  "digits_val acc (xs @ ys) =
     (case digits_val acc xs of None \<Rightarrow> None | Some a \<Rightarrow> digits_val a ys)"
  by (induction xs arbitrary: acc) auto

lemma digits_val_show: "digits_val 0 (show_nat n) = Some n"
proof (induction n rule: show_nat.induct)
  case (1 n)
  show ?case
  proof (cases "n < 10")
    case True
    then show ?thesis by (simp add: show_nat.simps [of n])
  next
    case False
    then show ?thesis using 1 by (simp add: show_nat.simps [of n] digits_val_append)
  qed
qed

lemma length_show_nat: "n < 10 ^ k \<Longrightarrow> 0 < k \<Longrightarrow> length (show_nat n) \<le> k"
proof (induction k arbitrary: n)
  case (Suc k)
  show ?case
  proof (cases "n < 10")
    case True
    then show ?thesis by (simp add: show_nat.simps [of n])
  next
    case False
    with Suc.prems have "0 < k" by (cases k) auto
    moreover have "n div 10 < 10 ^ k" using Suc.prems by (simp add: less_mult_imp_div_less mult.commute)
    ultimately show ?thesis using Suc.IH [of "n div 10"] False by (simp add: show_nat.simps [of n])
  qed
qed simp

lemma show_nat_no_leading_zero: "1 < length (show_nat n) \<Longrightarrow> hd (show_nat n) \<noteq> CHR ''0''"
proof -
  have "0 < n \<Longrightarrow> ordc (hd (show_nat n)) \<noteq> 48"
  proof (induction n rule: show_nat.induct)
    case (1 n)
    then show ?case by (cases "n < 10") (simp_all add: show_nat.simps [of n] hd_append)
  qed
  moreover assume "1 < length (show_nat n)"
  then have "0 < n" by (cases n) (simp_all add: show_nat.simps [of 0])
  ultimately show ?thesis by (auto simp: ordc_def)
qed

lemma parse_u64_show: "n < 2 ^ 64 \<Longrightarrow> parse_u64 (show_nat n) = Some n"
proof -
  assume n: "n < 2 ^ 64"
  obtain c cs where c: "show_nat n = c # cs" by (cases "show_nat n") auto
  have "is_digit c" using show_nat_digits [of c n] c by simp
  then have "c \<noteq> CHR ''+''" by (auto simp: is_digit_def ordc_def)
  then show ?thesis using c n digits_val_show [of n] by (simp add: parse_u64_def Let_def)
qed

lemma chr_digits [text_simps]:
  "chr 48 = CHR ''0''" "chr 49 = CHR ''1''" "chr 50 = CHR ''2''" "chr 51 = CHR ''3''"
  "chr 52 = CHR ''4''" "chr 53 = CHR ''5''" "chr 54 = CHR ''6''" "chr 55 = CHR ''7''"
  "chr 56 = CHR ''8''" "chr 57 = CHR ''9''"
  by code_simp+

subsection \<open>Case, prefixes and splitting\<close>

definition lower :: "char \<Rightarrow> char" where
  "lower c = (if 65 \<le> ordc c \<and> ordc c \<le> 90 then chr (ordc c + 32) else c)"

definition to_ascii_lowercase :: "string \<Rightarrow> string" where
  "to_ascii_lowercase s = map lower s"

definition eq_ignore_ascii_case :: "string \<Rightarrow> string \<Rightarrow> bool" where
  "eq_ignore_ascii_case s t \<longleftrightarrow> to_ascii_lowercase s = to_ascii_lowercase t"

lemma lower_idem [simp]: "lower (lower c) = lower c"
  by (simp add: lower_def)

lemma to_ascii_lowercase_idem [simp]:
  "to_ascii_lowercase (to_ascii_lowercase s) = to_ascii_lowercase s"
  by (simp add: to_ascii_lowercase_def)

definition starts_with :: "string \<Rightarrow> string \<Rightarrow> bool" where
  "starts_with s p \<longleftrightarrow> prefix p s"

definition ends_with :: "string \<Rightarrow> string \<Rightarrow> bool" where
  "ends_with s p \<longleftrightarrow> suffix p s"

definition contains :: "string \<Rightarrow> string \<Rightarrow> bool" where
  "contains s p \<longleftrightarrow> sublist p s"

definition strip_prefix :: "string \<Rightarrow> string \<Rightarrow> string option" where
  "strip_prefix s p = (if prefix p s then Some (drop (length p) s) else None)"

definition strip_suffix :: "string \<Rightarrow> string \<Rightarrow> string option" where
  "strip_suffix s p = (if suffix p s then Some (take (length s - length p) s) else None)"

text \<open>\<^verbatim>\<open>split(char)\<close>: one piece more than there are separators, empty pieces kept.\<close>

fun split_on :: "char \<Rightarrow> string \<Rightarrow> string list" where
  "split_on d [] = [[]]" |
  "split_on d (c # cs) =
     (if c = d then [] # split_on d cs
      else case split_on d cs of p # ps \<Rightarrow> (c # p) # ps | [] \<Rightarrow> [[c]])"

definition split_once :: "char \<Rightarrow> string \<Rightarrow> (string \<times> string) option" where
  "split_once d s =
     (if d \<in> set s then Some (takeWhile (\<lambda>c. c \<noteq> d) s, tl (dropWhile (\<lambda>c. c \<noteq> d) s)) else None)"

fun join :: "string \<Rightarrow> string list \<Rightarrow> string" where
  "join sep [] = []" |
  "join sep [p] = p" |
  "join sep (p # q # ps) = p @ sep @ join sep (q # ps)"

text \<open>\<^verbatim>\<open>str::lines\<close>: no piece for the text after a final line feed, one carriage return dropped.\<close>

definition strip_cr :: "string \<Rightarrow> string" where
  "strip_cr l = (if l \<noteq> [] \<and> last l = chr 13 then butlast l else l)"

definition str_lines :: "string \<Rightarrow> string list" where
  "str_lines s =
     (let ps = split_on (chr 10) s in
      map strip_cr (butlast ps) @ (if last ps = [] then [] else [last ps]))"

lemma split_on_nonempty [simp]: "split_on d s \<noteq> []"
  by (induction s) (auto split: list.splits)

lemma split_on_clean: "d \<notin> set s \<Longrightarrow> split_on d s = [s]"
  by (induction s) auto

lemma split_on_append:
  "d \<notin> set s \<Longrightarrow> split_on d (s @ d # t) = s # split_on d t"
  by (induction s) auto

lemma split_on_join:
  "ps \<noteq> [] \<Longrightarrow> (\<And>p. p \<in> set ps \<Longrightarrow> d \<notin> set p) \<Longrightarrow> split_on d (join [d] ps) = ps"
  by (induction "[d]" ps rule: join.induct) (auto simp: split_on_clean split_on_append)

subsection \<open>White space and control characters\<close>

definition bytes_str :: "nat list \<Rightarrow> string" where
  "bytes_str ns = map chr ns"

text \<open>The encodings of the code points \<^verbatim>\<open>char::is_whitespace\<close> accepts.\<close>

definition white_space :: "string list" where
  "white_space = map bytes_str
     ([[9], [10], [11], [12], [13], [32], [0xC2, 0x85], [0xC2, 0xA0], [0xE1, 0x9A, 0x80]]
      @ map (\<lambda>n. [0xE2, 0x80, n]) ([0x80..<0x8B] @ [0xA8, 0xA9, 0xAF])
      @ [[0xE2, 0x81, 0x9F], [0xE3, 0x80, 0x80]])"

function strip_all :: "string list \<Rightarrow> string \<Rightarrow> string" where
  "strip_all ps s =
     (case List.find (\<lambda>p. p \<noteq> [] \<and> prefix p s) ps of
        None \<Rightarrow> s
      | Some p \<Rightarrow> strip_all ps (drop (length p) s))"
  by auto
termination
  by (relation "measure (\<lambda>(ps, s). length s)") (auto simp: find_Some_iff prefix_def)

declare strip_all.simps [simp del]

definition trim_start :: "string \<Rightarrow> string" where
  "trim_start s = strip_all white_space s"

definition trim_end :: "string \<Rightarrow> string" where
  "trim_end s = rev (strip_all (map rev white_space) (rev s))"

definition trim :: "string \<Rightarrow> string" where
  "trim s = trim_end (trim_start s)"

definition trim_end_matches :: "char \<Rightarrow> string \<Rightarrow> string" where
  "trim_end_matches d s = rev (dropWhile (\<lambda>c. c = d) (rev s))"

definition trim_matches :: "char \<Rightarrow> string \<Rightarrow> string" where
  "trim_matches d s = trim_end_matches d (dropWhile (\<lambda>c. c = d) s)"

lemma strip_all_suffix: "suffix (strip_all ps s) s"
proof (induction ps s rule: strip_all.induct)
  case (1 ps s)
  show ?case
  proof (cases "List.find (\<lambda>p. p \<noteq> [] \<and> prefix p s) ps")
    case None
    then show ?thesis by (simp add: strip_all.simps [of ps s])
  next
    case (Some p)
    then have "suffix (strip_all ps (drop (length p) s)) (drop (length p) s)" using 1 by simp
    then show ?thesis
      using Some by (simp add: strip_all.simps [of ps s]) (meson suffix_drop suffix_order.trans)
  qed
qed

lemma strip_all_stripped: "p \<in> set ps \<Longrightarrow> p \<noteq> [] \<Longrightarrow> \<not> prefix p (strip_all ps s)"
proof (induction ps s rule: strip_all.induct)
  case (1 ps s)
  show ?case
  proof (cases "List.find (\<lambda>p. p \<noteq> [] \<and> prefix p s) ps")
    case None
    then have "strip_all ps s = s" by (simp add: strip_all.simps [of ps s])
    then show ?thesis using None 1(2,3) by (auto simp: find_None_iff)
  next
    case (Some q)
    then show ?thesis using 1 by (simp add: strip_all.simps [of ps s])
  qed
qed

lemma trim_start_suffix: "suffix (trim_start s) s"
  by (simp add: trim_start_def strip_all_suffix)

lemma trim_end_prefix: "prefix (trim_end s) s"
  using strip_all_suffix [of "map rev white_space" "rev s"]
  by (simp add: trim_end_def suffix_to_prefix)

lemma trim_sublist: "sublist (trim s) s"
  using trim_end_prefix [of "trim_start s"] trim_start_suffix [of s]
  by (metis prefix_imp_sublist sublist_order.order_trans suffix_imp_sublist trim_def)

lemma set_trim: "set (trim s) \<subseteq> set s"
  using trim_sublist set_mono_sublist by blast

lemma length_trim: "length (trim s) \<le> length s"
  using trim_sublist sublist_length_le by blast

definition plain :: "char \<Rightarrow> bool" where
  "plain c \<longleftrightarrow> 32 < ordc c \<and> ordc c < 128"

lemma strip_all_id:
  assumes "\<And>p. p \<in> set ps \<Longrightarrow> p \<noteq> [] \<Longrightarrow> hd p \<notin> set s"
  shows "strip_all ps s = s"
proof -
  have "hd p \<in> set s" if "p \<noteq> []" "prefix p s" for p
    using that by (cases p; cases s) auto
  then have "List.find (\<lambda>p. p \<noteq> [] \<and> prefix p s) ps = None"
    using assms by (auto simp: find_None_iff)
  then show ?thesis by (simp add: strip_all.simps [of ps s])
qed

lemma white_space_not_plain: "p \<in> set white_space \<Longrightarrow> \<not> plain (hd p) \<and> \<not> plain (last p)"
proof -
  have "list_all (\<lambda>p. \<not> plain (hd p) \<and> \<not> plain (last p)) white_space" by code_simp
  then show "p \<in> set white_space \<Longrightarrow> \<not> plain (hd p) \<and> \<not> plain (last p)"
    unfolding list_all_iff by blast
qed

lemma trim_start_plain: "list_all plain s \<Longrightarrow> trim_start s = s"
  unfolding trim_start_def using white_space_not_plain
  by (intro strip_all_id) (auto simp: list_all_iff)

lemma trim_end_plain: "list_all plain s \<Longrightarrow> trim_end s = s"
proof -
  assume "list_all plain s"
  then have "strip_all (map rev white_space) (rev s) = rev s"
    using white_space_not_plain by (intro strip_all_id) (auto simp: list_all_iff hd_rev)
  then show ?thesis by (simp add: trim_end_def)
qed

lemma trim_plain: "list_all plain s \<Longrightarrow> trim s = s"
  by (simp add: trim_def trim_start_plain trim_end_plain)

lemma plain_digit: "is_digit c \<Longrightarrow> plain c"
  by (simp add: is_digit_def plain_def)

lemma plain_show_nat: "list_all plain (show_nat n)"
  using show_nat_digits [of _ n] plain_digit by (auto simp: list_all_iff)

lemma trim_Nil [simp]: "trim [] = []"
  using length_trim [of "[]"] by simp

definition chars_count :: "string \<Rightarrow> nat" where
  "chars_count s = length (filter (\<lambda>c. \<not> (0x80 \<le> ordc c \<and> ordc c < 0xC0)) s)"

text \<open>\<^verbatim>\<open>char::is_control\<close>: the code points below 32, 127, and 128 to 159 (\<open>C2 80\<close> to \<open>C2 9F\<close>).\<close>

fun has_control :: "string \<Rightarrow> bool" where
  "has_control [] = False" |
  "has_control (c # cs) =
     (ordc c < 32 \<or> ordc c = 127
      \<or> (ordc c = 0xC2 \<and> (case cs of [] \<Rightarrow> False | d # _ \<Rightarrow> 0x80 \<le> ordc d \<and> ordc d < 0xA0))
      \<or> has_control cs)"

subsection \<open>Decoding bytes that may not be UTF-8\<close>

text \<open>
  \<^verbatim>\<open>String::from_utf8_lossy\<close>: each maximal prefix of an encoding that cannot be completed becomes
  one replacement character. \<open>utf8_step\<close> reads one code point or one invalid chunk: how many bytes
  it spans, and whether it is valid.
\<close>

definition peek :: "nat list \<Rightarrow> nat \<Rightarrow> nat" where
  "peek bs i = (if i < length bs then bs ! i else 0)"

definition cont :: "nat \<Rightarrow> bool" where
  "cont b \<longleftrightarrow> 0x80 \<le> b \<and> b < 0xC0"

definition utf8_second :: "nat \<Rightarrow> nat \<Rightarrow> bool" where
  "utf8_second b c \<longleftrightarrow>
     (if b = 0xE0 then 0xA0 \<le> c \<and> c \<le> 0xBF
      else if b = 0xED then 0x80 \<le> c \<and> c \<le> 0x9F
      else if b = 0xF0 then 0x90 \<le> c \<and> c \<le> 0xBF
      else if b = 0xF4 then 0x80 \<le> c \<and> c \<le> 0x8F
      else cont c)"

fun utf8_step :: "nat list \<Rightarrow> nat \<times> bool" where
  "utf8_step [] = (0, True)" |
  "utf8_step (b # bs) =
     (if b < 0x80 then (1, True)
      else if 0xC2 \<le> b \<and> b \<le> 0xDF then (if cont (peek bs 0) then (2, True) else (1, False))
      else if 0xE0 \<le> b \<and> b \<le> 0xEF then
        (if \<not> utf8_second b (peek bs 0) then (1, False)
         else if \<not> cont (peek bs 1) then (2, False) else (3, True))
      else if 0xF0 \<le> b \<and> b \<le> 0xF4 then
        (if \<not> utf8_second b (peek bs 0) then (1, False)
         else if \<not> cont (peek bs 1) then (2, False)
         else if \<not> cont (peek bs 2) then (3, False) else (4, True))
      else (1, False))"

lemma utf8_step_pos: "bs \<noteq> [] \<Longrightarrow> 0 < fst (utf8_step bs)"
  by (cases bs) auto

function utf8_lossy :: "nat list \<Rightarrow> string" where
  "utf8_lossy bs =
     (if bs = [] then []
      else let st = utf8_step bs in
        (if snd st then map chr (take (fst st) bs) else bytes_str [0xEF, 0xBF, 0xBD])
        @ utf8_lossy (drop (fst st) bs))"
  by auto
termination
proof (relation "measure length", goal_cases)
  case 1
  then show ?case by simp
next
  case (2 bs st)
  then show ?case using utf8_step_pos [of bs] by (cases bs) auto
qed

declare utf8_lossy.simps [simp del]

definition from_utf8_lossy :: "byte list \<Rightarrow> string" where
  "from_utf8_lossy bs = utf8_lossy (map unat bs)"

lemma utf8_lossy_ascii: "(\<And>b. b \<in> set bs \<Longrightarrow> b < 0x80) \<Longrightarrow> utf8_lossy bs = map chr bs"
proof (induction bs)
  case Nil
  then show ?case by (simp add: utf8_lossy.simps)
next
  case (Cons b bs)
  then show ?case by (simp add: utf8_lossy.simps [of "b # bs"] Let_def)
qed

end
