(* ===== verification/Net.thy ===== *)
theory Net
  imports Text
begin

text \<open>
  Addresses. \<open>mac_addr\<close> is \<^verbatim>\<open>MacAddr\<close> of \<^verbatim>\<open>src/types.rs\<close> with its tests, its rendering and its
  parser; the order the source derives is the lexicographic order of the bytes, given as an
  instance of the class \<open>linorder\<close>. \<open>ipv4_addr\<close>, \<open>ipv6_addr\<close> and \<open>ip_addr\<close> are the standard library's
  types with its rendering and, for IPv4, its parser.
\<close>

subsection \<open>MAC addresses\<close>

datatype mac_addr = MacAddr byte byte byte byte byte byte

fun octets :: "mac_addr \<Rightarrow> byte list" where
  "octets (MacAddr a b c d e f) = [a, b, c, d, e, f]"

definition BROADCAST :: mac_addr where
  "BROADCAST = MacAddr 0xff 0xff 0xff 0xff 0xff 0xff"

fun is_group :: "mac_addr \<Rightarrow> bool" where
  "is_group (MacAddr a b c d e f) \<longleftrightarrow> and a 0x01 \<noteq> 0"

fun is_zero :: "mac_addr \<Rightarrow> bool" where
  "is_zero (MacAddr a b c d e f) \<longleftrightarrow>
     a = 0 \<and> b = 0 \<and> c = 0 \<and> d = 0 \<and> e = 0 \<and> f = 0"

fun is_locally_administered :: "mac_addr \<Rightarrow> bool" where
  "is_locally_administered (MacAddr a b c d e f) \<longleftrightarrow> and a 0x02 \<noteq> 0"

lemma octets_inject [simp]: "octets m = octets n \<longleftrightarrow> m = n"
  by (cases m; cases n) simp

lemma length_octets [simp]: "length (octets m) = 6"
  by (cases m) simp

instantiation mac_addr :: linorder
begin

definition less_eq_mac_addr :: "mac_addr \<Rightarrow> mac_addr \<Rightarrow> bool" where
  "less_eq_mac_addr m n \<longleftrightarrow> octets m \<le> octets n"

definition less_mac_addr :: "mac_addr \<Rightarrow> mac_addr \<Rightarrow> bool" where
  "less_mac_addr m n \<longleftrightarrow> octets m < octets n"

instance
  by standard
    (auto simp: less_eq_mac_addr_def less_mac_addr_def less_le_not_le dest: order_trans antisym)

end

text \<open>An address no device can have: the device manager ignores observations keyed on one.\<close>

definition usable :: "mac_addr \<Rightarrow> bool" where
  "usable m \<longleftrightarrow> \<not> is_group m \<and> \<not> is_zero m"

definition mac_of :: "byte list \<Rightarrow> mac_addr option" where
  "mac_of bs = (case bs of [a, b, c, d, e, f] \<Rightarrow> Some (MacAddr a b c d e f) | _ \<Rightarrow> None)"

lemma mac_of_Some_iff: "mac_of bs = Some m \<longleftrightarrow> bs = octets m"
  by (cases m) (auto simp: mac_of_def split: list.splits)

lemma mac_of_octets [simp]: "mac_of (octets m) = Some m"
  by (simp add: mac_of_Some_iff)

lemma mac_of_6:
  assumes "length bs = 6"
  obtains m where "mac_of bs = Some m"
proof -
  obtain a b c d e f where "bs = [a, b, c, d, e, f]"
    using assms by (auto simp: length_Suc_conv numeral_eq_Suc)
  then show ?thesis using that by (simp add: mac_of_def)
qed

subsection \<open>Rendering and parsing a MAC address\<close>

definition hex_byte :: "byte \<Rightarrow> string" where
  "hex_byte b = [hexdig (unat b div 16), hexdig (unat b mod 16)]"

definition hex_byte_upper :: "byte \<Rightarrow> string" where
  "hex_byte_upper b = [hexdig_upper (unat b div 16), hexdig_upper (unat b mod 16)]"

definition show_mac :: "mac_addr \<Rightarrow> string" where
  "show_mac m = join '':'' (map hex_byte (octets m))"

definition hex_prefix :: "mac_addr \<Rightarrow> nat \<Rightarrow> string" where
  "hex_prefix m nibbles = take (min nibbles 12) (concat (map hex_byte_upper (octets m)))"

datatype parse_mac_error = ParseMacError string

fun hex_pairs :: "string \<Rightarrow> byte list option" where
  "hex_pairs [] = Some []" |
  "hex_pairs [c] = None" |
  "hex_pairs (c # d # cs) =
     do { h \<leftarrow> hexval c; l \<leftarrow> hexval d; bs \<leftarrow> hex_pairs cs; Some (word_of_nat (16 * h + l) # bs) }"

definition mac_separator :: "char \<Rightarrow> bool" where
  "mac_separator c \<longleftrightarrow> c \<in> set '':-. ''"

definition mac_from_str :: "string \<Rightarrow> parse_mac_error + mac_addr" where
  "mac_from_str s =
     (let hex = filter (\<lambda>c. \<not> mac_separator c) s in
      if length hex \<noteq> 12 \<or> \<not> list_all (\<lambda>c. hexval c \<noteq> None) hex then Inl (ParseMacError s)
      else case hex_pairs hex \<bind> mac_of of Some m \<Rightarrow> Inr m | None \<Rightarrow> Inl (ParseMacError s))"

definition parse_mac :: "string \<Rightarrow> mac_addr option" where
  "parse_mac s = (case mac_from_str s of Inr m \<Rightarrow> Some m | Inl _ \<Rightarrow> None)"

lemma hexdig_not_separator:
  assumes "n < 16"
  shows "\<not> mac_separator (hexdig n)"
proof -
  have "list_all (\<lambda>n. \<not> mac_separator (hexdig n)) [0..<16]" by code_simp
  then show ?thesis using assms by (simp only: list_all_iff set_upt) simp
qed

lemma unat_byte_less [simp]: "unat (b :: byte) < 256"
  using unsigned_less [of b, where 'a = nat] by simp

lemma unat_byte_div [simp]: "unat (b :: byte) div 16 < 16"
  using unat_byte_less [of b] by linarith

lemma hex_byte_word: "word_of_nat (16 * (unat b div 16) + unat b mod 16) = (b :: byte)"
  by (metis mult_div_mod_eq of_nat_unat ucast_id)

lemma hex_pairs_hex_bytes: "hex_pairs (concat (map hex_byte bs)) = Some bs"
proof (induction bs)
  case Nil
  then show ?case by simp
next
  case (Cons b bs)
  then show ?case using hex_byte_word [of b] by (simp add: hex_byte_def del: of_nat_add of_nat_mult)
qed

lemma filter_hex_byte: "filter (\<lambda>c. \<not> mac_separator c) (hex_byte b) = hex_byte b"
  using hexdig_not_separator [of "unat b div 16"] hexdig_not_separator [of "unat b mod 16"]
  by (simp add: hex_byte_def)

text \<open>
  The address is recovered from its own rendering, with each separator the parser accepts.
\<close>

lemma mac_from_str_join:
  assumes "list_all mac_separator sep"
  shows "mac_from_str (join sep (map hex_byte (octets m))) = Inr m"
proof -
  let ?P = "\<lambda>c. \<not> mac_separator c"
  have sep: "filter ?P sep = []"
    using assms by (auto simp: filter_empty_conv list_all_iff)
  have "filter ?P (join sep (map hex_byte bs)) = concat (map hex_byte bs)" for bs
  proof (induction bs rule: induct_list012)
    case (3 b c bs)
    then show ?case by (simp add: filter_hex_byte sep)
  qed (simp_all add: filter_hex_byte)
  then have f: "filter ?P (join sep (map hex_byte (octets m))) = concat (map hex_byte (octets m))" .
  have l: "length (concat (map hex_byte bs)) = 2 * length bs" for bs
    by (induction bs) (auto simp: hex_byte_def)
  have h: "list_all (\<lambda>c. hexval c \<noteq> None) (concat (map hex_byte bs))" for bs
    by (induction bs) (auto simp: hex_byte_def)
  show ?thesis
    unfolding mac_from_str_def f Let_def using h [of "octets m"] l [of "octets m"]
    by (simp add: hex_pairs_hex_bytes)
qed

lemma parse_mac_show [simp]: "parse_mac (show_mac m) = Some m"
  using mac_from_str_join [of "'':''" m] by (simp add: parse_mac_def show_mac_def mac_separator_def)

lemma trim_show_mac [simp]: "trim (show_mac m) = show_mac m"
proof (rule trim_plain)
  have h: "plain (hexdig n)" if "n < 16" for n
    using that by (simp add: plain_def ordc_hexdig)
  have "list_all plain (hex_byte b)" for b by (simp add: hex_byte_def h)
  then have "list_all plain (join '':'' (map hex_byte bs))" for bs
    by (induction bs rule: induct_list012) (simp_all add: plain_def ordc_def)
  then show "list_all plain (show_mac m)" by (simp add: show_mac_def)
qed

lemma show_mac_inject [simp]: "show_mac m = show_mac n \<longleftrightarrow> m = n"
  by (metis option.inject parse_mac_show)

subsection \<open>IP addresses\<close>

datatype ipv4_addr = Ipv4Addr byte byte byte byte

datatype ipv6_addr = Ipv6Addr u16 u16 u16 u16 u16 u16 u16 u16

datatype ip_addr = V4 ipv4_addr | V6 ipv6_addr

fun octets4 :: "ipv4_addr \<Rightarrow> byte list" where
  "octets4 (Ipv4Addr a b c d) = [a, b, c, d]"

fun segments :: "ipv6_addr \<Rightarrow> u16 list" where
  "segments (Ipv6Addr a b c d e f g h) = [a, b, c, d, e, f, g, h]"

definition ipv4_of :: "byte list \<Rightarrow> ipv4_addr option" where
  "ipv4_of bs = (case bs of [a, b, c, d] \<Rightarrow> Some (Ipv4Addr a b c d) | _ \<Rightarrow> None)"

fun be16s :: "byte list \<Rightarrow> u16 list" where
  "be16s (a # b # bs) = be16 a b # be16s bs" |
  "be16s _ = []"

definition ipv6_of :: "byte list \<Rightarrow> ipv6_addr option" where
  "ipv6_of bs = (if length bs \<noteq> 16 then None else
     case be16s bs of [a, b, c, d, e, f, g, h] \<Rightarrow> Some (Ipv6Addr a b c d e f g h) | _ \<Rightarrow> None)"

definition UNSPECIFIED4 :: ipv4_addr where
  "UNSPECIFIED4 = Ipv4Addr 0 0 0 0"

definition UNSPECIFIED6 :: ipv6_addr where
  "UNSPECIFIED6 = Ipv6Addr 0 0 0 0 0 0 0 0"

fun is_unspecified :: "ip_addr \<Rightarrow> bool" where
  "is_unspecified (V4 a) \<longleftrightarrow> a = UNSPECIFIED4" |
  "is_unspecified (V6 a) \<longleftrightarrow> a = UNSPECIFIED6"

fun is_multicast4 :: "ipv4_addr \<Rightarrow> bool" where
  "is_multicast4 (Ipv4Addr a b c d) \<longleftrightarrow> 224 \<le> unat a \<and> unat a \<le> 239"

fun is_multicast6 :: "ipv6_addr \<Rightarrow> bool" where
  "is_multicast6 (Ipv6Addr a b c d e f g h) \<longleftrightarrow> unat a div 256 = 255"

fun is_multicast :: "ip_addr \<Rightarrow> bool" where
  "is_multicast (V4 a) \<longleftrightarrow> is_multicast4 a" |
  "is_multicast (V6 a) \<longleftrightarrow> is_multicast6 a"

fun is_loopback4 :: "ipv4_addr \<Rightarrow> bool" where
  "is_loopback4 (Ipv4Addr a b c d) \<longleftrightarrow> a = 127"

fun is_loopback :: "ip_addr \<Rightarrow> bool" where
  "is_loopback (V4 a) \<longleftrightarrow> is_loopback4 a" |
  "is_loopback (V6 a) \<longleftrightarrow> a = Ipv6Addr 0 0 0 0 0 0 0 1"

fun is_link_local4 :: "ipv4_addr \<Rightarrow> bool" where
  "is_link_local4 (Ipv4Addr a b c d) \<longleftrightarrow> a = 169 \<and> b = 254"

lemma ipv4_of_Some_iff: "ipv4_of bs = Some a \<longleftrightarrow> bs = octets4 a"
  by (cases a) (auto simp: ipv4_of_def split: list.splits)

lemma length_octets4 [simp]: "length (octets4 a) = 4"
  by (cases a) simp

lemma octets4_inject [simp]: "octets4 a = octets4 b \<longleftrightarrow> a = b"
  by (cases a; cases b) simp

subsection \<open>Rendering and parsing an IP address\<close>

definition show_ipv4 :: "ipv4_addr \<Rightarrow> string" where
  "show_ipv4 a = join ''.'' (map (\<lambda>b. show_nat (unat b)) (octets4 a))"

text \<open>
  The first longest run of zero segments: \<open>zero_run\<close> scans with the index, the current run and the
  longest one, each a start and a length.
\<close>

fun zero_run :: "nat \<Rightarrow> nat \<times> nat \<Rightarrow> nat \<times> nat \<Rightarrow> u16 list \<Rightarrow> nat \<times> nat" where
  "zero_run i cur best [] = best" |
  "zero_run i cur best (s # ss) =
     (if s = 0 then
        let cur' = (if snd cur = 0 then i else fst cur, Suc (snd cur)) in
        zero_run (Suc i) cur' (if snd best < snd cur' then cur' else best) ss
      else zero_run (Suc i) (0, 0) best ss)"

definition show_segments :: "u16 list \<Rightarrow> string" where
  "show_segments ss = join '':'' (map (\<lambda>s. show_hex (unat s)) ss)"

fun ipv4_mapped :: "ipv6_addr \<Rightarrow> ipv4_addr option" where
  "ipv4_mapped (Ipv6Addr a b c d e f g h) =
     (if a = 0 \<and> b = 0 \<and> c = 0 \<and> d = 0 \<and> e = 0 \<and> f = 0xffff
      then Some (Ipv4Addr (word_of_nat (unat g div 256)) (word_of_nat (unat g mod 256))
                          (word_of_nat (unat h div 256)) (word_of_nat (unat h mod 256)))
      else None)"

definition show_ipv6 :: "ipv6_addr \<Rightarrow> string" where
  "show_ipv6 a =
     (case ipv4_mapped a of
        Some v4 \<Rightarrow> ''::ffff:'' @ show_ipv4 v4
      | None \<Rightarrow>
         (let ss = segments a; z = zero_run 0 (0, 0) (0, 0) ss in
          if 1 < snd z
          then show_segments (take (fst z) ss) @ ''::'' @ show_segments (drop (fst z + snd z) ss)
          else show_segments ss))"

fun show_ip :: "ip_addr \<Rightarrow> string" where
  "show_ip (V4 a) = show_ipv4 a" |
  "show_ip (V6 a) = show_ipv6 a"

text \<open>\<^verbatim>\<open>Ipv4Addr::from_str\<close>: four decimal numbers of at most three digits, no leading zero.\<close>

definition parse_octet :: "string \<Rightarrow> byte option" where
  "parse_octet s =
     (if s = [] \<or> 3 < length s \<or> (1 < length s \<and> hd s = CHR ''0'') then None
      else do { n \<leftarrow> digits_val 0 s; if n < 256 then Some (word_of_nat n) else None })"

definition parse_ipv4_text :: "string \<Rightarrow> ipv4_addr option" where
  "parse_ipv4_text s =
     (case split_on (CHR ''.'') s of
        [a, b, c, d] \<Rightarrow>
          do { a \<leftarrow> parse_octet a; b \<leftarrow> parse_octet b; c \<leftarrow> parse_octet c; d \<leftarrow> parse_octet d;
               Some (Ipv4Addr a b c d) }
      | _ \<Rightarrow> None)"

lemma parse_octet_show [simp]: "parse_octet (show_nat (unat b)) = Some b"
proof -
  have u: "unat b < 256" by simp
  then have "unat b < 10 ^ 3" by (rule less_trans) simp
  then have "length (show_nat (unat b)) \<le> 3" by (intro length_show_nat) simp_all
  moreover have "hd (show_nat (unat b)) \<noteq> CHR ''0''" if "1 < length (show_nat (unat b))"
    using that show_nat_no_leading_zero by blast
  ultimately show ?thesis using u by (auto simp: parse_octet_def digits_val_show)
qed

lemma parse_ipv4_show [simp]: "parse_ipv4_text (show_ipv4 a) = Some a"
proof (cases a)
  case (Ipv4Addr a1 a2 a3 a4)
  have "CHR ''.'' \<notin> set (show_nat n)" for n
    using show_nat_digits [of "CHR ''.''" n] by (auto simp: is_digit_def ordc_def)
  then have "split_on (CHR ''.'') (show_ipv4 a) = map (\<lambda>b. show_nat (unat b)) (octets4 a)"
    unfolding show_ipv4_def by (intro split_on_join) (auto simp: Ipv4Addr)
  then show ?thesis by (simp add: parse_ipv4_text_def Ipv4Addr)
qed

lemma show_ipv4_inject [simp]: "show_ipv4 a = show_ipv4 b \<longleftrightarrow> a = b"
  by (metis option.inject parse_ipv4_show)

end
