(* ===== verification/Types.thy ===== *)
theory Types
  imports Net
begin

text \<open>
  The value types of \<^verbatim>\<open>src/types.rs\<close>: signals, observations with their protocol detail, device
  states, priorities and event types, each with the stable strings written to the database.
  A constructor that two enums of the source share carries a prefix here.
\<close>

subsection \<open>Kinds of evidence\<close>

datatype observation_kind =
    ObsRequest
  | ObsReply
  | ObsAnnouncement
  | ObsQuery

fun observation_kind_str :: "observation_kind \<Rightarrow> string" where
  "observation_kind_str ObsRequest = ''request''" |
  "observation_kind_str ObsReply = ''reply''" |
  "observation_kind_str ObsAnnouncement = ''announcement''" |
  "observation_kind_str ObsQuery = ''query''"

datatype signal_kind =
    UserAssigned
  | MdnsName
  | DhcpHostname
  | ReverseDns
  | NetbiosName
  | SsdpFriendlyName
  | Vendor
  | MacSignal
  | MdnsService
  | MdnsModel
  | DhcpFingerprint
  | DhcpVendorClass
  | SsdpDeviceType
  | SsdpServer
  | NetbiosWorkgroup
  | NdpRole

text \<open>Weights are the decimal fractions of the source, as rationals.\<close>

fun weight :: "signal_kind \<Rightarrow> rat" where
  "weight UserAssigned = 1" |
  "weight MdnsName = 9/10" |
  "weight DhcpHostname = 8/10" |
  "weight ReverseDns = 7/10" |
  "weight NetbiosName = 6/10" |
  "weight SsdpFriendlyName = 5/10" |
  "weight Vendor = 3/10" |
  "weight MacSignal = 1/10" |
  "weight MdnsService = 0" |
  "weight MdnsModel = 0" |
  "weight DhcpFingerprint = 0" |
  "weight DhcpVendorClass = 0" |
  "weight SsdpDeviceType = 0" |
  "weight SsdpServer = 0" |
  "weight NetbiosWorkgroup = 0" |
  "weight NdpRole = 0"

fun signal_kind_str :: "signal_kind \<Rightarrow> string" where
  "signal_kind_str UserAssigned = ''user_assigned''" |
  "signal_kind_str MdnsName = ''mdns_name''" |
  "signal_kind_str DhcpHostname = ''dhcp_hostname''" |
  "signal_kind_str ReverseDns = ''reverse_dns''" |
  "signal_kind_str NetbiosName = ''netbios_name''" |
  "signal_kind_str SsdpFriendlyName = ''ssdp_friendly_name''" |
  "signal_kind_str Vendor = ''vendor''" |
  "signal_kind_str MacSignal = ''mac''" |
  "signal_kind_str MdnsService = ''mdns_service''" |
  "signal_kind_str MdnsModel = ''mdns_model''" |
  "signal_kind_str DhcpFingerprint = ''dhcp_fingerprint''" |
  "signal_kind_str DhcpVendorClass = ''dhcp_vendor_class''" |
  "signal_kind_str SsdpDeviceType = ''ssdp_device_type''" |
  "signal_kind_str SsdpServer = ''ssdp_server''" |
  "signal_kind_str NetbiosWorkgroup = ''netbios_workgroup''" |
  "signal_kind_str NdpRole = ''ndp_role''"

definition signal_kind_from_str :: "string \<Rightarrow> signal_kind option" where
  "signal_kind_from_str s =
    (if s = ''user_assigned'' then Some UserAssigned
     else if s = ''mdns_name'' then Some MdnsName
     else if s = ''dhcp_hostname'' then Some DhcpHostname
     else if s = ''reverse_dns'' then Some ReverseDns
     else if s = ''netbios_name'' then Some NetbiosName
     else if s = ''ssdp_friendly_name'' then Some SsdpFriendlyName
     else if s = ''vendor'' then Some Vendor
     else if s = ''mac'' then Some MacSignal
     else if s = ''mdns_service'' then Some MdnsService
     else if s = ''mdns_model'' then Some MdnsModel
     else if s = ''dhcp_fingerprint'' then Some DhcpFingerprint
     else if s = ''dhcp_vendor_class'' then Some DhcpVendorClass
     else if s = ''ssdp_device_type'' then Some SsdpDeviceType
     else if s = ''ssdp_server'' then Some SsdpServer
     else if s = ''netbios_workgroup'' then Some NetbiosWorkgroup
     else if s = ''ndp_role'' then Some NdpRole
     else None)"

definition SIGNAL_KINDS :: "signal_kind list" where
  "SIGNAL_KINDS =
     [UserAssigned,
      MdnsName,
      DhcpHostname,
      ReverseDns,
      NetbiosName,
      SsdpFriendlyName,
      Vendor,
      MacSignal,
      MdnsService,
      MdnsModel,
      DhcpFingerprint,
      DhcpVendorClass,
      SsdpDeviceType,
      SsdpServer,
      NetbiosWorkgroup,
      NdpRole]"

record signal =
  sig_kind :: signal_kind
  sig_value :: string

definition Signal :: "signal_kind \<Rightarrow> string \<Rightarrow> signal" where
  "Signal k v = \<lparr>sig_kind = k, sig_value = v\<rparr>"

record name_claim =
  claim_signal :: signal
  claim_addresses :: "ip_addr list"

definition unaddressed :: "signal \<Rightarrow> name_claim" where
  "unaddressed s = \<lparr>claim_signal = s, claim_addresses = []\<rparr>"

definition claim_matches :: "name_claim \<Rightarrow> ip_addr list \<Rightarrow> bool" where
  "claim_matches c addresses \<longleftrightarrow> list_ex (\<lambda>a. a \<in> set addresses) (claim_addresses c)"

subsection \<open>Protocol detail\<close>

datatype arp_op = ArpRequest | ArpReply

record arp_detail =
  arp_op :: arp_op
  arp_sender_mac :: mac_addr
  arp_sender_ip :: "ipv4_addr option"
  arp_target_ip :: ipv4_addr
  arp_gratuitous :: bool

datatype dhcp_message_type =
    DhcpDiscover
  | DhcpOffer
  | DhcpRequest
  | DhcpDecline
  | DhcpAck
  | DhcpNak
  | DhcpRelease
  | DhcpInform

definition message_type_from_code :: "byte \<Rightarrow> dhcp_message_type option" where
  "message_type_from_code code =
    (if code = 1 then Some DhcpDiscover
     else if code = 2 then Some DhcpOffer
     else if code = 3 then Some DhcpRequest
     else if code = 4 then Some DhcpDecline
     else if code = 5 then Some DhcpAck
     else if code = 6 then Some DhcpNak
     else if code = 7 then Some DhcpRelease
     else if code = 8 then Some DhcpInform
     else None)"

definition is_server_message :: "dhcp_message_type \<Rightarrow> bool" where
  "is_server_message m \<longleftrightarrow> m \<in> {DhcpOffer, DhcpAck, DhcpNak}"

fun message_type_str :: "dhcp_message_type \<Rightarrow> string" where
  "message_type_str DhcpDiscover = ''discover''" |
  "message_type_str DhcpOffer = ''offer''" |
  "message_type_str DhcpRequest = ''request''" |
  "message_type_str DhcpDecline = ''decline''" |
  "message_type_str DhcpAck = ''ack''" |
  "message_type_str DhcpNak = ''nak''" |
  "message_type_str DhcpRelease = ''release''" |
  "message_type_str DhcpInform = ''inform''"

record dhcp_detail =
  dhcp_message_type :: dhcp_message_type
  dhcp_client_mac :: "mac_addr option"
  dhcp_assigned_ip :: "ipv4_addr option"
  dhcp_router :: "ipv4_addr option"

datatype protocol_detail = Arp arp_detail | Dhcp dhcp_detail

subsection \<open>Observations\<close>

record observation =
  obs_mac :: mac_addr
  obs_ip :: "ip_addr option"
  obs_interface :: string
  obs_source :: string
  obs_kind :: observation_kind
  obs_signals :: "signal list"
  obs_claims :: "name_claim list"
  obs_detail :: "protocol_detail option"
  obs_at :: time

definition new_observation ::
  "mac_addr \<Rightarrow> ip_addr option \<Rightarrow> string \<Rightarrow> string \<Rightarrow> observation_kind \<Rightarrow> time \<Rightarrow> observation"
where
  "new_observation mac ip interface source kind ts =
     \<lparr>obs_mac = mac, obs_ip = ip, obs_interface = interface, obs_source = source, obs_kind = kind,
      obs_signals = [], obs_claims = [], obs_detail = None, obs_at = ts\<rparr>"

definition with_signal :: "observation \<Rightarrow> signal \<Rightarrow> observation" where
  "with_signal obs s = obs\<lparr>obs_signals := obs_signals obs @ [s]\<rparr>"

definition with_claim :: "observation \<Rightarrow> name_claim \<Rightarrow> observation" where
  "with_claim obs c = obs\<lparr>obs_claims := obs_claims obs @ [c]\<rparr>"

definition with_detail :: "observation \<Rightarrow> protocol_detail \<Rightarrow> observation" where
  "with_detail obs d = obs\<lparr>obs_detail := Some d\<rparr>"

definition obs_arp :: "observation \<Rightarrow> arp_detail option" where
  "obs_arp obs = (case obs_detail obs of Some (Arp a) \<Rightarrow> Some a | _ \<Rightarrow> None)"

definition obs_dhcp :: "observation \<Rightarrow> dhcp_detail option" where
  "obs_dhcp obs = (case obs_detail obs of Some (Dhcp d) \<Rightarrow> Some d | _ \<Rightarrow> None)"

subsection \<open>Device states, priorities and events\<close>

datatype device_state = Online | Idle | Offline

fun device_state_str :: "device_state \<Rightarrow> string" where
  "device_state_str Online = ''online''" |
  "device_state_str Idle = ''idle''" |
  "device_state_str Offline = ''offline''"

definition device_state_from_db :: "string \<Rightarrow> device_state" where
  "device_state_from_db s =
     (if s = ''online'' then Online else if s = ''idle'' then Idle else Offline)"

datatype event_priority = Normal | High | Urgent

fun event_priority_str :: "event_priority \<Rightarrow> string" where
  "event_priority_str Normal = ''normal''" |
  "event_priority_str High = ''high''" |
  "event_priority_str Urgent = ''urgent''"

text \<open>The order the source derives: declaration order.\<close>

fun priority_rank :: "event_priority \<Rightarrow> nat" where
  "priority_rank Normal = 0" |
  "priority_rank High = 1" |
  "priority_rank Urgent = 2"

lemma priority_rank_inject [simp]: "priority_rank p = priority_rank q \<longleftrightarrow> p = q"
  by (cases p; cases q) simp_all

instantiation event_priority :: linorder
begin

definition less_eq_event_priority :: "event_priority \<Rightarrow> event_priority \<Rightarrow> bool" where
  "less_eq_event_priority p q \<longleftrightarrow> priority_rank p \<le> priority_rank q"

definition less_event_priority :: "event_priority \<Rightarrow> event_priority \<Rightarrow> bool" where
  "less_event_priority p q \<longleftrightarrow> priority_rank p < priority_rank q"

instance
  by standard (auto simp: less_eq_event_priority_def less_event_priority_def dest: antisym)

end

datatype event_type =
    NewDevice
  | Returned
  | IpChanged
  | WentOffline
  | NameUpdated
  | ArpScan
  | ArpSpoof
  | RogueDhcp
  | IdentityChange
  | IpConflict
  | GratuitousArp
  | DeviceLocationChanged
  | PersonArrived
  | PersonDeparted
  | PersonLocationChanged

fun event_type_str :: "event_type \<Rightarrow> string" where
  "event_type_str NewDevice = ''new_device''" |
  "event_type_str Returned = ''returned''" |
  "event_type_str IpChanged = ''ip_changed''" |
  "event_type_str WentOffline = ''went_offline''" |
  "event_type_str NameUpdated = ''name_updated''" |
  "event_type_str ArpScan = ''arp_scan''" |
  "event_type_str ArpSpoof = ''arp_spoof''" |
  "event_type_str RogueDhcp = ''rogue_dhcp''" |
  "event_type_str IdentityChange = ''identity_change''" |
  "event_type_str IpConflict = ''ip_conflict''" |
  "event_type_str GratuitousArp = ''gratuitous_arp''" |
  "event_type_str DeviceLocationChanged = ''device_location_changed''" |
  "event_type_str PersonArrived = ''person_arrived''" |
  "event_type_str PersonDeparted = ''person_departed''" |
  "event_type_str PersonLocationChanged = ''person_location_changed''"

definition is_person :: "event_type \<Rightarrow> bool" where
  "is_person e \<longleftrightarrow> e \<in> {PersonArrived, PersonDeparted, PersonLocationChanged}"

definition is_security :: "event_type \<Rightarrow> bool" where
  "is_security e \<longleftrightarrow>
     e \<in> {ArpScan, ArpSpoof, RogueDhcp, IdentityChange, IpConflict, GratuitousArp}"

definition EVENT_TYPES :: "event_type list" where
  "EVENT_TYPES =
     [NewDevice,
      Returned,
      IpChanged,
      WentOffline,
      NameUpdated,
      ArpScan,
      ArpSpoof,
      RogueDhcp,
      IdentityChange,
      IpConflict,
      GratuitousArp,
      DeviceLocationChanged,
      PersonArrived,
      PersonDeparted,
      PersonLocationChanged]"

subsection \<open>The stable strings\<close>

text \<open>the strings stored in the database identify the value they were written for.\<close>

lemma stable_strings:
  "signal_kind_from_str (signal_kind_str k) = Some k
   \<and> device_state_from_db (device_state_str s) = s
   \<and> (event_type_str e = event_type_str e' \<longleftrightarrow> e = e')
   \<and> (event_priority_str p = event_priority_str q \<longleftrightarrow> p = q)
   \<and> \<not> (is_security e \<and> is_person e)"
proof (intro conjI)
  show "signal_kind_from_str (signal_kind_str k) = Some k"
    by (cases k) (simp_all add: signal_kind_from_str_def)
  show "device_state_from_db (device_state_str s) = s"
    by (cases s) (simp_all add: device_state_from_db_def)
  show "event_type_str e = event_type_str e' \<longleftrightarrow> e = e'"
    by (cases e; cases e') simp_all
  show "event_priority_str p = event_priority_str q \<longleftrightarrow> p = q"
    by (cases p; cases q) simp_all
  show "\<not> (is_security e \<and> is_person e)"
    by (auto simp: is_security_def is_person_def)
qed

lemma signal_kinds_complete: "set SIGNAL_KINDS = UNIV \<and> distinct SIGNAL_KINDS"
proof -
  have "k \<in> set SIGNAL_KINDS" for k by (cases k) (simp_all add: SIGNAL_KINDS_def)
  then show ?thesis by (auto simp: SIGNAL_KINDS_def)
qed

lemma event_types_complete: "set EVENT_TYPES = UNIV \<and> distinct EVENT_TYPES"
proof -
  have "e \<in> set EVENT_TYPES" for e by (cases e) (simp_all add: EVENT_TYPES_def)
  then show ?thesis by (auto simp: EVENT_TYPES_def)
qed

lemma server_messages: "is_server_message m \<longleftrightarrow> m = DhcpOffer \<or> m = DhcpAck \<or> m = DhcpNak"
  by (simp add: is_server_message_def)

lemmas observation_defs =
  new_observation_def with_signal_def with_claim_def with_detail_def obs_arp_def obs_dhcp_def

end
