(* ===== verification/Gateway.thy ===== *)
theory Gateway
  imports Types
begin

text \<open>
  \<^verbatim>\<open>src/analyze/gateway.rs\<close>: which device is the gateway, learned from configuration, from DHCP
  option 3 and from who everybody asks about. The set of proxied addresses, a \<^verbatim>\<open>BTreeSet\<close> only
  asked for membership and size, is a list without repetitions; so is a candidate's list of askers.
\<close>

definition INFERENCE_QUORUM :: nat where "INFERENCE_QUORUM = 3"
definition MAX_CANDIDATES :: nat where "MAX_CANDIDATES = 512"
definition MAX_PROXIED :: nat where "MAX_PROXIED = 256"

datatype gateway_source = Unknown | Configured | FromDhcp | Inferred

fun gateway_source_str :: "gateway_source \<Rightarrow> string" where
  "gateway_source_str Unknown = ''unknown''" |
  "gateway_source_str Configured = ''configured''" |
  "gateway_source_str FromDhcp = ''dhcp''" |
  "gateway_source_str Inferred = ''inferred''"

fun rank :: "gateway_source \<Rightarrow> nat" where
  "rank Unknown = 0" |
  "rank Inferred = 1" |
  "rank FromDhcp = 2" |
  "rank Configured = 3"

record gateway_tracker =
  gw_ip :: "ipv4_addr option"
  gw_ip_source :: gateway_source
  gw_mac :: "mac_addr option"
  gw_mac_source :: gateway_source
  gw_askers :: "(ipv4_addr \<times> mac_addr list) list"
  gw_proxy_arp :: bool
  gw_proxied :: "ipv4_addr list"

definition gateway_new :: "ipv4_addr option \<Rightarrow> mac_addr option \<Rightarrow> gateway_tracker" where
  "gateway_new ip mac =
     \<lparr>gw_ip = ip, gw_ip_source = (if ip \<noteq> None then Configured else Unknown),
      gw_mac = mac, gw_mac_source = (if mac \<noteq> None then Configured else Unknown),
      gw_askers = [], gw_proxy_arp = True, gw_proxied = []\<rparr>"

definition with_proxy_arp :: "gateway_tracker \<Rightarrow> bool \<Rightarrow> gateway_tracker" where
  "with_proxy_arp g b = g\<lparr>gw_proxy_arp := b\<rparr>"

definition is_gateway :: "gateway_tracker \<Rightarrow> mac_addr \<Rightarrow> bool" where
  "is_gateway g mac \<longleftrightarrow> gw_mac g = Some mac"

definition is_gateway_ip :: "gateway_tracker \<Rightarrow> ipv4_addr \<Rightarrow> bool" where
  "is_gateway_ip g ip \<longleftrightarrow> gw_ip g = Some ip"

definition proxy_arp_for :: "gateway_tracker \<Rightarrow> observation \<Rightarrow> ipv4_addr option" where
  "proxy_arp_for g obs =
     (if \<not> gw_proxy_arp g then None
      else do {
        arp \<leftarrow> obs_arp obs;
        if arp_op arp \<noteq> ArpReply then None
        else if \<not> is_gateway g (obs_mac obs) then None
        else do {
          claimed \<leftarrow> arp_sender_ip arp;
          if \<not> is_gateway_ip g claimed then Some claimed else None } })"

definition note_proxy_arp :: "gateway_tracker \<Rightarrow> ipv4_addr \<Rightarrow> gateway_tracker" where
  "note_proxy_arp g address =
     (if address \<in> set (gw_proxied g) then g
      else if length (gw_proxied g) \<ge> MAX_PROXIED then g
      else g\<lparr>gw_proxied := gw_proxied g @ [address]\<rparr>)"

definition set_ip :: "gateway_tracker \<Rightarrow> ipv4_addr \<Rightarrow> gateway_source \<Rightarrow> gateway_tracker" where
  "set_ip g ip source =
     (if rank source < rank (gw_ip_source g) then g
      else
        let g1 = (if gw_ip g \<noteq> Some ip \<and> gw_mac_source g \<noteq> Configured
                  then g\<lparr>gw_mac := None, gw_mac_source := Unknown\<rparr> else g) in
        g1\<lparr>gw_ip := Some ip, gw_ip_source := source, gw_askers := []\<rparr>)"

definition set_mac :: "gateway_tracker \<Rightarrow> mac_addr \<Rightarrow> gateway_source \<Rightarrow> gateway_tracker" where
  "set_mac g mac source =
     (if source = Unknown then g
      else case gw_mac g of
             Some known \<Rightarrow>
               if known = mac then
                 (if rank source > rank (gw_mac_source g) then g\<lparr>gw_mac_source := source\<rparr> else g)
               else if rank source > rank (gw_mac_source g)
                    then g\<lparr>gw_mac := Some mac, gw_mac_source := source\<rparr> else g
           | None \<Rightarrow>
               if rank source \<ge> rank (gw_mac_source g)
               then g\<lparr>gw_mac := Some mac, gw_mac_source := source\<rparr> else g)"

definition is_host_address :: "ipv4_addr \<Rightarrow> bool" where
  "is_host_address a \<longleftrightarrow>
     a \<noteq> UNSPECIFIED4 \<and> a \<noteq> Ipv4Addr 255 255 255 255 \<and> \<not> is_multicast4 a"

definition record_asker :: "gateway_tracker \<Rightarrow> ipv4_addr \<Rightarrow> mac_addr \<Rightarrow> gateway_tracker" where
  "record_asker g target asker =
     (if \<not> is_host_address target then g
      else if rank (gw_ip_source g) > rank Inferred then g
      else if map_of (gw_askers g) target = None \<and> length (gw_askers g) \<ge> MAX_CANDIDATES then g
      else
        let old = (case map_of (gw_askers g) target of Some l \<Rightarrow> l | None \<Rightarrow> []);
            askers = (if asker \<in> set old then old else old @ [asker]);
            g1 = g\<lparr>gw_askers := AList.update target askers (gw_askers g)\<rparr> in
        if length askers \<ge> INFERENCE_QUORUM then set_ip g1 target Inferred else g1)"

text \<open>\<^verbatim>\<open>GatewayTracker::observe\<close>: the four branches, in the order the source runs them.\<close>

definition learn_dhcp :: "gateway_tracker \<Rightarrow> observation \<Rightarrow> gateway_tracker" where
  "learn_dhcp g obs =
     (case obs_dhcp obs \<bind> dhcp_router of Some router \<Rightarrow> set_ip g router FromDhcp | None \<Rightarrow> g)"

definition learn_arp :: "gateway_tracker \<Rightarrow> observation \<Rightarrow> gateway_tracker" where
  "learn_arp g obs =
     (case obs_arp obs of
        None \<Rightarrow> g
      | Some arp \<Rightarrow>
          (case arp_op arp of
             ArpReply \<Rightarrow>
               if arp_sender_ip arp \<noteq> None \<and> gw_ip g = arp_sender_ip arp
               then set_mac g (obs_mac obs) (gw_ip_source g) else g
           | ArpRequest \<Rightarrow>
               if \<not> arp_gratuitous arp then record_asker g (arp_target_ip arp) (obs_mac obs) else g))"

definition learn_traffic :: "gateway_tracker \<Rightarrow> observation \<Rightarrow> gateway_tracker" where
  "learn_traffic g obs =
     (case obs_ip obs of
        Some (V4 v4) \<Rightarrow> if gw_ip g = Some v4 then set_mac g (obs_mac obs) (gw_ip_source g) else g
      | _ \<Rightarrow> g)"

definition learn_proxy :: "gateway_tracker \<Rightarrow> observation \<Rightarrow> gateway_tracker" where
  "learn_proxy g obs =
     (case proxy_arp_for g obs of Some a \<Rightarrow> note_proxy_arp g a | None \<Rightarrow> g)"

definition gateway_observe :: "gateway_tracker \<Rightarrow> observation \<Rightarrow> gateway_tracker" where
  "gateway_observe g obs =
     learn_proxy (learn_traffic (learn_arp (learn_dhcp g obs) obs) obs) obs"

subsection \<open>The invariant\<close>

text \<open>
  What is known has a source, a source has a value, the candidate and proxy tables are bounded.
\<close>

definition gateway_ok :: "gateway_tracker \<Rightarrow> bool" where
  "gateway_ok g \<longleftrightarrow>
     (gw_ip g = None \<longleftrightarrow> gw_ip_source g = Unknown)
     \<and> (gw_mac g = None \<longleftrightarrow> gw_mac_source g = Unknown)
     \<and> length (gw_askers g) \<le> MAX_CANDIDATES \<and> length (gw_proxied g) \<le> MAX_PROXIED
     \<and> distinct (gw_proxied g)"

lemma rank_zero [simp]: "rank s = 0 \<longleftrightarrow> s = Unknown"
  by (cases s) simp_all

lemma rank_le: "rank s \<le> 3"
  by (cases s) simp_all

lemma rank_inject [simp]: "rank s = rank t \<longleftrightarrow> s = t"
  by (cases s; cases t) simp_all

lemma gateway_new_ok: "gateway_ok (with_proxy_arp (gateway_new ip mac) b)"
  by (simp add: gateway_ok_def gateway_new_def with_proxy_arp_def)

lemma set_ip_ok: "gateway_ok g \<Longrightarrow> source \<noteq> Unknown \<Longrightarrow> gateway_ok (set_ip g ip source)"
  by (auto simp: gateway_ok_def set_ip_def Let_def)

lemma set_mac_ok: "gateway_ok g \<Longrightarrow> gateway_ok (set_mac g mac source)"
  by (auto simp: gateway_ok_def set_mac_def split: option.split)

lemma length_alist_update_le:
  "length (AList.update k v es) \<le> (if map_of es k = None then Suc (length es) else length es)"
  by (induction es) auto

lemma record_asker_ok: "gateway_ok g \<Longrightarrow> gateway_ok (record_asker g target asker)"
proof -
  assume g: "gateway_ok g"
  have "gateway_ok (g\<lparr>gw_askers := AList.update target l (gw_askers g)\<rparr>)"
    if "\<not> (map_of (gw_askers g) target = None \<and> MAX_CANDIDATES \<le> length (gw_askers g))" for l
    using g that length_alist_update_le [of target l "gw_askers g"]
    by (auto simp: gateway_ok_def split: if_splits)
  then show ?thesis using g by (auto simp: record_asker_def Let_def set_ip_ok)
qed

lemma note_proxy_arp_ok: "gateway_ok g \<Longrightarrow> gateway_ok (note_proxy_arp g a)"
  by (auto simp: gateway_ok_def note_proxy_arp_def)

lemma gateway_observe_ok: "gateway_ok g \<Longrightarrow> gateway_ok (gateway_observe g obs)"
proof -
  have d: "gateway_ok g \<Longrightarrow> gateway_ok (learn_dhcp g obs)" for g
    by (auto simp: learn_dhcp_def set_ip_ok split: option.split)
  have a: "gateway_ok g \<Longrightarrow> gateway_ok (learn_arp g obs)" for g
    by (auto simp: learn_arp_def set_mac_ok record_asker_ok split: option.split arp_op.split)
  have t: "gateway_ok g \<Longrightarrow> gateway_ok (learn_traffic g obs)" for g
    by (auto simp: learn_traffic_def set_mac_ok split: option.split ip_addr.split)
  have p: "gateway_ok g \<Longrightarrow> gateway_ok (learn_proxy g obs)" for g
    by (auto simp: learn_proxy_def note_proxy_arp_ok split: option.split)
  show "gateway_ok g \<Longrightarrow> gateway_ok (gateway_observe g obs)"
    by (simp add: gateway_observe_def d a t p)
qed

subsection \<open>What traffic can change\<close>

lemma set_ip_configured:
  "gw_ip_source g = Configured \<Longrightarrow> source \<noteq> Configured \<Longrightarrow> set_ip g ip source = g"
  by (cases source) (simp_all add: set_ip_def)

lemma record_asker_frame:
  assumes "gw_ip_source g = Configured"
  shows "record_asker g target asker = g"
  using assms by (simp add: record_asker_def)

lemma set_mac_known:
  assumes "gw_mac g = Some m" and "rank source \<le> rank (gw_mac_source g)"
  shows "set_mac g mac source = g"
  using assms by (auto simp: set_mac_def)

lemma set_mac_frame [simp]:
  "gw_ip (set_mac g mac source) = gw_ip g" "gw_ip_source (set_mac g mac source) = gw_ip_source g"
  "gw_proxied (set_mac g mac source) = gw_proxied g" "gw_proxy_arp (set_mac g mac source) = gw_proxy_arp g"
  by (auto simp: set_mac_def split: option.split)

lemma learn_proxy_frame [simp]:
  "gw_ip (learn_proxy g obs) = gw_ip g" "gw_ip_source (learn_proxy g obs) = gw_ip_source g"
  "gw_mac (learn_proxy g obs) = gw_mac g" "gw_mac_source (learn_proxy g obs) = gw_mac_source g"
  "gw_proxy_arp (learn_proxy g obs) = gw_proxy_arp g"
  by (auto simp: learn_proxy_def note_proxy_arp_def split: option.split)

lemma learn_dhcp_configured: "gw_ip_source g = Configured \<Longrightarrow> learn_dhcp g obs = g"
  by (simp add: learn_dhcp_def set_ip_configured split: option.split)

text \<open>An operator's address, with a hardware address held at the same rank.\<close>

definition settled :: "gateway_tracker \<Rightarrow> ipv4_addr \<Rightarrow> mac_addr \<Rightarrow> bool" where
  "settled g ip mac \<longleftrightarrow> gw_ip g = Some ip \<and> gw_ip_source g = Configured
     \<and> gw_mac g = Some mac \<and> gw_mac_source g = Configured"

lemma settled_observe: "settled g ip mac \<Longrightarrow> settled (gateway_observe g obs) ip mac"
proof -
  assume g: "settled g ip mac"
  then have c: "gw_ip_source g = Configured" by (simp add: settled_def)
  have k: "set_mac g x Configured = g" for x
    using g by (intro set_mac_known) (simp_all add: settled_def)
  have "learn_arp g obs = g"
    using c k by (auto simp: learn_arp_def record_asker_frame split: option.split arp_op.split)
  moreover have "learn_traffic g obs = g"
    using c k by (auto simp: learn_traffic_def split: option.split ip_addr.split)
  ultimately have "gateway_observe g obs = learn_proxy g obs"
    using c by (simp add: gateway_observe_def learn_dhcp_configured)
  then show ?thesis using g by (simp add: settled_def)
qed

text \<open>
  With the address configured, the first hardware address learned for it (or the configured
  one) is never given up: no sequence of frames, forged ones included, changes what the tracker
  believes the gateway is.
\<close>

theorem configured_gateway_stable:
  assumes "settled g ip mac"
  shows "settled (foldl gateway_observe g frames) ip mac"
  using assms by (induction frames arbitrary: g) (simp_all add: settled_observe)

theorem configured_gateway_stable_witness:
  "settled (foldl gateway_observe
     (gateway_new (Some (Ipv4Addr 10 0 0 1)) (Some (MacAddr 2 0 0 0 0 1)))
       [new_observation (MacAddr 2 0 0 0 0 9) (Some (V4 (Ipv4Addr 10 0 0 1))) ''eth0'' ''arp'' ObsReply 0])
     (Ipv4Addr 10 0 0 1) (MacAddr 2 0 0 0 0 1)"
  by (rule configured_gateway_stable) (simp add: settled_def gateway_new_def)

lemma set_ip_step:
  "gw_ip (set_ip g ip source) = gw_ip g \<Longrightarrow> gw_mac (set_ip g ip source) = gw_mac g
     \<and> gw_mac_source (set_ip g ip source) = gw_mac_source g"
  by (auto simp: set_ip_def Let_def split: if_splits)

lemma set_ip_rank: "rank (gw_ip_source g) \<le> rank (gw_ip_source (set_ip g ip source))"
  by (auto simp: set_ip_def Let_def)

lemma set_mac_step:
  "gw_mac g = Some m \<Longrightarrow> gw_mac (set_mac g x source) = Some m \<and> rank (gw_mac_source g) \<le> rank (gw_mac_source (set_mac g x source))
     \<or> rank (gw_mac_source g) < rank (gw_mac_source (set_mac g x source))"
  by (auto simp: set_mac_def)

lemma record_asker_step:
  "gw_ip (record_asker g t k) = gw_ip g \<Longrightarrow>
     gw_mac (record_asker g t k) = gw_mac g \<and> gw_mac_source (record_asker g t k) = gw_mac_source g"
  using set_ip_step [of "g\<lparr>gw_askers := l\<rparr>" for l]
  by (auto simp: record_asker_def Let_def split: if_splits)

text \<open>A frame carries ARP detail or DHCP detail, so at most one of the first two branches acts.\<close>

lemma learned_mac:
  fixes g obs
  defines "h \<equiv> learn_arp (learn_dhcp g obs) obs"
  assumes "gw_mac g = Some m" and "gw_ip h = gw_ip g"
  shows "gw_mac h = Some m \<and> gw_mac_source h = gw_mac_source g
    \<or> rank (gw_mac_source g) < rank (gw_mac_source h)
    \<or> gw_mac h = Some m \<and> rank (gw_mac_source g) \<le> rank (gw_mac_source h)"
proof (cases "obs_detail obs")
  case None
  then show ?thesis using assms by (simp add: learn_arp_def learn_dhcp_def obs_arp_def obs_dhcp_def)
next
  case (Some d)
  show ?thesis
  proof (cases d)
    case (Arp a)
    then have "h = learn_arp g obs" "obs_arp obs = Some a"
      using Some by (simp_all add: h_def learn_dhcp_def obs_dhcp_def obs_arp_def)
    then show ?thesis
      using assms(2,3) set_mac_step [OF assms(2)] record_asker_step [of g]
      by (auto simp: learn_arp_def split: if_splits arp_op.splits)
  next
    case (Dhcp e)
    then have "h = learn_dhcp g obs" using Some by (simp add: h_def learn_arp_def obs_arp_def)
    then show ?thesis
      using assms(2,3) set_ip_step [of g] by (auto simp: learn_dhcp_def split: option.splits)
  qed
qed

lemma traffic_mac:
  "gw_mac h = Some m \<Longrightarrow> gw_mac (learn_traffic h obs) = Some m
     \<or> rank (gw_mac_source h) < rank (gw_mac_source (learn_traffic h obs))"
  "rank (gw_mac_source h) \<le> rank (gw_mac_source (learn_traffic h obs))"
  by (auto simp: learn_traffic_def set_mac_def split: option.split ip_addr.split)

lemma learn_traffic_ip [simp]: "gw_ip (learn_traffic h obs) = gw_ip h"
  by (simp add: learn_traffic_def split: option.split ip_addr.split)

text \<open>
  One frame replaces a known hardware address only when it also moves the belief to another
  gateway address, or when the evidence behind the new one ranks strictly higher.
\<close>

theorem gateway_mac_replacement:
  assumes "gw_mac g = Some m" and "gw_mac (gateway_observe g obs) \<noteq> Some m"
  shows "gw_ip (gateway_observe g obs) \<noteq> gw_ip g
    \<or> rank (gw_mac_source g) < rank (gw_mac_source (gateway_observe g obs))"
proof (rule ccontr)
  assume n: "\<not> ?thesis"
  let ?h = "learn_arp (learn_dhcp g obs) obs"
  have "gw_ip ?h = gw_ip g" using n by (simp add: gateway_observe_def)
  note h = learned_mac [OF assms(1) this]
  show False
    using h traffic_mac(1) [of ?h m obs] traffic_mac(2) [of ?h obs] n assms(2) by (auto simp: gateway_observe_def)
qed

text \<open>The frames of the next two statements: a DHCP offer naming a router, and an ARP answer.\<close>

definition offers_router :: "observation \<Rightarrow> ipv4_addr \<Rightarrow> bool" where
  "offers_router obs ip \<longleftrightarrow> obs_ip obs = None \<and>
     (\<exists>d. obs_detail obs = Some (Dhcp d) \<and> dhcp_router d = Some ip)"

definition answers_for :: "observation \<Rightarrow> ipv4_addr \<Rightarrow> bool" where
  "answers_for obs ip \<longleftrightarrow> obs_ip obs = Some (V4 ip) \<and>
     (\<exists>a. obs_detail obs = Some (Arp a) \<and> arp_op a = ArpReply \<and> arp_sender_ip a = Some ip)"

lemma observe_offer:
  "offers_router obs ip \<Longrightarrow> gateway_observe g obs = set_ip g ip FromDhcp"
  by (auto simp: offers_router_def gateway_observe_def learn_dhcp_def learn_arp_def learn_traffic_def
      learn_proxy_def proxy_arp_for_def obs_dhcp_def obs_arp_def)

lemma observe_answer:
  assumes "answers_for obs ip" and "gw_ip g = Some ip" and "gw_mac g = None" and "gateway_ok g"
  shows "gw_mac (gateway_observe g obs) = Some (obs_mac obs)"
proof -
  have "gw_ip_source g \<noteq> Unknown" "gw_mac_source g = Unknown" using assms by (auto simp: gateway_ok_def)
  then have "gw_mac (set_mac g (obs_mac obs) (gw_ip_source g)) = Some (obs_mac obs)"
    using assms(3) by (simp add: set_mac_def)
  then have "gw_mac (learn_arp (learn_dhcp g obs) obs) = Some (obs_mac obs)"
    and "gw_ip (learn_arp (learn_dhcp g obs) obs) = Some ip"
    using assms(1,2) by (auto simp: answers_for_def learn_arp_def learn_dhcp_def obs_arp_def obs_dhcp_def)
  then show ?thesis
    using assms(1) by (auto simp: gateway_observe_def learn_traffic_def answers_for_def set_mac_def)
qed

text \<open>
  The address learned from DHCP does not protect the hardware address in the same way: two
  offers of equal rank, to another router and back, forget it, and the next machine that answers for
  the gateway address is the gateway.
\<close>

theorem dhcp_gateway_can_be_displaced:
  assumes "gateway_ok g" and "gw_ip g = Some ip" and "gw_ip_source g = FromDhcp"
    and "gw_mac_source g \<noteq> Configured" and "offers_router o1 other" and "other \<noteq> ip"
    and "offers_router o2 ip" and "answers_for o3 ip"
  shows "gw_mac (foldl gateway_observe g [o1, o2, o3]) = Some (obs_mac o3)"
proof -
  let ?g = "set_ip (set_ip g other FromDhcp) ip FromDhcp"
  have "gateway_ok ?g" using assms(1) by (simp add: set_ip_ok)
  moreover have "gw_ip ?g = Some ip" "gw_mac ?g = None"
    using assms(2-4,6) by (simp_all add: set_ip_def Let_def)
  ultimately show ?thesis
    using assms(5,7,8) by (simp add: observe_offer observe_answer)
qed

definition offer_frame :: "mac_addr \<Rightarrow> ipv4_addr \<Rightarrow> observation" where
  "offer_frame mac r = with_detail (new_observation mac None ''eth0'' ''dhcp'' ObsReply 0)
     (Dhcp \<lparr>dhcp_message_type = DhcpOffer, dhcp_client_mac = None, dhcp_assigned_ip = None,
            dhcp_router = Some r\<rparr>)"

definition answer_frame :: "mac_addr \<Rightarrow> ipv4_addr \<Rightarrow> time \<Rightarrow> observation" where
  "answer_frame mac ip ts = with_detail (new_observation mac (Some (V4 ip)) ''eth0'' ''arp'' ObsReply ts)
     (Arp \<lparr>arp_op = ArpReply, arp_sender_mac = mac, arp_sender_ip = Some ip,
           arp_target_ip = UNSPECIFIED4, arp_gratuitous = False\<rparr>)"

lemma sample_frames:
  "offers_router (offer_frame mac ip) ip" "answers_for (answer_frame mac ip ts) ip"
  "obs_mac (answer_frame mac ip ts) = mac"
  by (simp_all add: offers_router_def answers_for_def offer_frame_def answer_frame_def observation_defs)

theorem dhcp_gateway_can_be_displaced_witness:
  "gw_mac (foldl gateway_observe
       (set_mac (set_ip (gateway_new None None) (Ipv4Addr 10 0 0 1) FromDhcp) (MacAddr 2 0 0 0 0 1) FromDhcp)
       [offer_frame (MacAddr 2 0 0 0 0 9) (Ipv4Addr 10 0 0 2),
        offer_frame (MacAddr 2 0 0 0 0 9) (Ipv4Addr 10 0 0 1),
        answer_frame (MacAddr 2 0 0 0 0 9) (Ipv4Addr 10 0 0 1) 0])
   = Some (obs_mac (answer_frame (MacAddr 2 0 0 0 0 9) (Ipv4Addr 10 0 0 1) 0))"
proof (rule dhcp_gateway_can_be_displaced [where other = "Ipv4Addr 10 0 0 2" and ip = "Ipv4Addr 10 0 0 1"])
  let ?g = "set_mac (set_ip (gateway_new None None) (Ipv4Addr 10 0 0 1) FromDhcp) (MacAddr 2 0 0 0 0 1) FromDhcp"
  show "gateway_ok ?g"
    using gateway_new_ok [of None None True]
    by (intro set_mac_ok set_ip_ok) (simp_all add: with_proxy_arp_def gateway_new_def)
  show "gw_ip ?g = Some (Ipv4Addr 10 0 0 1)" "gw_ip_source ?g = FromDhcp" "gw_mac_source ?g \<noteq> Configured"
    by (simp_all add: set_mac_def set_ip_def gateway_new_def Let_def)
qed (simp_all add: sample_frames)

text \<open>
  The replacement rule applies to an ordinary frame: the answer of a second machine for an address
  whose hardware address came from the same evidence.
\<close>

theorem gateway_mac_replacement_witness:
  "rank Inferred < rank (gw_mac_source (gateway_observe
       (gateway_new None (Some (MacAddr 2 0 0 0 0 1))\<lparr>gw_mac_source := Inferred,
       gw_ip := Some (Ipv4Addr 10 0 0 1), gw_ip_source := FromDhcp\<rparr>)
       (answer_frame (MacAddr 2 0 0 0 0 9) (Ipv4Addr 10 0 0 1) 0)))"
proof -
  let ?g = "gateway_new None (Some (MacAddr 2 0 0 0 0 1))\<lparr>gw_mac_source := Inferred,
       gw_ip := Some (Ipv4Addr 10 0 0 1), gw_ip_source := FromDhcp\<rparr>"
  have "gw_mac (gateway_observe ?g (answer_frame (MacAddr 2 0 0 0 0 9) (Ipv4Addr 10 0 0 1) 0)) \<noteq> Some (MacAddr 2 0 0 0 0 1)"
    "gw_ip (gateway_observe ?g (answer_frame (MacAddr 2 0 0 0 0 9) (Ipv4Addr 10 0 0 1) 0)) = Some (Ipv4Addr 10 0 0 1)"
    by (simp_all add: gateway_observe_def learn_dhcp_def learn_arp_def learn_traffic_def answer_frame_def
        observation_defs set_mac_def gateway_new_def)
  then show ?thesis
    using gateway_mac_replacement [of ?g "MacAddr 2 0 0 0 0 1"] by (simp add: gateway_new_def)
qed

end
