(* ===== verification/Window.thy ===== *)
theory Window
  imports Types
begin

text \<open>
  \<^verbatim>\<open>src/analyze/window.rs\<close>: the bounded map, the window of distinct values and the rate window the
  analyzers keep their state in. A reference into the map that the source then writes through is an
  update function: it gets the value of the slot and gives its new value and a result.
\<close>

subsection \<open>The contract of a bounded store\<close>

text \<open>
  What a client of a bounded map may rely on: a value just written is read back; writing a key
  forgets at most other keys, and only when the store is full; the store never grows past its
  capacity.
\<close>

locale bounded_store =
  fixes lookup :: "'s \<Rightarrow> 'k \<Rightarrow> 'v option"
    and put :: "'s \<Rightarrow> 'k \<Rightarrow> 'v \<Rightarrow> time \<Rightarrow> 's"
    and count :: "'s \<Rightarrow> nat"
    and cap :: "'s \<Rightarrow> nat"
    and good :: "'s \<Rightarrow> bool"
  assumes put_good: "good s \<Longrightarrow> good (put s k v t)"
    and put_cap: "cap (put s k v t) = cap s"
    and lookup_put_same: "good s \<Longrightarrow> lookup (put s k v t) k = Some v"
    and lookup_put_other: "good s \<Longrightarrow> j \<noteq> k \<Longrightarrow>
      lookup (put s k v t) j = lookup s j \<or> (lookup (put s k v t) j = None \<and> cap s \<le> count s)"
    and lookup_put_tracked: "good s \<Longrightarrow> lookup s k \<noteq> None \<Longrightarrow> j \<noteq> k \<Longrightarrow>
      lookup (put s k v t) j = lookup s j"
    and count_le: "good s \<Longrightarrow> count s \<le> cap s"
begin

definition writes :: "'s \<Rightarrow> ('k \<times> 'v \<times> time) list \<Rightarrow> 's" where
  "writes s ws = foldl (\<lambda>s (k, v, t). put s k v t) s ws"

lemma writes_good: "good s \<Longrightarrow> good (writes s ws)"
  by (induction ws arbitrary: s) (auto simp: writes_def put_good)

lemma writes_cap: "cap (writes s ws) = cap s"
  by (induction ws arbitrary: s) (auto simp: writes_def put_cap)

lemma writes_bounded: "good s \<Longrightarrow> count (writes s ws) \<le> cap s"
  using count_le [OF writes_good, of s ws] by (simp add: writes_cap)

text \<open>A key keeps the value it was last given, or has been forgotten since.\<close>

lemma writes_other:
  "good s \<Longrightarrow> k \<notin> fst ` set ws \<Longrightarrow> lookup (writes s ws) k \<in> {lookup s k, None}"
proof (induction ws arbitrary: s)
  case Nil
  then show ?case by (simp add: writes_def)
next
  case (Cons w ws)
  obtain j v t where w: "w = (j, v, t)" by (cases w)
  have "lookup (put s j v t) k \<in> {lookup s k, None}"
    using lookup_put_other [OF Cons.prems(1), of k j v t] Cons.prems(2) w by auto
  moreover have "lookup (writes (put s j v t) ws) k \<in> {lookup (put s j v t) k, None}"
    using Cons.prems w by (intro Cons.IH) (auto simp: put_good)
  ultimately show ?case by (auto simp: writes_def w)
qed

end

subsection \<open>The bounded map\<close>

record ('k, 'v) bounded_map =
  bm_entries :: "('k \<times> 'v \<times> time) list"
  bm_capacity :: nat
  bm_evictions :: nat

definition bm_new :: "nat \<Rightarrow> ('k, 'v) bounded_map" where
  "bm_new capacity = \<lparr>bm_entries = [], bm_capacity = max capacity 1, bm_evictions = 0\<rparr>"

definition bm_get :: "('k, 'v) bounded_map \<Rightarrow> 'k \<Rightarrow> 'v option" where
  "bm_get m k = map_option fst (map_of (bm_entries m) k)"

definition bm_len :: "('k, 'v) bounded_map \<Rightarrow> nat" where
  "bm_len m = length (bm_entries m)"

text \<open>The key of the first entry with the least time stamp.\<close>

fun oldest :: "('k \<times> 'v \<times> time) list \<Rightarrow> ('k \<times> time) option" where
  "oldest [] = None" |
  "oldest ((k, v, seen) # es) =
     (case oldest es of
        None \<Rightarrow> Some (k, seen)
      | Some (k', seen') \<Rightarrow> if seen \<le> seen' then Some (k, seen) else Some (k', seen'))"

definition bm_evict_oldest :: "('k, 'v) bounded_map \<Rightarrow> ('k, 'v) bounded_map" where
  "bm_evict_oldest m =
     (case oldest (bm_entries m) of
        None \<Rightarrow> m
      | Some (k, _) \<Rightarrow> m\<lparr>bm_entries := AList.delete k (bm_entries m),
                        bm_evictions := bm_evictions m + 1\<rparr>)"

definition bm_make_room :: "('k, 'v) bounded_map \<Rightarrow> 'k \<Rightarrow> ('k, 'v) bounded_map" where
  "bm_make_room m k =
     (if map_of (bm_entries m) k = None \<and> length (bm_entries m) \<ge> bm_capacity m
      then bm_evict_oldest m else m)"

definition bm_insert :: "('k, 'v) bounded_map \<Rightarrow> 'k \<Rightarrow> 'v \<Rightarrow> time \<Rightarrow> ('k, 'v) bounded_map" where
  "bm_insert m k v now =
     (let m1 = bm_make_room m k in m1\<lparr>bm_entries := AList.update k (v, now) (bm_entries m1)\<rparr>)"

text \<open>\<^verbatim>\<open>entry_or_insert_with\<close> followed by what the caller does with the slot.\<close>

definition bm_entry ::
  "('k, 'v) bounded_map \<Rightarrow> 'k \<Rightarrow> time \<Rightarrow> 'v \<Rightarrow> ('v \<Rightarrow> 'v \<times> 'r) \<Rightarrow> ('k, 'v) bounded_map \<times> 'r"
where
  "bm_entry m k now d f =
     (let m1 = bm_make_room m k;
          v = (case map_of (bm_entries m1) k of Some (v, _) \<Rightarrow> v | None \<Rightarrow> d);
          vr = f v in
      (m1\<lparr>bm_entries := AList.update k (fst vr, now) (bm_entries m1)\<rparr>, snd vr))"

definition bm_get_mut ::
  "('k, 'v) bounded_map \<Rightarrow> 'k \<Rightarrow> time \<Rightarrow> ('v \<Rightarrow> 'v) \<Rightarrow> ('k, 'v) bounded_map"
where
  "bm_get_mut m k now f =
     (case map_of (bm_entries m) k of
        None \<Rightarrow> m
      | Some (v, _) \<Rightarrow> m\<lparr>bm_entries := AList.update k (f v, now) (bm_entries m)\<rparr>)"

definition bm_prune :: "('k, 'v) bounded_map \<Rightarrow> time \<Rightarrow> duration \<Rightarrow> ('k, 'v) bounded_map" where
  "bm_prune m now max_age =
     (case from_std max_age of
        None \<Rightarrow> m
      | Some age \<Rightarrow> m\<lparr>bm_entries := filter (\<lambda>(k, v, seen). now - seen \<le> age) (bm_entries m)\<rparr>)"

definition bm_ok :: "('k, 'v) bounded_map \<Rightarrow> bool" where
  "bm_ok m \<longleftrightarrow> distinct (map fst (bm_entries m)) \<and> length (bm_entries m) \<le> bm_capacity m
     \<and> 1 \<le> bm_capacity m"

lemma bm_entry_insert:
  "bm_entry m k now d f =
     (let v = (case bm_get m k of Some v \<Rightarrow> v | None \<Rightarrow> d) in (bm_insert m k (fst (f v)) now, snd (f v)))"
proof -
  have "map_of (bm_entries (bm_make_room m k)) k = map_of (bm_entries m) k"
  proof (cases "map_of (bm_entries m) k")
    case None
    then show ?thesis
      by (auto simp: bm_make_room_def bm_evict_oldest_def delete_conv' split: option.split)
  qed (simp add: bm_make_room_def)
  then show ?thesis
    by (auto simp: bm_entry_def bm_insert_def bm_get_def Let_def split: option.split)
qed

lemma oldest_in: "oldest es = Some (k, t) \<Longrightarrow> \<exists>v. (k, v, t) \<in> set es"
  by (induction es arbitrary: k t rule: oldest.induct) (auto split: option.splits if_splits)

lemma oldest_None_iff: "oldest es = None \<longleftrightarrow> es = []"
  by (cases es rule: oldest.cases) (auto split: option.splits)

lemma oldest_least:
  assumes "oldest es = Some (k, t)" and "(k', v', t') \<in> set es"
  shows "t \<le> t'"
  using assms
proof (induction es arbitrary: k t)
  case (Cons e es)
  obtain ke ve te where e: "e = (ke, ve, te)" by (cases e)
  show ?case
  proof (cases "oldest es")
    case None
    then show ?thesis using Cons.prems e by (simp add: oldest_None_iff)
  next
    case (Some o1)
    obtain k1 t1 where o1: "o1 = (k1, t1)" by (cases o1)
    have "(k', v', t') \<in> set es \<Longrightarrow> t1 \<le> t'" using Cons.IH Some o1 by simp
    then show ?thesis using Cons.prems e Some o1 by (auto split: if_splits)
  qed
qed simp

lemma length_alist_update:
  "length (AList.update k v es) = (if map_of es k = None then Suc (length es) else length es)"
  by (induction es) auto

lemma length_delete_less:
  "distinct (map fst es) \<Longrightarrow> k \<in> fst ` set es \<Longrightarrow> Suc (length (AList.delete k es)) = length es"
proof (induction es)
  case (Cons e es)
  show ?case
  proof (cases "fst e = k")
    case True
    then have "AList.delete k es = es" using Cons.prems by (intro delete_id) simp
    then show ?thesis using True by (cases e) simp
  next
    case False
    then show ?thesis using Cons by (cases e) auto
  qed
qed simp

lemma bm_evict_ok:
  assumes "bm_ok m" and "bm_entries m \<noteq> []"
  shows "bm_ok (bm_evict_oldest m)" "Suc (length (bm_entries (bm_evict_oldest m))) = length (bm_entries m)"
proof -
  obtain k t where o: "oldest (bm_entries m) = Some (k, t)"
    using assms(2) oldest_None_iff [of "bm_entries m"] by (cases "oldest (bm_entries m)") auto
  obtain v where "(k, v, t) \<in> set (bm_entries m)" using oldest_in [OF o] by blast
  then have "k \<in> fst ` set (bm_entries m)" by (rule rev_image_eqI) simp
  then have l: "Suc (length (AList.delete k (bm_entries m))) = length (bm_entries m)"
    using assms(1) by (intro length_delete_less) (simp_all add: bm_ok_def)
  then show "Suc (length (bm_entries (bm_evict_oldest m))) = length (bm_entries m)"
    by (simp add: bm_evict_oldest_def o)
  show "bm_ok (bm_evict_oldest m)"
    using assms(1) l by (simp add: bm_evict_oldest_def o bm_ok_def distinct_delete)
qed

lemma bm_make_room_ok:
  assumes "bm_ok m"
  shows "bm_ok (bm_make_room m k)"
    and "bm_capacity (bm_make_room m k) = bm_capacity m"
    and "map_of (bm_entries m) k = None \<Longrightarrow> length (bm_entries (bm_make_room m k)) < bm_capacity m"
proof -
  have ne: "bm_entries m \<noteq> []" if "bm_capacity m \<le> length (bm_entries m)"
    using that assms by (auto simp: bm_ok_def)
  show "bm_ok (bm_make_room m k)"
    using bm_evict_ok(1) [OF assms] ne assms by (simp add: bm_make_room_def)
  show "bm_capacity (bm_make_room m k) = bm_capacity m"
    by (simp add: bm_make_room_def bm_evict_oldest_def split: option.split)
  show "length (bm_entries (bm_make_room m k)) < bm_capacity m" if "map_of (bm_entries m) k = None"
    using that bm_evict_ok(2) [OF assms ne] assms by (auto simp: bm_make_room_def bm_ok_def)
qed

lemma bm_insert_ok: "bm_ok m \<Longrightarrow> bm_ok (bm_insert m k v t)"
proof -
  assume m: "bm_ok m"
  note r = bm_make_room_ok [OF m, of k]
  have "length (AList.update k (v, t) (bm_entries (bm_make_room m k))) \<le> bm_capacity m"
  proof (cases "map_of (bm_entries m) k")
    case None
    then show ?thesis using r(3) using None by (auto simp: length_alist_update bm_make_room_def bm_evict_oldest_def delete_conv' split: option.split if_splits)
  next
    case (Some x)
    then have "bm_make_room m k = m" by (simp add: bm_make_room_def)
    then show ?thesis using Some m by (simp add: length_alist_update bm_ok_def)
  qed
  then show ?thesis
    using r(1,2) by (simp add: bm_insert_def bm_ok_def Let_def distinct_update)
qed

lemma bm_get_insert:
  assumes "bm_ok m"
  shows "bm_get (bm_insert m k v t) k = Some v"
    and "j \<noteq> k \<Longrightarrow> bm_get (bm_insert m k v t) j = bm_get m j
          \<or> (bm_get (bm_insert m k v t) j = None \<and> bm_capacity m \<le> bm_len m)"
    and "bm_get m k \<noteq> None \<Longrightarrow> j \<noteq> k \<Longrightarrow> bm_get (bm_insert m k v t) j = bm_get m j"
  by (auto simp: bm_get_def bm_insert_def bm_make_room_def bm_evict_oldest_def bm_len_def Let_def
      update_conv' delete_conv' split: option.split)

interpretation bm: bounded_store bm_get bm_insert bm_len bm_capacity bm_ok
proof
  fix m :: "('k, 'v) bounded_map" and j k v t
  assume m: "bm_ok m"
  show "bm_ok (bm_insert m k v t)" using m by (rule bm_insert_ok)
  show "bm_get (bm_insert m k v t) k = Some v" using m by (rule bm_get_insert(1))
  show "bm_get (bm_insert m k v t) j = bm_get m j
      \<or> bm_get (bm_insert m k v t) j = None \<and> bm_capacity m \<le> bm_len m" if "j \<noteq> k"
    using bm_get_insert(2) [OF m that] .
  show "bm_get (bm_insert m k v t) j = bm_get m j" if "bm_get m k \<noteq> None" "j \<noteq> k"
    using bm_get_insert(3) [OF m that] .
  show "bm_len m \<le> bm_capacity m" using m by (simp add: bm_ok_def bm_len_def)
next
  fix m :: "('k, 'v) bounded_map" and k v t
  show "bm_capacity (bm_insert m k v t) = bm_capacity m"
    by (auto simp: bm_insert_def bm_make_room_def bm_evict_oldest_def Let_def split: option.split)
qed

lemma bm_new_ok [simp]: "bm_ok (bm_new c)"
  by (simp add: bm_ok_def bm_new_def)

lemma bm_new_empty [simp]: "bm_get (bm_new c) k = None"
  by (simp add: bm_get_def bm_new_def)

text \<open>The keys a map holds, and how one write changes them.\<close>

definition bm_keys :: "('k, 'v) bounded_map \<Rightarrow> 'k set" where
  "bm_keys m = fst ` set (bm_entries m)"

lemma bm_keys_finite [simp]: "finite (bm_keys m)"
  by (simp add: bm_keys_def)

lemma bm_keys_iff: "k \<in> bm_keys m \<longleftrightarrow> bm_get m k \<noteq> None"
  by (auto simp: bm_keys_def bm_get_def map_of_eq_None_iff)

lemma card_bm_keys: "bm_ok m \<Longrightarrow> card (bm_keys m) = bm_len m"
  unfolding bm_keys_def bm_len_def bm_ok_def
  by (metis distinct_card length_map list.set_map)

lemma bm_keys_insert: "bm_keys (bm_insert m k v t) \<subseteq> bm_keys m \<union> {k}"
proof
  fix j
  assume "j \<in> bm_keys (bm_insert m k v t)"
  then show "j \<in> bm_keys m \<union> {k}"
    by (auto simp: bm_keys_iff bm_get_def bm_insert_def bm_make_room_def bm_evict_oldest_def Let_def
        update_conv' delete_conv' split: option.splits if_splits)
qed

lemma bm_insert_capacity [simp]: "bm_capacity (bm_insert m k v t) = bm_capacity m"
  by (auto simp: bm_insert_def bm_make_room_def bm_evict_oldest_def Let_def split: option.split)

lemma bm_insert_other:
  assumes "bm_ok m" and "j \<noteq> k"
  shows "bm_get (bm_insert m k v t) j = bm_get m j
    \<or> k \<notin> bm_keys m \<and> bm_capacity m \<le> card (bm_keys m)"
  using bm_get_insert(2) [OF assms(1) assms(2), of v t] bm_get_insert(3) [OF assms(1) _ assms(2), of v t]
    card_bm_keys [OF assms(1)]
  by (cases "bm_get m k") (auto simp: bm_keys_iff)

text \<open>Every value held after a write was held before or is the one written.\<close>

lemma bm_get_insert_cases:
  "bm_get (bm_insert m k v t) j = Some w \<Longrightarrow> j = k \<and> w = v \<or> bm_get m j = Some w"
  by (auto simp: bm_get_def bm_insert_def bm_make_room_def bm_evict_oldest_def Let_def
      update_conv' delete_conv' split: option.splits if_splits)

text \<open>
  Whatever is written to a fresh bounded map, it never holds more keys than its capacity (one at
  least), and the key written last reads back the value it was given.
\<close>

theorem bounded_map_bounded:
  "bm_len (bm.writes (bm_new c) ws) \<le> max c 1
   \<and> bm_get (bm.writes (bm_new c) (ws @ [(k, v, t)])) k = Some v"
proof
  show "bm_len (bm.writes (bm_new c) ws) \<le> max c 1"
    using bm.writes_bounded [OF bm_new_ok, of c ws] by (simp add: bm_new_def)
  show "bm_get (bm.writes (bm_new c) (ws @ [(k, v, t)])) k = Some v"
    using bm_get_insert(1) [OF bm.writes_good [OF bm_new_ok]] by (simp add: bm.writes_def)
qed

subsection \<open>Distinct values in a window\<close>

record 'a distinct_window =
  dw_seen :: "('a \<times> time) list"
  dw_capacity :: nat

definition dw_new :: "nat \<Rightarrow> 'a distinct_window" where
  "dw_new capacity = \<lparr>dw_seen = [], dw_capacity = max capacity 1\<rparr>"

text \<open>An entry seen again is refreshed where it stands; a new one goes last, in a full window for the first.\<close>

definition dw_place :: "nat \<Rightarrow> ('a \<times> time) list \<Rightarrow> 'a \<Rightarrow> time \<Rightarrow> ('a \<times> time) list" where
  "dw_place cap seen x now =
     (if map_of seen x \<noteq> None then AList.update x now seen
      else (if length seen \<ge> cap then tl seen else seen) @ [(x, now)])"

definition dw_record ::
  "'a distinct_window \<Rightarrow> 'a \<Rightarrow> time \<Rightarrow> duration \<Rightarrow> 'a distinct_window \<times> nat"
where
  "dw_record w x now window =
     (case from_std window of
        None \<Rightarrow> (w, length (dw_seen w))
      | Some win \<Rightarrow>
          let seen = dw_place (dw_capacity w) (filter (\<lambda>(y, t). now - t \<le> win) (dw_seen w)) x now in
          (w\<lparr>dw_seen := seen\<rparr>, length seen))"

definition dw_clear :: "'a distinct_window \<Rightarrow> 'a distinct_window" where
  "dw_clear w = w\<lparr>dw_seen := []\<rparr>"

definition dw_ok :: "'a distinct_window \<Rightarrow> bool" where
  "dw_ok w \<longleftrightarrow> distinct (map fst (dw_seen w)) \<and> length (dw_seen w) \<le> dw_capacity w \<and> 1 \<le> dw_capacity w"

lemma distinct_filter_keys: "distinct (map fst es) \<Longrightarrow> distinct (map fst (filter P es))"
  by (induction es) auto

lemma dw_new_ok [simp]: "dw_ok (dw_new c)"
  by (simp add: dw_ok_def dw_new_def)

lemma dw_clear_ok [simp]: "dw_ok w \<Longrightarrow> dw_ok (dw_clear w)"
  by (simp add: dw_ok_def dw_clear_def)

lemma dw_place_ok:
  assumes "distinct (map fst es)" and "length es \<le> cap" and "1 \<le> cap"
  shows "distinct (map fst (dw_place cap es x now)) \<and> length (dw_place cap es x now) \<le> cap"
proof (cases "map_of es x")
  case None
  then have x: "x \<notin> fst ` set es" by (simp add: map_of_eq_None_iff)
  then have "x \<notin> fst ` set (tl es)" by (cases es) auto
  moreover have "distinct (map fst (tl es))" using assms(1) by (cases es) auto
  ultimately show ?thesis using None x assms by (auto simp: dw_place_def)
next
  case (Some t)
  then show ?thesis
    using assms by (simp add: dw_place_def length_alist_update distinct_update)
qed

lemma dw_record_ok:
  assumes "dw_ok w"
  shows "dw_ok (fst (dw_record w x now window))"
    and "snd (dw_record w x now window) = length (dw_seen (fst (dw_record w x now window)))"
    and "dw_capacity (fst (dw_record w x now window)) = dw_capacity w"
proof -
  let ?P = "\<lambda>win (y, t). now - t \<le> win"
  have "dw_ok (w\<lparr>dw_seen := dw_place (dw_capacity w) (filter (?P win) (dw_seen w)) x now\<rparr>)" for win
  proof -
    have "length (filter (?P win) (dw_seen w)) \<le> dw_capacity w"
      using assms by (auto simp: dw_ok_def intro: le_trans [OF length_filter_le])
    moreover have "distinct (map fst (filter (?P win) (dw_seen w)))"
      using assms by (simp add: dw_ok_def distinct_filter_keys)
    ultimately show ?thesis using assms by (simp add: dw_ok_def dw_place_ok)
  qed
  then show "dw_ok (fst (dw_record w x now window))"
    using assms by (auto simp: dw_record_def Let_def split: option.split)
  show "snd (dw_record w x now window) = length (dw_seen (fst (dw_record w x now window)))"
    and "dw_capacity (fst (dw_record w x now window)) = dw_capacity w"
    by (auto simp: dw_record_def Let_def split: option.split)
qed

text \<open>While the window has room, it holds exactly what was seen inside it, each value once.\<close>

lemma dw_record_contents:
  assumes "dw_ok w" and "from_std window = Some win" and "length (dw_seen w) < dw_capacity w"
  shows "set (dw_seen (fst (dw_record w x now window)))
       = insert (x, now) {(y, t). (y, t) \<in> set (dw_seen w) \<and> now - t \<le> win \<and> y \<noteq> x}"
proof -
  let ?es = "filter (\<lambda>(y, t). now - t \<le> win) (dw_seen w)"
  have d: "distinct (map fst ?es)" using assms(1) by (simp add: dw_ok_def distinct_filter_keys)
  have l: "\<not> dw_capacity w \<le> length ?es"
    using assms(3) length_filter_le [of "\<lambda>(y, t). now - t \<le> win" "dw_seen w"] by linarith
  show ?thesis
  proof (cases "map_of ?es x")
    case None
    then have "(x, t) \<notin> set ?es" for t by (metis map_of_eq_None_iff fst_conv image_eqI)
    then show ?thesis using None assms(2) l by (auto simp: dw_record_def dw_place_def Let_def)
  next
    case (Some t0)
    have "set (AList.update x now ?es) = insert (x, now) {(y, t). (y, t) \<in> set ?es \<and> y \<noteq> x}"
      using d by (auto simp: map_of_eq_Some_iff [symmetric] distinct_update update_conv'
          split: if_splits)
    then show ?thesis using Some assms(2) by (auto simp: dw_record_def dw_place_def Let_def)
  qed
qed

lemma dw_record_keys:
  "fst ` set (dw_seen (fst (dw_record w x now window))) \<subseteq> insert x (fst ` set (dw_seen w))"
proof -
  have t: "fst ` set (tl es) \<subseteq> fst ` set es" for es :: "('a \<times> time) list"
    by (cases es) auto
  have "fst ` set (dw_place cap (filter P es) x now) \<subseteq> insert x (fst ` set es)" for cap P es
    using t [of "filter P es"] by (auto simp: dw_place_def dom_update)
  then show ?thesis by (auto simp: dw_record_def Let_def split: option.split)
qed

subsection \<open>Events in a window\<close>

record rate_window =
  rw_events :: "time list"
  rw_capacity :: nat

definition rw_new :: "nat \<Rightarrow> rate_window" where
  "rw_new capacity = \<lparr>rw_events = [], rw_capacity = max capacity 1\<rparr>"

definition rw_record :: "rate_window \<Rightarrow> time \<Rightarrow> duration \<Rightarrow> rate_window \<times> nat" where
  "rw_record w now window =
     (case from_std window of
        None \<Rightarrow> (w, length (rw_events w))
      | Some win \<Rightarrow>
          let events = filter (\<lambda>t. now - t \<le> win) (rw_events w);
              events' = (if length events \<ge> rw_capacity w then tl events else events) @ [now] in
          (w\<lparr>rw_events := events'\<rparr>, length events'))"

definition rw_clear :: "rate_window \<Rightarrow> rate_window" where
  "rw_clear w = w\<lparr>rw_events := []\<rparr>"

definition rw_ok :: "rate_window \<Rightarrow> bool" where
  "rw_ok w \<longleftrightarrow> length (rw_events w) \<le> rw_capacity w \<and> 1 \<le> rw_capacity w"

lemma rw_new_ok [simp]: "rw_ok (rw_new c)"
  by (simp add: rw_ok_def rw_new_def)

lemma rw_clear_ok [simp]: "rw_ok w \<Longrightarrow> rw_ok (rw_clear w)"
  by (simp add: rw_ok_def rw_clear_def)

lemma rw_record_ok:
  assumes "rw_ok w"
  shows "rw_ok (fst (rw_record w now window))"
    and "snd (rw_record w now window) = length (rw_events (fst (rw_record w now window)))"
    and "rw_capacity (fst (rw_record w now window)) = rw_capacity w"
proof -
  have "length (filter (\<lambda>t. now - t \<le> win) (rw_events w)) \<le> rw_capacity w" for win
    using assms by (auto simp: rw_ok_def intro: le_trans [OF length_filter_le])
  moreover have "n \<le> c \<Longrightarrow> 1 \<le> c \<Longrightarrow> Suc (n - 1) \<le> c" for n c :: nat by linarith
  ultimately show "rw_ok (fst (rw_record w now window))"
    using assms by (auto simp: rw_record_def rw_ok_def Let_def not_le split: option.split)
  show "snd (rw_record w now window) = length (rw_events (fst (rw_record w now window)))"
    and "rw_capacity (fst (rw_record w now window)) = rw_capacity w"
    by (auto simp: rw_record_def Let_def split: option.split)
qed

end
