(* ===== verification/Fingerprint.thy ===== *)
theory Fingerprint
  imports Types
begin

text \<open>
  \<^verbatim>\<open>src/identity/fingerprint.rs\<close>: the table of DHCP option 55 lists, its parser, the exact lookup
  and the nearest match by longest common subsequence. Confidences and similarities are rationals;
  the lists are capped at 64 entries, so the source's quotients compare in the same way. The text
  of the embedded table is data and not part of the model.
\<close>

definition EXACT_CONFIDENCE :: rat where "EXACT_CONFIDENCE = 95 / 100"
definition NEAREST_CEILING :: rat where "NEAREST_CEILING = 8 / 10"
definition NEAREST_THRESHOLD :: rat where "NEAREST_THRESHOLD = 85 / 100"
definition MAX_LIST_LEN :: nat where "MAX_LIST_LEN = 64"

record fingerprint_class =
  fc_id :: string
  fc_description :: string
  fc_os_family :: "string option"
  fc_device_type :: "string option"
  fc_fingerprints :: "byte list list"

record fingerprint_match =
  fm_class :: fingerprint_class
  fm_confidence :: rat
  fm_exact :: bool

record fingerprint_db =
  db_classes :: "fingerprint_class list"
  db_exact :: "string \<rightharpoonup> nat"

subsection \<open>Lists of option numbers\<close>

definition render :: "byte list \<Rightarrow> string" where
  "render l = join '','' (map (\<lambda>code. show_nat (unat code)) l)"

definition parse_u8 :: "string \<Rightarrow> byte option" where
  "parse_u8 s = do { n \<leftarrow> parse_u64 s; if n < 256 then Some (word_of_nat n) else None }"

fun parse_parts :: "string list \<Rightarrow> byte list option" where
  "parse_parts [] = Some []" |
  "parse_parts (p # ps) =
     (if trim p = [] then parse_parts ps
      else do { b \<leftarrow> parse_u8 (trim p); bs \<leftarrow> parse_parts ps; Some (b # bs) })"

definition parse_list :: "string \<Rightarrow> byte list option" where
  "parse_list text =
     do { out \<leftarrow> parse_parts (split_on (CHR '','') text);
          if out \<noteq> [] \<and> length out \<le> MAX_LIST_LEN then Some out else None }"

definition parse_lists :: "string \<Rightarrow> byte list list" where
  "parse_lists text = List.map_filter parse_list (split_on (CHR ''|'') text)"

definition non_empty :: "string \<Rightarrow> string option" where
  "non_empty v = (if trim v = [] then None else Some (trim v))"

subsection \<open>Similarity\<close>

text \<open>
  One row of the table: \<open>left\<close> is the entry just written, the list the row above from the entry
  above \<open>left\<close> on.
\<close>

fun lcs_row :: "'a \<Rightarrow> 'a list \<Rightarrow> nat list \<Rightarrow> nat \<Rightarrow> nat list" where
  "lcs_row x (y # ys) (diag # up # prev) left =
     (let c = (if x = y then diag + 1 else max left up) in
      c # lcs_row x ys (up # prev) c)" |
  "lcs_row x ys prev left = []"

definition lcs_rows :: "'a list \<Rightarrow> 'a list \<Rightarrow> nat list" where
  "lcs_rows a b = foldl (\<lambda>prev x. 0 # lcs_row x b prev 0) (replicate (length b + 1) 0) a"

definition similarity :: "byte list \<Rightarrow> byte list \<Rightarrow> rat" where
  "similarity a b =
     (if a = [] \<or> b = [] then 0
      else of_nat (lcs_rows a b ! length b) / of_nat (max (length a) (length b)))"

subsection \<open>The table\<close>

type_synonym parse_state = "fingerprint_class list \<times> fingerprint_class option"

definition close_class :: "parse_state \<Rightarrow> fingerprint_class list" where
  "close_class st =
     (case snd st of
        Some c \<Rightarrow> if fc_fingerprints c \<noteq> [] then fst st @ [c] else fst st
      | None \<Rightarrow> fst st)"

definition set_key :: "fingerprint_class \<Rightarrow> string \<Rightarrow> string \<Rightarrow> fingerprint_class" where
  "set_key c key value =
     (if key = ''description'' then c\<lparr>fc_description := value\<rparr>
      else if key = ''os'' then c\<lparr>fc_os_family := non_empty value\<rparr>
      else if key = ''device_type'' then c\<lparr>fc_device_type := non_empty value\<rparr>
      else if key = ''fingerprints'' then c\<lparr>fc_fingerprints := fc_fingerprints c @ parse_lists value\<rparr>
      else c)"

definition parse_line :: "parse_state \<Rightarrow> string \<Rightarrow> parse_state" where
  "parse_line st raw =
     (let line = trim raw in
      if line = [] \<or> starts_with line '';'' \<or> starts_with line ''#'' then st
      else case strip_prefix line ''['' \<bind> (\<lambda>l. strip_suffix l '']'') of
             Some ident \<Rightarrow>
               (close_class st,
                Some \<lparr>fc_id = trim ident, fc_description = [], fc_os_family = None,
                      fc_device_type = None, fc_fingerprints = []\<rparr>)
           | None \<Rightarrow>
               (case split_once (CHR ''='') line of
                  None \<Rightarrow> st
                | Some (key, value) \<Rightarrow>
                    (case snd st of
                       None \<Rightarrow> st
                     | Some c \<Rightarrow>
                         (fst st, Some (set_key c (to_ascii_lowercase (trim key)) (trim value))))))"

definition or_insert :: "('k \<rightharpoonup> 'v) \<Rightarrow> 'k \<Rightarrow> 'v \<Rightarrow> ('k \<rightharpoonup> 'v)" where
  "or_insert m k v = (case m k of Some _ \<Rightarrow> m | None \<Rightarrow> m(k \<mapsto> v))"

definition index_class :: "(string \<rightharpoonup> nat) \<Rightarrow> nat \<times> fingerprint_class \<Rightarrow> (string \<rightharpoonup> nat)" where
  "index_class m ic = foldl (\<lambda>m l. or_insert m (render l) (fst ic)) m (fc_fingerprints (snd ic))"

datatype fingerprint_error = NoUsableClass

definition parse_fingerprints :: "string \<Rightarrow> fingerprint_error + fingerprint_db" where
  "parse_fingerprints text =
     (let classes = close_class (foldl parse_line ([], None) (str_lines text)) in
      if classes = [] then Inl NoUsableClass
      else Inr \<lparr>db_classes = classes,
                db_exact = foldl index_class Map.empty (zip [0..<length classes] classes)\<rparr>)"

subsection \<open>Lookup\<close>

text \<open>The scan for the nearest list: the best index and score so far.\<close>

fun nearest_list :: "byte list \<Rightarrow> nat \<Rightarrow> (nat \<times> rat) option \<Rightarrow> byte list list \<Rightarrow> (nat \<times> rat) option" where
  "nearest_list wanted i best [] = best" |
  "nearest_list wanted i best (l # ls) =
     (let score = similarity wanted l in
      nearest_list wanted i
        (if score \<ge> NEAREST_THRESHOLD \<and> (case best of None \<Rightarrow> True | Some (_, b) \<Rightarrow> score > b)
         then Some (i, score) else best) ls)"

fun nearest_class :: "byte list \<Rightarrow> nat \<Rightarrow> (nat \<times> rat) option \<Rightarrow> fingerprint_class list \<Rightarrow> (nat \<times> rat) option" where
  "nearest_class wanted i best [] = best" |
  "nearest_class wanted i best (c # cs) =
     nearest_class wanted (Suc i) (nearest_list wanted i best (fc_fingerprints c)) cs"

definition lookup_fingerprint :: "fingerprint_db \<Rightarrow> string \<Rightarrow> fingerprint_match option" where
  "lookup_fingerprint db rendered =
     (case db_exact db rendered of
        Some index \<Rightarrow>
          do { c \<leftarrow> byte_at (db_classes db) index;
               Some \<lparr>fm_class = c, fm_confidence = EXACT_CONFIDENCE, fm_exact = True\<rparr> }
      | None \<Rightarrow>
          do { wanted \<leftarrow> parse_list rendered;
               (index, score) \<leftarrow> nearest_class wanted 0 None (db_classes db);
               c \<leftarrow> byte_at (db_classes db) index;
               Some \<lparr>fm_class = c, fm_confidence = score * NEAREST_CEILING, fm_exact = False\<rparr> })"

subsection \<open>The row computation is the longest common subsequence\<close>

fun lcs :: "'a list \<Rightarrow> 'a list \<Rightarrow> nat" where
  "lcs (x # xs) (y # ys) =
     (if x = y then Suc (lcs xs ys) else max (lcs (x # xs) ys) (lcs xs (y # ys)))" |
  "lcs _ _ = 0"

lemma lcs_row_nth:
  assumes "length prev = Suc (length b)" and "j < length b"
    and "\<And>i. i \<le> length b \<Longrightarrow> prev ! i = lcs (rev a) (rev (pre @ take i b))"
    and "left = lcs (x # rev a) (rev pre)"
  shows "lcs_row x b prev left ! j = lcs (x # rev a) (rev (pre @ take (Suc j) b))"
  using assms
proof (induction b arbitrary: prev left pre j)
  case Nil
  then show ?case by simp
next
  case (Cons y b)
  obtain p0 p1 ps where p: "prev = p0 # p1 # ps"
    using Cons.prems(1) by (cases prev; cases "tl prev") auto
  have p0: "p0 = lcs (rev a) (rev pre)" using Cons.prems(3) [of 0] p by simp
  have p1: "p1 = lcs (rev a) (rev (pre @ [y]))" using Cons.prems(3) [of 1] p by simp
  let ?c = "if x = y then p0 + 1 else max left p1"
  have c: "?c = lcs (x # rev a) (rev (pre @ [y]))"
    using p0 p1 Cons.prems(4) by simp
  show ?case
  proof (cases j)
    case 0
    then show ?thesis using c by (simp add: p Let_def)
  next
    case (Suc k)
    have "lcs_row x b (p1 # ps) ?c ! k = lcs (x # rev a) (rev ((pre @ [y]) @ take (Suc k) b))"
    proof (rule Cons.IH)
      show "length (p1 # ps) = Suc (length b)" using Cons.prems(1) p by simp
      show "k < length b" using Cons.prems(2) Suc by simp
      show "(p1 # ps) ! i = lcs (rev a) (rev ((pre @ [y]) @ take i b))" if "i \<le> length b" for i
        using Cons.prems(3) [of "Suc i"] that p by simp
      show "?c = lcs (x # rev a) (rev (pre @ [y]))" by (rule c)
    qed
    then show ?thesis using Suc by (simp add: p Let_def)
  qed
qed

lemma length_lcs_row: "length prev = Suc (length b) \<Longrightarrow> length (lcs_row x b prev left) = length b"
proof (induction b arbitrary: prev left)
  case (Cons y b)
  then show ?case by (cases prev; cases "tl prev") (auto simp: Let_def)
qed simp

lemma lcs_Nil2 [simp]: "lcs a [] = 0"
  by (cases a) simp_all

lemma lcs_rows_nth:
  "length (lcs_rows a b) = Suc (length b) \<and> (\<forall>i \<le> length b. lcs_rows a b ! i = lcs (rev a) (rev (take i b)))"
proof (induction a rule: rev_induct)
  case Nil
  then show ?case by (auto simp: lcs_rows_def nth_Cons')
next
  case (snoc x a)
  let ?prev = "lcs_rows a b"
  have rows: "lcs_rows (a @ [x]) b = 0 # lcs_row x b ?prev 0" by (simp add: lcs_rows_def)
  have "lcs_row x b ?prev 0 ! j = lcs (x # rev a) (rev ([] @ take (Suc j) b))" if "j < length b" for j
    using snoc that by (intro lcs_row_nth) simp_all
  then show ?case
    using snoc by (auto simp: rows length_lcs_row nth_Cons' )
qed

lemma lcs_upper: "subseq s a \<Longrightarrow> subseq s b \<Longrightarrow> length s \<le> lcs a b"
proof (induction a b arbitrary: s rule: lcs.induct)
  case (1 x xs y ys)
  show ?case
  proof (cases s)
    case (Cons z zs)
    show ?thesis
    proof (cases "x = y")
      case True
      have "subseq zs xs" "subseq zs ys"
        using 1(4,5) Cons by (auto simp: subseq_Cons2_iff split: if_splits dest: subseq_Cons')
      then show ?thesis using 1(1) [OF True] True Cons by simp
    next
      case False
      then have "subseq s ys \<or> subseq s xs"
        using 1(4,5) Cons by (auto simp: subseq_Cons2_iff split: if_splits)
      then show ?thesis using 1(2) [OF False 1(4)] 1(3) [OF False _ 1(5)] False by fastforce
    qed
  qed simp
qed simp_all

lemma lcs_attained: "\<exists>s. subseq s a \<and> subseq s b \<and> length s = lcs a b"
proof (induction a b rule: lcs.induct)
  case (1 x xs y ys)
  show ?case
  proof (cases "x = y")
    case True
    then obtain s where "subseq s xs" "subseq s ys" "length s = lcs xs ys" using 1(1) by blast
    then show ?thesis using True by (intro exI [of _ "x # s"]) simp
  next
    case False
    obtain s t where "subseq s (x # xs)" "subseq s ys" "length s = lcs (x # xs) ys"
      and "subseq t xs" "subseq t (y # ys)" "length t = lcs xs (y # ys)"
      using 1(2,3) [OF False] by blast
    then show ?thesis using False
      by (cases "lcs (x # xs) ys \<le> lcs xs (y # ys)") (auto simp: max_def intro: list_emb_Cons)
  qed
qed auto

lemma subseq_rev_mono: "subseq s t \<Longrightarrow> subseq (rev s) (rev t)"
proof (induction rule: list_emb.induct)
  case (list_emb_Nil ys)
  then show ?case by simp
next
  case (list_emb_Cons xs ys y)
  then show ?case by (simp add: subseq_rev_drop_many)
next
  case (list_emb_Cons2 x y xs ys)
  then show ?case by (simp add: list_emb_append_mono)
qed

lemma subseq_rev_iff: "subseq (rev s) (rev t) \<longleftrightarrow> subseq s t"
  using subseq_rev_mono [of s t] subseq_rev_mono [of "rev s" "rev t"] by auto

text \<open>
  C36: the similarity of two non-empty lists is the length of a longest common subsequence over the
  length of the longer list.
\<close>

theorem similarity_is_lcs:
  assumes "a \<noteq> []" and "b \<noteq> []"
  shows "\<exists>s. subseq s a \<and> subseq s b
    \<and> similarity a b = of_nat (length s) / of_nat (max (length a) (length b))
    \<and> (\<forall>t. subseq t a \<and> subseq t b \<longrightarrow> length t \<le> length s)"
proof -
  obtain r where r: "subseq r (rev a)" "subseq r (rev b)" "length r = lcs (rev a) (rev b)"
    using lcs_attained by blast
  have rev: "subseq (rev s) (rev t) \<longleftrightarrow> subseq s t" for s t :: "byte list"
    by (rule subseq_rev_iff)
  have "subseq (rev r) a" "subseq (rev r) b"
    using r(1,2) rev [of "rev r" a] rev [of "rev r" b] by simp_all
  moreover have "lcs_rows a b ! length b = length (rev r)"
    using lcs_rows_nth [of a b] r(3) by simp
  moreover have "length t \<le> length (rev r)" if "subseq t a" "subseq t b" for t
    using lcs_upper [of "rev t" "rev a" "rev b"] that rev r(3) by simp
  ultimately show ?thesis
    using assms by (intro exI [of _ "rev r"]) (simp add: similarity_def)
qed

theorem similarity_is_lcs_witness:
  "\<exists>s. subseq s [1, 3, 6 :: byte] \<and> subseq s [1, 6]
    \<and> similarity [1, 3, 6] [1, 6] = of_nat (length s) / of_nat (max (length [1, 3, 6 :: byte]) (length [1, 6 :: byte]))"
  using similarity_is_lcs [of "[1, 3, 6]" "[1, 6]"] by blast

subsection \<open>Rendering, parsing and indexing\<close>

lemma parse_u8_show: "parse_u8 (show_nat (unat b)) = Some b"
proof -
  have "unat b < 2 ^ 64" by (rule less_trans [OF unat_byte_less]) simp
  then show ?thesis by (simp add: parse_u8_def parse_u64_show)
qed

lemma parse_parts_show: "parse_parts (map (\<lambda>b. show_nat (unat b)) l) = Some l"
  by (induction l) (simp_all add: trim_plain plain_show_nat parse_u8_show)

lemma parse_list_render:
  assumes "l \<noteq> []" and "length l \<le> MAX_LIST_LEN"
  shows "parse_list (render l) = Some l"
proof -
  have "CHR '','' \<notin> set (show_nat n)" for n
    using show_nat_digits [of "CHR '',''" n] by (auto simp: is_digit_def ordc_def)
  then have "split_on (CHR '','') (render l) = map (\<lambda>b. show_nat (unat b)) l"
    unfolding render_def using assms(1) by (intro split_on_join) auto
  then show ?thesis using assms by (simp add: parse_list_def parse_parts_show)
qed

text \<open>Every list of the table came through the parser, so it is proper.\<close>

definition proper_list :: "byte list \<Rightarrow> bool" where
  "proper_list l \<longleftrightarrow> l \<noteq> [] \<and> length l \<le> MAX_LIST_LEN"

lemma render_inject: "proper_list l \<Longrightarrow> proper_list k \<Longrightarrow> render l = render k \<longleftrightarrow> l = k"
  by (metis option.inject parse_list_render proper_list_def)

lemma parse_list_proper: "parse_list t = Some l \<Longrightarrow> proper_list l"
  by (auto simp: parse_list_def proper_list_def bind_eq_Some_conv split: if_splits)

lemma parse_lists_proper: "list_all proper_list (parse_lists t)"
proof -
  have "list_all proper_list (List.map_filter parse_list ts)" for ts
    by (induction ts) (auto simp: map_filter_simps parse_list_proper split: option.split)
  then show ?thesis by (simp add: parse_lists_def)
qed

definition proper_class :: "fingerprint_class \<Rightarrow> bool" where
  "proper_class c \<longleftrightarrow> list_all proper_list (fc_fingerprints c)"

definition proper_state :: "parse_state \<Rightarrow> bool" where
  "proper_state st \<longleftrightarrow> list_all proper_class (fst st) \<and> (case snd st of Some c \<Rightarrow> proper_class c | None \<Rightarrow> True)"

lemma close_class_proper: "proper_state st \<Longrightarrow> list_all proper_class (close_class st)"
  by (auto simp: proper_state_def close_class_def split: option.split)

lemma parse_line_proper: "proper_state st \<Longrightarrow> proper_state (parse_line st raw)"
proof -
  assume st: "proper_state st"
  have k: "proper_class c \<Longrightarrow> proper_class (set_key c key v)" for c key v
    by (simp add: set_key_def proper_class_def parse_lists_proper)
  have n: "proper_class \<lparr>fc_id = i, fc_description = [], fc_os_family = None,
                      fc_device_type = None, fc_fingerprints = []\<rparr>" for i
    by (simp add: proper_class_def)
  show ?thesis
    using st close_class_proper [OF st]
    by (auto simp: parse_line_def Let_def proper_state_def k n split: option.splits prod.splits)
qed

lemma parse_fingerprints_proper:
  "parse_fingerprints text = Inr db \<Longrightarrow> list_all proper_class (db_classes db)"
proof -
  have "proper_state st \<Longrightarrow> proper_state (foldl parse_line st ls)" for st ls
    by (induction ls arbitrary: st) (simp_all add: parse_line_proper)
  then have "list_all proper_class (close_class (foldl parse_line ([], None) (str_lines text)))"
    by (intro close_class_proper) (simp add: proper_state_def)
  then show "parse_fingerprints text = Inr db \<Longrightarrow> list_all proper_class (db_classes db)"
    by (auto simp: parse_fingerprints_def Let_def split: if_splits)
qed

lemma index_class_apply:
  "index_class m (i, c) k =
     (case m k of Some v \<Rightarrow> Some v
      | None \<Rightarrow> if k \<in> render ` set (fc_fingerprints c) then Some i else None)"
proof -
  have "foldl (\<lambda>m l. or_insert m (render l) i) m ls k =
     (case m k of Some v \<Rightarrow> Some v | None \<Rightarrow> if k \<in> render ` set ls then Some i else None)" for ls
    by (induction ls arbitrary: m) (auto simp: or_insert_def split: option.splits)
  then show ?thesis by (simp add: index_class_def)
qed

lemma index_classes_apply:
  assumes "m k = None"
    and "k \<in> render ` set (fc_fingerprints (cs ! i))" and "i < length cs"
  shows "\<exists>j \<le> i. foldl index_class m (zip [n..<n + length cs] cs) k = Some (n + j)
     \<and> k \<in> render ` set (fc_fingerprints (cs ! j))
     \<and> (\<forall>h < j. k \<notin> render ` set (fc_fingerprints (cs ! h)))"
  using assms
proof (induction cs arbitrary: m n i)
  case Nil
  then show ?case by simp
next
  case (Cons c cs)
  have z: "zip [n..<n + length (c # cs)] (c # cs) = (n, c) # zip [Suc n..<Suc n + length cs] cs"
    by (simp add: upt_conv_Cons del: upt_Suc)
  have keep: "foldl index_class m' ics k = m' k" if "m' k \<noteq> None" for m' ics
    using that
  proof (induction ics arbitrary: m')
    case (Cons ic ics)
    have "index_class m' ic k = m' k"
      using Cons.prems index_class_apply [of m' "fst ic" "snd ic" k] by (auto split: option.splits)
    then show ?case using Cons by simp
  qed simp
  show ?case
  proof (cases "k \<in> render ` set (fc_fingerprints c)")
    case True
    then have "index_class m (n, c) k = Some n" using Cons.prems(1) by (simp add: index_class_apply)
    then show ?thesis using keep True unfolding z by (intro exI [of _ 0]) simp
  next
    case False
    then obtain h where h: "i = Suc h" using Cons.prems(2) by (cases i) auto
    have "index_class m (n, c) k = None" using False Cons.prems(1) by (simp add: index_class_apply)
    then obtain j where j: "j \<le> h"
      "foldl index_class (index_class m (n, c)) (zip [Suc n..<Suc n + length cs] cs) k = Some (Suc n + j)"
      "k \<in> render ` set (fc_fingerprints (cs ! j))"
      "\<forall>h < j. k \<notin> render ` set (fc_fingerprints (cs ! h))"
      using Cons.IH [of "index_class m (n, c)" h "Suc n"] h Cons.prems by auto
    have "k \<notin> render ` set (fc_fingerprints ((c # cs) ! g))" if "g < Suc j" for g
      using that False j(4) by (cases g) auto
    then show ?thesis
      using j h unfolding z by (intro exI [of _ "Suc j"]) (simp add: less_Suc_eq_le)
  qed
qed

text \<open>
  Each option list of a parsed table is found exactly, at the exact confidence, and the class
  reported is the first one of the table that has it.
\<close>

theorem table_lookup_exact:
  assumes "parse_fingerprints text = Inr db" and "i < length (db_classes db)"
    and "l \<in> set (fc_fingerprints (db_classes db ! i))"
  shows "\<exists>j \<le> i. lookup_fingerprint db (render l)
       = Some \<lparr>fm_class = db_classes db ! j, fm_confidence = EXACT_CONFIDENCE, fm_exact = True\<rparr>
     \<and> l \<in> set (fc_fingerprints (db_classes db ! j))
     \<and> (\<forall>h < j. l \<notin> set (fc_fingerprints (db_classes db ! h)))"
proof -
  have ex: "db_exact db = foldl index_class Map.empty (zip [0..<0 + length (db_classes db)] (db_classes db))"
    using assms(1) by (auto simp: parse_fingerprints_def Let_def split: if_splits)
  have "render l \<in> render ` set (fc_fingerprints (db_classes db ! i))" using assms(3) by blast
  from index_classes_apply [of Map.empty, OF _ this assms(2), of 0]
  obtain j where j: "j \<le> i" "db_exact db (render l) = Some j"
    "render l \<in> render ` set (fc_fingerprints (db_classes db ! j))"
    "\<forall>h < j. render l \<notin> render ` set (fc_fingerprints (db_classes db ! h))"
    unfolding ex by auto
  have p: "proper_list k" if "h < length (db_classes db)" "k \<in> set (fc_fingerprints (db_classes db ! h))" for h k
  proof -
    have "proper_class (db_classes db ! h)"
      using parse_fingerprints_proper [OF assms(1)] that(1) by (simp add: list_all_length)
    then show ?thesis using that(2) by (simp add: proper_class_def list_all_iff)
  qed
  have "l \<in> set (fc_fingerprints (db_classes db ! j))"
    using j(1,3) p assms(2,3) render_inject by (metis (no_types, lifting) imageE le_less_trans)
  moreover have "lookup_fingerprint db (render l)
       = Some \<lparr>fm_class = db_classes db ! j, fm_confidence = EXACT_CONFIDENCE, fm_exact = True\<rparr>"
    using j(1,2) assms(2) by (simp add: lookup_fingerprint_def byte_at_def)
  ultimately show ?thesis using j(1,4) by blast
qed

lemma sample_table:
  "parse_fingerprints (''[a]'' @ [chr 10] @ ''fingerprints=1,3'') =
     Inr \<lparr>db_classes = [\<lparr>fc_id = ''a'', fc_description = [], fc_os_family = None,
                          fc_device_type = None, fc_fingerprints = [[1, 3]]\<rparr>],
          db_exact = [''1,3'' \<mapsto> 0]\<rparr>"
proof -
  have "split_on (chr 10) (''[a]'' @ chr 10 # ''fingerprints=1,3'') = [''[a]'', ''fingerprints=1,3'']"
    by (simp add: chr_eq_iff ordc_def)
  then have l: "str_lines (''[a]'' @ [chr 10] @ ''fingerprints=1,3'') = [''[a]'', ''fingerprints=1,3'']"
    by (simp add: str_lines_def strip_cr_def chr_eq_iff ordc_def)
  have t: "trim ''[a]'' = ''[a]''" "trim ''a'' = ''a''" "trim ''fingerprints=1,3'' = ''fingerprints=1,3''"
    "trim ''fingerprints'' = ''fingerprints''" "trim ''1,3'' = ''1,3''" "trim ''1'' = ''1''" "trim ''3'' = ''3''"
    by (rule trim_plain; simp add: plain_def ordc_def)+
  have p1: "parse_line ([], None) ''[a]'' = ([], Some \<lparr>fc_id = ''a'', fc_description = [],
      fc_os_family = None, fc_device_type = None, fc_fingerprints = []\<rparr>)"
    by (simp add: parse_line_def t starts_with_def strip_prefix_def strip_suffix_def suffix_def
        close_class_def Let_def)
  have r: "render [1, 3] = ''1,3''"
    by (simp add: render_def show_nat.simps text_simps)
  have "parse_list ''1,3'' = Some [1, 3]"
    using parse_list_render [of "[1, 3]"] by (simp add: r MAX_LIST_LEN_def)
  then have f: "parse_lists ''1,3'' = [[1, 3]]" by (simp add: parse_lists_def map_filter_simps)
  have k: "to_ascii_lowercase ''fingerprints'' = ''fingerprints''"
    by (simp add: to_ascii_lowercase_def lower_def ordc_def)
  have p2: "parse_line ([], Some \<lparr>fc_id = ''a'', fc_description = [], fc_os_family = None,
       fc_device_type = None, fc_fingerprints = []\<rparr>) ''fingerprints=1,3''
     = ([], Some \<lparr>fc_id = ''a'', fc_description = [], fc_os_family = None,
                  fc_device_type = None, fc_fingerprints = [[1, 3]]\<rparr>)"
    by (simp add: parse_line_def t starts_with_def strip_prefix_def split_once_def set_key_def k f Let_def)
  show ?thesis
    unfolding parse_fingerprints_def l
    by (simp add: p1 p2 close_class_def index_class_def or_insert_def r)
qed

theorem table_lookup_exact_witness:
  "\<exists>db. parse_fingerprints (''[a]'' @ [chr 10] @ ''fingerprints=1,3'') = Inr db
     \<and> (\<exists>j \<le> 0. lookup_fingerprint db (render [1, 3])
          = Some \<lparr>fm_class = db_classes db ! j, fm_confidence = EXACT_CONFIDENCE, fm_exact = True\<rparr>)"
  using table_lookup_exact [OF sample_table, of 0 "[1, 3]"] sample_table by auto

subsection \<open>The nearest match\<close>

lemma similarity_le_1: "similarity a b \<le> 1"
proof (cases "a = [] \<or> b = []")
  case False
  have "lcs_rows a b ! length b = lcs (rev a) (rev b)" using lcs_rows_nth [of a b] by simp
  also have "\<dots> \<le> length a"
    using lcs_attained [of "rev a" "rev b"] list_emb_length by (metis length_rev)
  finally have "(of_nat (lcs_rows a b ! length b) :: rat) \<le> of_nat (max (length a) (length b))" by simp
  moreover have "(0 :: rat) < of_nat (max (length a) (length b))" using False by (cases a) auto
  ultimately show ?thesis using False by (simp add: similarity_def)
qed (auto simp: similarity_def)

text \<open>What a scan leaves: its start or a list it passed, and nothing it passed scores higher.\<close>

definition best_score :: "(nat \<times> rat) option \<Rightarrow> rat \<Rightarrow> bool" where
  "best_score r s \<longleftrightarrow> (case r of Some (_, b) \<Rightarrow> s \<le> b | None \<Rightarrow> s < NEAREST_THRESHOLD)"

definition near_enough :: "(nat \<times> rat) option \<Rightarrow> bool" where
  "near_enough r \<longleftrightarrow> (case r of Some (_, b) \<Rightarrow> NEAREST_THRESHOLD \<le> b | None \<Rightarrow> True)"

lemma nearest_list_best:
  assumes "near_enough best"
  shows "near_enough (nearest_list w i best ls)
     \<and> (\<forall>l \<in> set ls. best_score (nearest_list w i best ls) (similarity w l))
     \<and> (\<forall>s. best_score best s \<longrightarrow> best_score (nearest_list w i best ls) s)
     \<and> (nearest_list w i best ls = best
        \<or> (\<exists>l \<in> set ls. nearest_list w i best ls = Some (i, similarity w l)))"
  using assms
proof (induction ls arbitrary: best)
  case Nil
  then show ?case by simp
next
  case (Cons l ls)
  let ?s = "similarity w l"
  let ?b = "if ?s \<ge> NEAREST_THRESHOLD \<and> (case best of None \<Rightarrow> True | Some (_, b) \<Rightarrow> ?s > b)
            then Some (i, ?s) else best"
  have "near_enough ?b"
    using Cons.prems by (auto simp: near_enough_def)
  note IH = Cons.IH [of ?b, OF this]
  have m: "best_score best s \<longrightarrow> best_score ?b s" for s
    by (auto simp: best_score_def split: option.splits)
  have h: "best_score ?b ?s"
  proof (cases best)
    case (Some b)
    then show ?thesis using Cons.prems by (cases b) (auto simp: best_score_def near_enough_def)
  qed (auto simp: best_score_def)
  have step: "nearest_list w i best (l # ls) = nearest_list w i ?b ls" by (simp add: Let_def)
  let ?r = "nearest_list w i ?b ls"
  show ?case
    unfolding step
  proof (intro conjI)
    show "near_enough ?r" using IH by (elim conjE)
    show "\<forall>l \<in> set (l # ls). best_score ?r (similarity w l)" using IH h by simp
    show "\<forall>s. best_score best s \<longrightarrow> best_score ?r s" using IH m by blast
    have "?r = best \<or> ?r = Some (i, ?s) \<or> (\<exists>l \<in> set ls. ?r = Some (i, similarity w l))"
      using IH by (elim conjE disjE) (simp_all split: if_splits)
    then show "?r = best \<or> (\<exists>l \<in> set (l # ls). ?r = Some (i, similarity w l))" by auto
  qed
qed

lemma nearest_class_best:
  assumes "near_enough best"
  shows "near_enough (nearest_class w i best cs)
     \<and> (\<forall>c \<in> set cs. \<forall>l \<in> set (fc_fingerprints c). best_score (nearest_class w i best cs) (similarity w l))
     \<and> (\<forall>s. best_score best s \<longrightarrow> best_score (nearest_class w i best cs) s)
     \<and> (nearest_class w i best cs = best
        \<or> (\<exists>j < length cs. \<exists>l \<in> set (fc_fingerprints (cs ! j)).
              nearest_class w i best cs = Some (i + j, similarity w l)))"
  using assms
proof (induction cs arbitrary: i best)
  case Nil
  then show ?case by simp
next
  case (Cons c cs)
  let ?b = "nearest_list w i best (fc_fingerprints c)"
  note L = nearest_list_best [of best w i "fc_fingerprints c", OF Cons.prems]
  have "near_enough ?b" using L by blast
  note IH = Cons.IH [of ?b "Suc i", OF this]
  have "nearest_class w (Suc i) ?b cs = best
      \<or> (\<exists>j < length (c # cs). \<exists>l \<in> set (fc_fingerprints ((c # cs) ! j)).
           nearest_class w (Suc i) ?b cs = Some (i + j, similarity w l))"
  proof -
    consider "nearest_class w (Suc i) ?b cs = ?b"
      | j l where "j < length cs" "l \<in> set (fc_fingerprints (cs ! j))"
          "nearest_class w (Suc i) ?b cs = Some (Suc i + j, similarity w l)"
      using IH by blast
    then show ?thesis
    proof cases
      case 1
      then show ?thesis using L by (force intro: exI [of _ 0])
    next
      case (2 j l)
      then show ?thesis by (intro disjI2 exI [of _ "Suc j"]) auto
    qed
  qed
  then show ?case using L IH by auto
qed

text \<open>
  A match that is not exact is reported only when the list is in no class, at four fifths of a
  similarity of at least 0.85 that no list of the table exceeds; so it ranks below every exact match.
\<close>

theorem nearest_match_is_best:
  assumes "lookup_fingerprint db rendered = Some m" and "\<not> fm_exact m"
  shows "db_exact db rendered = None \<and> fm_confidence m < EXACT_CONFIDENCE
    \<and> (\<exists>w l. parse_list rendered = Some w \<and> fm_class m \<in> set (db_classes db) \<and> l \<in> set (fc_fingerprints (fm_class m))
         \<and> fm_confidence m = similarity w l * NEAREST_CEILING \<and> NEAREST_THRESHOLD \<le> similarity w l
         \<and> (\<forall>c \<in> set (db_classes db). \<forall>k \<in> set (fc_fingerprints c). similarity w k \<le> similarity w l))"
proof -
  have n: "db_exact db rendered = None"
    using assms by (auto simp: lookup_fingerprint_def bind_eq_Some_conv split: option.splits)
  then obtain w i sc where w: "parse_list rendered = Some w"
    and b: "nearest_class w 0 None (db_classes db) = Some (i, sc)"
    and c: "i < length (db_classes db)" "fm_class m = db_classes db ! i" "fm_confidence m = sc * NEAREST_CEILING"
    using assms by (auto simp: lookup_fingerprint_def bind_eq_Some_conv byte_at_Some_iff)
  have "near_enough None" by (simp add: near_enough_def)
  note B = nearest_class_best [OF this, of w 0 "db_classes db", unfolded b]
  obtain l where l: "l \<in> set (fc_fingerprints (db_classes db ! i))" "sc = similarity w l"
    using B by auto
  have "\<forall>c \<in> set (db_classes db). \<forall>k \<in> set (fc_fingerprints c). similarity w k \<le> sc"
    using B by (simp add: best_score_def)
  moreover have "NEAREST_THRESHOLD \<le> sc" using B by (simp add: near_enough_def)
  moreover have "sc * NEAREST_CEILING < EXACT_CONFIDENCE"
    using similarity_le_1 [of w l] l(2) by (simp add: NEAREST_CEILING_def EXACT_CONFIDENCE_def)
  ultimately show ?thesis
    using n w c l by (metis nth_mem)
qed

definition sample_class :: fingerprint_class where
  "sample_class = \<lparr>fc_id = ''a'', fc_description = [], fc_os_family = None, fc_device_type = None,
                   fc_fingerprints = [[1, 3, 6, 15, 28, 51, 58]]\<rparr>"

definition sample_db :: fingerprint_db where
  "sample_db = \<lparr>db_classes = [sample_class], db_exact = [render [1, 3, 6, 15, 28, 51, 58] \<mapsto> 0]\<rparr>"

lemma sample_near:
  "lookup_fingerprint sample_db (render [1, 3, 6, 15, 28, 51]) =
     Some \<lparr>fm_class = sample_class, fm_confidence = 6 / 7 * NEAREST_CEILING, fm_exact = False\<rparr>"
proof -
  have "render [1, 3, 6, 15, 28, 51] \<noteq> render [1, 3, 6, 15, 28, 51, 58]"
    by (subst render_inject) (simp_all add: proper_list_def MAX_LIST_LEN_def)
  then have e: "db_exact sample_db (render [1, 3, 6, 15, 28, 51]) = None"
    by (simp add: sample_db_def)
  have p: "parse_list (render [1, 3, 6, 15, 28, 51]) = Some [1, 3, 6, 15, 28, 51]"
    by (rule parse_list_render) (simp_all add: MAX_LIST_LEN_def)
  have s: "similarity [1, 3, 6, 15, 28, 51] [1, 3, 6, 15, 28, 51, 58] = 6 / 7"
    by (simp add: similarity_def lcs_rows_def Let_def)
  show ?thesis
    by (simp add: lookup_fingerprint_def e p)
      (simp add: sample_db_def sample_class_def s NEAREST_THRESHOLD_def byte_at_def)
qed

theorem nearest_match_is_best_witness:
  "\<exists>m. lookup_fingerprint sample_db (render [1, 3, 6, 15, 28, 51]) = Some m \<and> \<not> fm_exact m
     \<and> fm_confidence m < EXACT_CONFIDENCE"
  using nearest_match_is_best [OF sample_near] sample_near by simp

end
