(* ===== verification/Ethernet.thy ===== *)
theory Ethernet
  imports Types
begin

text \<open>
  \<^verbatim>\<open>src/capture/ethernet.rs\<close>: Ethernet II framing with VLAN tags, the IPv4 and IPv6 headers and
  UDP, each a total function from the captured bytes to the header and its payload.
\<close>

unbundle bit_operations_syntax

definition ETHERTYPE_ARP :: u16 where "ETHERTYPE_ARP = 0x0806"
definition ETHERTYPE_IPV4 :: u16 where "ETHERTYPE_IPV4 = 0x0800"
definition ETHERTYPE_IPV6 :: u16 where "ETHERTYPE_IPV6 = 0x86DD"
definition ETHERTYPE_VLAN :: u16 where "ETHERTYPE_VLAN = 0x8100"
definition ETHERTYPE_QINQ :: u16 where "ETHERTYPE_QINQ = 0x88A8"
definition IPPROTO_UDP :: byte where "IPPROTO_UDP = 17"
definition MAX_VLAN_TAGS :: nat where "MAX_VLAN_TAGS = 2"

record ethernet_frame =
  eth_dst :: mac_addr
  eth_src :: mac_addr
  eth_type :: u16
  eth_payload :: "byte list"

definition read_u16 :: "byte list \<Rightarrow> nat \<Rightarrow> u16 option" where
  "read_u16 bytes offset =
     do { hi \<leftarrow> byte_at bytes offset; lo \<leftarrow> byte_at bytes (offset + 1); Some (be16 hi lo) }"

definition is_tag :: "u16 \<Rightarrow> bool" where
  "is_tag ethertype \<longleftrightarrow> ethertype = ETHERTYPE_VLAN \<or> ethertype = ETHERTYPE_QINQ"

text \<open>The loop over the tags: how many more may be stripped, the offset and the type read there.\<close>

fun strip_tags :: "nat \<Rightarrow> byte list \<Rightarrow> nat \<Rightarrow> u16 \<Rightarrow> (nat \<times> u16) option" where
  "strip_tags 0 bytes offset ethertype = Some (offset, ethertype)" |
  "strip_tags (Suc n) bytes offset ethertype =
     (if \<not> is_tag ethertype then Some (offset, ethertype)
      else do { ethertype' \<leftarrow> read_u16 bytes (offset + 4);
                strip_tags n bytes (offset + 4) ethertype' })"

definition slice_from :: "byte list \<Rightarrow> nat \<Rightarrow> byte list option" where
  "slice_from bytes a = (if a \<le> length bytes then Some (drop a bytes) else None)"

definition parse_ethernet :: "byte list \<Rightarrow> ethernet_frame option" where
  "parse_ethernet bytes =
     (if length bytes < 14 then None
      else do {
        dst \<leftarrow> mac_of (take 6 bytes);
        src \<leftarrow> mac_of (take 6 (drop 6 bytes));
        ethertype0 \<leftarrow> read_u16 bytes 12;
        (offset, ethertype) \<leftarrow> strip_tags MAX_VLAN_TAGS bytes 12 ethertype0;
        payload \<leftarrow> slice_from bytes (offset + 2);
        Some \<lparr>eth_dst = dst, eth_src = src, eth_type = ethertype, eth_payload = payload\<rparr> })"

record ip_header =
  ip_src :: ip_addr
  ip_dst :: ip_addr
  ip_protocol :: byte
  ip_payload :: "byte list"

text \<open>\<^verbatim>\<open>Ord::clamp\<close> for a lower bound not above the upper one.\<close>

definition clamp :: "nat \<Rightarrow> nat \<Rightarrow> nat \<Rightarrow> nat" where
  "clamp x lo hi = (if x < lo then lo else if hi < x then hi else x)"

definition parse_ipv4 :: "byte list \<Rightarrow> ip_header option" where
  "parse_ipv4 bytes =
     (if length bytes < 20 then None
      else if drop_bit 4 (bytes ! 0) \<noteq> 4 then None
      else
        let ihl = unat (bytes ! 0 AND 0x0f) * 4 in
        if ihl < 20 \<or> length bytes < ihl then None
        else do {
          frag \<leftarrow> read_u16 bytes 6;
          if frag AND 0x1fff \<noteq> 0 then None
          else do {
            total_len \<leftarrow> read_u16 bytes 2;
            payload \<leftarrow> slice bytes ihl (clamp (unat total_len) ihl (length bytes));
            Some \<lparr>ip_src = V4 (Ipv4Addr (bytes ! 12) (bytes ! 13) (bytes ! 14) (bytes ! 15)),
                  ip_dst = V4 (Ipv4Addr (bytes ! 16) (bytes ! 17) (bytes ! 18) (bytes ! 19)),
                  ip_protocol = bytes ! 9, ip_payload = payload\<rparr> } })"

definition parse_ipv6 :: "byte list \<Rightarrow> ip_header option" where
  "parse_ipv6 bytes =
     (if length bytes < 40 then None
      else if drop_bit 4 (bytes ! 0) \<noteq> 6 then None
      else do {
        payload_len \<leftarrow> read_u16 bytes 4;
        src \<leftarrow> ipv6_of (take 16 (drop 8 bytes));
        dst \<leftarrow> ipv6_of (take 16 (drop 24 bytes));
        payload \<leftarrow> slice bytes 40 (clamp (40 + unat payload_len) 40 (length bytes));
        Some \<lparr>ip_src = V6 src, ip_dst = V6 dst, ip_protocol = bytes ! 6, ip_payload = payload\<rparr> })"

record udp_datagram =
  udp_src_port :: u16
  udp_dst_port :: u16
  udp_payload :: "byte list"

definition parse_udp :: "byte list \<Rightarrow> udp_datagram option" where
  "parse_udp bytes =
     (if length bytes < 8 then None
      else do {
        len \<leftarrow> read_u16 bytes 4;
        src \<leftarrow> read_u16 bytes 0;
        dst \<leftarrow> read_u16 bytes 2;
        payload \<leftarrow> slice bytes 8 (clamp (unat len) 8 (length bytes));
        Some \<lparr>udp_src_port = src, udp_dst_port = dst, udp_payload = payload\<rparr> })"

subsection \<open>Lemmas\<close>

lemma read_u16_Some:
  "read_u16 bytes i = Some w \<longleftrightarrow> i + 1 < length bytes \<and> w = be16 (bytes ! i) (bytes ! (i + 1))"
  by (auto simp: read_u16_def byte_at_def bind_eq_Some_conv)

lemma read_u16_in_range:
  "i + 1 < length bytes \<Longrightarrow> read_u16 bytes i = Some (be16 (bytes ! i) (bytes ! (i + 1)))"
  by (simp add: read_u16_Some)

lemma clamp_bounds: "lo \<le> hi \<Longrightarrow> lo \<le> clamp x lo hi \<and> clamp x lo hi \<le> hi"
  by (simp add: clamp_def)

lemma strip_tags_offset:
  "strip_tags n bytes offset t = Some (offset', t') \<Longrightarrow>
     \<exists>k \<le> n. offset' = offset + 4 * k \<and> (k < n \<longrightarrow> \<not> is_tag t')"
proof (induction n arbitrary: offset t)
  case 0
  then show ?case by simp
next
  case (Suc n)
  show ?case
  proof (cases "is_tag t")
    case False
    then show ?thesis using Suc.prems by (auto intro!: exI [of _ 0])
  next
    case True
    with Suc.prems obtain t1 where "strip_tags n bytes (offset + 4) t1 = Some (offset', t')"
      by (auto simp: bind_eq_Some_conv)
    from Suc.IH [OF this] obtain k where "k \<le> n" "offset' = offset + 4 + 4 * k" "k < n \<longrightarrow> \<not> is_tag t'"
      by blast
    then show ?thesis by (intro exI [of _ "Suc k"]) auto
  qed
qed

lemma ipv6_of_some: "length bs = 16 \<Longrightarrow> \<exists>a. ipv6_of bs = Some a"
  by (auto simp: ipv6_of_def numeral_eq_Suc length_Suc_conv)

lemma parse_ipv4_Some:
  assumes "parse_ipv4 bytes = Some h"
  obtains a b where "20 \<le> a" "a \<le> b" "b \<le> length bytes" "ip_payload h = take (b - a) (drop a bytes)"
    "be16 (bytes ! 6) (bytes ! 7) AND 0x1fff = 0"
proof -
  let ?a = "unat (bytes ! 0 AND 0x0f) * 4"
  from assms have l: "20 \<le> length bytes" and a: "20 \<le> ?a"
    by (auto simp: parse_ipv4_def Let_def split: if_splits)
  have "\<exists>frag (total_len :: u16) payload. read_u16 bytes 6 = Some frag \<and> frag AND 0x1fff = 0
      \<and> slice bytes ?a (clamp (unat total_len) ?a (length bytes)) = Some payload \<and> ip_payload h = payload"
    using assms by (auto simp: parse_ipv4_def Let_def bind_eq_Some_conv split: if_splits)
  then obtain total_len :: u16 where
    "read_u16 bytes 6 = Some (be16 (bytes ! 6) (bytes ! 7))" "be16 (bytes ! 6) (bytes ! 7) AND 0x1fff = 0"
    "slice bytes ?a (clamp (unat total_len) ?a (length bytes)) = Some (ip_payload h)"
    by (auto simp: read_u16_Some)
  then show thesis
    using a by (intro that [of ?a "clamp (unat total_len) ?a (length bytes)"]) (auto simp: slice_Some_iff)
qed

definition tag_bytes :: "(bool \<times> byte \<times> byte) list \<Rightarrow> byte list" where
  "tag_bytes tags = concat (map (\<lambda>(q, a, b). (if q then [0x88, 0xA8] else [0x81, 0x00]) @ [a, b]) tags)"

lemmas parse_ethernet_eval =
  parse_ethernet_def tag_bytes_def MAX_VLAN_TAGS_def mac_of_def slice_from_def read_u16_def
  byte_at_def take_Cons' drop_Cons' numeral_2_eq_2

lemma parse_ethernet_plain:
  assumes "\<not> is_tag (be16 hi lo)"
  shows "parse_ethernet (octets dst @ octets src @ hi # lo # payload)
     = Some \<lparr>eth_dst = dst, eth_src = src, eth_type = be16 hi lo, eth_payload = payload\<rparr>"
  using assms by (cases dst; cases src) (simp add: parse_ethernet_eval)

text \<open>
  Whatever bytes arrive, a parsed layer's payload is a contiguous piece of them behind a header
  of the layer's minimum size at least, and an IPv4 payload is that of a first fragment.
\<close>

theorem framing_payload_bounds:
  "(case parse_ethernet bytes of None \<Rightarrow> True | Some f \<Rightarrow>
      \<exists>k \<le> MAX_VLAN_TAGS. 14 + 4 * k \<le> length bytes \<and> eth_payload f = drop (14 + 4 * k) bytes
        \<and> (k < MAX_VLAN_TAGS \<longrightarrow> \<not> is_tag (eth_type f)))
   \<and> (case parse_ipv4 bytes of None \<Rightarrow> True | Some h \<Rightarrow>
      \<exists>a b. 20 \<le> a \<and> a \<le> b \<and> b \<le> length bytes \<and> ip_payload h = take (b - a) (drop a bytes)
        \<and> (be16 (bytes ! 6) (bytes ! 7)) AND 0x1fff = 0)
   \<and> (case parse_ipv6 bytes of None \<Rightarrow> True | Some h \<Rightarrow>
      \<exists>b. 40 \<le> b \<and> b \<le> length bytes \<and> ip_payload h = take (b - 40) (drop 40 bytes))
   \<and> (case parse_udp bytes of None \<Rightarrow> True | Some u \<Rightarrow>
      \<exists>b. 8 \<le> b \<and> b \<le> length bytes \<and> udp_payload u = take (b - 8) (drop 8 bytes))"
proof (intro conjI)
  show "case parse_ethernet bytes of None \<Rightarrow> True | Some f \<Rightarrow>
      \<exists>k \<le> MAX_VLAN_TAGS. 14 + 4 * k \<le> length bytes \<and> eth_payload f = drop (14 + 4 * k) bytes
        \<and> (k < MAX_VLAN_TAGS \<longrightarrow> \<not> is_tag (eth_type f))"
    by (auto simp: parse_ethernet_def bind_eq_Some_conv slice_from_def split: option.splits if_splits
        dest!: strip_tags_offset)
  show "case parse_ipv4 bytes of None \<Rightarrow> True | Some h \<Rightarrow>
      \<exists>a b. 20 \<le> a \<and> a \<le> b \<and> b \<le> length bytes \<and> ip_payload h = take (b - a) (drop a bytes)
        \<and> (be16 (bytes ! 6) (bytes ! 7)) AND 0x1fff = 0"
  proof (cases "parse_ipv4 bytes")
    case (Some h)
    then show ?thesis by (rule parse_ipv4_Some) (auto simp: Some)
  qed simp
  show "case parse_ipv6 bytes of None \<Rightarrow> True | Some h \<Rightarrow>
      \<exists>b. 40 \<le> b \<and> b \<le> length bytes \<and> ip_payload h = take (b - 40) (drop 40 bytes)"
    by (fastforce simp: parse_ipv6_def bind_eq_Some_conv slice_Some_iff split: option.splits if_splits)
  show "case parse_udp bytes of None \<Rightarrow> True | Some u \<Rightarrow>
      \<exists>b. 8 \<le> b \<and> b \<le> length bytes \<and> udp_payload u = take (b - 8) (drop 8 bytes)"
    by (fastforce simp: parse_udp_def bind_eq_Some_conv slice_Some_iff split: option.splits if_splits)
qed

lemma is_tag_tpid [simp]: "is_tag (be16 0x88 0xA8)" "is_tag (be16 0x81 0)"
  by (simp_all add: is_tag_def be16_def ETHERTYPE_VLAN_def ETHERTYPE_QINQ_def)

text \<open>
  An Ethernet header with at most two VLAN tags in front of the real type is read through: the
  addresses, the real type and exactly the payload come back.
\<close>

theorem parse_ethernet_tagged:
  assumes "length tags \<le> MAX_VLAN_TAGS" and "\<not> is_tag (be16 hi lo)"
  shows "parse_ethernet (octets dst @ octets src @ tag_bytes tags @ [hi, lo] @ payload)
     = Some \<lparr>eth_dst = dst, eth_src = src, eth_type = be16 hi lo, eth_payload = payload\<rparr>"
proof -
  obtain d1 d2 d3 d4 d5 d6 where d: "dst = MacAddr d1 d2 d3 d4 d5 d6" by (cases dst)
  obtain s1 s2 s3 s4 s5 s6 where s: "src = MacAddr s1 s2 s3 s4 s5 s6" by (cases src)
  consider "tags = []" | t where "tags = [t]" | t u where "tags = [t, u]"
    using assms(1) by (cases tags rule: remdups_adj.cases) (auto simp: MAX_VLAN_TAGS_def)
  then show ?thesis
  proof cases
    case 1
    then show ?thesis using assms(2) by (simp add: d s parse_ethernet_eval)
  next
    case (2 t)
    then show ?thesis
      using assms(2) by (cases t; cases "fst t") (simp_all add: d s parse_ethernet_eval)
  next
    case (3 t u)
    then show ?thesis
      using assms(2)
      by (cases t; cases u; cases "fst t"; cases "fst u") (simp_all add: d s parse_ethernet_eval)
  qed
qed

theorem parse_ethernet_tagged_witness:
  "parse_ethernet (octets BROADCAST @ octets (MacAddr 2 0 0 0 0 1) @ tag_bytes [(False, 0, 7)] @ [8, 6] @ [1, 2])
     = Some \<lparr>eth_dst = BROADCAST, eth_src = MacAddr 2 0 0 0 0 1, eth_type = be16 8 6, eth_payload = [1, 2]\<rparr>"
  by (rule parse_ethernet_tagged)
    (simp_all add: MAX_VLAN_TAGS_def is_tag_def be16_def ETHERTYPE_VLAN_def ETHERTYPE_QINQ_def)

end
