(* ===== verification/ArpFrames.thy ===== *)
theory ArpFrames
  imports Ethernet
begin

text \<open>
  \<^verbatim>\<open>src/capture/arp.rs\<close>: one captured frame to an observation. The two facts the rest of the daemon
  relies on, that the observation is keyed on a usable address and carries the interface and the
  time it was given, are the contract \<open>frame_parser\<close> every capture source meets.
\<close>

subsection \<open>The contract of a capture source\<close>

text \<open>
  \<open>parse\<close> takes the captured bytes, the interface and the time; \<open>kinds\<close> are the kinds of traffic
  the source can report and \<open>source\<close> its short name.
\<close>

locale frame_parser =
  fixes parse :: "byte list \<Rightarrow> string \<Rightarrow> time \<Rightarrow> observation option"
    and source :: string
  assumes parsed_usable: "parse bytes interface ts = Some obs \<Longrightarrow> usable (obs_mac obs)"
    and parsed_origin: "parse bytes interface ts = Some obs \<Longrightarrow>
      obs_interface obs = interface \<and> obs_at obs = ts \<and> obs_source obs = source"
begin

lemma origin:
  assumes "parse bytes interface ts = Some obs"
  shows "usable (obs_mac obs)" "obs_interface obs = interface" "obs_at obs = ts"
    "obs_source obs = source"
  using parsed_usable [OF assms] parsed_origin [OF assms] by simp_all

text \<open>Two captures at different times or on different interfaces give different observations.\<close>

lemma origin_inject:
  assumes "parse bytes i ts = Some obs" and "parse bytes' i' ts' = Some obs"
  shows "i = i' \<and> ts = ts'"
  using origin [OF assms(1)] origin [OF assms(2)] by simp

end

subsection \<open>ARP frames\<close>

definition ARP_SOURCE :: string where "ARP_SOURCE = ''arp''"
definition HTYPE_ETHERNET :: u16 where "HTYPE_ETHERNET = 1"
definition PTYPE_IPV4 :: u16 where "PTYPE_IPV4 = 0x0800"
definition OP_REQUEST :: u16 where "OP_REQUEST = 1"
definition OP_REPLY :: u16 where "OP_REPLY = 2"

definition sender_of :: "mac_addr \<Rightarrow> mac_addr \<Rightarrow> mac_addr" where
  "sender_of frame_src sender =
     (if is_group frame_src \<or> is_zero frame_src then sender else frame_src)"

definition arp_kind :: "u16 \<Rightarrow> bool \<Rightarrow> (arp_op \<times> observation_kind) option" where
  "arp_kind opcode gratuitous =
     (if opcode = OP_REQUEST then
        Some (ArpRequest, if gratuitous then ObsAnnouncement else ObsRequest)
      else if opcode = OP_REPLY then
        Some (ArpReply, if gratuitous then ObsAnnouncement else ObsReply)
      else None)"

definition parse_arp :: "byte list \<Rightarrow> string \<Rightarrow> time \<Rightarrow> observation option" where
  "parse_arp bytes interface ts =
     do {
       frame \<leftarrow> parse_ethernet bytes;
       let arp = eth_payload frame in
       if eth_type frame \<noteq> ETHERTYPE_ARP then None
       else if length arp < 28 then None
       else if be16 (arp ! 0) (arp ! 1) \<noteq> HTYPE_ETHERNET \<or> be16 (arp ! 2) (arp ! 3) \<noteq> PTYPE_IPV4
               \<or> arp ! 4 \<noteq> 6 \<or> arp ! 5 \<noteq> 4 then None
       else do {
         let opcode = be16 (arp ! 6) (arp ! 7);
         sender_mac \<leftarrow> mac_of (take 6 (drop 8 arp));
         sender_ip \<leftarrow> ipv4_of (take 4 (drop 14 arp));
         target_ip \<leftarrow> ipv4_of (take 4 (drop 24 arp));
         if is_group sender_mac \<or> is_zero sender_mac then None
         else
           let mac = sender_of (eth_src frame) sender_mac;
               claimed = (if sender_ip \<noteq> UNSPECIFIED4 then Some sender_ip else None);
               ip = map_option V4 claimed;
               gratuitous = (claimed \<noteq> None \<and> sender_ip = target_ip) in
           do {
             (op, kind) \<leftarrow> arp_kind opcode gratuitous;
             Some (with_detail (new_observation mac ip interface ARP_SOURCE kind ts)
               (Arp \<lparr>arp_op = op, arp_sender_mac = sender_mac, arp_sender_ip = claimed,
                     arp_target_ip = target_ip, arp_gratuitous = gratuitous\<rparr>))
           }
       }
     }"

lemma usable_sender_of: "usable sender \<Longrightarrow> usable (sender_of src sender)"
  by (simp add: sender_of_def usable_def)

text \<open>What an accepted frame tells, field by field.\<close>

lemma parse_arp_Some:
  assumes "parse_arp bytes interface ts = Some obs"
  obtains frame d kind where
    "parse_ethernet bytes = Some frame" "eth_type frame = ETHERTYPE_ARP"
    "28 \<le> length (eth_payload frame)" "usable (arp_sender_mac d)"
    "obs = with_detail (new_observation (sender_of (eth_src frame) (arp_sender_mac d))
             (map_option V4 (arp_sender_ip d)) interface ARP_SOURCE kind ts) (Arp d)"
    "mac_of (take 6 (drop 8 (eth_payload frame))) = Some (arp_sender_mac d)"
    "arp_sender_ip d \<noteq> Some UNSPECIFIED4"
    "arp_gratuitous d \<longleftrightarrow> arp_sender_ip d = Some (arp_target_ip d)"
    "arp_kind (be16 (eth_payload frame ! 6) (eth_payload frame ! 7)) (arp_gratuitous d)
       = Some (arp_op d, kind)"
proof -
  obtain frame where f: "parse_ethernet bytes = Some frame"
    using assms by (auto simp: parse_arp_def bind_eq_Some_conv)
  have e: "eth_type frame = ETHERTYPE_ARP" "28 \<le> length (eth_payload frame)"
    using assms f by (auto simp: parse_arp_def Let_def split: if_splits)
  obtain m s t where m: "mac_of (take 6 (drop 8 (eth_payload frame))) = Some m" "usable m"
    and st: "ipv4_of (take 4 (drop 14 (eth_payload frame))) = Some s"
      "ipv4_of (take 4 (drop 24 (eth_payload frame))) = Some t"
    using assms f e
    by (auto simp: parse_arp_def Let_def bind_eq_Some_conv usable_def split: if_splits)
  obtain op kind where
    k: "arp_kind (be16 (eth_payload frame ! 6) (eth_payload frame ! 7))
          (s \<noteq> UNSPECIFIED4 \<and> s = t) = Some (op, kind)" and
    obs: "obs = with_detail (new_observation (sender_of (eth_src frame) m)
             (map_option V4 (if s \<noteq> UNSPECIFIED4 then Some s else None)) interface ARP_SOURCE kind ts)
           (Arp \<lparr>arp_op = op, arp_sender_mac = m,
                 arp_sender_ip = (if s \<noteq> UNSPECIFIED4 then Some s else None),
                 arp_target_ip = t, arp_gratuitous = (s \<noteq> UNSPECIFIED4 \<and> s = t)\<rparr>)"
    using assms f e m st
    by (cases "s = UNSPECIFIED4")
      (auto simp: parse_arp_def Let_def bind_eq_Some_conv usable_def split: if_splits)
  show thesis
    by (rule that [OF f e, of "\<lparr>arp_op = op, arp_sender_mac = m,
                 arp_sender_ip = (if s \<noteq> UNSPECIFIED4 then Some s else None),
                 arp_target_ip = t, arp_gratuitous = (s \<noteq> UNSPECIFIED4 \<and> s = t)\<rparr>" kind])
      (use m k obs in \<open>auto simp: with_detail_def new_observation_def\<close>)
qed

interpretation arp: frame_parser parse_arp ARP_SOURCE
proof
  fix bytes interface ts obs
  assume p: "parse_arp bytes interface ts = Some obs"
  show "usable (obs_mac obs)"
    using p by (rule parse_arp_Some) (auto simp: with_detail_def new_observation_def intro: usable_sender_of)
  show "obs_interface obs = interface \<and> obs_at obs = ts \<and> obs_source obs = ARP_SOURCE"
    using p by (rule parse_arp_Some) (auto simp: with_detail_def new_observation_def)
qed

text \<open>
  An ARP observation is keyed on a usable address, never claims \<^verbatim>\<open>0.0.0.0\<close>, carries the sender's
  claim in its detail as the device's own address, and is an announcement exactly when the claim is
  gratuitous.
\<close>

theorem arp_observation_sound:
  assumes "parse_arp bytes interface ts = Some obs"
  shows "usable (obs_mac obs) \<and> obs_interface obs = interface \<and> obs_at obs = ts
    \<and> obs_ip obs \<noteq> Some (V4 UNSPECIFIED4)
    \<and> (\<exists>d. obs_arp obs = Some d \<and> usable (arp_sender_mac d) \<and> obs_ip obs = map_option V4 (arp_sender_ip d)
         \<and> (arp_gratuitous d \<longleftrightarrow> arp_sender_ip d = Some (arp_target_ip d))
         \<and> (obs_kind obs = ObsAnnouncement \<longleftrightarrow> arp_gratuitous d)
         \<and> (obs_kind obs = ObsReply \<longleftrightarrow> arp_op d = ArpReply \<and> \<not> arp_gratuitous d))"
proof -
  note o = arp.origin [OF assms]
  from assms show ?thesis
  proof (rule parse_arp_Some)
    fix frame d kind
    assume d: "obs = with_detail (new_observation (sender_of (eth_src frame) (arp_sender_mac d))
             (map_option V4 (arp_sender_ip d)) interface ARP_SOURCE kind ts) (Arp d)"
      "usable (arp_sender_mac d)" "arp_sender_ip d \<noteq> Some UNSPECIFIED4"
      "arp_gratuitous d \<longleftrightarrow> arp_sender_ip d = Some (arp_target_ip d)"
      "arp_kind (be16 (eth_payload frame ! 6) (eth_payload frame ! 7)) (arp_gratuitous d)
       = Some (arp_op d, kind)"
    then show ?thesis
      using o by (auto simp: arp_kind_def observation_defs split: if_splits)
  qed
qed

theorem arp_observation_sound_witness:
  "\<exists>obs. parse_arp (octets BROADCAST @ octets (MacAddr 2 0 0 0 0 1) @ [8, 6]
       @ [0, 1, 8, 0, 6, 4, 0, 1, 2, 0, 0, 0, 0, 1, 10, 0, 0, 9, 0, 0, 0, 0, 0, 0, 10, 0, 0, 1])
       ''eth0'' 5 = Some obs
     \<and> usable (obs_mac obs) \<and> obs_ip obs \<noteq> Some (V4 UNSPECIFIED4)"
proof -
  let ?payload = "[0, 1, 8, 0, 6, 4, 0, 1, 2, 0, 0, 0, 0, 1, 10, 0, 0, 9, 0, 0, 0, 0, 0, 0, 10, 0, 0, 1]"
  have "\<not> is_tag (be16 8 6)"
    by (simp add: is_tag_def be16_def ETHERTYPE_VLAN_def ETHERTYPE_QINQ_def)
  then have "parse_ethernet (octets BROADCAST @ octets (MacAddr 2 0 0 0 0 1) @ [8, 6] @ ?payload)
      = Some \<lparr>eth_dst = BROADCAST, eth_src = MacAddr 2 0 0 0 0 1, eth_type = be16 8 6,
              eth_payload = ?payload\<rparr>"
    using parse_ethernet_plain [of 8 6 BROADCAST "MacAddr 2 0 0 0 0 1" ?payload] by simp
  then have "\<exists>obs. parse_arp (octets BROADCAST @ octets (MacAddr 2 0 0 0 0 1) @ [8, 6] @ ?payload)
      ''eth0'' 5 = Some obs"
    by (simp add: parse_arp_def be16_def ETHERTYPE_ARP_def HTYPE_ETHERNET_def PTYPE_IPV4_def
        mac_of_def ipv4_of_def arp_kind_def OP_REQUEST_def UNSPECIFIED4_def Let_def)
  then show ?thesis using arp_observation_sound by blast
qed

end
