(* ===== verification/Ndp.thy ===== *)
theory Ndp
  imports ArpFrames
begin

text \<open>
  \<^verbatim>\<open>src/capture/ndp.rs\<close>: IPv6 Neighbor Discovery. Only the sender is a sighting; a Router
  Advertisement marks its sender as a router.
\<close>

definition NDP_SOURCE :: string where "NDP_SOURCE = ''ndp''"
definition IPPROTO_ICMPV6 :: byte where "IPPROTO_ICMPV6 = 58"
definition OPT_SOURCE_LINK_ADDR :: byte where "OPT_SOURCE_LINK_ADDR = 1"
definition OPT_TARGET_LINK_ADDR :: byte where "OPT_TARGET_LINK_ADDR = 2"
definition ROLE_ROUTER :: string where "ROLE_ROUTER = ''router''"

datatype ndp_message =
    RouterSolicitation
  | RouterAdvertisement
  | NeighborSolicitation
  | NeighborAdvertisement
  | Redirect

definition ndp_from_type :: "byte \<Rightarrow> ndp_message option" where
  "ndp_from_type t =
     (if t = 133 then Some RouterSolicitation
      else if t = 134 then Some RouterAdvertisement
      else if t = 135 then Some NeighborSolicitation
      else if t = 136 then Some NeighborAdvertisement
      else if t = 137 then Some Redirect
      else None)"

fun options_offset :: "ndp_message \<Rightarrow> nat" where
  "options_offset RouterSolicitation = 8" |
  "options_offset RouterAdvertisement = 16" |
  "options_offset NeighborSolicitation = 24" |
  "options_offset NeighborAdvertisement = 24" |
  "options_offset Redirect = 40"

fun ndp_observation_kind :: "ndp_message \<Rightarrow> observation_kind" where
  "ndp_observation_kind RouterSolicitation = ObsRequest" |
  "ndp_observation_kind NeighborSolicitation = ObsRequest" |
  "ndp_observation_kind NeighborAdvertisement = ObsReply" |
  "ndp_observation_kind RouterAdvertisement = ObsAnnouncement" |
  "ndp_observation_kind Redirect = ObsAnnouncement"

definition address6_at :: "byte list \<Rightarrow> nat \<Rightarrow> ipv6_addr option" where
  "address6_at icmp offset = slice icmp offset (offset + 16) \<bind> ipv6_of"

definition is_device_address6 :: "ipv6_addr \<Rightarrow> bool" where
  "is_device_address6 a \<longleftrightarrow>
     \<not> is_unspecified (V6 a) \<and> \<not> is_multicast (V6 a) \<and> \<not> is_loopback (V6 a)"

fun is_link_local6 :: "ipv6_addr \<Rightarrow> bool" where
  "is_link_local6 (Ipv6Addr a b c d e f g h) \<longleftrightarrow> a AND 0xffc0 = 0xfe80"

definition sender_address :: "byte list \<Rightarrow> ndp_message \<Rightarrow> ip_addr \<Rightarrow> ip_addr option" where
  "sender_address icmp message src =
     (let fallback = (case src of V6 v6 \<Rightarrow> if is_device_address6 v6 then Some src else None
                                | V4 _ \<Rightarrow> None) in
      if message = NeighborAdvertisement then
        (case address6_at icmp 8 of
           Some target \<Rightarrow> if is_device_address6 target then Some (V6 target) else fallback
         | None \<Rightarrow> fallback)
      else fallback)"

text \<open>The walk of the option list: how many options may still be read and the offset of the next.\<close>

fun link_layer_walk :: "nat \<Rightarrow> byte list \<Rightarrow> byte \<Rightarrow> nat \<Rightarrow> mac_addr option" where
  "link_layer_walk 0 icmp wanted offset = None" |
  "link_layer_walk (Suc n) icmp wanted offset =
     do {
       kind \<leftarrow> byte_at icmp offset;
       units \<leftarrow> byte_at icmp (offset + 1);
       if units = 0 then None
       else
         let next_at = offset + unat units * 8;
             found = (if kind = wanted \<or> kind = OPT_SOURCE_LINK_ADDR
                      then slice icmp (offset + 2) (offset + 8) \<bind> mac_of else None) in
         case found of
           Some mac \<Rightarrow> if \<not> is_zero mac \<and> \<not> is_group mac then Some mac
                       else link_layer_walk n icmp wanted next_at
         | None \<Rightarrow> link_layer_walk n icmp wanted next_at
     }"

definition link_layer_address :: "byte list \<Rightarrow> ndp_message \<Rightarrow> mac_addr option" where
  "link_layer_address icmp message =
     link_layer_walk 16 icmp
       (if message = NeighborAdvertisement then OPT_TARGET_LINK_ADDR else OPT_SOURCE_LINK_ADDR)
       (options_offset message)"

definition parse_ndp :: "byte list \<Rightarrow> string \<Rightarrow> time \<Rightarrow> observation option" where
  "parse_ndp bytes interface ts =
     do {
       frame \<leftarrow> parse_ethernet bytes;
       if eth_type frame \<noteq> ETHERTYPE_IPV6 then None
       else do {
         ip \<leftarrow> parse_ipv6 (eth_payload frame);
         if ip_protocol ip \<noteq> IPPROTO_ICMPV6 then None
         else do {
           icmp_type \<leftarrow> byte_at (ip_payload ip) 0;
           message \<leftarrow> ndp_from_type icmp_type;
           mac \<leftarrow> (if is_group (eth_src frame) \<or> is_zero (eth_src frame)
                   then link_layer_address (ip_payload ip) message else Some (eth_src frame));
           if is_group mac \<or> is_zero mac then None
           else
             let obs = new_observation mac (sender_address (ip_payload ip) message (ip_src ip))
                         interface NDP_SOURCE (ndp_observation_kind message) ts in
             Some (if message = RouterAdvertisement
                   then with_signal obs (Signal NdpRole ROLE_ROUTER) else obs)
         } } }"

lemma parse_ndp_Some:
  assumes "parse_ndp bytes interface ts = Some obs"
  obtains frame ip t message mac where
    "parse_ethernet bytes = Some frame" "parse_ipv6 (eth_payload frame) = Some ip"
    "byte_at (ip_payload ip) 0 = Some t" "ndp_from_type t = Some message" "usable mac"
    "obs = (let o1 = new_observation mac (sender_address (ip_payload ip) message (ip_src ip))
                         interface NDP_SOURCE (ndp_observation_kind message) ts in
            if message = RouterAdvertisement
            then with_signal o1 (Signal NdpRole ROLE_ROUTER) else o1)"
  using assms unfolding parse_ndp_def usable_def
  by (auto simp: bind_eq_Some_conv Let_def split: if_splits)

lemma sender_address_device:
  assumes "sender_address icmp message src = Some a"
  shows "\<exists>v6. a = V6 v6 \<and> is_device_address6 v6"
  using assms
  by (auto simp: sender_address_def Let_def split: if_splits option.splits ip_addr.splits)

interpretation ndp: frame_parser parse_ndp NDP_SOURCE
proof
  fix bytes interface ts obs
  assume p: "parse_ndp bytes interface ts = Some obs"
  show "usable (obs_mac obs)"
    using p by (rule parse_ndp_Some) (auto simp: observation_defs Let_def)
  show "obs_interface obs = interface \<and> obs_at obs = ts \<and> obs_source obs = NDP_SOURCE"
    using p by (rule parse_ndp_Some) (auto simp: observation_defs Let_def)
qed

text \<open>
  A Neighbor Discovery observation is keyed on a usable address, names at most an IPv6 address
  a device can hold, and calls its sender a router exactly for a Router Advertisement.
\<close>

theorem ndp_observation_sound:
  assumes "parse_ndp bytes interface ts = Some obs"
  shows "usable (obs_mac obs) \<and> obs_interface obs = interface \<and> obs_at obs = ts
    \<and> (case obs_ip obs of None \<Rightarrow> True | Some (V4 _) \<Rightarrow> False | Some (V6 a) \<Rightarrow> is_device_address6 a)
    \<and> (obs_signals obs = [] \<or> obs_signals obs = [Signal NdpRole ROLE_ROUTER])
    \<and> (\<exists>frame ip t. parse_ethernet bytes = Some frame \<and> parse_ipv6 (eth_payload frame) = Some ip
         \<and> byte_at (ip_payload ip) 0 = Some t \<and> (obs_signals obs \<noteq> [] \<longleftrightarrow> t = 134))"
proof -
  note o = ndp.origin [OF assms]
  from assms show ?thesis
  proof (rule parse_ndp_Some)
    fix frame ip t message mac
    assume f: "parse_ethernet bytes = Some frame" "parse_ipv6 (eth_payload frame) = Some ip"
      "byte_at (ip_payload ip) 0 = Some t" and m: "ndp_from_type t = Some message" and
      obs: "obs = (let o1 = new_observation mac (sender_address (ip_payload ip) message (ip_src ip))
                         interface NDP_SOURCE (ndp_observation_kind message) ts in
            if message = RouterAdvertisement
            then with_signal o1 (Signal NdpRole ROLE_ROUTER) else o1)"
    have ip: "obs_ip obs = sender_address (ip_payload ip) message (ip_src ip)"
      by (simp add: obs observation_defs Let_def)
    have s: "obs_signals obs = (if t = 134 then [Signal NdpRole ROLE_ROUTER] else [])"
      using m by (auto simp: obs observation_defs Let_def ndp_from_type_def split: if_splits)
    have "case obs_ip obs of None \<Rightarrow> True | Some (V4 _) \<Rightarrow> False | Some (V6 a) \<Rightarrow> is_device_address6 a"
      unfolding ip by (auto split: option.split ip_addr.split dest: sender_address_device)
    then show ?thesis using o f s by auto
  qed
qed

theorem ndp_observation_sound_witness:
  "\<exists>obs. parse_ndp (octets BROADCAST @ octets (MacAddr 2 0 0 0 0 1) @ [0x86, 0xDD]
       @ [0x60, 0, 0, 0, 0, 1, 58, 255, 0xfe, 0x80, 0, 0, 0, 0, 0, 0, 0, 0, 0, 0, 0, 0, 0, 1]
       @ [0xff, 2, 0, 0, 0, 0, 0, 0, 0, 0, 0, 0, 0, 0, 0, 1] @ [134]) ''eth0'' 5 = Some obs
     \<and> usable (obs_mac obs) \<and> obs_interface obs = ''eth0''"
proof -
  let ?packet = "[0x60, 0, 0, 0, 0, 1, 58, 255, 0xfe, 0x80, 0, 0, 0, 0, 0, 0, 0, 0, 0, 0, 0, 0, 0, 1]
       @ [0xff, 2, 0, 0, 0, 0, 0, 0, 0, 0, 0, 0, 0, 0, 0, 1] @ [134 :: byte]"
  have t: "\<not> is_tag (be16 0x86 0xDD)" "be16 0x86 0xDD = ETHERTYPE_IPV6"
    by (simp_all add: is_tag_def be16_def ETHERTYPE_VLAN_def ETHERTYPE_QINQ_def ETHERTYPE_IPV6_def)
  have u: "usable (MacAddr 2 0 0 0 0 1)" by (simp add: usable_def)
  obtain h where h: "parse_ipv6 ?packet = Some h" "ip_protocol h = 58" "ip_payload h = [134]"
    by (simp add: parse_ipv6_def read_u16_def byte_at_def ipv6_of_def be16_def clamp_def
        Prelude.slice_def)
  have "\<exists>obs. parse_ndp (octets BROADCAST @ octets (MacAddr 2 0 0 0 0 1) @ 0x86 # 0xDD # ?packet)
      ''eth0'' 5 = Some obs"
    using parse_ethernet_plain [OF t(1), of BROADCAST "MacAddr 2 0 0 0 0 1" ?packet] t(2) u h
    by (simp add: parse_ndp_def IPPROTO_ICMPV6_def byte_at_def ndp_from_type_def usable_def Let_def)
  then show ?thesis using ndp_observation_sound by fastforce
qed

end
