(* ===== verification/Classify.thy ===== *)
theory Classify
  imports Fingerprint Ndp
begin

text \<open>
  \<^verbatim>\<open>src/identity/classify.rs\<close>: device type and operating system from a device's stored signals,
  its registered vendor and whether it is always present. The DHCP fingerprint table is an argument,
  because its text is embedded data. A candidate is a type, a confidence and a reason.
\<close>

subsection \<open>Tables\<close>

definition DEVICE_TYPES :: "string list" where
  "DEVICE_TYPES =
     [''router'',
      ''access_point'',
      ''printer'',
      ''media_player'',
      ''smart_speaker'',
      ''smart_home_device'',
      ''thermostat'',
      ''camera'',
      ''nas'',
      ''phone'',
      ''tablet'',
      ''computer'',
      ''game_console'',
      ''tv'',
      ''voip_phone'',
      ''iot_device'',
      ''wearable'']"

definition MDNS_SERVICES :: "(string \<times> string) list" where
  "MDNS_SERVICES =
     [(''_airplay._tcp'', ''media_player''),
      (''_raop._tcp'', ''media_player''),
      (''_googlecast._tcp'', ''media_player''),
      (''_dial._tcp'', ''tv''),
      (''_daap._tcp'', ''media_player''),
      (''_sonos._tcp'', ''smart_speaker''),
      (''_spotify-connect._tcp'', ''smart_speaker''),
      (''_printer._tcp'', ''printer''),
      (''_ipp._tcp'', ''printer''),
      (''_ipps._tcp'', ''printer''),
      (''_pdl-datastream._tcp'', ''printer''),
      (''_scanner._tcp'', ''printer''),
      (''_uscan._tcp'', ''printer''),
      (''_uscans._tcp'', ''printer''),
      (''_hap._tcp'', ''smart_home_device''),
      (''_homekit._tcp'', ''smart_home_device''),
      (''_matter._tcp'', ''smart_home_device''),
      (''_matterc._udp'', ''smart_home_device''),
      (''_esphomelib._tcp'', ''smart_home_device''),
      (''_hue._tcp'', ''smart_home_device''),
      (''_axis-video._tcp'', ''camera''),
      (''_adisk._tcp'', ''nas''),
      (''_afpovertcp._tcp'', ''nas''),
      (''_smb._tcp'', ''nas''),
      (''_nvstream._tcp'', ''game_console''),
      (''_workstation._tcp'', ''computer'')]"

definition SSDP_DEVICE_TYPES :: "(string \<times> string) list" where
  "SSDP_DEVICE_TYPES =
     [(''internetgatewaydevice'', ''router''),
      (''wfadevice'', ''access_point''),
      (''mediarenderer'', ''media_player''),
      (''mediaserver'', ''nas''),
      ('':printer:'', ''printer''),
      (''dial-multiscreen'', ''tv''),
      ('':scanner:'', ''printer''),
      (''basic:1'', ''smart_home_device'')]"

definition TEXT_DEVICE_TYPES :: "(string \<times> string) list" where
  "TEXT_DEVICE_TYPES =
     [(''ipad'', ''tablet''),
      (''iphone'', ''phone''),
      (''applewatch'', ''wearable''),
      (''watch'', ''wearable''),
      (''appletv'', ''media_player''),
      (''macbook'', ''computer''),
      (''imac'', ''computer''),
      (''macmini'', ''computer''),
      (''roku'', ''tv''),
      (''chromecast'', ''media_player''),
      (''shield'', ''media_player''),
      (''sonos'', ''smart_speaker''),
      (''echo'', ''smart_speaker''),
      (''printer'', ''printer''),
      (''jetdirect'', ''printer''),
      (''brother'', ''printer''),
      (''nintendo'', ''game_console''),
      (''playstation'', ''game_console''),
      (''xbox'', ''game_console''),
      (''thermostat'', ''thermostat''),
      (''camera'', ''camera''),
      (''android-dhcp'', ''phone'')]"

definition TEXT_OS :: "(string \<times> string) list" where
  "TEXT_OS =
     [(''msft 5.0'', ''Windows''),
      (''windows'', ''Windows''),
      (''android-dhcp'', ''Android''),
      (''android'', ''Android''),
      (''iphone'', ''iOS''),
      (''ipad'', ''iPadOS''),
      (''appletv'', ''tvOS''),
      (''applewatch'', ''watchOS''),
      (''macbook'', ''macOS''),
      (''imac'', ''macOS''),
      (''macmini'', ''macOS''),
      (''darwin'', ''macOS''),
      (''dhcpcd'', ''Linux''),
      (''linux'', ''Linux'')]"

definition VENDOR_DEVICE_TYPES :: "(string \<times> string) list" where
  "VENDOR_DEVICE_TYPES =
     [(''espressif'', ''iot_device''),
      (''tuya'', ''smart_home_device''),
      (''shelly'', ''smart_home_device''),
      (''signify'', ''smart_home_device''),
      (''philips lighting'', ''smart_home_device''),
      (''nest labs'', ''thermostat''),
      (''ecobee'', ''thermostat''),
      (''sonos'', ''smart_speaker''),
      (''roku'', ''tv''),
      (''brother'', ''printer''),
      (''lexmark'', ''printer''),
      (''zebra tech'', ''printer''),
      (''axis communications'', ''camera''),
      (''hikvision'', ''camera''),
      (''dahua'', ''camera''),
      (''reolink'', ''camera''),
      (''synology'', ''nas''),
      (''qnap'', ''nas''),
      (''nintendo'', ''game_console''),
      (''sony interactive'', ''game_console''),
      (''yealink'', ''voip_phone''),
      (''grandstream'', ''voip_phone'')]"

definition IOT_VENDORS :: "string list" where
  "IOT_VENDORS =
     [''espressif'',
      ''tuya'',
      ''shelly'',
      ''signify'',
      ''philips lighting'',
      ''sonoff'',
      ''itead'',
      ''broadlink'']"

definition CONF_NDP_ROLE :: rat where "CONF_NDP_ROLE = 99 / 100"
definition CONF_SSDP_URN :: rat where "CONF_SSDP_URN = 9 / 10"
definition CONF_MDNS_SERVICE :: rat where "CONF_MDNS_SERVICE = 85 / 100"
definition CONF_TEXT :: rat where "CONF_TEXT = 7 / 10"
definition CONF_NETBIOS :: rat where "CONF_NETBIOS = 5 / 10"
definition CONF_VENDOR :: rat where "CONF_VENDOR = 4 / 10"
definition CONF_BEHAVIOUR :: rat where "CONF_BEHAVIOUR = 35 / 100"
definition ALWAYS_ON_HOURS :: int where "ALWAYS_ON_HOURS = 24"

record classify_input =
  ci_mac :: mac_addr
  ci_signals :: "signal list"
  ci_vendor :: "string option"
  ci_always_on :: bool

record classification =
  cl_device_type :: "string option"
  cl_os_family :: "string option"
  cl_confidence :: rat
  cl_reason :: "string option"

definition default_classification :: classification where
  "default_classification =
     \<lparr>cl_device_type = None, cl_os_family = None, cl_confidence = 0, cl_reason = None\<rparr>"

definition changed :: "string option \<Rightarrow> string option \<Rightarrow> bool" where
  "changed before after \<longleftrightarrow> (case (before, after) of (Some b, Some a) \<Rightarrow> b \<noteq> a | _ \<Rightarrow> False)"

definition changed_category :: "classification \<Rightarrow> classification \<Rightarrow> bool" where
  "changed_category cl previous \<longleftrightarrow>
     changed (cl_device_type previous) (cl_device_type cl)
     \<or> changed (cl_os_family previous) (cl_os_family cl)"

definition changed_at_all :: "classification \<Rightarrow> classification \<Rightarrow> bool" where
  "changed_at_all cl previous \<longleftrightarrow>
     cl_device_type previous \<noteq> cl_device_type cl \<or> cl_os_family previous \<noteq> cl_os_family cl"

subsection \<open>Evidence\<close>

definition values_of :: "signal list \<Rightarrow> signal_kind \<Rightarrow> string list" where
  "values_of signals kind =
     filter (\<lambda>v. v \<noteq> []) (map (\<lambda>s. trim (sig_value s)) (filter (\<lambda>s. sig_kind s = kind) signals))"

definition contains_fragment :: "string \<Rightarrow> string \<Rightarrow> bool" where
  "contains_fragment text fragment \<longleftrightarrow> contains (to_ascii_lowercase text) fragment"

definition match_fragment :: "string \<Rightarrow> (string \<times> string) list \<Rightarrow> string option" where
  "match_fragment text table =
     map_option snd (List.find (\<lambda>e. contains (to_ascii_lowercase text) (fst e)) table)"

definition service_type :: "string \<Rightarrow> (string \<times> string) list \<Rightarrow> string option" where
  "service_type service table =
     map_option snd (List.find (\<lambda>e. starts_with (to_ascii_lowercase service) (fst e)) table)"

definition is_known_type :: "string \<Rightarrow> bool" where
  "is_known_type t \<longleftrightarrow> t \<in> set DEVICE_TYPES"

type_synonym candidate = "string \<times> rat \<times> string"

definition router_candidates :: "signal list \<Rightarrow> candidate list" where
  "router_candidates signals =
     (if list_ex (\<lambda>v. eq_ignore_ascii_case v ROLE_ROUTER) (values_of signals NdpRole)
      then [(''router'', CONF_NDP_ROLE, ''router advertisement'')] else [])"

definition ssdp_candidates :: "signal list \<Rightarrow> candidate list" where
  "ssdp_candidates signals =
     List.map_filter (\<lambda>urn. map_option (\<lambda>t. (t, CONF_SSDP_URN, ''SSDP device type '' @ urn))
                              (match_fragment urn SSDP_DEVICE_TYPES))
       (values_of signals SsdpDeviceType)"

definition mdns_candidates :: "signal list \<Rightarrow> candidate list" where
  "mdns_candidates signals =
     List.map_filter (\<lambda>service. map_option (\<lambda>t. (t, CONF_MDNS_SERVICE, ''mDNS service '' @ service))
                              (service_type service MDNS_SERVICES))
       (values_of signals MdnsService)"

definition fingerprint_candidates :: "fingerprint_db \<Rightarrow> signal list \<Rightarrow> candidate list" where
  "fingerprint_candidates db signals =
     List.map_filter (\<lambda>l.
         do { found \<leftarrow> lookup_fingerprint db l;
              t \<leftarrow> fc_device_type (fm_class found);
              Some (t, fm_confidence found,
                    ''DHCP fingerprint '' @ fc_description (fm_class found) @ '' (''
                      @ (if fm_exact found then ''exact'' else ''nearest'') @ '')'') })
       (values_of signals DhcpFingerprint)"

definition text_candidates :: "signal list \<Rightarrow> candidate list" where
  "text_candidates signals =
     concat (map (\<lambda>(kind, label).
         List.map_filter (\<lambda>text. map_option (\<lambda>t. (t, CONF_TEXT, label @ '' '' @ text))
                                  (match_fragment text TEXT_DEVICE_TYPES))
           (values_of signals kind))
       [(DhcpVendorClass, ''DHCP vendor class''), (MdnsModel, ''mDNS model''),
        (SsdpServer, ''SSDP server'')])"

definition netbios_candidates :: "signal list \<Rightarrow> candidate list" where
  "netbios_candidates signals =
     (if values_of signals NetbiosName \<noteq> []
      then [(''computer'', CONF_NETBIOS, ''NetBIOS name service'')] else [])"

definition vendor_candidates :: "string option \<Rightarrow> bool \<Rightarrow> candidate list" where
  "vendor_candidates vendor always_on =
     (case vendor of
        None \<Rightarrow> []
      | Some v \<Rightarrow>
          (case match_fragment v VENDOR_DEVICE_TYPES of
             Some t \<Rightarrow> [(t, CONF_VENDOR, ''vendor '' @ v)] | None \<Rightarrow> [])
          @ (if always_on \<and> list_ex (contains_fragment v) IOT_VENDORS
             then [(''smart_home_device'', CONF_BEHAVIOUR, ''always on with IoT vendor '' @ v)] else []))"

definition device_type_candidates :: "fingerprint_db \<Rightarrow> classify_input \<Rightarrow> candidate list" where
  "device_type_candidates db input =
     router_candidates (ci_signals input)
     @ ssdp_candidates (ci_signals input)
     @ mdns_candidates (ci_signals input)
     @ fingerprint_candidates db (ci_signals input)
     @ text_candidates (ci_signals input)
     @ netbios_candidates (ci_signals input)
     @ vendor_candidates (ci_vendor input) (ci_always_on input)"

definition first_some :: "('a \<Rightarrow> 'b option) \<Rightarrow> 'a list \<Rightarrow> 'b option" where
  "first_some f xs = (case List.map_filter f xs of [] \<Rightarrow> None | y # _ \<Rightarrow> Some y)"

definition os_family :: "fingerprint_db \<Rightarrow> classify_input \<Rightarrow> string option" where
  "os_family db input =
     or_else (first_some (\<lambda>l. do { found \<leftarrow> lookup_fingerprint db l; fc_os_family (fm_class found) })
                (values_of (ci_signals input) DhcpFingerprint))
       (or_else (first_some (\<lambda>kind. first_some (\<lambda>text. match_fragment text TEXT_OS)
                                      (values_of (ci_signals input) kind))
                   [MdnsModel, DhcpVendorClass, SsdpServer])
          (if values_of (ci_signals input) NetbiosWorkgroup \<noteq> [] then Some ''Windows'' else None))"

definition first_known :: "candidate list \<Rightarrow> candidate option" where
  "first_known cs = List.find (\<lambda>c. is_known_type (fst c)) cs"

definition classify :: "fingerprint_db \<Rightarrow> classify_input \<Rightarrow> classification" where
  "classify db input =
     (let out = default_classification;
          out = (case first_known (device_type_candidates db input) of
                   Some (t, confidence, reason) \<Rightarrow>
                     out\<lparr>cl_device_type := Some t, cl_confidence := confidence, cl_reason := Some reason\<rparr>
                 | None \<Rightarrow> out)
      in out\<lparr>cl_os_family := os_family db input\<rparr>)"

subsection \<open>Finding the first entry\<close>

lemma find_append: "List.find P (xs @ ys) = (case List.find P xs of Some x \<Rightarrow> Some x | None \<Rightarrow> List.find P ys)"
  by (induction xs) simp_all

lemma find_split:
  "List.find P xs = Some x \<Longrightarrow>
     P x \<and> (\<exists>pre post. xs = pre @ x # post \<and> list_all (\<lambda>y. \<not> P y) pre)"
proof (induction xs)
  case (Cons z xs)
  show ?case
  proof (cases "P z")
    case True
    then have "z = x" using Cons.prems by simp
    then show ?thesis using True by (intro conjI exI [of _ "[]"] exI [of _ xs]) simp_all
  next
    case False
    then obtain pre post where "P x" "xs = pre @ x # post" "list_all (\<lambda>y. \<not> P y) pre"
      using Cons by auto
    then show ?thesis using False by (intro conjI exI [of _ "z # pre"] exI [of _ post]) simp_all
  qed
qed simp

lemma find_unique:
  assumes "x \<in> set xs" and "P x" and "\<And>y. y \<in> set xs \<Longrightarrow> P y \<Longrightarrow> y = x"
  shows "List.find P xs = Some x"
proof (cases "List.find P xs")
  case None
  then show ?thesis using assms(1,2) by (auto simp: find_None_iff)
next
  case (Some y)
  from find_split [OF this] have "P y" "y \<in> set xs" by auto
  then show ?thesis using Some assms(3) by simp
qed

lemma map_filter_set: "set (List.map_filter f xs) = {y. \<exists>x \<in> set xs. f x = Some y}"
  by (induction xs) (auto simp: map_filter_simps split: option.splits)

subsection \<open>The tables only name types of the vocabulary\<close>

definition known_types :: "(string \<times> string) list \<Rightarrow> bool" where
  "known_types table \<longleftrightarrow> list_all (\<lambda>e. is_known_type (snd e)) table"

lemma tables_known:
  "known_types MDNS_SERVICES" "known_types SSDP_DEVICE_TYPES" "known_types TEXT_DEVICE_TYPES"
  "known_types VENDOR_DEVICE_TYPES"
  by (simp_all add: known_types_def is_known_type_def DEVICE_TYPES_def MDNS_SERVICES_def
      SSDP_DEVICE_TYPES_def TEXT_DEVICE_TYPES_def VENDOR_DEVICE_TYPES_def)

lemma known_types_find:
  "known_types table \<Longrightarrow> List.find P table = Some (f, t) \<Longrightarrow> is_known_type t"
  by (auto simp: known_types_def list_all_iff dest!: find_split)

lemma known_smart_home: "is_known_type ''smart_home_device''" and known_router: "is_known_type ''router''"
  and known_computer: "is_known_type ''computer''"
  by (simp_all add: is_known_type_def DEVICE_TYPES_def)

definition known_candidates :: "candidate list \<Rightarrow> bool" where
  "known_candidates cs \<longleftrightarrow> list_all (\<lambda>c. is_known_type (fst c)) cs"

lemma known_builtin:
  "known_candidates (router_candidates signals)" "known_candidates (ssdp_candidates signals)"
  "known_candidates (mdns_candidates signals)" "known_candidates (vendor_candidates vendor always_on)"
  by (auto simp: known_candidates_def list_all_iff router_candidates_def ssdp_candidates_def
      mdns_candidates_def vendor_candidates_def known_router known_smart_home map_filter_set
      match_fragment_def service_type_def split: option.splits
      dest: sym [of "Some _"] intro: known_types_find [OF tables_known(1)] known_types_find [OF tables_known(2)]
        known_types_find [OF tables_known(4)])

lemma first_known_eq:
  "known_candidates cs \<Longrightarrow> first_known cs = (case cs of [] \<Rightarrow> None | c # _ \<Rightarrow> Some c)"
  by (cases cs) (simp_all add: known_candidates_def first_known_def)

lemma first_known_append: "first_known (xs @ ys) = or_else (first_known xs) (first_known ys)"
  by (simp add: first_known_def find_append or_else_def split: option.split)

lemma or_else_assoc: "or_else (or_else x y) z = or_else x (or_else y z)"
  by (simp add: or_else_def split: option.split)

lemmas candidate_lists = device_type_candidates_def first_known_append

text \<open>
  The type reported is one of the closed vocabulary and comes, with its confidence and its
  reason, from the first candidate that is; a type outside the vocabulary, from a table or not, is
  passed over, and with no usable candidate the confidence is zero and no reason is given.
\<close>

theorem classify_first_known:
  "case cl_device_type (classify db input) of
     Some t \<Rightarrow> t \<in> set DEVICE_TYPES
       \<and> (\<exists>pre reason post. device_type_candidates db input
             = pre @ (t, cl_confidence (classify db input), reason) # post
           \<and> list_all (\<lambda>c. fst c \<notin> set DEVICE_TYPES) pre
           \<and> cl_reason (classify db input) = Some reason)
   | None \<Rightarrow> list_all (\<lambda>c. fst c \<notin> set DEVICE_TYPES) (device_type_candidates db input)
       \<and> cl_confidence (classify db input) = 0 \<and> cl_reason (classify db input) = None"
proof (cases "first_known (device_type_candidates db input)")
  case None
  then have "list_all (\<lambda>c. fst c \<notin> set DEVICE_TYPES) (device_type_candidates db input)"
    by (fastforce simp: first_known_def find_None_iff list_all_iff is_known_type_def)
  then show ?thesis by (simp add: classify_def default_classification_def None)
next
  case (Some c)
  obtain t conf reason where c: "c = (t, conf, reason)" by (cases c)
  obtain pre post where "is_known_type t" "device_type_candidates db input = pre @ c # post"
    "list_all (\<lambda>c. \<not> is_known_type (fst c)) pre"
    using find_split [OF Some [unfolded first_known_def]] by (auto simp: c)
  moreover have "cl_device_type (classify db input) = Some t" "cl_confidence (classify db input) = conf"
    "cl_reason (classify db input) = Some reason"
    by (simp_all add: classify_def default_classification_def Some c)
  ultimately show ?thesis by (simp add: c is_known_type_def) blast
qed

text \<open>
  Evidence a device declares about itself outranks what is inferred about it: once a router
  advertisement, a UPnP device type or an mDNS service type names a type, that type, its confidence
  and its reason are the same whatever the vendor, the presence and the fingerprint table say.
\<close>

theorem declared_type_dominates:
  assumes "router_candidates (ci_signals input) @ ssdp_candidates (ci_signals input)
             @ mdns_candidates (ci_signals input) = (t, confidence, reason) # rest"
    and "ci_signals input' = ci_signals input"
  shows "cl_device_type (classify db input') = Some t
    \<and> cl_confidence (classify db input') = confidence \<and> cl_reason (classify db input') = Some reason"
proof -
  let ?cs = "router_candidates (ci_signals input) @ ssdp_candidates (ci_signals input)
               @ mdns_candidates (ci_signals input)"
  have "known_candidates ?cs" using known_builtin by (simp add: known_candidates_def)
  then have "first_known ?cs = Some (t, confidence, reason)"
    by (simp add: first_known_eq assms(1))
  then have "first_known (device_type_candidates db input') = Some (t, confidence, reason)"
    by (auto simp: candidate_lists assms(2) or_else_def split: option.splits)
  then show ?thesis by (simp add: classify_def default_classification_def)
qed

subsection \<open>The rule on behaviour\<close>

lemma vendor_match_settles:
  "match_fragment v VENDOR_DEVICE_TYPES = Some t \<Longrightarrow>
     first_known (vendor_candidates (Some v) always_on)
       = Some (t, CONF_VENDOR, ''vendor '' @ v)"
  using known_builtin(4) [of "Some v" always_on] by (simp add: first_known_eq vendor_candidates_def)

text \<open>
  Presence never changes the verdict on a vendor the vendor table knows. Five of the eight
  vendors listed for the rule on behaviour are in that table, so the rule cannot fire for them: an
  Espressif device that is always on stays an \<open>iot_device\<close>.
\<close>

theorem always_on_is_shadowed:
  assumes "match_fragment v VENDOR_DEVICE_TYPES \<noteq> None" and "ci_vendor input = Some v"
  shows "classify db (input\<lparr>ci_always_on := True\<rparr>) = classify db (input\<lparr>ci_always_on := False\<rparr>)
    \<and> list_all (\<lambda>f. f \<in> fst ` set VENDOR_DEVICE_TYPES)
        [''espressif'', ''tuya'', ''shelly'', ''signify'', ''philips lighting'']
    \<and> take 5 IOT_VENDORS = [''espressif'', ''tuya'', ''shelly'', ''signify'', ''philips lighting'']"
proof -
  obtain t where t: "match_fragment v VENDOR_DEVICE_TYPES = Some t" using assms(1) by auto
  have "first_known (device_type_candidates db (input\<lparr>ci_always_on := True\<rparr>))
      = first_known (device_type_candidates db (input\<lparr>ci_always_on := False\<rparr>))"
    by (simp add: candidate_lists assms(2) vendor_match_settles [OF t])
  moreover have "os_family db (input\<lparr>ci_always_on := True\<rparr>) = os_family db (input\<lparr>ci_always_on := False\<rparr>)"
    by (simp add: os_family_def)
  ultimately show ?thesis
    by (simp add: classify_def VENDOR_DEVICE_TYPES_def IOT_VENDORS_def)
qed

subsection \<open>Service types\<close>

lemma find_ambiguous_free:
  assumes "\<And>x y. x \<in> set xs \<Longrightarrow> y \<in> set xs \<Longrightarrow> P x \<Longrightarrow> P y \<Longrightarrow> x = y" and "set ys = set xs"
  shows "List.find P ys = List.find P xs"
proof (cases "List.find P xs")
  case None
  then have "List.find P ys = None" using assms(2) by (simp add: find_None_iff)
  then show ?thesis using None by simp
next
  case (Some x)
  then have "x \<in> set xs" "P x" by (auto dest!: find_split)
  then have "List.find P ys = Some x" using assms by (intro find_unique) auto
  then show ?thesis using Some by simp
qed

lemma mdns_prefix_free:
  "list_all (\<lambda>x. list_all (\<lambda>y. prefix (fst x) (fst y) = (x = y)) MDNS_SERVICES) MDNS_SERVICES"
  by (simp add: MDNS_SERVICES_def)

text \<open>
  The order of the table of mDNS service types has no effect. No entry is a prefix of another, so
  any arrangement of the same entries gives a service the same type; what decides between two
  services of one device is which was confirmed last.
\<close>

theorem service_table_order_irrelevant:
  assumes "set table = set MDNS_SERVICES"
  shows "service_type service table = service_type service MDNS_SERVICES"
proof -
  have "x = y" if "x \<in> set MDNS_SERVICES" "y \<in> set MDNS_SERVICES"
    "starts_with s (fst x)" "starts_with s (fst y)" for x y s
  proof -
    have "prefix (fst x) (fst y) \<or> prefix (fst y) (fst x)"
      using that(3,4) by (auto simp: starts_with_def dest: prefix_same_cases)
    then show ?thesis using mdns_prefix_free that(1,2) by (auto simp: list_all_iff)
  qed
  then show ?thesis
    unfolding service_type_def by (subst find_ambiguous_free [OF _ assms]) auto
qed

subsection \<open>Concrete devices\<close>

definition sample_input :: classify_input where
  "sample_input =
     \<lparr>ci_mac = BROADCAST, ci_signals = [Signal NdpRole ''router''], ci_vendor = Some ''tuya'', ci_always_on = True\<rparr>"

theorem declared_type_dominates_witness:
  "cl_device_type (classify sample_db (sample_input\<lparr>ci_vendor := None\<rparr>)) = Some ''router''
    \<and> cl_confidence (classify sample_db (sample_input\<lparr>ci_vendor := None\<rparr>)) = CONF_NDP_ROLE
    \<and> cl_reason (classify sample_db (sample_input\<lparr>ci_vendor := None\<rparr>)) = Some ''router advertisement''"
proof (rule declared_type_dominates [of sample_input _ _ _ "[]"])
  have "trim ''router'' = ''router''" by (rule trim_plain) (simp add: plain_def ordc_def)
  then show "router_candidates (ci_signals sample_input) @ ssdp_candidates (ci_signals sample_input)
             @ mdns_candidates (ci_signals sample_input) = [(''router'', CONF_NDP_ROLE, ''router advertisement'')]"
    by (simp add: sample_input_def router_candidates_def ssdp_candidates_def mdns_candidates_def values_of_def
        Signal_def ROLE_ROUTER_def eq_ignore_ascii_case_def map_filter_simps)
qed simp

theorem always_on_is_shadowed_witness:
  "classify sample_db (sample_input\<lparr>ci_always_on := True\<rparr>) = classify sample_db (sample_input\<lparr>ci_always_on := False\<rparr>)"
proof -
  have "to_ascii_lowercase ''tuya'' = ''tuya''" by (simp add: to_ascii_lowercase_def lower_def ordc_def)
  then have "match_fragment ''tuya'' VENDOR_DEVICE_TYPES \<noteq> None"
    by (simp add: match_fragment_def VENDOR_DEVICE_TYPES_def contains_def)
  then show ?thesis using always_on_is_shadowed [of "''tuya''" sample_input sample_db]
    by (simp add: sample_input_def)
qed

theorem service_table_order_irrelevant_witness:
  "service_type ''_ipp._tcp'' (rev MDNS_SERVICES) = service_type ''_ipp._tcp'' MDNS_SERVICES"
  by (rule service_table_order_irrelevant) simp

end
