(* ===== verification/Alert.thy ===== *)
theory Alert
  imports Gateway Window Classify
begin

text \<open>
  \<^verbatim>\<open>src/analyze/mod.rs\<close> without the chain: alerts, what an analyzer is shown, its context, the
  cooldown test, and the contracts of an analyzer as locales. The evidence of an alert is a
  \<^verbatim>\<open>serde_json::Value\<close>; an object is an association list in the order the source writes it.
\<close>

subsection \<open>Evidence\<close>

datatype json =
    JNull
  | JBool bool
  | JNum int
  | JRat rat
  | JStr string
  | JTime time
  | JArr "json list"
  | JObj "(string \<times> json) list"

definition jnat :: "nat \<Rightarrow> json" where "jnat n = JNum (int n)"

definition jopt :: "('a \<Rightarrow> json) \<Rightarrow> 'a option \<Rightarrow> json" where
  "jopt f v = (case v of Some x \<Rightarrow> f x | None \<Rightarrow> JNull)"

definition field :: "json \<Rightarrow> string \<Rightarrow> json option" where
  "field j k = (case j of JObj es \<Rightarrow> map_of es k | _ \<Rightarrow> None)"

subsection \<open>Alerts and stimuli\<close>

record security_alert =
  al_event_type :: event_type
  al_mac :: mac_addr
  al_ip :: "string option"
  al_interface :: "string option"
  al_at :: time
  al_priority :: event_priority
  al_details :: json

definition new_alert ::
  "event_type \<Rightarrow> mac_addr \<Rightarrow> time \<Rightarrow> event_priority \<Rightarrow> json \<Rightarrow> security_alert"
where
  "new_alert kind mac now priority details =
     \<lparr>al_event_type = kind, al_mac = mac, al_ip = None, al_interface = None, al_at = now,
      al_priority = priority, al_details = details\<rparr>"

definition with_ip :: "security_alert \<Rightarrow> string \<Rightarrow> security_alert" where
  "with_ip a ip = a\<lparr>al_ip := Some ip\<rparr>"

definition with_interface :: "security_alert \<Rightarrow> string \<Rightarrow> security_alert" where
  "with_interface a i = a\<lparr>al_interface := Some i\<rparr>"

record reclassification =
  rc_mac :: mac_addr
  rc_display_name :: string
  rc_previous :: classification
  rc_current :: classification
  rc_interface :: "string option"
  rc_at :: time

datatype stimulus = Observed observation | Reclassified reclassification

record context_state =
  cx_gateway :: gateway_tracker
  cx_exempt :: "mac_addr list"
  cx_priority :: event_priority
  cx_max_tracked :: nat

definition is_exempt :: "context_state \<Rightarrow> mac_addr \<Rightarrow> bool" where
  "is_exempt cx mac \<longleftrightarrow> mac \<in> set (cx_exempt cx)"

fun stimulus_mac :: "stimulus \<Rightarrow> mac_addr" where
  "stimulus_mac (Observed o1) = obs_mac o1" |
  "stimulus_mac (Reclassified r) = rc_mac r"

fun stimulus_at :: "stimulus \<Rightarrow> time" where
  "stimulus_at (Observed o1) = obs_at o1" |
  "stimulus_at (Reclassified r) = rc_at r"

definition cooled_down :: "time option \<Rightarrow> time \<Rightarrow> duration \<Rightarrow> bool" where
  "cooled_down prev now cooldown \<longleftrightarrow>
     (case prev of
        None \<Rightarrow> True
      | Some l \<Rightarrow> (case to_std (now - l) of Some elapsed \<Rightarrow> elapsed \<ge> cooldown | None \<Rightarrow> False))"

lemma cooled_down_iff:
  "cooled_down prev now cd \<longleftrightarrow> (case prev of None \<Rightarrow> True | Some l \<Rightarrow> l + int cd \<le> now)"
  by (auto simp: cooled_down_def to_std_def split: option.split)

lemma alert_simps [simp]:
  "al_event_type (new_alert k m t p d) = k" "al_mac (new_alert k m t p d) = m"
  "al_at (new_alert k m t p d) = t" "al_priority (new_alert k m t p d) = p"
  "al_details (new_alert k m t p d) = d"
  "al_event_type (with_ip a ip) = al_event_type a" "al_mac (with_ip a ip) = al_mac a"
  "al_at (with_ip a ip) = al_at a" "al_priority (with_ip a ip) = al_priority a"
  "al_details (with_ip a ip) = al_details a" "al_ip (with_ip a ip) = Some ip"
  "al_event_type (with_interface a i) = al_event_type a" "al_mac (with_interface a i) = al_mac a"
  "al_at (with_interface a i) = al_at a" "al_priority (with_interface a i) = al_priority a"
  "al_details (with_interface a i) = al_details a" "al_ip (with_interface a i) = al_ip a"
  by (simp_all add: new_alert_def with_ip_def with_interface_def)

text \<open>Frames and a context the concrete instances of the analyzers' properties use.\<close>

definition request_frame :: "mac_addr \<Rightarrow> ipv4_addr \<Rightarrow> time \<Rightarrow> observation" where
  "request_frame mac target ts = with_detail (new_observation mac None ''eth0'' ''arp'' ObsRequest ts)
     (Arp \<lparr>arp_op = ArpRequest, arp_sender_mac = mac, arp_sender_ip = None,
           arp_target_ip = target, arp_gratuitous = False\<rparr>)"

definition announce_frame :: "mac_addr \<Rightarrow> ipv4_addr \<Rightarrow> time \<Rightarrow> observation" where
  "announce_frame mac ip ts = with_detail (new_observation mac (Some (V4 ip)) ''eth0'' ''arp'' ObsAnnouncement ts)
     (Arp \<lparr>arp_op = ArpRequest, arp_sender_mac = mac, arp_sender_ip = Some ip,
           arp_target_ip = ip, arp_gratuitous = True\<rparr>)"

definition quiet_context :: context_state where
  "quiet_context = \<lparr>cx_gateway = gateway_new None None, cx_exempt = [], cx_priority = Urgent, cx_max_tracked = 16\<rparr>"

lemma frame_simps [simp]:
  "obs_mac (request_frame m ip t) = m" "obs_at (request_frame m ip t) = t"
  "obs_mac (announce_frame m ip t) = m" "obs_at (announce_frame m ip t) = t"
  "obs_mac (answer_frame m ip t) = m" "obs_at (answer_frame m ip t) = t"
  "obs_ip (answer_frame m ip t) = Some (V4 ip)" "obs_ip (announce_frame m ip t) = Some (V4 ip)"
  "obs_arp (request_frame m ip t) = Some \<lparr>arp_op = ArpRequest, arp_sender_mac = m, arp_sender_ip = None,
     arp_target_ip = ip, arp_gratuitous = False\<rparr>"
  "obs_arp (announce_frame m ip t) = Some \<lparr>arp_op = ArpRequest, arp_sender_mac = m, arp_sender_ip = Some ip,
     arp_target_ip = ip, arp_gratuitous = True\<rparr>"
  "obs_arp (answer_frame m ip t) = Some \<lparr>arp_op = ArpReply, arp_sender_mac = m, arp_sender_ip = Some ip,
     arp_target_ip = UNSPECIFIED4, arp_gratuitous = False\<rparr>"
  "\<not> is_gateway (cx_gateway quiet_context) m"
  by (simp_all add: request_frame_def announce_frame_def answer_frame_def observation_defs obs_arp_def
      quiet_context_def gateway_new_def is_gateway_def)

subsection \<open>The contract of an analyzer\<close>

text \<open>
  Every analyzer keeps its own invariant, reports at most one alert per stimulus, of its own kind,
  and only about the device the stimulus is about, at the time it was seen.
\<close>

locale analyzer =
  fixes analyze :: "'s \<Rightarrow> stimulus \<Rightarrow> context_state \<Rightarrow> security_alert list \<times> 's"
    and good :: "'s \<Rightarrow> bool"
    and kind :: event_type
  assumes analyze_good: "good s \<Longrightarrow> good (snd (analyze s st cx))"
    and analyze_about: "a \<in> set (fst (analyze s st cx)) \<Longrightarrow>
      al_event_type a = kind \<and> al_mac a = stimulus_mac st \<and> al_at a = stimulus_at st"
    and analyze_once: "length (fst (analyze s st cx)) \<le> 1"
begin

definition runs :: "'s \<Rightarrow> (stimulus \<times> context_state) list \<Rightarrow> security_alert list \<times> 's" where
  "runs s evs = foldl (\<lambda>(out, s) (st, cx). (out @ fst (analyze s st cx), snd (analyze s st cx))) ([], s) evs"

lemma foldl_runs:
  "foldl (\<lambda>(out, s) (st, cx). (out @ fst (analyze s st cx), snd (analyze s st cx))) (out, s) evs
     = (out @ fst (runs s evs), snd (runs s evs))"
proof (induction evs arbitrary: out s)
  case Nil
  then show ?case by (simp add: runs_def)
next
  case (Cons e evs)
  obtain st cx where e: "e = (st, cx)" by (cases e)
  show ?case
    unfolding runs_def using Cons [of "out @ fst (analyze s st cx)" "snd (analyze s st cx)"]
      Cons [of "fst (analyze s st cx)" "snd (analyze s st cx)"]
    by (simp add: e)
qed

lemma runs_simps [simp]:
  "runs s [] = ([], s)"
  "runs s ((st, cx) # evs) =
     (fst (analyze s st cx) @ fst (runs (snd (analyze s st cx)) evs), snd (runs (snd (analyze s st cx)) evs))"
  using foldl_runs [of "fst (analyze s st cx)" "snd (analyze s st cx)" evs] by (simp_all add: runs_def)

lemma runs_append:
  "runs s (xs @ ys) = (fst (runs s xs) @ fst (runs (snd (runs s xs)) ys), snd (runs (snd (runs s xs)) ys))"
proof (induction xs arbitrary: s)
  case (Cons x xs)
  obtain st cx where "x = (st, cx)" by (cases x)
  then show ?case using Cons by simp
qed simp

lemma runs_good: "good s \<Longrightarrow> good (snd (runs s evs))"
  by (induction evs arbitrary: s) (auto simp: analyze_good)

lemma runs_about:
  "a \<in> set (fst (runs s evs)) \<Longrightarrow>
     al_event_type a = kind \<and> (\<exists>(st, cx) \<in> set evs. al_mac a = stimulus_mac st \<and> al_at a = stimulus_at st)"
proof (induction evs arbitrary: s)
  case (Cons e evs)
  obtain st cx where e: "e = (st, cx)" by (cases e)
  consider "a \<in> set (fst (analyze s st cx))" | "a \<in> set (fst (runs (snd (analyze s st cx)) evs))"
    using Cons.prems by (auto simp: e)
  then show ?case
    by cases (use analyze_about Cons.IH in \<open>(fastforce simp: e)+\<close>)
qed simp

lemma runs_at_most: "length (fst (runs s evs)) \<le> length evs"
proof (induction evs arbitrary: s)
  case (Cons e evs)
  obtain st cx where e: "e = (st, cx)" by (cases e)
  have "length (fst (runs (snd (analyze s st cx)) evs)) \<le> length evs" by (rule Cons)
  then show ?case using analyze_once [of s st cx] by (simp add: e)
qed simp

end

subsection \<open>The contract of an analyzer with a cooldown\<close>

fun spaced :: "duration \<Rightarrow> time option \<Rightarrow> time list \<Rightarrow> bool" where
  "spaced cd prev [] = True" |
  "spaced cd prev (t # ts) \<longleftrightarrow> cooled_down prev t cd \<and> spaced cd (Some t) ts"

text \<open>
  It fires for the key of a stimulus only when that key's last alert has cooled down, and then
  stamps the key. It forgets another key's stamp only when it has to make room for a new key.
\<close>

locale cooling_analyzer = analyzer analyze good kind
  for analyze :: "'s \<Rightarrow> stimulus \<Rightarrow> context_state \<Rightarrow> security_alert list \<times> 's"
    and good :: "'s \<Rightarrow> bool" and kind :: event_type +
  fixes key :: "stimulus \<Rightarrow> 'k option"
    and alerted_at :: "'s \<Rightarrow> 'k \<Rightarrow> time option"
    and cooldown :: "'s \<Rightarrow> duration"
    and tracked :: "'s \<Rightarrow> 'k set"
    and capacity :: "'s \<Rightarrow> nat"
  assumes fires_cooled: "good s \<Longrightarrow> fst (analyze s st cx) \<noteq> [] \<Longrightarrow>
      \<exists>k. key st = Some k \<and> cooled_down (alerted_at s k) (stimulus_at st) (cooldown s)
        \<and> alerted_at (snd (analyze s st cx)) k = Some (stimulus_at st)"
    and quiet_keeps: "good s \<Longrightarrow> key st = Some k \<Longrightarrow> fst (analyze s st cx) = [] \<Longrightarrow>
      alerted_at (snd (analyze s st cx)) k = alerted_at s k"
    and others_kept: "good s \<Longrightarrow> key st \<noteq> Some j \<Longrightarrow>
      alerted_at (snd (analyze s st cx)) j = alerted_at s j
      \<or> (\<exists>k. key st = Some k \<and> k \<notin> tracked s \<and> capacity s \<le> card (tracked s))"
    and tracked_step: "good s \<Longrightarrow> tracked (snd (analyze s st cx)) \<subseteq> tracked s \<union> set_option (key st)"
    and tracked_finite: "good s \<Longrightarrow> finite (tracked s)"
    and constants: "good s \<Longrightarrow> cooldown (snd (analyze s st cx)) = cooldown s"
      "good s \<Longrightarrow> capacity (snd (analyze s st cx)) = capacity s"
begin

definition keys_of :: "(stimulus \<times> context_state) list \<Rightarrow> 'k set" where
  "keys_of evs = (\<Union>(st, cx) \<in> set evs. set_option (key st))"

fun firings :: "'k \<Rightarrow> 's \<Rightarrow> (stimulus \<times> context_state) list \<Rightarrow> time list" where
  "firings k s [] = []" |
  "firings k s ((st, cx) # evs) =
     (if key st = Some k \<and> fst (analyze s st cx) \<noteq> [] then [stimulus_at st] else [])
     @ firings k (snd (analyze s st cx)) evs"

lemma finite_keys_of [simp]: "finite (keys_of evs)"
  by (auto simp: keys_of_def)

lemma keys_of_Cons: "keys_of ((st, cx) # evs) = set_option (key st) \<union> keys_of evs"
  by (simp add: keys_of_def)

text \<open>With room for every key that turns up, the alerts for one key are a cooldown apart.\<close>

lemma firings_spaced:
  "good s \<Longrightarrow> card (tracked s \<union> keys_of evs) \<le> capacity s \<Longrightarrow>
     spaced (cooldown s) (alerted_at s k) (firings k s evs)"
proof (induction evs arbitrary: s)
  case (Cons e evs)
  obtain st cx where e: "e = (st, cx)" by (cases e)
  let ?s = "snd (analyze s st cx)"
  have g: "good ?s" using Cons.prems(1) by (rule analyze_good)
  have fin: "finite (tracked s \<union> keys_of (e # evs))"
    using tracked_finite [OF Cons.prems(1)] by simp
  have "tracked ?s \<union> keys_of evs \<subseteq> tracked s \<union> keys_of (e # evs)"
    using tracked_step [OF Cons.prems(1), of st cx] by (auto simp: e keys_of_Cons)
  then have "card (tracked ?s \<union> keys_of evs) \<le> capacity ?s"
    using card_mono [OF fin] Cons.prems(2) constants(2) [OF Cons.prems(1), of st cx]
    by (metis order.trans)
  then have IH: "spaced (cooldown s) (alerted_at ?s k) (firings k ?s evs)"
    using Cons.IH [OF g] constants(1) [OF Cons.prems(1)] by simp
  consider (fires) "key st = Some k" "fst (analyze s st cx) \<noteq> []"
    | (quiet) "key st = Some k" "fst (analyze s st cx) = []" | (other) "key st \<noteq> Some k" by blast
  then show ?case
  proof cases
    case fires
    then show ?thesis using fires_cooled [OF Cons.prems(1) fires(2)] IH by (auto simp: e)
  next
    case quiet
    then show ?thesis using quiet_keeps [OF Cons.prems(1) quiet] IH by (simp add: e)
  next
    case other
    have "alerted_at ?s k = alerted_at s k"
    proof (rule ccontr)
      assume "alerted_at ?s k \<noteq> alerted_at s k"
      then obtain k' where k': "key st = Some k'" "k' \<notin> tracked s" "capacity s \<le> card (tracked s)"
        using others_kept [OF Cons.prems(1) other] by blast
      have "insert k' (tracked s) \<subseteq> tracked s \<union> keys_of (e # evs)"
        using k'(1) by (auto simp: e keys_of_Cons)
      from card_mono [OF fin this] show False
        using k' Cons.prems(2) tracked_finite [OF Cons.prems(1)] by simp
    qed
    then show ?thesis using other IH by (simp add: e)
  qed
qed simp

end

subsection \<open>Analyzers that keep one slot per key\<close>

text \<open>
  Four analyzers keep their state in a bounded map and rewrite at most the slot of the stimulus'
  key. That shape alone gives the contract above.
\<close>

locale slot_analyzer = analyzer analyze good kind
  for analyze :: "'s \<Rightarrow> stimulus \<Rightarrow> context_state \<Rightarrow> security_alert list \<times> 's"
    and good :: "'s \<Rightarrow> bool" and kind :: event_type +
  fixes key :: "stimulus \<Rightarrow> 'k option"
    and slots :: "'s \<Rightarrow> ('k, 'v) bounded_map"
    and stamp :: "'v \<Rightarrow> time option"
    and cooldown :: "'s \<Rightarrow> duration"
  assumes slots_ok: "good s \<Longrightarrow> bm_ok (slots s)"
    and slot_step: "good s \<Longrightarrow> analyze s st cx = ([], s)
      \<or> (\<exists>k v. key st = Some k
          \<and> slots (snd (analyze s st cx)) = bm_insert (slots s) k v (stimulus_at st)
          \<and> cooldown (snd (analyze s st cx)) = cooldown s
          \<and> (if fst (analyze s st cx) = [] then stamp v = bm_get (slots s) k \<bind> stamp
             else stamp v = Some (stimulus_at st)
               \<and> cooled_down (bm_get (slots s) k \<bind> stamp) (stimulus_at st) (cooldown s)))"
begin

lemma slot_cases:
  assumes "good s"
  obtains (idle) "analyze s st cx = ([], s)"
  | (quiet) k v where "key st = Some k" "fst (analyze s st cx) = []"
      "slots (snd (analyze s st cx)) = bm_insert (slots s) k v (stimulus_at st)"
      "stamp v = bm_get (slots s) k \<bind> stamp" "cooldown (snd (analyze s st cx)) = cooldown s"
  | (fires) k v where "key st = Some k" "fst (analyze s st cx) \<noteq> []"
      "slots (snd (analyze s st cx)) = bm_insert (slots s) k v (stimulus_at st)"
      "stamp v = Some (stimulus_at st)" "cooldown (snd (analyze s st cx)) = cooldown s"
      "cooled_down (bm_get (slots s) k \<bind> stamp) (stimulus_at st) (cooldown s)"
  using slot_step [OF assms, of st cx] by (auto split: if_splits)

definition stamp_of :: "'s \<Rightarrow> 'k \<Rightarrow> time option" where
  "stamp_of s k = bm_get (slots s) k \<bind> stamp"

lemma stamp_insert:
  assumes "good s" and "slots s' = bm_insert (slots s) k v t"
  shows "stamp_of s' k = stamp v"
    and "j \<noteq> k \<Longrightarrow> stamp_of s' j = stamp_of s j
      \<or> k \<notin> bm_keys (slots s) \<and> bm_capacity (slots s) \<le> card (bm_keys (slots s))"
  using bm_get_insert(1) [OF slots_ok [OF assms(1)]] bm_insert_other [OF slots_ok [OF assms(1)], of j k v t] assms(2)
  by (auto simp: stamp_of_def)

end

sublocale slot_analyzer \<subseteq> cooling_analyzer analyze good kind key stamp_of cooldown
  "\<lambda>s. bm_keys (slots s)" "\<lambda>s. bm_capacity (slots s)"
proof
  fix s st cx
  assume g: "good s"
  show "\<exists>k. key st = Some k \<and> cooled_down (stamp_of s k) (stimulus_at st) (cooldown s)
      \<and> stamp_of (snd (analyze s st cx)) k = Some (stimulus_at st)" if "fst (analyze s st cx) \<noteq> []"
    using g that by (cases rule: slot_cases [of s st cx])
      (auto simp: stamp_insert(1) [OF g] stamp_of_def [of s])
  show "stamp_of (snd (analyze s st cx)) k = stamp_of s k"
    if "key st = Some k" "fst (analyze s st cx) = []" for k
    using g that by (cases rule: slot_cases [of s st cx])
      (auto simp: stamp_insert(1) [OF g] stamp_of_def [of s])
  show "stamp_of (snd (analyze s st cx)) j = stamp_of s j
      \<or> (\<exists>k. key st = Some k \<and> k \<notin> bm_keys (slots s) \<and> bm_capacity (slots s) \<le> card (bm_keys (slots s)))"
    if "key st \<noteq> Some j" for j
    using g
  proof (cases rule: slot_cases [of s st cx])
    case (quiet k v)
    then show ?thesis using stamp_insert(2) [OF g quiet(3), of j] that by auto
  next
    case (fires k v)
    then show ?thesis using stamp_insert(2) [OF g fires(3), of j] that by auto
  qed simp
  show "bm_keys (slots (snd (analyze s st cx))) \<subseteq> bm_keys (slots s) \<union> set_option (key st)"
    using g bm_keys_insert by (cases rule: slot_cases [of s st cx]) fastforce+
  show "finite (bm_keys (slots s))" by simp
  show "cooldown (snd (analyze s st cx)) = cooldown s"
    "bm_capacity (slots (snd (analyze s st cx))) = bm_capacity (slots s)"
    using g by (cases rule: slot_cases [of s st cx]; simp)+
qed

subsection \<open>Analyzers that keep a list of the devices reported\<close>

text \<open>
  Two analyzers keep only when each device was last reported, in a list of limited length from which
  the first entry goes when a new one has no room.
\<close>

definition record_alert :: "nat \<Rightarrow> (mac_addr \<times> time) list \<Rightarrow> mac_addr \<Rightarrow> time \<Rightarrow> (mac_addr \<times> time) list" where
  "record_alert limit alerted mac now =
     (if map_of alerted mac \<noteq> None then AList.update mac now alerted
      else (if length alerted \<ge> limit then tl alerted else alerted) @ [(mac, now)])"

definition roster_ok :: "nat \<Rightarrow> (mac_addr \<times> time) list \<Rightarrow> bool" where
  "roster_ok limit alerted \<longleftrightarrow> distinct (map fst alerted) \<and> length alerted \<le> limit"

lemma record_alert_place: "record_alert limit alerted mac now = dw_place limit alerted mac now"
  by (simp add: record_alert_def dw_place_def)

lemma record_alert_ok: "1 \<le> limit \<Longrightarrow> roster_ok limit alerted \<Longrightarrow> roster_ok limit (record_alert limit alerted mac now)"
  using dw_place_ok [of alerted limit mac now] by (simp add: roster_ok_def record_alert_place)

lemma record_alert_map_of:
  shows "map_of (record_alert limit alerted mac now) mac = Some now"
    and "j \<noteq> mac \<Longrightarrow> map_of (record_alert limit alerted mac now) j = map_of alerted j
      \<or> mac \<notin> fst ` set alerted \<and> limit \<le> length alerted"
    and "fst ` set (record_alert limit alerted mac now) \<subseteq> insert mac (fst ` set alerted)"
proof -
  have t: "fst ` set (tl alerted) \<subseteq> fst ` set alerted" by (cases alerted) auto
  have tn: "map_of alerted mac = None \<Longrightarrow> map_of (tl alerted) mac = None"
    using t by (auto simp: map_of_eq_None_iff)
  show "map_of (record_alert limit alerted mac now) mac = Some now"
    using tn by (auto simp: record_alert_def update_conv' map_add_def)
  show "j \<noteq> mac \<Longrightarrow> map_of (record_alert limit alerted mac now) j = map_of alerted j
      \<or> mac \<notin> fst ` set alerted \<and> limit \<le> length alerted"
    by (auto simp: record_alert_def update_conv' map_add_def map_of_eq_None_iff [of _ mac] split: option.split)
  show "fst ` set (record_alert limit alerted mac now) \<subseteq> insert mac (fst ` set alerted)"
    using t by (auto simp: record_alert_def dom_update)
qed

locale roster_analyzer = analyzer analyze good kind
  for analyze :: "'s \<Rightarrow> stimulus \<Rightarrow> context_state \<Rightarrow> security_alert list \<times> 's"
    and good :: "'s \<Rightarrow> bool" and kind :: event_type +
  fixes key :: "stimulus \<Rightarrow> mac_addr option"
    and roster :: "'s \<Rightarrow> (mac_addr \<times> time) list"
    and limit :: nat
    and cooldown :: duration
  assumes good_roster: "good s \<Longrightarrow> roster_ok limit (roster s)"
    and roster_step: "good s \<Longrightarrow>
      fst (analyze s st cx) = [] \<and> roster (snd (analyze s st cx)) = roster s
      \<or> (\<exists>mac. key st = Some mac \<and> fst (analyze s st cx) \<noteq> []
          \<and> roster (snd (analyze s st cx)) = record_alert limit (roster s) mac (stimulus_at st)
          \<and> cooled_down (map_of (roster s) mac) (stimulus_at st) cooldown)"

sublocale roster_analyzer \<subseteq> cooling_analyzer analyze good kind key "\<lambda>s. map_of (roster s)" "\<lambda>_. cooldown"
  "\<lambda>s. fst ` set (roster s)" "\<lambda>_. limit"
proof
  fix s st cx
  assume g: "good s"
  note step = roster_step [OF g, of st cx]
  have card: "card (fst ` set (roster s)) = length (roster s)"
    using good_roster [OF g] unfolding roster_ok_def by (metis distinct_card length_map list.set_map)
  show "\<exists>k. key st = Some k \<and> cooled_down (map_of (roster s) k) (stimulus_at st) cooldown
      \<and> map_of (roster (snd (analyze s st cx))) k = Some (stimulus_at st)" if "fst (analyze s st cx) \<noteq> []"
    using step that record_alert_map_of(1) by auto
  show "map_of (roster (snd (analyze s st cx))) k = map_of (roster s) k"
    if "key st = Some k" "fst (analyze s st cx) = []" for k
    using step that by auto
  show "map_of (roster (snd (analyze s st cx))) j = map_of (roster s) j
      \<or> (\<exists>k. key st = Some k \<and> k \<notin> fst ` set (roster s) \<and> limit \<le> card (fst ` set (roster s)))"
    if "key st \<noteq> Some j" for j
    using step
  proof
    assume "\<exists>mac. key st = Some mac \<and> fst (analyze s st cx) \<noteq> []
          \<and> roster (snd (analyze s st cx)) = record_alert limit (roster s) mac (stimulus_at st)
          \<and> cooled_down (map_of (roster s) mac) (stimulus_at st) cooldown"
    then obtain mac where m: "key st = Some mac"
      "roster (snd (analyze s st cx)) = record_alert limit (roster s) mac (stimulus_at st)" by blast
    then show ?thesis using record_alert_map_of(2) [of j mac limit "roster s" "stimulus_at st"] that card by auto
  qed simp
  show "fst ` set (roster (snd (analyze s st cx))) \<subseteq> fst ` set (roster s) \<union> set_option (key st)"
    using step
  proof (elim disjE exE conjE)
    fix mac
    assume "key st = Some mac" "roster (snd (analyze s st cx)) = record_alert limit (roster s) mac (stimulus_at st)"
    then show ?thesis using record_alert_map_of(3) [of limit "roster s" mac "stimulus_at st"] by simp
  qed simp
qed simp_all

end
