(* ===== verification/Arp_Scan.thy ===== *)
theory Arp_Scan
  imports Alert Config
begin

text \<open>
  \<^verbatim>\<open>src/analyze/arp_scan.rs\<close>: one device asking for many different addresses inside a window.
\<close>

definition WINDOW_CAPACITY :: nat where "WINDOW_CAPACITY = 512"

record scan_tracked =
  sk_targets :: "ipv4_addr distinct_window"
  sk_last_alert :: "time option"

record arp_scan =
  scan_window :: duration
  scan_threshold :: nat
  scan_gateway_threshold :: nat
  scan_tracked :: "(mac_addr, scan_tracked) bounded_map"

definition scan_new :: "arp_scan_config \<Rightarrow> nat \<Rightarrow> arp_scan" where
  "scan_new cfg max_tracked =
     \<lparr>scan_window = as_window cfg, scan_threshold = max (as_threshold cfg) 1,
      scan_gateway_threshold = max (as_gateway_threshold cfg) (max (as_threshold cfg) 1),
      scan_tracked = bm_new max_tracked\<rparr>"

text \<open>The request the analyzer counts, by the source's early returns.\<close>

definition scan_request :: "stimulus \<Rightarrow> (observation \<times> arp_detail) option" where
  "scan_request st =
     (case st of
        Reclassified _ \<Rightarrow> None
      | Observed obs \<Rightarrow>
          (case obs_arp obs of
             None \<Rightarrow> None
           | Some arp \<Rightarrow>
               if arp_op arp \<noteq> ArpRequest \<or> arp_gratuitous arp then None
               else if \<not> is_host_address (arp_target_ip arp) then None
               else Some (obs, arp)))"

definition scan_fresh :: scan_tracked where
  "scan_fresh = \<lparr>sk_targets = dw_new WINDOW_CAPACITY, sk_last_alert = None\<rparr>"

text \<open>What happens to the slot of one device: the count to report, if an alert fires.\<close>

definition scan_slot ::
  "ipv4_addr \<Rightarrow> time \<Rightarrow> duration \<Rightarrow> nat \<Rightarrow> scan_tracked \<Rightarrow> scan_tracked \<times> nat option"
where
  "scan_slot target now window threshold tr =
     (let (targets, n) = dw_record (sk_targets tr) target now window;
          tr1 = tr\<lparr>sk_targets := targets\<rparr>
      in if n < threshold then (tr1, None)
         else if \<not> cooled_down (sk_last_alert tr1) now window then (tr1, None)
         else (tr1\<lparr>sk_last_alert := Some now, sk_targets := dw_clear targets\<rparr>, Some n))"

definition scan_alert ::
  "observation \<Rightarrow> arp_detail \<Rightarrow> context_state \<Rightarrow> duration \<Rightarrow> nat \<Rightarrow> nat \<Rightarrow> security_alert"
where
  "scan_alert obs arp cx window threshold n =
     with_interface
       (new_alert ArpScan (obs_mac obs) (obs_at obs) (cx_priority cx)
         (JObj [(''analyzer'', JStr ''arp_scan''),
                (''distinct_targets'', jnat n),
                (''threshold'', jnat threshold),
                (''window_secs'', jnat (as_secs window)),
                (''latest_target'', JStr (show_ipv4 (arp_target_ip arp))),
                (''is_gateway'', JBool (is_gateway (cx_gateway cx) (obs_mac obs)))]))
       (obs_interface obs)"

definition scan_limit :: "arp_scan \<Rightarrow> context_state \<Rightarrow> mac_addr \<Rightarrow> nat" where
  "scan_limit s cx mac =
     (if is_gateway (cx_gateway cx) mac then scan_gateway_threshold s else scan_threshold s)"

definition scan_analyze :: "arp_scan \<Rightarrow> stimulus \<Rightarrow> context_state \<Rightarrow> security_alert list \<times> arp_scan" where
  "scan_analyze s st cx =
     (case scan_request st of
        None \<Rightarrow> ([], s)
      | Some (obs, arp) \<Rightarrow>
          (let threshold = scan_limit s cx (obs_mac obs);
               (m, fired) = bm_entry (scan_tracked s) (obs_mac obs) (obs_at obs) scan_fresh
                              (scan_slot (arp_target_ip arp) (obs_at obs) (scan_window s) threshold);
               s1 = s\<lparr>scan_tracked := m\<rparr>
           in case fired of
                None \<Rightarrow> ([], s1)
              | Some n \<Rightarrow> ([scan_alert obs arp cx (scan_window s) threshold n], s1)))"

subsection \<open>The contract\<close>

definition scan_key :: "stimulus \<Rightarrow> mac_addr option" where
  "scan_key st = map_option (\<lambda>(obs, _). obs_mac obs) (scan_request st)"

definition scan_slot_of :: "arp_scan \<Rightarrow> mac_addr \<Rightarrow> scan_tracked" where
  "scan_slot_of s mac = (case bm_get (scan_tracked s) mac of Some tr \<Rightarrow> tr | None \<Rightarrow> scan_fresh)"

definition scan_good :: "arp_scan \<Rightarrow> bool" where
  "scan_good s \<longleftrightarrow> bm_ok (scan_tracked s)
     \<and> (\<forall>mac tr. bm_get (scan_tracked s) mac = Some tr \<longrightarrow>
          dw_ok (sk_targets tr) \<and> dw_capacity (sk_targets tr) = WINDOW_CAPACITY)"

lemma scan_request_Some:
  "scan_request st = Some (obs, arp) \<Longrightarrow>
     st = Observed obs \<and> obs_arp obs = Some arp \<and> arp_op arp = ArpRequest \<and> \<not> arp_gratuitous arp
     \<and> is_host_address (arp_target_ip arp)"
  by (auto simp: scan_request_def split: stimulus.splits option.splits if_splits)

lemma scan_request_stimulus [simp]:
  "scan_request st = Some (obs, arp) \<Longrightarrow> stimulus_mac st = obs_mac obs"
  "scan_request st = Some (obs, arp) \<Longrightarrow> stimulus_at st = obs_at obs"
  by (auto dest: scan_request_Some)

lemma scan_analyze_request:
  assumes "scan_request st = Some (obs, arp)"
  shows "scan_analyze s st cx =
     (let r = scan_slot (arp_target_ip arp) (obs_at obs) (scan_window s) (scan_limit s cx (obs_mac obs))
                (scan_slot_of s (obs_mac obs))
      in (case snd r of None \<Rightarrow> []
          | Some n \<Rightarrow> [scan_alert obs arp cx (scan_window s) (scan_limit s cx (obs_mac obs)) n],
          s\<lparr>scan_tracked := bm_insert (scan_tracked s) (obs_mac obs) (fst r) (obs_at obs)\<rparr>))"
  by (simp add: scan_analyze_def assms bm_entry_insert scan_slot_of_def Let_def split: option.split)

lemma scan_analyze_other: "scan_request st = None \<Longrightarrow> scan_analyze s st cx = ([], s)"
  by (simp add: scan_analyze_def)

lemma scan_slot_ok:
  assumes "dw_ok (sk_targets tr)"
  shows "dw_ok (sk_targets (fst (scan_slot target now window threshold tr)))"
    and "dw_capacity (sk_targets (fst (scan_slot target now window threshold tr))) = dw_capacity (sk_targets tr)"
  using dw_record_ok [OF assms, of target now window]
  by (auto simp: scan_slot_def Let_def dw_clear_def dw_ok_def split: prod.split)

lemma scan_slot_stamp:
  "sk_last_alert (fst (scan_slot target now window threshold tr))
     = (if snd (scan_slot target now window threshold tr) = None then sk_last_alert tr else Some now)"
  "snd (scan_slot target now window threshold tr) \<noteq> None \<Longrightarrow> cooled_down (sk_last_alert tr) now window"
  by (auto simp: scan_slot_def Let_def split: prod.splits if_splits)

lemma scan_slot_of_ok:
  "scan_good s \<Longrightarrow> dw_ok (sk_targets (scan_slot_of s mac))
     \<and> dw_capacity (sk_targets (scan_slot_of s mac)) = WINDOW_CAPACITY"
  using dw_new_ok [of WINDOW_CAPACITY]
  by (simp add: scan_good_def scan_slot_of_def scan_fresh_def split: option.split)
    (simp add: dw_new_def WINDOW_CAPACITY_def)

lemma scan_good_step:
  assumes "scan_good s"
  shows "scan_good (snd (scan_analyze s st cx))"
proof (cases "scan_request st")
  case (Some p)
  obtain obs arp where p: "p = (obs, arp)" by (cases p)
  show ?thesis
    using assms scan_slot_of_ok [OF assms] scan_slot_ok
    by (auto simp: scan_analyze_request [OF Some [unfolded p]] Let_def scan_good_def bm_insert_ok
        dest!: bm_get_insert_cases)
qed (simp add: scan_analyze_other assms)

lemma scan_slot_of_stamp: "sk_last_alert (scan_slot_of s mac) = bm_get (scan_tracked s) mac \<bind> sk_last_alert"
  by (simp add: scan_slot_of_def scan_fresh_def split: option.split)

interpretation scan: slot_analyzer scan_analyze scan_good ArpScan scan_key scan_tracked sk_last_alert scan_window
proof
  fix s st cx and a :: security_alert
  show "scan_good s \<Longrightarrow> scan_good (snd (scan_analyze s st cx))" by (rule scan_good_step)
  show "al_event_type a = ArpScan \<and> al_mac a = stimulus_mac st \<and> al_at a = stimulus_at st"
    if "a \<in> set (fst (scan_analyze s st cx))"
    using that
    by (cases "scan_request st") (auto simp: scan_analyze_other scan_analyze_request Let_def scan_alert_def
        split: option.splits)
  show "length (fst (scan_analyze s st cx)) \<le> 1"
    by (cases "scan_request st") (auto simp: scan_analyze_other scan_analyze_request Let_def split: option.split)
  show "scan_good s \<Longrightarrow> bm_ok (scan_tracked s)" by (simp add: scan_good_def)
  show "scan_analyze s st cx = ([], s)
      \<or> (\<exists>k v. scan_key st = Some k
          \<and> scan_tracked (snd (scan_analyze s st cx)) = bm_insert (scan_tracked s) k v (stimulus_at st)
          \<and> scan_window (snd (scan_analyze s st cx)) = scan_window s
          \<and> (if fst (scan_analyze s st cx) = [] then sk_last_alert v = bm_get (scan_tracked s) k \<bind> sk_last_alert
             else sk_last_alert v = Some (stimulus_at st)
               \<and> cooled_down (bm_get (scan_tracked s) k \<bind> sk_last_alert) (stimulus_at st) (scan_window s)))"
  proof (cases "scan_request st")
    case (Some p)
    obtain obs arp where p: "p = (obs, arp)" by (cases p)
    let ?r = "scan_slot (arp_target_ip arp) (obs_at obs) (scan_window s) (scan_limit s cx (obs_mac obs))
                (scan_slot_of s (obs_mac obs))"
    show ?thesis
      using Some scan_slot_stamp [of "arp_target_ip arp" "obs_at obs" "scan_window s" _ "scan_slot_of s (obs_mac obs)"]
      by (intro disjI2 exI [of _ "obs_mac obs"] exI [of _ "fst ?r"])
        (auto simp: p scan_analyze_request scan_key_def Let_def scan_slot_of_stamp split: option.split)
  qed (simp add: scan_analyze_other)
qed

text \<open>
  As long as the devices that ask are no more than the analyzer tracks, two alerts about the
  same scanner are at least one window apart.
\<close>

theorem scan_alerts_spaced:
  assumes "card (scan.keys_of evs) \<le> n"
  shows "spaced (as_window cfg) None (scan.firings mac (scan_new cfg n) evs)"
proof -
  have g: "scan_good (scan_new cfg n)" by (simp add: scan_good_def scan_new_def)
  have k: "bm_keys (scan_tracked (scan_new cfg n)) = {}" by (simp add: scan_new_def bm_keys_def bm_new_def)
  have "bm_capacity (scan_tracked (scan_new cfg n)) = max n 1" "scan_window (scan_new cfg n) = as_window cfg"
    "scan.stamp_of (scan_new cfg n) mac = None"
    by (simp_all add: scan_new_def scan.stamp_of_def) (simp add: bm_new_def)
  then show ?thesis using scan.firings_spaced [OF g, of evs mac] assms k by simp
qed

subsection \<open>What it takes to be reported\<close>

fun request_target :: "mac_addr \<Rightarrow> stimulus \<times> context_state \<Rightarrow> ipv4_addr set" where
  "request_target mac (st, cx) =
     (case scan_request st of Some (obs, arp) \<Rightarrow> if obs_mac obs = mac then {arp_target_ip arp} else {} | None \<Rightarrow> {})"

definition scan_targets :: "mac_addr \<Rightarrow> (stimulus \<times> context_state) list \<Rightarrow> ipv4_addr set" where
  "scan_targets mac evs = (\<Union>e \<in> set evs. request_target mac e)"

lemma scan_targets_Cons: "scan_targets mac (e # evs) = request_target mac e \<union> scan_targets mac evs"
  by (simp add: scan_targets_def)

lemma finite_scan_targets: "finite (scan_targets mac evs)"
  by (auto simp: scan_targets_def split: option.split)

definition seen_targets :: "arp_scan \<Rightarrow> mac_addr \<Rightarrow> ipv4_addr set" where
  "seen_targets s mac = fst ` set (dw_seen (sk_targets (scan_slot_of s mac)))"

lemma scan_slot_of_insert:
  assumes "bm_ok (scan_tracked s)"
  shows "scan_slot_of (s\<lparr>scan_tracked := bm_insert (scan_tracked s) k tr now\<rparr>) mac
    \<in> (if mac = k then {tr} else {scan_slot_of s mac, scan_fresh})"
  using bm_get_insert(1) [OF assms, of k tr now] bm_get_insert(2) [OF assms, of mac k tr now]
  by (auto simp: scan_slot_of_def split: option.split)

lemma scan_slot_keys:
  "fst ` set (dw_seen (sk_targets (fst (scan_slot x now window threshold tr))))
     \<subseteq> insert x (fst ` set (dw_seen (sk_targets tr)))"
proof -
  obtain w n where p: "dw_record (sk_targets tr) x now window = (w, n)" by fastforce
  have "fst ` set (dw_seen w) \<subseteq> insert x (fst ` set (dw_seen (sk_targets tr)))"
    using dw_record_keys [of "sk_targets tr" x now window] by (simp add: p)
  then show ?thesis by (simp add: scan_slot_def p Let_def dw_clear_def)
qed

lemma scan_slot_fires:
  assumes "dw_ok (sk_targets tr)" and "snd (scan_slot x now window threshold tr) \<noteq> None"
  shows "threshold \<le> card (insert x (fst ` set (dw_seen (sk_targets tr))))"
proof -
  let ?w = "fst (dw_record (sk_targets tr) x now window)"
  have "threshold \<le> length (dw_seen ?w)"
    using assms(2) dw_record_ok(2) [OF assms(1), of x now window]
    by (auto simp: scan_slot_def Let_def split: prod.splits if_splits)
  also have "length (dw_seen ?w) = card (fst ` set (dw_seen ?w))"
    using dw_record_ok(1) [OF assms(1), of x now window]
    by (metis dw_ok_def distinct_card length_map list.set_map)
  also have "\<dots> \<le> card (insert x (fst ` set (dw_seen (sk_targets tr))))"
    by (intro card_mono dw_record_keys) simp
  finally show ?thesis .
qed

lemma few_targets_step:
  assumes "scan_good s" and "seen_targets s mac \<union> scan_targets mac [(st, cx)] \<subseteq> T" and "finite T"
    and "card T < scan_threshold s" and "scan_threshold s \<le> scan_gateway_threshold s"
  shows "list_all (\<lambda>a. al_mac a \<noteq> mac) (fst (scan_analyze s st cx)) \<and> seen_targets (snd (scan_analyze s st cx)) mac \<subseteq> T"
proof (cases "scan_request st")
  case None
  then show ?thesis using assms(2) by (simp add: scan_analyze_other)
next
  case (Some p)
  obtain obs arp where p: "p = (obs, arp)" by (cases p)
  note a = scan_analyze_request [OF Some [unfolded p], of s cx]
  have ok: "bm_ok (scan_tracked s)" using assms(1) by (simp add: scan_good_def)
  let ?tr = "scan_slot_of s (obs_mac obs)"
  let ?r = "scan_slot (arp_target_ip arp) (obs_at obs) (scan_window s) (scan_limit s cx (obs_mac obs)) ?tr"
  have lim: "scan_threshold s \<le> scan_limit s cx (obs_mac obs)"
    using assms(5) by (simp add: scan_limit_def)
  have fresh: "fst ` set (dw_seen (sk_targets scan_fresh)) = {}" by (simp add: scan_fresh_def dw_new_def)
  have s1: "scan_slot_of (snd (scan_analyze s st cx)) mac \<in> (if mac = obs_mac obs then {fst ?r} else {scan_slot_of s mac, scan_fresh})"
    using scan_slot_of_insert [OF ok, of "obs_mac obs" "fst ?r" "obs_at obs" mac]
    by (auto simp: a Let_def split: if_splits)
  show ?thesis
  proof (cases "obs_mac obs = mac")
    case False
    then have "list_all (\<lambda>a. al_mac a \<noteq> mac) (fst (scan_analyze s st cx))"
      by (auto simp: a Let_def scan_alert_def split: option.split)
    moreover have "seen_targets (snd (scan_analyze s st cx)) mac \<in> {seen_targets s mac, {}}"
      using s1 False fresh by (auto simp: seen_targets_def)
    ultimately show ?thesis using assms(2) by auto
  next
    case True
    have sub: "insert (arp_target_ip arp) (fst ` set (dw_seen (sk_targets ?tr))) \<subseteq> T"
      using assms(2) True Some by (simp add: scan_targets_Cons p seen_targets_def)
    have "snd ?r = None"
    proof (rule ccontr)
      assume "snd ?r \<noteq> None"
      from scan_slot_fires [OF _ this] scan_slot_of_ok [OF assms(1)]
      have "scan_limit s cx (obs_mac obs) \<le> card (insert (arp_target_ip arp) (fst ` set (dw_seen (sk_targets ?tr))))"
        by blast
      then show False using card_mono [OF assms(3) sub] lim assms(4) by linarith
    qed
    then have q: "fst (scan_analyze s st cx) = []" by (simp add: a Let_def)
    have t: "seen_targets (snd (scan_analyze s st cx)) mac
        \<subseteq> insert (arp_target_ip arp) (fst ` set (dw_seen (sk_targets ?tr)))"
      using s1 True scan_slot_keys [of "arp_target_ip arp" "obs_at obs" "scan_window s" _ ?tr]
      by (simp add: seen_targets_def)
    show ?thesis using q subset_trans [OF t sub] by simp
  qed
qed

lemma scan_constants:
  "scan_threshold (snd (scan_analyze s st cx)) = scan_threshold s"
  "scan_gateway_threshold (snd (scan_analyze s st cx)) = scan_gateway_threshold s"
  by (auto simp: scan_analyze_def Let_def split: option.split prod.split)

lemma few_targets_runs:
  assumes "scan_good s" and "seen_targets s mac \<union> scan_targets mac evs \<subseteq> T" and "finite T"
    and "card T < scan_threshold s" and "scan_threshold s \<le> scan_gateway_threshold s"
  shows "list_all (\<lambda>a. al_mac a \<noteq> mac) (fst (scan.runs s evs))"
  using assms
proof (induction evs arbitrary: s)
  case (Cons e evs)
  obtain st cx where e: "e = (st, cx)" by (cases e)
  have "seen_targets s mac \<union> scan_targets mac [(st, cx)] \<subseteq> T"
    using Cons.prems(2) by (auto simp: e scan_targets_Cons scan_targets_def)
  from few_targets_step [OF Cons.prems(1) this Cons.prems(3,4,5)]
  have step: "list_all (\<lambda>a. al_mac a \<noteq> mac) (fst (scan_analyze s st cx))"
    "seen_targets (snd (scan_analyze s st cx)) mac \<subseteq> T" by simp_all
  have "list_all (\<lambda>a. al_mac a \<noteq> mac) (fst (scan.runs (snd (scan_analyze s st cx)) evs))"
    using Cons.prems step(2)
    by (intro Cons.IH scan_good_step) (auto simp: e scan_targets_Cons scan_constants)
  then show ?case using step(1) by (simp add: e)
qed simp

lemma scan_new_good [simp]: "scan_good (scan_new cfg n)"
  by (simp add: scan_good_def scan_new_def)

text \<open>
  A device that asks for fewer different addresses than the threshold is never reported as a
  scanner, however many packets it sends and whatever the others do; retrying one address is no scan.
\<close>

theorem few_targets_no_alert:
  assumes "card (scan_targets mac evs) < as_threshold cfg"
  shows "list_all (\<lambda>a. al_mac a \<noteq> mac) (fst (scan.runs (scan_new cfg n) evs))"
proof (rule few_targets_runs)
  show "seen_targets (scan_new cfg n) mac \<union> scan_targets mac evs \<subseteq> scan_targets mac evs"
    by (simp add: seen_targets_def scan_slot_of_def scan_new_def scan_fresh_def dw_new_def)
  show "scan_good (scan_new cfg n)" by simp
qed (use assms in \<open>simp_all add: finite_scan_targets scan_new_def\<close>)

subsection \<open>A sweep is reported\<close>

lemma dw_record_new:
  assumes "dw_ok w" and "window \<le> delta_max" and "length (dw_seen w) < dw_capacity w"
    and "x \<notin> fst ` set (dw_seen w)" and "\<forall>(y, t) \<in> set (dw_seen w). now - t \<le> int window"
  shows "set (dw_seen (fst (dw_record w x now window))) = insert (x, now) (set (dw_seen w))"
    and "snd (dw_record w x now window) = Suc (length (dw_seen w))"
proof -
  have "from_std window = Some (int window)" using assms(2) by (simp add: from_std_def)
  note c = dw_record_contents [OF assms(1) this assms(3), of x now]
  have "now - t \<le> int window \<and> y \<noteq> x" if "(y, t) \<in> set (dw_seen w)" for y t
    using bspec [OF assms(5) that] imageI [OF that, of fst] assms(4) by auto
  then have "{(y, t). (y, t) \<in> set (dw_seen w) \<and> now - t \<le> int window \<and> y \<noteq> x} = set (dw_seen w)"
    by auto
  then show s: "set (dw_seen (fst (dw_record w x now window))) = insert (x, now) (set (dw_seen w))"
    using c by simp
  have d: "dw_ok v \<Longrightarrow> length (dw_seen v) = card (set (dw_seen v))" for v :: "'a distinct_window"
    by (metis distinct_card distinct_map dw_ok_def)
  have "(x, now) \<notin> set (dw_seen w)" using assms(4) by force
  then show "snd (dw_record w x now window) = Suc (length (dw_seen w))"
    using dw_record_ok(1,2) [OF assms(1), of x now window] s by (simp add: d assms(1))
qed

type_synonym scan_event = "observation \<times> arp_detail \<times> context_state"

definition scan_stream :: "scan_event list \<Rightarrow> (stimulus \<times> context_state) list" where
  "scan_stream reqs = map (\<lambda>(obs, _, cx). (Observed obs, cx)) reqs"

text \<open>Requests of one device that is not the gateway, each for another address, inside one window.\<close>

definition is_sweep :: "mac_addr \<Rightarrow> duration \<Rightarrow> scan_event list \<Rightarrow> bool" where
  "is_sweep mac window reqs \<longleftrightarrow>
     list_all (\<lambda>(obs, arp, cx). scan_request (Observed obs) = Some (obs, arp) \<and> obs_mac obs = mac
                  \<and> \<not> is_gateway (cx_gateway cx) mac) reqs
     \<and> distinct (map (\<lambda>(_, arp, _). arp_target_ip arp) reqs)
     \<and> list_all (\<lambda>(o1, _). list_all (\<lambda>(o2, _). obs_at o1 - obs_at o2 \<le> int window) reqs) reqs"

definition request_stamps :: "scan_event list \<Rightarrow> (ipv4_addr \<times> time) set" where
  "request_stamps reqs = (\<lambda>(obs, arp, _). (arp_target_ip arp, obs_at obs)) ` set reqs"

lemma sweep_step:
  assumes g: "scan_good s" and w: "scan_window s \<le> delta_max"
    and r: "scan_request st = Some (obs, arp)" and gw: "\<not> is_gateway (cx_gateway cx) (obs_mac obs)"
    and l: "sk_last_alert (scan_slot_of s (obs_mac obs)) = None"
    and n: "length (dw_seen (sk_targets (scan_slot_of s (obs_mac obs)))) = n" "n < WINDOW_CAPACITY"
    and x: "arp_target_ip arp \<notin> fst ` set (dw_seen (sk_targets (scan_slot_of s (obs_mac obs))))"
    and t: "\<forall>(y, t) \<in> set (dw_seen (sk_targets (scan_slot_of s (obs_mac obs)))). obs_at obs - t \<le> int (scan_window s)"
  shows "Suc n < scan_threshold s \<Longrightarrow> fst (scan_analyze s st cx) = []
      \<and> sk_last_alert (scan_slot_of (snd (scan_analyze s st cx)) (obs_mac obs)) = None
      \<and> length (dw_seen (sk_targets (scan_slot_of (snd (scan_analyze s st cx)) (obs_mac obs)))) = Suc n
      \<and> set (dw_seen (sk_targets (scan_slot_of (snd (scan_analyze s st cx)) (obs_mac obs))))
          = insert (arp_target_ip arp, obs_at obs) (set (dw_seen (sk_targets (scan_slot_of s (obs_mac obs)))))"
    and "scan_threshold s \<le> Suc n \<Longrightarrow> fst (scan_analyze s st cx)
      = [scan_alert obs arp cx (scan_window s) (scan_threshold s) (Suc n)]"
proof -
  let ?tr = "scan_slot_of s (obs_mac obs)"
  obtain v c where v: "dw_record (sk_targets ?tr) (arp_target_ip arp) (obs_at obs) (scan_window s) = (v, c)"
    by fastforce
  have ok: "dw_ok (sk_targets ?tr)" "dw_capacity (sk_targets ?tr) = WINDOW_CAPACITY"
    using scan_slot_of_ok [OF g, of "obs_mac obs"] by simp_all
  have "length (dw_seen (sk_targets ?tr)) < dw_capacity (sk_targets ?tr)" using ok(2) n by simp
  note new = dw_record_new [OF ok(1) w this x t]
  have c: "c = Suc n" "set (dw_seen v) = insert (arp_target_ip arp, obs_at obs) (set (dw_seen (sk_targets ?tr)))"
    "length (dw_seen v) = Suc n"
    using new n(1) v dw_record_ok(2) [OF ok(1), of "arp_target_ip arp" "obs_at obs" "scan_window s"] by simp_all
  have slot: "scan_slot_of (s\<lparr>scan_tracked := bm_insert (scan_tracked s) k tr now\<rparr>) k = tr" for k tr now
    using g by (simp add: scan_slot_of_def bm_get_insert(1) scan_good_def)
  have cd: "cooled_down None now cd" for now cd by (simp add: cooled_down_def)
  show "Suc n < scan_threshold s \<Longrightarrow> fst (scan_analyze s st cx) = []
      \<and> sk_last_alert (scan_slot_of (snd (scan_analyze s st cx)) (obs_mac obs)) = None
      \<and> length (dw_seen (sk_targets (scan_slot_of (snd (scan_analyze s st cx)) (obs_mac obs)))) = Suc n
      \<and> set (dw_seen (sk_targets (scan_slot_of (snd (scan_analyze s st cx)) (obs_mac obs))))
          = insert (arp_target_ip arp, obs_at obs) (set (dw_seen (sk_targets (scan_slot_of s (obs_mac obs)))))"
    by (simp add: scan_analyze_request [OF r] scan_limit_def gw scan_slot_def v c slot l)
  show "scan_threshold s \<le> Suc n \<Longrightarrow> fst (scan_analyze s st cx)
      = [scan_alert obs arp cx (scan_window s) (scan_threshold s) (Suc n)]"
    by (simp add: scan_analyze_request [OF r] scan_limit_def gw scan_slot_def v c l cd)
qed

lemma sweep_snoc:
  assumes "is_sweep mac window (reqs @ [(obs, arp, cx)])"
  shows "is_sweep mac window reqs" "scan_request (Observed obs) = Some (obs, arp)" "obs_mac obs = mac"
    "\<not> is_gateway (cx_gateway cx) mac" "arp_target_ip arp \<notin> fst ` request_stamps reqs"
    "\<forall>(y, t) \<in> request_stamps reqs. obs_at obs - t \<le> int window"
  using assms by (force simp: is_sweep_def request_stamps_def list_all_iff case_prod_beta)+

lemma scan_runs_constants:
  "scan_window (snd (scan.runs s evs)) = scan_window s \<and> scan_threshold (snd (scan.runs s evs)) = scan_threshold s"
proof (induction evs arbitrary: s)
  case (Cons e evs)
  obtain st cx where "e = (st, cx)" by (cases e)
  moreover have "scan_window (snd (scan_analyze s st cx)) = scan_window s"
    by (auto simp: scan_analyze_def Let_def split: option.split prod.split)
  ultimately show ?case using Cons by (simp add: scan_constants)
qed simp

lemma sweep_quiet:
  assumes "is_sweep mac (scan_window s) reqs" and "scan_good s" and "scan_window s \<le> delta_max"
    and "scan_slot_of s mac = scan_fresh" and "length reqs < scan_threshold s" and "length reqs < WINDOW_CAPACITY"
  shows "fst (scan.runs s (scan_stream reqs)) = []
    \<and> sk_last_alert (scan_slot_of (snd (scan.runs s (scan_stream reqs))) mac) = None
    \<and> length (dw_seen (sk_targets (scan_slot_of (snd (scan.runs s (scan_stream reqs))) mac))) = length reqs
    \<and> set (dw_seen (sk_targets (scan_slot_of (snd (scan.runs s (scan_stream reqs))) mac))) = request_stamps reqs"
  using assms(1,5,6)
proof (induction reqs rule: rev_induct)
  case Nil
  then show ?case by (simp add: scan_stream_def assms(4) scan_fresh_def dw_new_def request_stamps_def)
next
  case (snoc r reqs)
  obtain obs arp cx where r: "r = (obs, arp, cx)" by (cases r)
  note sw = sweep_snoc [OF snoc.prems(1) [unfolded r]]
  let ?s = "snd (scan.runs s (scan_stream reqs))"
  have IH: "fst (scan.runs s (scan_stream reqs)) = []"
    "sk_last_alert (scan_slot_of ?s mac) = None"
    "length (dw_seen (sk_targets (scan_slot_of ?s mac))) = length reqs"
    "set (dw_seen (sk_targets (scan_slot_of ?s mac))) = request_stamps reqs"
    using snoc.IH [OF sw(1)] snoc.prems(2,3) by simp_all
  have g: "scan_good ?s" by (rule scan.runs_good [OF assms(2)])
  have k: "scan_window ?s = scan_window s" "scan_threshold ?s = scan_threshold s"
    by (simp_all add: scan_runs_constants)
  have n: "length reqs < WINDOW_CAPACITY" "Suc (length reqs) < scan_threshold ?s"
    using snoc.prems(2,3) k by simp_all
  have step: "scan.runs s (scan_stream (reqs @ [r]))
      = (fst (scan_analyze ?s (Observed obs) cx), snd (scan_analyze ?s (Observed obs) cx))"
    using IH(1) by (simp add: scan_stream_def scan.runs_append r)
  from sweep_step(1) [OF g _ sw(2), of cx "length reqs"] n sw(3,4,5,6) IH k assms(3)
  show ?case unfolding step by (simp add: request_stamps_def r)
qed


subsection \<open>Concrete instances\<close>

lemma scan_request_frame:
  "is_host_address ip \<Longrightarrow> scan_request (Observed (request_frame mac ip t))
     = Some (request_frame mac ip t, \<lparr>arp_op = ArpRequest, arp_sender_mac = mac, arp_sender_ip = None,
             arp_target_ip = ip, arp_gratuitous = False\<rparr>)"
  by (simp add: scan_request_def)

lemma sample_hosts:
  "is_host_address (Ipv4Addr 10 0 0 1)" "is_host_address (Ipv4Addr 10 0 0 2)"
  by (simp_all add: is_host_address_def UNSPECIFIED4_def)

theorem scan_alerts_spaced_witness:
  "spaced (as_window default_arp_scan) None
     (scan.firings BROADCAST (scan_new default_arp_scan 1)
       [(Observed (request_frame BROADCAST (Ipv4Addr 10 0 0 1) 0), quiet_context)])"
  by (rule scan_alerts_spaced) (simp add: scan.keys_of_def scan_key_def scan_request_frame sample_hosts)

theorem few_targets_no_alert_witness:
  "list_all (\<lambda>a. al_mac a \<noteq> BROADCAST)
     (fst (scan.runs (scan_new default_arp_scan 1)
       [(Observed (request_frame BROADCAST (Ipv4Addr 10 0 0 1) 0), quiet_context),
        (Observed (request_frame BROADCAST (Ipv4Addr 10 0 0 1) 1), quiet_context)]))"
  by (rule few_targets_no_alert)
    (simp add: scan_targets_def scan_request_frame sample_hosts default_arp_scan_def)

definition sample_detail :: "ipv4_addr \<Rightarrow> arp_detail" where
  "sample_detail ip = \<lparr>arp_op = ArpRequest, arp_sender_mac = BROADCAST, arp_sender_ip = None,
     arp_target_ip = ip, arp_gratuitous = False\<rparr>"

definition sample_scan_event :: "byte \<Rightarrow> scan_event" where
  "sample_scan_event k = (request_frame BROADCAST (Ipv4Addr 10 0 0 k) 0, sample_detail (Ipv4Addr 10 0 0 k), quiet_context)"

lemma sample_sweep: "is_sweep BROADCAST (from_secs 30) [sample_scan_event 1, sample_scan_event 2]"
  by (simp add: is_sweep_def sample_scan_event_def sample_detail_def scan_request_frame sample_hosts)


end
