(* ===== verification/Arp_Spoof.thy ===== *)
theory Arp_Spoof
  imports Alert Config
begin

text \<open>
  \<^verbatim>\<open>src/analyze/arp_spoof.rs\<close>: a device claiming an address that another, still active device
  holds, or claiming the gateway's address at all.
\<close>

definition SPOOF_COOLDOWN :: duration where
  "SPOOF_COOLDOWN = secs 300"

record holder =
  ho_mac :: mac_addr
  ho_last_claim :: time
  ho_last_alert :: "time option"

record arp_spoof =
  spf_grace_period :: duration
  spf_holders :: "(ipv4_addr, holder) bounded_map"

definition spoof_new :: "arp_spoof_config \<Rightarrow> nat \<Rightarrow> arp_spoof" where
  "spoof_new cfg max_tracked = \<lparr>spf_grace_period = sp_grace_period cfg, spf_holders = bm_new max_tracked\<rparr>"

text \<open>The claim of an ARP packet, without the test on proxy ARP.\<close>

definition arp_claim :: "stimulus \<Rightarrow> (observation \<times> arp_detail \<times> ipv4_addr) option" where
  "arp_claim st =
     (case st of
        Reclassified _ \<Rightarrow> None
      | Observed obs \<Rightarrow>
          (case obs_arp obs of
             None \<Rightarrow> None
           | Some arp \<Rightarrow>
               (case arp_sender_ip arp of
                  None \<Rightarrow> None
                | Some claimed \<Rightarrow> if \<not> is_host_address claimed then None else Some (obs, arp, claimed))))"

definition gateway_impersonation :: "context_state \<Rightarrow> mac_addr \<Rightarrow> ipv4_addr \<Rightarrow> bool" where
  "gateway_impersonation cx mac claimed \<longleftrightarrow>
     is_gateway_ip (cx_gateway cx) claimed \<and> \<not> is_gateway (cx_gateway cx) mac"

definition held_by_other :: "holder option \<Rightarrow> mac_addr \<Rightarrow> (mac_addr \<times> time) option" where
  "held_by_other h mac =
     (case h of Some h \<Rightarrow> if ho_mac h \<noteq> mac then Some (ho_mac h, ho_last_claim h) else None | None \<Rightarrow> None)"

definition still_active :: "int option \<Rightarrow> duration \<Rightarrow> bool" where
  "still_active silence grace \<longleftrightarrow>
     (case silence of
        None \<Rightarrow> False
      | Some gap \<Rightarrow> (case to_std gap of Some elapsed \<Rightarrow> elapsed < grace | None \<Rightarrow> False))"

definition spoof_alert ::
  "observation \<Rightarrow> arp_detail \<Rightarrow> ipv4_addr \<Rightarrow> context_state \<Rightarrow> duration \<Rightarrow> (mac_addr \<times> time) option \<Rightarrow>
     int option \<Rightarrow> security_alert"
where
  "spoof_alert obs arp claimed cx grace held silence =
     with_interface
       (with_ip
         (new_alert ArpSpoof (obs_mac obs) (obs_at obs) (cx_priority cx)
           (JObj [(''analyzer'', JStr ''arp_spoof''),
                  (''claimed_ip'', JStr (show_ipv4 claimed)),
                  (''previous_holder'', jopt (\<lambda>(h, _). JStr (show_mac h)) held),
                  (''previous_holder_silent_secs'', jopt (\<lambda>gap. JNum (max (num_seconds gap) 0)) silence),
                  (''grace_period_secs'', jnat (as_secs grace)),
                  (''gateway_impersonation'', JBool (gateway_impersonation cx (obs_mac obs) claimed)),
                  (''forged_sender'', JBool (arp_sender_mac arp \<noteq> obs_mac obs)),
                  (''arp_sender_mac'', JStr (show_mac (arp_sender_mac arp)))]))
         (show_ipv4 claimed))
       (obs_interface obs)"

definition spoof_analyze ::
  "arp_spoof \<Rightarrow> stimulus \<Rightarrow> context_state \<Rightarrow> security_alert list \<times> arp_spoof"
where
  "spoof_analyze s st cx =
     (case arp_claim st of
        None \<Rightarrow> ([], s)
      | Some (obs, arp, claimed) \<Rightarrow>
          if proxy_arp_for (cx_gateway cx) obs \<noteq> None then ([], s)
          else
            let mac = obs_mac obs;
                now = obs_at obs;
                held = held_by_other (bm_get (spf_holders s) claimed) mac;
                silence = map_option (\<lambda>(_, lc). now - lc) held;
                last_alert = bm_get (spf_holders s) claimed \<bind> ho_last_alert;
                alerts = (if (gateway_impersonation cx mac claimed \<or> still_active silence (spf_grace_period s))
                             \<and> cooled_down last_alert now SPOOF_COOLDOWN
                          then [spoof_alert obs arp claimed cx (spf_grace_period s) held silence] else []);
                stamp = (if alerts \<noteq> [] then Some now else last_alert)
            in (alerts,
                s\<lparr>spf_holders := bm_insert (spf_holders s) claimed
                    \<lparr>ho_mac = mac, ho_last_claim = now, ho_last_alert = stamp\<rparr> now\<rparr>))"

subsection \<open>The contract\<close>

definition spoof_key :: "stimulus \<Rightarrow> ipv4_addr option" where
  "spoof_key st = map_option (\<lambda>(_, _, claimed). claimed) (arp_claim st)"

definition spoof_good :: "arp_spoof \<Rightarrow> bool" where
  "spoof_good s \<longleftrightarrow> bm_ok (spf_holders s)"

definition spoof_last :: "arp_spoof \<Rightarrow> ipv4_addr \<Rightarrow> time option" where
  "spoof_last s claimed = bm_get (spf_holders s) claimed \<bind> ho_last_alert"

definition spoof_held :: "arp_spoof \<Rightarrow> ipv4_addr \<Rightarrow> mac_addr \<Rightarrow> (mac_addr \<times> time) option" where
  "spoof_held s claimed mac = held_by_other (bm_get (spf_holders s) claimed) mac"

text \<open>Whether a claim is an attack in the analyzer's eyes, the cooldown aside.\<close>

definition hostile :: "arp_spoof \<Rightarrow> context_state \<Rightarrow> mac_addr \<Rightarrow> ipv4_addr \<Rightarrow> time \<Rightarrow> bool" where
  "hostile s cx mac claimed now \<longleftrightarrow>
     gateway_impersonation cx mac claimed
     \<or> (case bm_get (spf_holders s) claimed of
          Some h \<Rightarrow> ho_mac h \<noteq> mac \<and> 0 \<le> now - ho_last_claim h \<and> now - ho_last_claim h < int (spf_grace_period s)
        | None \<Rightarrow> False)"

lemma arp_claim_stimulus [simp]:
  "arp_claim st = Some (obs, arp, claimed) \<Longrightarrow> stimulus_mac st = obs_mac obs"
  "arp_claim st = Some (obs, arp, claimed) \<Longrightarrow> stimulus_at st = obs_at obs"
  by (auto simp: arp_claim_def split: stimulus.splits option.splits if_splits)

lemma hostile_iff:
  "(gateway_impersonation cx mac claimed
     \<or> still_active (map_option (\<lambda>(_, lc). now - lc) (spoof_held s claimed mac)) (spf_grace_period s))
   \<longleftrightarrow> hostile s cx mac claimed now"
  by (auto simp: hostile_def still_active_def spoof_held_def held_by_other_def to_std_def split: option.split)

lemma spoof_analyze_claim:
  assumes "arp_claim st = Some (obs, arp, claimed)" and "proxy_arp_for (cx_gateway cx) obs = None"
  shows "spoof_analyze s st cx =
     (let fires = hostile s cx (obs_mac obs) claimed (obs_at obs)
                  \<and> cooled_down (spoof_last s claimed) (obs_at obs) SPOOF_COOLDOWN;
          held = spoof_held s claimed (obs_mac obs)
      in (if fires then [spoof_alert obs arp claimed cx (spf_grace_period s) held
                           (map_option (\<lambda>(_, lc). obs_at obs - lc) held)] else [],
          s\<lparr>spf_holders := bm_insert (spf_holders s) claimed
              \<lparr>ho_mac = obs_mac obs, ho_last_claim = obs_at obs,
               ho_last_alert = (if fires then Some (obs_at obs) else spoof_last s claimed)\<rparr> (obs_at obs)\<rparr>))"
  using assms hostile_iff [of cx "obs_mac obs" claimed "obs_at obs" s]
  by (simp add: spoof_analyze_def Let_def spoof_held_def spoof_last_def)

lemma spoof_cases:
  obtains (idle) "spoof_analyze s st cx = ([], s)"
      "\<And>obs arp claimed. arp_claim st = Some (obs, arp, claimed) \<Longrightarrow> proxy_arp_for (cx_gateway cx) obs \<noteq> None"
  | (claimed) obs arp claimed where "arp_claim st = Some (obs, arp, claimed)"
      "proxy_arp_for (cx_gateway cx) obs = None"
proof (cases "arp_claim st")
  case None
  then show ?thesis using idle by (simp add: spoof_analyze_def)
next
  case (Some p)
  obtain obs arp c where p: "p = (obs, arp, c)" by (cases p)
  show ?thesis
  proof (cases "proxy_arp_for (cx_gateway cx) obs = None")
    case True
    then show ?thesis using claimed Some p by simp
  next
    case False
    then have "spoof_analyze s st cx = ([], s)" by (simp add: spoof_analyze_def Some p)
    then show ?thesis using idle Some p False by simp
  qed
qed

interpretation spoof: slot_analyzer spoof_analyze spoof_good ArpSpoof spoof_key spf_holders
  ho_last_alert "\<lambda>_. SPOOF_COOLDOWN"
proof
  fix s st cx and a :: security_alert
  show "spoof_good (snd (spoof_analyze s st cx))" if "spoof_good s"
    using that by (cases rule: spoof_cases [of s st cx])
      (simp_all add: spoof_analyze_claim Let_def spoof_good_def bm_insert_ok)
  show "al_event_type a = ArpSpoof \<and> al_mac a = stimulus_mac st \<and> al_at a = stimulus_at st"
    if "a \<in> set (fst (spoof_analyze s st cx))"
    using that by (cases rule: spoof_cases [of s st cx])
      (auto simp: spoof_analyze_claim Let_def spoof_alert_def split: if_splits)
  show "length (fst (spoof_analyze s st cx)) \<le> 1"
    by (cases rule: spoof_cases [of s st cx]) (auto simp: spoof_analyze_claim Let_def)
  show "spoof_good s \<Longrightarrow> bm_ok (spf_holders s)" by (simp add: spoof_good_def)
  show "spoof_analyze s st cx = ([], s)
      \<or> (\<exists>k v. spoof_key st = Some k
          \<and> spf_holders (snd (spoof_analyze s st cx)) = bm_insert (spf_holders s) k v (stimulus_at st)
          \<and> SPOOF_COOLDOWN = SPOOF_COOLDOWN
          \<and> (if fst (spoof_analyze s st cx) = [] then ho_last_alert v = bm_get (spf_holders s) k \<bind> ho_last_alert
             else ho_last_alert v = Some (stimulus_at st)
               \<and> cooled_down (bm_get (spf_holders s) k \<bind> ho_last_alert) (stimulus_at st) SPOOF_COOLDOWN))"
  proof (cases rule: spoof_cases [of s st cx])
    case (claimed obs arp c)
    let ?fires = "hostile s cx (obs_mac obs) c (obs_at obs) \<and> cooled_down (spoof_last s c) (obs_at obs) SPOOF_COOLDOWN"
    let ?h = "\<lparr>ho_mac = obs_mac obs, ho_last_claim = obs_at obs,
                ho_last_alert = (if ?fires then Some (obs_at obs) else spoof_last s c)\<rparr>"
    show ?thesis
      using claimed by (intro disjI2 exI [of _ c] exI [of _ ?h])
        (simp add: spoof_analyze_claim spoof_key_def Let_def spoof_last_def)
  qed simp
qed

subsection \<open>When a spoof is reported\<close>

lemma spoof_reported:
  "fst (spoof_analyze s st cx) \<noteq> [] \<longleftrightarrow>
     (\<exists>obs arp claimed. arp_claim st = Some (obs, arp, claimed) \<and> proxy_arp_for (cx_gateway cx) obs = None
        \<and> hostile s cx (obs_mac obs) claimed (obs_at obs)
        \<and> cooled_down (spoof_last s claimed) (obs_at obs) (secs 300))"
  by (cases rule: spoof_cases [of s st cx]) (auto simp: spoof_analyze_claim Let_def SPOOF_COOLDOWN_def)


end
