(* ===== verification/Rogue_Dhcp.thy ===== *)
theory Rogue_Dhcp
  imports Alert Config
begin

text \<open>
  \<^verbatim>\<open>src/analyze/rogue_dhcp.rs\<close>: an answer from a DHCP server that is not the configured or, with
  none configured, the first one heard.
\<close>

definition ROGUE_COOLDOWN :: duration where "ROGUE_COOLDOWN = secs 300"
definition MAX_ROGUES :: nat where "MAX_ROGUES = 32"

record rogue_dhcp =
  rog_configured :: "mac_addr list"
  rog_learned :: "mac_addr option"
  rog_alerted :: "(mac_addr \<times> time) list"

definition rogue_new :: "rogue_dhcp_config \<Rightarrow> rogue_dhcp" where
  "rogue_new cfg =
     \<lparr>rog_configured = List.map_filter (\<lambda>m. parse_mac (trim m)) (rd_known_servers cfg),
      rog_learned = None, rog_alerted = []\<rparr>"

definition is_legitimate :: "rogue_dhcp \<Rightarrow> mac_addr \<Rightarrow> bool" where
  "is_legitimate s mac \<longleftrightarrow>
     (if rog_configured s = [] then rog_learned s = Some mac else mac \<in> set (rog_configured s))"

definition rogue_last_alert :: "rogue_dhcp \<Rightarrow> mac_addr \<Rightarrow> time option" where
  "rogue_last_alert s mac = map_of (rog_alerted s) mac"

definition rogue_record_alert :: "rogue_dhcp \<Rightarrow> mac_addr \<Rightarrow> time \<Rightarrow> rogue_dhcp" where
  "rogue_record_alert s mac now = s\<lparr>rog_alerted := record_alert MAX_ROGUES (rog_alerted s) mac now\<rparr>"

definition server_answer :: "stimulus \<Rightarrow> (observation \<times> dhcp_detail) option" where
  "server_answer st =
     (case st of
        Reclassified _ \<Rightarrow> None
      | Observed obs \<Rightarrow>
          (case obs_dhcp obs of
             None \<Rightarrow> None
           | Some dhcp \<Rightarrow> if \<not> is_server_message (dhcp_message_type dhcp) then None else Some (obs, dhcp)))"

definition expected_server :: "rogue_dhcp \<Rightarrow> string" where
  "expected_server s =
     (if rog_configured s = [] then (case rog_learned s of Some m \<Rightarrow> show_mac m | None \<Rightarrow> [])
      else join '', '' (map show_mac (rog_configured s)))"

definition rogue_alert :: "rogue_dhcp \<Rightarrow> observation \<Rightarrow> dhcp_detail \<Rightarrow> context_state \<Rightarrow> security_alert" where
  "rogue_alert s obs dhcp cx =
     (let alert = with_interface
            (new_alert RogueDhcp (obs_mac obs) (obs_at obs) (cx_priority cx)
              (JObj [(''analyzer'', JStr ''rogue_dhcp''),
                     (''message_type'', JStr (message_type_str (dhcp_message_type dhcp))),
                     (''expected_server'', JStr (expected_server s)),
                     (''server_source'', JStr (if rog_configured s = [] then ''learned'' else ''configured'')),
                     (''offered_ip'', jopt (\<lambda>ip. JStr (show_ipv4 ip)) (dhcp_assigned_ip dhcp)),
                     (''offered_router'', jopt (\<lambda>ip. JStr (show_ipv4 ip)) (dhcp_router dhcp)),
                     (''client_mac'', jopt (\<lambda>m. JStr (show_mac m)) (dhcp_client_mac dhcp))]))
            (obs_interface obs)
      in case obs_ip obs of Some ip \<Rightarrow> with_ip alert (show_ip ip) | None \<Rightarrow> alert)"

definition rogue_analyze ::
  "rogue_dhcp \<Rightarrow> stimulus \<Rightarrow> context_state \<Rightarrow> security_alert list \<times> rogue_dhcp"
where
  "rogue_analyze s st cx =
     (case server_answer st of
        None \<Rightarrow> ([], s)
      | Some (obs, dhcp) \<Rightarrow>
          let mac = obs_mac obs; now = obs_at obs in
          if is_legitimate s mac then ([], s)
          else if rog_configured s = [] \<and> rog_learned s = None then ([], s\<lparr>rog_learned := Some mac\<rparr>)
          else if \<not> cooled_down (rogue_last_alert s mac) now ROGUE_COOLDOWN then ([], s)
          else
            let s1 = rogue_record_alert s mac now in
            ([rogue_alert s1 obs dhcp cx], s1))"

subsection \<open>The contract\<close>

definition rogue_key :: "stimulus \<Rightarrow> mac_addr option" where
  "rogue_key st = map_option (\<lambda>(obs, _). obs_mac obs) (server_answer st)"

definition rogue_good :: "rogue_dhcp \<Rightarrow> bool" where
  "rogue_good s \<longleftrightarrow> roster_ok MAX_ROGUES (rog_alerted s)"

lemma server_answer_stimulus [simp]:
  "server_answer st = Some (obs, dhcp) \<Longrightarrow> stimulus_mac st = obs_mac obs"
  "server_answer st = Some (obs, dhcp) \<Longrightarrow> stimulus_at st = obs_at obs"
  by (auto simp: server_answer_def split: stimulus.splits option.splits if_splits)

lemma rogue_cases:
  obtains (quiet) s' where "rogue_analyze s st cx = ([], s')" "rog_alerted s' = rog_alerted s"
  | (fires) obs dhcp where "server_answer st = Some (obs, dhcp)" "\<not> is_legitimate s (obs_mac obs)"
      "cooled_down (rogue_last_alert s (obs_mac obs)) (obs_at obs) ROGUE_COOLDOWN"
      "rogue_analyze s st cx = ([rogue_alert (rogue_record_alert s (obs_mac obs) (obs_at obs)) obs dhcp cx],
         rogue_record_alert s (obs_mac obs) (obs_at obs))"
proof (cases "server_answer st")
  case None
  then show ?thesis using quiet [of s] by (simp add: rogue_analyze_def)
next
  case (Some p)
  obtain obs dhcp where p: "p = (obs, dhcp)" by (cases p)
  consider (q) s' where "rogue_analyze s st cx = ([], s')" "rog_alerted s' = rog_alerted s"
    | (f) "\<not> is_legitimate s (obs_mac obs)"
      "cooled_down (rogue_last_alert s (obs_mac obs)) (obs_at obs) ROGUE_COOLDOWN"
      "rogue_analyze s st cx = ([rogue_alert (rogue_record_alert s (obs_mac obs) (obs_at obs)) obs dhcp cx],
         rogue_record_alert s (obs_mac obs) (obs_at obs))"
    by (cases "is_legitimate s (obs_mac obs)"; cases "rog_configured s = [] \<and> rog_learned s = None";
        cases "cooled_down (rogue_last_alert s (obs_mac obs)) (obs_at obs) ROGUE_COOLDOWN")
      (auto simp: rogue_analyze_def Some p Let_def)
  then show ?thesis using quiet fires Some p by cases blast+
qed

interpretation rogue: roster_analyzer rogue_analyze rogue_good RogueDhcp rogue_key rog_alerted MAX_ROGUES ROGUE_COOLDOWN
proof
  fix s st cx and a :: security_alert
  show "rogue_good (snd (rogue_analyze s st cx))" if "rogue_good s"
    using that by (cases rule: rogue_cases [of s st cx])
      (simp_all add: rogue_good_def rogue_record_alert_def record_alert_ok MAX_ROGUES_def)
  show "al_event_type a = RogueDhcp \<and> al_mac a = stimulus_mac st \<and> al_at a = stimulus_at st"
    if "a \<in> set (fst (rogue_analyze s st cx))"
    using that by (cases rule: rogue_cases [of s st cx])
      (auto simp: rogue_alert_def Let_def split: option.splits)
  show "length (fst (rogue_analyze s st cx)) \<le> 1"
    by (cases rule: rogue_cases [of s st cx]) simp_all
  show "rogue_good s \<Longrightarrow> roster_ok MAX_ROGUES (rog_alerted s)" by (simp add: rogue_good_def)
  show "fst (rogue_analyze s st cx) = [] \<and> rog_alerted (snd (rogue_analyze s st cx)) = rog_alerted s
      \<or> (\<exists>mac. rogue_key st = Some mac \<and> fst (rogue_analyze s st cx) \<noteq> []
          \<and> rog_alerted (snd (rogue_analyze s st cx)) = record_alert MAX_ROGUES (rog_alerted s) mac (stimulus_at st)
          \<and> cooled_down (map_of (rog_alerted s) mac) (stimulus_at st) ROGUE_COOLDOWN)"
    by (cases rule: rogue_cases [of s st cx])
      (auto simp: rogue_key_def rogue_record_alert_def rogue_last_alert_def)
qed

subsection \<open>Which servers are reported\<close>

lemma rogue_configured_kept: "rog_configured (snd (rogue_analyze s st cx)) = rog_configured s"
  by (auto simp: rogue_analyze_def rogue_record_alert_def Let_def split: option.split)

lemma runs_configured_kept: "rog_configured (snd (rogue.runs s evs)) = rog_configured s"
proof (induction evs arbitrary: s)
  case (Cons e evs)
  then show ?case by (cases e) (simp add: rogue_configured_kept)
qed simp

lemma rogue_spares_configured:
  "rog_configured s \<noteq> [] \<Longrightarrow> a \<in> set (fst (rogue_analyze s st cx)) \<Longrightarrow> al_mac a \<notin> set (rog_configured s)"
  by (cases rule: rogue_cases [of s st cx])
    (auto simp: is_legitimate_def rogue_alert_def Let_def split: option.splits)

lemma rogue_runs_spare:
  "rog_configured s \<noteq> [] \<Longrightarrow> a \<in> set (fst (rogue.runs s evs)) \<Longrightarrow> al_mac a \<notin> set (rog_configured s)"
proof (induction evs arbitrary: s)
  case (Cons e evs)
  obtain st cx where e: "e = (st, cx)" by (cases e)
  then show ?case
    using Cons rogue_spares_configured [of s a st cx]
      Cons.IH [of "snd (rogue_analyze s st cx)"] by (auto simp: rogue_configured_kept)
qed simp

text \<open>
  With servers configured nothing is learned from traffic: whatever came before, an answer of any
  other server is reported, unless that server was reported less than five minutes earlier, and a
  configured server is never reported.
\<close>

theorem configured_servers_decide:
  assumes "rog_configured (rogue_new cfg) \<noteq> []"
  shows "list_all (\<lambda>a. al_mac a \<notin> set (rog_configured (rogue_new cfg))) (fst (rogue.runs (rogue_new cfg) evs))
    \<and> (server_answer st = Some (obs, dhcp) \<and> obs_mac obs \<notin> set (rog_configured (rogue_new cfg))
        \<and> cooled_down (rogue_last_alert (snd (rogue.runs (rogue_new cfg) evs)) (obs_mac obs)) (obs_at obs) (secs 300)
       \<longrightarrow> fst (rogue_analyze (snd (rogue.runs (rogue_new cfg) evs)) st cx) \<noteq> [])"
proof -
  have "rog_configured (snd (rogue.runs (rogue_new cfg) evs)) = rog_configured (rogue_new cfg)"
    by (rule runs_configured_kept)
  then show ?thesis
    using assms rogue_runs_spare [OF assms]
    by (auto simp: list_all_iff rogue_analyze_def is_legitimate_def ROGUE_COOLDOWN_def Let_def)
qed

text \<open>
  With none configured the first server heard is trusted from then on and never reported.
\<close>

theorem first_server_trusted:
  assumes "rog_configured s = []" and "rog_learned s = None" and "server_answer st = Some (obs, dhcp)"
  shows "fst (rogue_analyze s st cx) = [] \<and> rog_learned (snd (rogue_analyze s st cx)) = Some (obs_mac obs)
    \<and> list_all (\<lambda>a. al_mac a \<noteq> obs_mac obs) (fst (rogue.runs (snd (rogue_analyze s st cx)) evs))"
proof -
  have first: "rogue_analyze s st cx = ([], s\<lparr>rog_learned := Some (obs_mac obs)\<rparr>)"
    using assms by (simp add: rogue_analyze_def is_legitimate_def Let_def)
  have step: "list_all (\<lambda>a. al_mac a \<noteq> m) (fst (rogue_analyze u st cx))
      \<and> rog_configured (snd (rogue_analyze u st cx)) = [] \<and> rog_learned (snd (rogue_analyze u st cx)) = Some m"
    if "rog_configured u = []" "rog_learned u = Some m" for u st cx m
    using that by (auto simp: rogue_analyze_def is_legitimate_def Let_def rogue_record_alert_def rogue_alert_def
        split: option.split prod.split)
  have "list_all (\<lambda>a. al_mac a \<noteq> m) (fst (rogue.runs u evs))"
    if "rog_configured u = []" "rog_learned u = Some m" for u m
    using that
  proof (induction evs arbitrary: u)
    case (Cons e evs)
    obtain st cx where "e = (st, cx)" by (cases e)
    then show ?case using Cons step [of u m st cx] by simp
  qed simp
  then show ?thesis using first assms(1) by simp
qed

subsection \<open>Concrete instances\<close>

lemma server_answer_offer:
  "server_answer (Observed (offer_frame mac r)) = Some (offer_frame mac r,
     \<lparr>dhcp_message_type = DhcpOffer, dhcp_client_mac = None, dhcp_assigned_ip = None, dhcp_router = Some r\<rparr>)"
  "obs_mac (offer_frame mac r) = mac" "obs_at (offer_frame mac r) = 0"
  by (simp_all add: server_answer_def offer_frame_def observation_defs obs_dhcp_def is_server_message_def)

theorem first_server_trusted_witness:
  "fst (rogue_analyze (rogue_new \<lparr>rd_enabled = True, rd_known_servers = []\<rparr>)
          (Observed (offer_frame BROADCAST (Ipv4Addr 10 0 0 1))) quiet_context) = []"
  using first_server_trusted [OF _ _ server_answer_offer(1), of "rogue_new \<lparr>rd_enabled = True, rd_known_servers = []\<rparr>"]
  by (simp add: rogue_new_def map_filter_simps)

theorem configured_servers_decide_witness:
  "fst (rogue_analyze (rogue_new \<lparr>rd_enabled = True, rd_known_servers = [show_mac (MacAddr 2 0 0 0 0 1)]\<rparr>)
          (Observed (offer_frame BROADCAST (Ipv4Addr 10 0 0 1))) quiet_context) \<noteq> []"
proof -
  let ?cfg = "\<lparr>rd_enabled = True, rd_known_servers = [show_mac (MacAddr 2 0 0 0 0 1)]\<rparr>"
  have c: "rog_configured (rogue_new ?cfg) = [MacAddr 2 0 0 0 0 1]"
    by (simp add: rogue_new_def map_filter_simps trim_show_mac)
  then have "rog_configured (rogue_new ?cfg) \<noteq> []" by simp
  from configured_servers_decide [OF this, of "[]" "Observed (offer_frame BROADCAST (Ipv4Addr 10 0 0 1))"
      "offer_frame BROADCAST (Ipv4Addr 10 0 0 1)"
      "\<lparr>dhcp_message_type = DhcpOffer, dhcp_client_mac = None, dhcp_assigned_ip = None,
        dhcp_router = Some (Ipv4Addr 10 0 0 1)\<rparr>" quiet_context]
  show ?thesis
    unfolding c by (simp add: server_answer_offer BROADCAST_def rogue_last_alert_def cooled_down_def)
      (simp add: rogue_new_def)
qed

end
