(* ===== verification/Ip_Conflict.thy ===== *)
theory Ip_Conflict
  imports Alert Config
begin

text \<open>
  \<^verbatim>\<open>src/analyze/ip_conflict.rs\<close>: two devices using one IPv4 address within a short time of each
  other, whatever kind of traffic shows it.
\<close>

definition CONFLICT_COOLDOWN :: duration where
  "CONFLICT_COOLDOWN = secs 600"

record address_users =
  us_latest :: "mac_addr \<times> time"
  us_previous :: "(mac_addr \<times> time) option"
  us_last_alert :: "time option"

record ip_conflict =
  conf_active_within :: duration
  conf_addresses :: "(ipv4_addr, address_users) bounded_map"

definition conflict_new :: "ip_conflict_config \<Rightarrow> nat \<Rightarrow> ip_conflict" where
  "conflict_new cfg max_tracked =
     \<lparr>conf_active_within = cf_active_within cfg, conf_addresses = bm_new max_tracked\<rparr>"

text \<open>The use of an address the analyzer counts, without the test on proxy ARP.\<close>

definition address_use :: "stimulus \<Rightarrow> (observation \<times> ipv4_addr) option" where
  "address_use st =
     (case st of
        Reclassified _ \<Rightarrow> None
      | Observed obs \<Rightarrow>
          (case obs_ip obs of
             Some (V4 address) \<Rightarrow> if \<not> is_host_address address then None else Some (obs, address)
           | _ \<Rightarrow> None))"

definition simultaneous :: "time \<Rightarrow> time \<Rightarrow> duration \<Rightarrow> bool" where
  "simultaneous now earlier active_within \<longleftrightarrow>
     (case to_std (now - earlier) of Some elapsed \<Rightarrow> elapsed \<le> active_within | None \<Rightarrow> False)"

text \<open>What happens to the slot of one address: the user displaced, if an alert fires.\<close>

definition conflict_slot ::
  "mac_addr \<Rightarrow> time \<Rightarrow> duration \<Rightarrow> address_users \<Rightarrow> address_users \<times> (mac_addr \<times> time) option"
where
  "conflict_slot mac now active_within us =
     (if fst (us_latest us) = mac then (us\<lparr>us_latest := (fst (us_latest us), now)\<rparr>, None)
      else
        let displaced = us_latest us;
            us1 = us\<lparr>us_previous := Some displaced, us_latest := (mac, now)\<rparr>
        in if \<not> simultaneous now (snd displaced) active_within then (us1, None)
           else if \<not> cooled_down (us_last_alert us1) now CONFLICT_COOLDOWN then (us1, None)
           else (us1\<lparr>us_last_alert := Some now\<rparr>, Some displaced))"

definition conflict_alert ::
  "observation \<Rightarrow> ipv4_addr \<Rightarrow> context_state \<Rightarrow> duration \<Rightarrow> mac_addr \<times> time \<Rightarrow> security_alert"
where
  "conflict_alert obs address cx active_within displaced =
     with_interface
       (with_ip
         (new_alert IpConflict (obs_mac obs) (obs_at obs) (cx_priority cx)
           (JObj [(''analyzer'', JStr ''ip_conflict''),
                  (''address'', JStr (show_ipv4 address)),
                  (''other_mac'', JStr (show_mac (fst displaced))),
                  (''seconds_apart'', JNum (max (num_seconds (obs_at obs - snd displaced)) 0)),
                  (''active_within_secs'', jnat (as_secs active_within)),
                  (''source'', JStr (obs_source obs))]))
         (show_ipv4 address))
       (obs_interface obs)"

definition conflict_analyze ::
  "ip_conflict \<Rightarrow> stimulus \<Rightarrow> context_state \<Rightarrow> security_alert list \<times> ip_conflict"
where
  "conflict_analyze s st cx =
     (case address_use st of
        None \<Rightarrow> ([], s)
      | Some (obs, address) \<Rightarrow>
          if proxy_arp_for (cx_gateway cx) obs \<noteq> None then ([], s)
          else
            let (m, fired) = bm_entry (conf_addresses s) address (obs_at obs)
                    \<lparr>us_latest = (obs_mac obs, obs_at obs), us_previous = None, us_last_alert = None\<rparr>
                    (conflict_slot (obs_mac obs) (obs_at obs) (conf_active_within s));
                s1 = s\<lparr>conf_addresses := m\<rparr>
            in case fired of
                 None \<Rightarrow> ([], s1)
               | Some displaced \<Rightarrow>
                   ([conflict_alert obs address cx (conf_active_within s) displaced], s1))"

subsection \<open>The contract\<close>

definition conflict_key :: "stimulus \<Rightarrow> ipv4_addr option" where
  "conflict_key st = map_option snd (address_use st)"

definition conflict_good :: "ip_conflict \<Rightarrow> bool" where
  "conflict_good s \<longleftrightarrow> bm_ok (conf_addresses s)"

definition users_of :: "ip_conflict \<Rightarrow> ipv4_addr \<Rightarrow> mac_addr \<Rightarrow> time \<Rightarrow> address_users" where
  "users_of s address mac now =
     (case bm_get (conf_addresses s) address of
        Some us \<Rightarrow> us
      | None \<Rightarrow> \<lparr>us_latest = (mac, now), us_previous = None, us_last_alert = None\<rparr>)"

lemma address_use_stimulus [simp]:
  "address_use st = Some (obs, address) \<Longrightarrow> stimulus_mac st = obs_mac obs"
  "address_use st = Some (obs, address) \<Longrightarrow> stimulus_at st = obs_at obs"
  by (auto simp: address_use_def split: stimulus.splits option.splits ip_addr.splits if_splits)

lemma conflict_analyze_use:
  assumes "address_use st = Some (obs, address)" and "proxy_arp_for (cx_gateway cx) obs = None"
  shows "conflict_analyze s st cx =
     (let r = conflict_slot (obs_mac obs) (obs_at obs) (conf_active_within s)
                (users_of s address (obs_mac obs) (obs_at obs))
      in (case snd r of None \<Rightarrow> []
          | Some displaced \<Rightarrow> [conflict_alert obs address cx (conf_active_within s) displaced],
          s\<lparr>conf_addresses := bm_insert (conf_addresses s) address (fst r) (obs_at obs)\<rparr>))"
  by (simp add: conflict_analyze_def assms bm_entry_insert users_of_def Let_def split: option.split)

lemma conflict_analyze_other:
  "address_use st = None \<Longrightarrow> conflict_analyze s st cx = ([], s)"
  "address_use st = Some (obs, address) \<Longrightarrow> proxy_arp_for (cx_gateway cx) obs \<noteq> None \<Longrightarrow>
     conflict_analyze s st cx = ([], s)"
  by (simp_all add: conflict_analyze_def)

lemma conflict_cases:
  obtains (idle) "conflict_analyze s st cx = ([], s)"
      "\<And>obs address. address_use st = Some (obs, address) \<Longrightarrow> proxy_arp_for (cx_gateway cx) obs \<noteq> None"
  | (used) obs address where "address_use st = Some (obs, address)" "proxy_arp_for (cx_gateway cx) obs = None"
proof (cases "address_use st")
  case None
  then show ?thesis using idle by (simp add: conflict_analyze_def)
next
  case (Some p)
  obtain obs address where "p = (obs, address)" by (cases p)
  then show ?thesis
    using Some idle used conflict_analyze_other(2) [of st obs address cx s]
    by (cases "proxy_arp_for (cx_gateway cx) obs") auto
qed

lemma conflict_slot_stamp:
  "us_last_alert (fst (conflict_slot mac now w us))
     = (if snd (conflict_slot mac now w us) = None then us_last_alert us else Some now)"
  "snd (conflict_slot mac now w us) \<noteq> None \<Longrightarrow> cooled_down (us_last_alert us) now CONFLICT_COOLDOWN"
  by (auto simp: conflict_slot_def Let_def split: if_splits)

lemma users_of_stamp: "us_last_alert (users_of s address mac now) = bm_get (conf_addresses s) address \<bind> us_last_alert"
  by (simp add: users_of_def split: option.split)

interpretation conflict: slot_analyzer conflict_analyze conflict_good IpConflict conflict_key conf_addresses
  us_last_alert "\<lambda>_. CONFLICT_COOLDOWN"
proof
  fix s st cx and a :: security_alert
  show "conflict_good (snd (conflict_analyze s st cx))" if "conflict_good s"
    using that by (cases rule: conflict_cases [of s st cx])
      (simp_all add: conflict_analyze_use Let_def conflict_good_def bm_insert_ok)
  show "al_event_type a = IpConflict \<and> al_mac a = stimulus_mac st \<and> al_at a = stimulus_at st"
    if "a \<in> set (fst (conflict_analyze s st cx))"
    using that by (cases rule: conflict_cases [of s st cx])
      (auto simp: conflict_analyze_use Let_def conflict_alert_def split: option.splits)
  show "length (fst (conflict_analyze s st cx)) \<le> 1"
    by (cases rule: conflict_cases [of s st cx])
      (auto simp: conflict_analyze_use Let_def split: option.split)
  show "conflict_good s \<Longrightarrow> bm_ok (conf_addresses s)" by (simp add: conflict_good_def)
  show "conflict_analyze s st cx = ([], s)
      \<or> (\<exists>k v. conflict_key st = Some k
          \<and> conf_addresses (snd (conflict_analyze s st cx)) = bm_insert (conf_addresses s) k v (stimulus_at st)
          \<and> CONFLICT_COOLDOWN = CONFLICT_COOLDOWN
          \<and> (if fst (conflict_analyze s st cx) = [] then us_last_alert v = bm_get (conf_addresses s) k \<bind> us_last_alert
             else us_last_alert v = Some (stimulus_at st)
               \<and> cooled_down (bm_get (conf_addresses s) k \<bind> us_last_alert) (stimulus_at st) CONFLICT_COOLDOWN))"
  proof (cases rule: conflict_cases [of s st cx])
    case (used obs address)
    let ?us = "users_of s address (obs_mac obs) (obs_at obs)"
    let ?r = "conflict_slot (obs_mac obs) (obs_at obs) (conf_active_within s) ?us"
    show ?thesis
      using used conflict_slot_stamp [of "obs_mac obs" "obs_at obs" "conf_active_within s" ?us]
      by (intro disjI2 exI [of _ address] exI [of _ "fst ?r"])
        (auto simp: conflict_analyze_use conflict_key_def Let_def users_of_stamp split: option.split)
  qed simp
qed

subsection \<open>When a conflict is reported\<close>

text \<open>
  An alert means that another device, not the one reported, was the last to use the address, at
  most \<open>active_within\<close> earlier; and whenever that is so the alert fires unless one for the same address
  is less than ten minutes old. The answer of a proxying gateway never counts as use.
\<close>

theorem conflict_reported_iff:
  "fst (conflict_analyze s st cx) \<noteq> [] \<longleftrightarrow>
     (\<exists>obs address us. address_use st = Some (obs, address) \<and> proxy_arp_for (cx_gateway cx) obs = None
        \<and> bm_get (conf_addresses s) address = Some us
        \<and> fst (us_latest us) \<noteq> obs_mac obs
        \<and> 0 \<le> obs_at obs - snd (us_latest us)
        \<and> obs_at obs - snd (us_latest us) \<le> int (conf_active_within s)
        \<and> cooled_down (us_last_alert us) (obs_at obs) (secs 600))"
proof (cases rule: conflict_cases [of s st cx])
  case idle
  then show ?thesis by auto
next
  case (used obs address)
  have sim: "simultaneous now earlier w \<longleftrightarrow> 0 \<le> now - earlier \<and> now - earlier \<le> int w" for now earlier w
    by (auto simp: simultaneous_def to_std_def)
  show ?thesis
  proof (cases "bm_get (conf_addresses s) address")
    case None
    then show ?thesis
      using used by (simp add: conflict_analyze_use Let_def users_of_def conflict_slot_def)
  next
    case (Some us)
    then show ?thesis
      using used by (auto simp: conflict_analyze_use Let_def users_of_def conflict_slot_def sim CONFLICT_COOLDOWN_def)
  qed
qed

end
