(* ===== verification/Gratuitous_Arp.thy ===== *)
theory Gratuitous_Arp
  imports Alert Config
begin

text \<open>
  \<^verbatim>\<open>src/analyze/gratuitous_arp.rs\<close>: one device announcing its address over and over.
\<close>

definition FLOOD_WINDOW_CAPACITY :: nat where "FLOOD_WINDOW_CAPACITY = 256"

record flood_tracked =
  ft_announcements :: rate_window
  ft_last_alert :: "time option"

record gratuitous_arp =
  flood_window :: duration
  flood_threshold :: nat
  flood_tracked :: "(mac_addr, flood_tracked) bounded_map"

definition flood_new :: "gratuitous_arp_config \<Rightarrow> nat \<Rightarrow> gratuitous_arp" where
  "flood_new cfg max_tracked =
     \<lparr>flood_window = ga_window cfg, flood_threshold = max (ga_threshold cfg) 1,
      flood_tracked = bm_new max_tracked\<rparr>"

text \<open>\<^verbatim>\<open>Duration::saturating_mul\<close>: the longest duration is \<open>u64::MAX\<close> seconds and 999999999 ns.\<close>

definition duration_max :: duration where
  "duration_max = 2 ^ 64 * 1000000000 - 1"

definition saturating_mul :: "duration \<Rightarrow> nat \<Rightarrow> duration" where
  "saturating_mul d n = min (d * n) duration_max"

definition flood_cooldown :: "gratuitous_arp \<Rightarrow> duration" where
  "flood_cooldown s = saturating_mul (flood_window s) 10"

definition flood_announcement :: "stimulus \<Rightarrow> (observation \<times> arp_detail) option" where
  "flood_announcement st =
     (case st of
        Reclassified _ \<Rightarrow> None
      | Observed obs \<Rightarrow>
          (case obs_arp obs of
             None \<Rightarrow> None
           | Some arp \<Rightarrow> if \<not> arp_gratuitous arp then None else Some (obs, arp)))"

definition flood_fresh :: flood_tracked where
  "flood_fresh = \<lparr>ft_announcements = rw_new FLOOD_WINDOW_CAPACITY, ft_last_alert = None\<rparr>"

definition flood_slot ::
  "time \<Rightarrow> duration \<Rightarrow> nat \<Rightarrow> duration \<Rightarrow> flood_tracked \<Rightarrow> flood_tracked \<times> nat option"
where
  "flood_slot now window threshold cooldown tr =
     (let (announcements, n) = rw_record (ft_announcements tr) now window;
          tr1 = tr\<lparr>ft_announcements := announcements\<rparr>
      in if n < threshold then (tr1, None)
         else if \<not> cooled_down (ft_last_alert tr1) now cooldown then (tr1, None)
         else (tr1\<lparr>ft_last_alert := Some now, ft_announcements := rw_clear announcements\<rparr>, Some n))"

definition flood_alert ::
  "observation \<Rightarrow> arp_detail \<Rightarrow> context_state \<Rightarrow> duration \<Rightarrow> nat \<Rightarrow> nat \<Rightarrow> security_alert"
where
  "flood_alert obs arp cx window threshold n =
     (let alert = with_interface
            (new_alert GratuitousArp (obs_mac obs) (obs_at obs) (cx_priority cx)
              (JObj [(''analyzer'', JStr ''gratuitous_arp''),
                     (''announcements'', jnat n),
                     (''threshold'', jnat threshold),
                     (''window_secs'', jnat (as_secs window)),
                     (''announced_ip'', JStr (show_ipv4 (arp_target_ip arp)))]))
            (obs_interface obs)
      in case arp_sender_ip arp of
           Some sender \<Rightarrow> with_ip alert (show_ipv4 sender)
         | None \<Rightarrow> alert)"

definition flood_analyze ::
  "gratuitous_arp \<Rightarrow> stimulus \<Rightarrow> context_state \<Rightarrow> security_alert list \<times> gratuitous_arp"
where
  "flood_analyze s st cx =
     (case flood_announcement st of
        None \<Rightarrow> ([], s)
      | Some (obs, arp) \<Rightarrow>
          (let (m, fired) = bm_entry (flood_tracked s) (obs_mac obs) (obs_at obs) flood_fresh
                              (flood_slot (obs_at obs) (flood_window s) (flood_threshold s) (flood_cooldown s));
               s1 = s\<lparr>flood_tracked := m\<rparr>
           in case fired of
                None \<Rightarrow> ([], s1)
              | Some n \<Rightarrow> ([flood_alert obs arp cx (flood_window s) (flood_threshold s) n], s1)))"

subsection \<open>The contract\<close>

definition flood_key :: "stimulus \<Rightarrow> mac_addr option" where
  "flood_key st = map_option (\<lambda>(obs, _). obs_mac obs) (flood_announcement st)"

definition flood_slot_of :: "gratuitous_arp \<Rightarrow> mac_addr \<Rightarrow> flood_tracked" where
  "flood_slot_of s mac = (case bm_get (flood_tracked s) mac of Some tr \<Rightarrow> tr | None \<Rightarrow> flood_fresh)"

definition flood_good :: "gratuitous_arp \<Rightarrow> bool" where
  "flood_good s \<longleftrightarrow> bm_ok (flood_tracked s)
     \<and> (\<forall>mac tr. bm_get (flood_tracked s) mac = Some tr \<longrightarrow> rw_ok (ft_announcements tr))"

lemma flood_announcement_stimulus [simp]:
  "flood_announcement st = Some (obs, arp) \<Longrightarrow> stimulus_mac st = obs_mac obs"
  "flood_announcement st = Some (obs, arp) \<Longrightarrow> stimulus_at st = obs_at obs"
  by (auto simp: flood_announcement_def split: stimulus.splits option.splits if_splits)

lemma flood_analyze_announcement:
  assumes "flood_announcement st = Some (obs, arp)"
  shows "flood_analyze s st cx =
     (let r = flood_slot (obs_at obs) (flood_window s) (flood_threshold s) (flood_cooldown s)
                (flood_slot_of s (obs_mac obs))
      in (case snd r of None \<Rightarrow> []
          | Some n \<Rightarrow> [flood_alert obs arp cx (flood_window s) (flood_threshold s) n],
          s\<lparr>flood_tracked := bm_insert (flood_tracked s) (obs_mac obs) (fst r) (obs_at obs)\<rparr>))"
  by (simp add: flood_analyze_def assms bm_entry_insert flood_slot_of_def Let_def split: option.split)

lemma flood_analyze_other: "flood_announcement st = None \<Longrightarrow> flood_analyze s st cx = ([], s)"
  by (simp add: flood_analyze_def)

lemma flood_slot_ok:
  "rw_ok (ft_announcements tr) \<Longrightarrow> rw_ok (ft_announcements (fst (flood_slot now window threshold cd tr)))"
  using rw_record_ok(1) [of "ft_announcements tr" now window]
  by (auto simp: flood_slot_def Let_def rw_clear_def rw_ok_def split: prod.split)

lemma flood_slot_stamp:
  "ft_last_alert (fst (flood_slot now window threshold cd tr))
     = (if snd (flood_slot now window threshold cd tr) = None then ft_last_alert tr else Some now)"
  "snd (flood_slot now window threshold cd tr) \<noteq> None \<Longrightarrow> cooled_down (ft_last_alert tr) now cd"
  by (auto simp: flood_slot_def Let_def split: prod.splits if_splits)

lemma flood_slot_of_ok: "flood_good s \<Longrightarrow> rw_ok (ft_announcements (flood_slot_of s mac))"
  by (simp add: flood_good_def flood_slot_of_def flood_fresh_def split: option.split)

lemma flood_slot_of_stamp: "ft_last_alert (flood_slot_of s mac) = bm_get (flood_tracked s) mac \<bind> ft_last_alert"
  by (simp add: flood_slot_of_def flood_fresh_def split: option.split)

lemma flood_good_step:
  assumes "flood_good s"
  shows "flood_good (snd (flood_analyze s st cx))"
proof (cases "flood_announcement st")
  case (Some p)
  obtain obs arp where p: "p = (obs, arp)" by (cases p)
  show ?thesis
    using assms flood_slot_of_ok [OF assms] flood_slot_ok
    by (auto simp: flood_analyze_announcement [OF Some [unfolded p]] Let_def flood_good_def bm_insert_ok
        dest!: bm_get_insert_cases)
qed (simp add: flood_analyze_other assms)

interpretation flood: slot_analyzer flood_analyze flood_good GratuitousArp flood_key flood_tracked
  ft_last_alert flood_cooldown
proof
  fix s st cx and a :: security_alert
  show "flood_good s \<Longrightarrow> flood_good (snd (flood_analyze s st cx))" by (rule flood_good_step)
  show "al_event_type a = GratuitousArp \<and> al_mac a = stimulus_mac st \<and> al_at a = stimulus_at st"
    if "a \<in> set (fst (flood_analyze s st cx))"
    using that
    by (cases "flood_announcement st")
      (auto simp: flood_analyze_other flood_analyze_announcement Let_def flood_alert_def split: option.splits)
  show "length (fst (flood_analyze s st cx)) \<le> 1"
    by (cases "flood_announcement st")
      (auto simp: flood_analyze_other flood_analyze_announcement Let_def split: option.split)
  show "flood_good s \<Longrightarrow> bm_ok (flood_tracked s)" by (simp add: flood_good_def)
  show "flood_analyze s st cx = ([], s)
      \<or> (\<exists>k v. flood_key st = Some k
          \<and> flood_tracked (snd (flood_analyze s st cx)) = bm_insert (flood_tracked s) k v (stimulus_at st)
          \<and> flood_cooldown (snd (flood_analyze s st cx)) = flood_cooldown s
          \<and> (if fst (flood_analyze s st cx) = [] then ft_last_alert v = bm_get (flood_tracked s) k \<bind> ft_last_alert
             else ft_last_alert v = Some (stimulus_at st)
               \<and> cooled_down (bm_get (flood_tracked s) k \<bind> ft_last_alert) (stimulus_at st) (flood_cooldown s)))"
  proof (cases "flood_announcement st")
    case (Some p)
    obtain obs arp where p: "p = (obs, arp)" by (cases p)
    let ?r = "flood_slot (obs_at obs) (flood_window s) (flood_threshold s) (flood_cooldown s)
                (flood_slot_of s (obs_mac obs))"
    show ?thesis
      using Some flood_slot_stamp [of "obs_at obs" "flood_window s" _ "flood_cooldown s" "flood_slot_of s (obs_mac obs)"]
      by (intro disjI2 exI [of _ "obs_mac obs"] exI [of _ "fst ?r"])
        (auto simp: p flood_analyze_announcement flood_key_def Let_def flood_slot_of_stamp flood_cooldown_def
          split: option.split)
  qed (simp add: flood_analyze_other)
qed

lemma flood_new_good [simp]: "flood_good (flood_new cfg n)"
  by (simp add: flood_good_def flood_new_def)

text \<open>
  With room for every device that announces itself, two alerts about the same flooder are at
  least ten windows apart.
\<close>

theorem flood_alerts_spaced:
  assumes "card (flood.keys_of evs) \<le> n" and "ga_window cfg * 10 \<le> duration_max"
  shows "spaced (ga_window cfg * 10) None (flood.firings mac (flood_new cfg n) evs)"
proof -
  note spaced = flood.firings_spaced [OF flood_new_good [of cfg n], where evs = evs and k = mac]
  have k: "bm_keys (flood_tracked (flood_new cfg n)) = {}" by (simp add: flood_new_def bm_keys_def bm_new_def)
  have "bm_capacity (flood_tracked (flood_new cfg n)) = max n 1"
    "flood_cooldown (flood_new cfg n) = ga_window cfg * 10" "flood.stamp_of (flood_new cfg n) mac = None"
    using assms(2)
    by (simp_all add: flood_new_def flood.stamp_of_def flood_cooldown_def saturating_mul_def)
      (simp add: bm_new_def)
  then show ?thesis using spaced assms(1) k by simp
qed

theorem flood_alerts_spaced_witness:
  "spaced (ga_window default_gratuitous_arp * 10) None
     (flood.firings BROADCAST (flood_new default_gratuitous_arp 1)
       [(Observed (announce_frame BROADCAST (Ipv4Addr 10 0 0 1) 0), quiet_context)])"
  by (rule flood_alerts_spaced)
    (simp_all add: flood.keys_of_def flood_key_def flood_announcement_def default_gratuitous_arp_def
      from_secs_def secs_def duration_max_def)

end
