(* ===== verification/Identity_Change.thy ===== *)
theory Identity_Change
  imports Alert Config
begin

text \<open>
  \<^verbatim>\<open>src/analyze/identity_change.rs\<close>: a device the classifier now takes for something else.
\<close>

definition IDENTITY_COOLDOWN :: duration where "IDENTITY_COOLDOWN = secs 3600"
definition MAX_TRACKED :: nat where "MAX_TRACKED = 512"

datatype sensitivity = Category | AnyChange

definition sensitivity_parse :: "string \<Rightarrow> sensitivity" where
  "sensitivity_parse raw = (if to_ascii_lowercase (trim raw) = ''any'' then AnyChange else Category)"

fun sensitivity_str :: "sensitivity \<Rightarrow> string" where
  "sensitivity_str Category = ''category''" |
  "sensitivity_str AnyChange = ''any''"

record identity_change =
  idc_sensitivity :: sensitivity
  idc_alerted :: "(mac_addr \<times> time) list"

definition identity_new :: "identity_change_config \<Rightarrow> identity_change" where
  "identity_new cfg = \<lparr>idc_sensitivity = sensitivity_parse (ic_sensitivity cfg), idc_alerted = []\<rparr>"

definition identity_last_alert :: "identity_change \<Rightarrow> mac_addr \<Rightarrow> time option" where
  "identity_last_alert s mac = map_of (idc_alerted s) mac"

definition identity_record_alert :: "identity_change \<Rightarrow> mac_addr \<Rightarrow> time \<Rightarrow> identity_change" where
  "identity_record_alert s mac now = s\<lparr>idc_alerted := record_alert MAX_TRACKED (idc_alerted s) mac now\<rparr>"

definition worth_alerting :: "sensitivity \<Rightarrow> reclassification \<Rightarrow> bool" where
  "worth_alerting sens r =
     (case sens of
        Category \<Rightarrow> changed_category (rc_current r) (rc_previous r)
      | AnyChange \<Rightarrow> changed_at_all (rc_current r) (rc_previous r))"

definition build_alert :: "reclassification \<Rightarrow> sensitivity \<Rightarrow> bool \<Rightarrow> event_priority \<Rightarrow> security_alert" where
  "build_alert r sens category priority =
     (let alert = new_alert IdentityChange (rc_mac r) (rc_at r) priority
            (JObj [(''analyzer'', JStr ''identity_change''),
                   (''sensitivity'', JStr (sensitivity_str sens)),
                   (''category_change'', JBool category),
                   (''previous_device_type'', jopt JStr (cl_device_type (rc_previous r))),
                   (''device_type'', jopt JStr (cl_device_type (rc_current r))),
                   (''previous_os_family'', jopt JStr (cl_os_family (rc_previous r))),
                   (''os_family'', jopt JStr (cl_os_family (rc_current r))),
                   (''confidence'', JRat (cl_confidence (rc_current r))),
                   (''reason'', jopt JStr (cl_reason (rc_current r)))])
      in case rc_interface r of Some i \<Rightarrow> with_interface alert i | None \<Rightarrow> alert)"

definition identity_analyze ::
  "identity_change \<Rightarrow> stimulus \<Rightarrow> context_state \<Rightarrow> security_alert list \<times> identity_change"
where
  "identity_analyze s st cx =
     (case st of
        Observed _ \<Rightarrow> ([], s)
      | Reclassified r \<Rightarrow>
          if \<not> worth_alerting (idc_sensitivity s) r then ([], s)
          else if \<not> cooled_down (identity_last_alert s (rc_mac r)) (rc_at r) IDENTITY_COOLDOWN then ([], s)
          else
            let s1 = identity_record_alert s (rc_mac r) (rc_at r);
                category = changed_category (rc_current r) (rc_previous r);
                priority = (if category then cx_priority cx else Normal)
            in ([build_alert r (idc_sensitivity s1) category priority], s1))"

subsection \<open>The contract\<close>

definition identity_key :: "stimulus \<Rightarrow> mac_addr option" where
  "identity_key st = (case st of Reclassified r \<Rightarrow> Some (rc_mac r) | Observed _ \<Rightarrow> None)"

definition identity_good :: "identity_change \<Rightarrow> bool" where
  "identity_good s \<longleftrightarrow> roster_ok MAX_TRACKED (idc_alerted s)"

lemma build_alert_simps [simp]:
  "al_event_type (build_alert r sens c p) = IdentityChange" "al_mac (build_alert r sens c p) = rc_mac r"
  "al_at (build_alert r sens c p) = rc_at r" "al_priority (build_alert r sens c p) = p"
  by (simp_all add: build_alert_def Let_def split: option.split)

lemma identity_cases:
  obtains (quiet) "identity_analyze s st cx = ([], s)"
      "\<And>r. st = Reclassified r \<Longrightarrow> \<not> worth_alerting (idc_sensitivity s) r
         \<or> \<not> cooled_down (identity_last_alert s (rc_mac r)) (rc_at r) IDENTITY_COOLDOWN"
  | (fires) r where "st = Reclassified r" "worth_alerting (idc_sensitivity s) r"
      "cooled_down (identity_last_alert s (rc_mac r)) (rc_at r) IDENTITY_COOLDOWN"
      "identity_analyze s st cx =
         ([build_alert r (idc_sensitivity s) (changed_category (rc_current r) (rc_previous r))
             (if changed_category (rc_current r) (rc_previous r) then cx_priority cx else Normal)],
          identity_record_alert s (rc_mac r) (rc_at r))"
proof (cases st)
  case (Observed obs)
  then show ?thesis using quiet by (simp add: identity_analyze_def)
next
  case (Reclassified r)
  then show ?thesis
    using quiet fires
    by (cases "worth_alerting (idc_sensitivity s) r";
        cases "cooled_down (identity_last_alert s (rc_mac r)) (rc_at r) IDENTITY_COOLDOWN")
      (simp_all add: identity_analyze_def Let_def identity_record_alert_def)
qed

interpretation turnover: roster_analyzer identity_analyze identity_good IdentityChange identity_key idc_alerted
  MAX_TRACKED IDENTITY_COOLDOWN
proof
  fix s st cx and a :: security_alert
  show "identity_good (snd (identity_analyze s st cx))" if "identity_good s"
    using that by (cases rule: identity_cases [of s st cx])
      (simp_all add: identity_good_def identity_record_alert_def record_alert_ok MAX_TRACKED_def)
  show "al_event_type a = IdentityChange \<and> al_mac a = stimulus_mac st \<and> al_at a = stimulus_at st"
    if "a \<in> set (fst (identity_analyze s st cx))"
    using that by (cases rule: identity_cases [of s st cx]) auto
  show "length (fst (identity_analyze s st cx)) \<le> 1"
    by (cases rule: identity_cases [of s st cx]) simp_all
  show "identity_good s \<Longrightarrow> roster_ok MAX_TRACKED (idc_alerted s)" by (simp add: identity_good_def)
  show "fst (identity_analyze s st cx) = [] \<and> idc_alerted (snd (identity_analyze s st cx)) = idc_alerted s
      \<or> (\<exists>mac. identity_key st = Some mac \<and> fst (identity_analyze s st cx) \<noteq> []
          \<and> idc_alerted (snd (identity_analyze s st cx)) = record_alert MAX_TRACKED (idc_alerted s) mac (stimulus_at st)
          \<and> cooled_down (map_of (idc_alerted s) mac) (stimulus_at st) IDENTITY_COOLDOWN)"
    by (cases rule: identity_cases [of s st cx])
      (auto simp: identity_key_def identity_record_alert_def identity_last_alert_def)
qed

subsection \<open>Which changes are reported\<close>

lemma changed_category_at_all: "changed_category c p \<Longrightarrow> changed_at_all c p"
  by (auto simp: changed_category_def changed_at_all_def changed_def split: option.splits)

text \<open>
  A first classification is never reported at the default sensitivity, and at the other one only
  at normal priority; a change of category is reported at the configured priority at either
  sensitivity, unless the device was reported in the last hour.
\<close>

theorem identity_change_policy:
  "case identity_analyze s (Reclassified r) cx of (alerts, _) \<Rightarrow>
     alerts = (if cooled_down (identity_last_alert s (rc_mac r)) (rc_at r) (secs 3600)
                  \<and> (changed_category (rc_current r) (rc_previous r)
                     \<or> idc_sensitivity s = AnyChange \<and> changed_at_all (rc_current r) (rc_previous r))
               then [build_alert r (idc_sensitivity s) (changed_category (rc_current r) (rc_previous r))
                       (if changed_category (rc_current r) (rc_previous r) then cx_priority cx else Normal)]
               else [])
     \<and> (rc_previous r = default_classification \<and> alerts \<noteq> []
          \<longrightarrow> idc_sensitivity s = AnyChange \<and> list_all (\<lambda>a. al_priority a = Normal) alerts)"
proof (cases rule: identity_cases [of s "Reclassified r" cx])
  case quiet
  then show ?thesis
    using changed_category_at_all [of "rc_current r" "rc_previous r"]
    by (cases "idc_sensitivity s") (auto simp: worth_alerting_def IDENTITY_COOLDOWN_def)
next
  case (fires r')
  then show ?thesis
    using changed_category_at_all [of "rc_current r" "rc_previous r"]
    by (cases "idc_sensitivity s")
      (auto simp: worth_alerting_def IDENTITY_COOLDOWN_def changed_category_def changed_def
        default_classification_def)
qed

definition sample_change :: reclassification where
  "sample_change =
     \<lparr>rc_mac = BROADCAST, rc_display_name = [], rc_previous = default_classification,
      rc_current = default_classification\<lparr>cl_device_type := Some ''printer''\<rparr>, rc_interface = None, rc_at = 0\<rparr>"

theorem identity_change_policy_witness:
  "list_all (\<lambda>a. al_priority a = Normal)
     (fst (identity_analyze \<lparr>idc_sensitivity = AnyChange, idc_alerted = []\<rparr> (Reclassified sample_change) quiet_context))
   \<and> fst (identity_analyze \<lparr>idc_sensitivity = AnyChange, idc_alerted = []\<rparr> (Reclassified sample_change) quiet_context) \<noteq> []"
  using identity_change_policy [of "\<lparr>idc_sensitivity = AnyChange, idc_alerted = []\<rparr>" sample_change quiet_context]
  by (auto simp: sample_change_def changed_at_all_def default_classification_def identity_last_alert_def
      cooled_down_def split: prod.splits)

end
