(* ===== verification/Chain.thy ===== *)
theory Chain
  imports Arp_Scan Arp_Spoof Rogue_Dhcp Ip_Conflict Gratuitous_Arp Identity_Change
begin

text \<open>
  The chain of \<^verbatim>\<open>src/analyze/mod.rs\<close>: the analyzers the configuration asks for, what they share,
  and the filter on exempt devices. A \<^verbatim>\<open>Box<dyn Analyzer>\<close> is one constructor per analyzer.
\<close>

datatype any_analyzer =
    ScanA arp_scan
  | SpoofA arp_spoof
  | RogueA rogue_dhcp
  | ConflictA ip_conflict
  | FloodA gratuitous_arp
  | IdentityA identity_change

fun analyzer_name :: "any_analyzer \<Rightarrow> string" where
  "analyzer_name (ScanA _) = ''arp_scan''" |
  "analyzer_name (SpoofA _) = ''arp_spoof''" |
  "analyzer_name (RogueA _) = ''rogue_dhcp''" |
  "analyzer_name (ConflictA _) = ''ip_conflict''" |
  "analyzer_name (FloodA _) = ''gratuitous_arp''" |
  "analyzer_name (IdentityA _) = ''identity_change''"

fun analyze_any :: "any_analyzer \<Rightarrow> stimulus \<Rightarrow> context_state \<Rightarrow> security_alert list \<times> any_analyzer" where
  "analyze_any (ScanA s) st cx = map_prod id ScanA (scan_analyze s st cx)" |
  "analyze_any (SpoofA s) st cx = map_prod id SpoofA (spoof_analyze s st cx)" |
  "analyze_any (RogueA s) st cx = map_prod id RogueA (rogue_analyze s st cx)" |
  "analyze_any (ConflictA s) st cx = map_prod id ConflictA (conflict_analyze s st cx)" |
  "analyze_any (FloodA s) st cx = map_prod id FloodA (flood_analyze s st cx)" |
  "analyze_any (IdentityA s) st cx = map_prod id IdentityA (identity_analyze s st cx)"

record chain =
  ch_analyzers :: "any_analyzer list"
  ch_context :: context_state
  ch_enabled :: bool

definition chain_analyzers :: "security_config \<Rightarrow> any_analyzer list" where
  "chain_analyzers cfg =
     (if as_enabled (sc_arp_scan cfg) then [ScanA (scan_new (sc_arp_scan cfg) (sc_max_tracked cfg))] else [])
     @ (if sp_enabled (sc_arp_spoof cfg) then [SpoofA (spoof_new (sc_arp_spoof cfg) (sc_max_tracked cfg))] else [])
     @ (if rd_enabled (sc_rogue_dhcp cfg) then [RogueA (rogue_new (sc_rogue_dhcp cfg))] else [])
     @ (if cf_enabled (sc_ip_conflict cfg)
        then [ConflictA (conflict_new (sc_ip_conflict cfg) (sc_max_tracked cfg))] else [])
     @ (if ga_enabled (sc_gratuitous_arp cfg)
        then [FloodA (flood_new (sc_gratuitous_arp cfg) (sc_max_tracked cfg))] else [])
     @ (if ic_enabled (sc_identity_change cfg) then [IdentityA (identity_new (sc_identity_change cfg))] else [])"

definition chain_new :: "security_config \<Rightarrow> chain" where
  "chain_new cfg =
     \<lparr>ch_analyzers = chain_analyzers cfg,
      ch_context =
        \<lparr>cx_gateway = with_proxy_arp (gateway_new (gateway_ip_of cfg) (gateway_mac_of cfg)) (sc_proxy_arp_gateway cfg),
         cx_exempt = exempt_macs_of cfg,
         cx_priority = sn_priority (sc_notifications cfg),
         cx_max_tracked = sc_max_tracked cfg\<rparr>,
      ch_enabled = sc_enabled cfg\<rparr>"

definition chain_names :: "chain \<Rightarrow> string list" where
  "chain_names ch = map analyzer_name (ch_analyzers ch)"

definition chain_is_active :: "chain \<Rightarrow> bool" where
  "chain_is_active ch \<longleftrightarrow> ch_enabled ch \<and> ch_analyzers ch \<noteq> []"

fun run_all :: "any_analyzer list \<Rightarrow> stimulus \<Rightarrow> context_state \<Rightarrow> security_alert list \<times> any_analyzer list" where
  "run_all [] st cx = ([], [])" |
  "run_all (a # as) st cx =
     (let (alerts, a') = analyze_any a st cx;
          (rest, as') = run_all as st cx
      in (alerts @ rest, a' # as'))"

definition chain_run :: "chain \<Rightarrow> stimulus \<Rightarrow> security_alert list \<times> chain" where
  "chain_run ch st =
     (let (alerts, as) = run_all (ch_analyzers ch) st (ch_context ch)
      in (filter (\<lambda>a. \<not> is_exempt (ch_context ch) (al_mac a)) alerts, ch\<lparr>ch_analyzers := as\<rparr>))"

definition chain_observe :: "chain \<Rightarrow> observation \<Rightarrow> security_alert list \<times> chain" where
  "chain_observe ch obs =
     (if \<not> ch_enabled ch then ([], ch)
      else
        let cx = ch_context ch;
            ch1 = ch\<lparr>ch_context := cx\<lparr>cx_gateway := gateway_observe (cx_gateway cx) obs\<rparr>\<rparr>
        in chain_run ch1 (Observed obs))"

definition chain_reclassified :: "chain \<Rightarrow> reclassification \<Rightarrow> security_alert list \<times> chain" where
  "chain_reclassified ch r = (if \<not> ch_enabled ch then ([], ch) else chain_run ch (Reclassified r))"

text \<open>One stimulus, and a sequence of them with all the alerts it gives.\<close>

fun chain_step :: "chain \<Rightarrow> stimulus \<Rightarrow> security_alert list \<times> chain" where
  "chain_step ch (Observed obs) = chain_observe ch obs" |
  "chain_step ch (Reclassified r) = chain_reclassified ch r"

fun chain_steps :: "chain \<Rightarrow> stimulus list \<Rightarrow> security_alert list \<times> chain" where
  "chain_steps ch [] = ([], ch)" |
  "chain_steps ch (st # sts) =
     (let (alerts, ch1) = chain_step ch st; (rest, ch2) = chain_steps ch1 sts in (alerts @ rest, ch2))"

subsection \<open>Every alert is about the device that was seen\<close>

fun analyzer_kind :: "any_analyzer \<Rightarrow> event_type" where
  "analyzer_kind (ScanA _) = ArpScan" |
  "analyzer_kind (SpoofA _) = ArpSpoof" |
  "analyzer_kind (RogueA _) = RogueDhcp" |
  "analyzer_kind (ConflictA _) = IpConflict" |
  "analyzer_kind (FloodA _) = GratuitousArp" |
  "analyzer_kind (IdentityA _) = IdentityChange"

fun analyzer_good :: "any_analyzer \<Rightarrow> bool" where
  "analyzer_good (ScanA s) \<longleftrightarrow> scan_good s" |
  "analyzer_good (SpoofA s) \<longleftrightarrow> spoof_good s" |
  "analyzer_good (RogueA s) \<longleftrightarrow> rogue_good s" |
  "analyzer_good (ConflictA s) \<longleftrightarrow> conflict_good s" |
  "analyzer_good (FloodA s) \<longleftrightarrow> flood_good s" |
  "analyzer_good (IdentityA s) \<longleftrightarrow> identity_good s"

lemma analyze_any_about:
  "al \<in> set (fst (analyze_any a st cx)) \<Longrightarrow>
     al_event_type al = analyzer_kind a \<and> al_mac al = stimulus_mac st \<and> al_at al = stimulus_at st"
  by (cases a) (auto dest: scan.analyze_about spoof.analyze_about rogue.analyze_about conflict.analyze_about
      flood.analyze_about turnover.analyze_about)

lemma analyze_any_kind [simp]: "analyzer_kind (snd (analyze_any a st cx)) = analyzer_kind a"
  by (cases a) auto

lemma analyze_any_good: "analyzer_good a \<Longrightarrow> analyzer_good (snd (analyze_any a st cx))"
  by (cases a) (auto simp: scan.analyze_good spoof.analyze_good rogue.analyze_good conflict.analyze_good
      flood.analyze_good turnover.analyze_good)

lemma analyze_any_once: "length (fst (analyze_any a st cx)) \<le> 1"
  by (cases a) (auto simp: scan.analyze_once [simplified] spoof.analyze_once [simplified]
      rogue.analyze_once [simplified] conflict.analyze_once [simplified] flood.analyze_once [simplified]
      turnover.analyze_once [simplified])

lemma run_all_map:
  "run_all as st cx = (concat (map (\<lambda>a. fst (analyze_any a st cx)) as), map (\<lambda>a. snd (analyze_any a st cx)) as)"
  by (induction as) (auto simp: case_prod_beta Let_def)

lemma run_all_kinds: "map analyzer_kind (snd (run_all as st cx)) = map analyzer_kind as"
  by (simp add: run_all_map comp_def)

definition chain_kinds :: "chain \<Rightarrow> event_type list" where
  "chain_kinds ch = map analyzer_kind (ch_analyzers ch)"

definition stimulus_context :: "chain \<Rightarrow> stimulus \<Rightarrow> context_state" where
  "stimulus_context ch st =
     (case st of
        Observed obs \<Rightarrow> (ch_context ch)\<lparr>cx_gateway := gateway_observe (cx_gateway (ch_context ch)) obs\<rparr>
      | Reclassified _ \<Rightarrow> ch_context ch)"

lemma chain_step_eq:
  "chain_step ch st =
     (if \<not> ch_enabled ch then ([], ch)
      else (filter (\<lambda>a. \<not> is_exempt (ch_context ch) (al_mac a))
              (concat (map (\<lambda>a. fst (analyze_any a st (stimulus_context ch st))) (ch_analyzers ch))),
            ch\<lparr>ch_analyzers := map (\<lambda>a. snd (analyze_any a st (stimulus_context ch st))) (ch_analyzers ch),
               ch_context := stimulus_context ch st\<rparr>))"
  by (cases st) (simp_all add: chain_observe_def chain_reclassified_def chain_run_def run_all_map
      stimulus_context_def is_exempt_def Let_def)

lemma stimulus_context_frame [simp]:
  "cx_exempt (stimulus_context ch st) = cx_exempt (ch_context ch)"
  by (simp add: stimulus_context_def split: stimulus.split)

lemma chain_step_frame:
  "cx_exempt (ch_context (snd (chain_step ch st))) = cx_exempt (ch_context ch)"
  "chain_kinds (snd (chain_step ch st)) = chain_kinds ch" "ch_enabled (snd (chain_step ch st)) = ch_enabled ch"
  by (simp_all add: chain_step_eq chain_kinds_def comp_def)

lemma chain_step_sound:
  "al \<in> set (fst (chain_step ch st)) \<Longrightarrow>
     ch_enabled ch \<and> al_event_type al \<in> set (chain_kinds ch) \<and> al_mac al = stimulus_mac st \<and> al_at al = stimulus_at st
     \<and> al_mac al \<notin> set (cx_exempt (ch_context ch))"
  by (auto simp: chain_step_eq chain_kinds_def is_exempt_def split: if_splits dest!: analyze_any_about)

lemma chain_step_bounded: "length (fst (chain_step ch st)) \<le> length (ch_analyzers ch)"
proof -
  have "length (concat (map (\<lambda>a. fst (analyze_any a st cx)) as)) \<le> length as" for cx as
  proof (induction as)
    case (Cons a as)
    then show ?case using analyze_any_once [of a st cx] by simp
  qed simp
  then show ?thesis by (auto simp: chain_step_eq intro: le_trans [OF length_filter_le])
qed

text \<open>What holds of every alert of a run.\<close>

definition alert_sound :: "security_config \<Rightarrow> stimulus list \<Rightarrow> security_alert \<Rightarrow> bool" where
  "alert_sound cfg sts al \<longleftrightarrow>
     al_mac al \<notin> set (exempt_macs_of cfg)
     \<and> al_event_type al \<in> set (map analyzer_kind (chain_analyzers cfg))
     \<and> list_ex (\<lambda>st. al_mac al = stimulus_mac st \<and> al_at al = stimulus_at st) sts"

lemma chain_steps_sound:
  assumes "al \<in> set (fst (chain_steps ch sts))"
  shows "ch_enabled ch \<and> al_event_type al \<in> set (chain_kinds ch) \<and> al_mac al \<notin> set (cx_exempt (ch_context ch))
    \<and> list_ex (\<lambda>st. al_mac al = stimulus_mac st \<and> al_at al = stimulus_at st) sts"
  using assms
proof (induction sts arbitrary: ch)
  case (Cons st sts)
  consider (now) "al \<in> set (fst (chain_step ch st))"
    | (later) "al \<in> set (fst (chain_steps (snd (chain_step ch st)) sts))"
    using Cons.prems by (auto simp: case_prod_beta Let_def)
  then show ?case
  proof cases
    case now
    from chain_step_sound [OF now] show ?thesis by auto
  next
    case later
    from Cons.IH [OF this] show ?thesis by (simp add: chain_step_frame)
  qed
qed simp

text \<open>
  C2: whatever the traffic, the chain gives no alert when it is disabled; each alert it gives is of a
  kind whose analyzer is enabled, names the device and the time of a packet or reclassification that
  was fed to it, and never names an exempt device.
\<close>

theorem chain_sound:
  "list_all (\<lambda>al. sc_enabled cfg \<and> alert_sound cfg sts al) (fst (chain_steps (chain_new cfg) sts))"
  using chain_steps_sound [of _ "chain_new cfg" sts]
  by (auto simp: list_all_iff alert_sound_def chain_new_def chain_kinds_def)

subsection \<open>Impersonating the gateway\<close>

text \<open>The state of the spoof analyzer while only the gateway itself has claimed its address.\<close>

definition untouched :: "arp_spoof \<Rightarrow> ipv4_addr \<Rightarrow> mac_addr \<Rightarrow> bool" where
  "untouched s ip mac \<longleftrightarrow> spoof_good s
     \<and> (case bm_get (spf_holders s) ip of Some h \<Rightarrow> ho_mac h = mac \<and> ho_last_alert h = None | None \<Rightarrow> True)"

text \<open>A packet that claims an address for a device.\<close>

definition claims :: "stimulus \<Rightarrow> ipv4_addr \<Rightarrow> mac_addr \<Rightarrow> bool" where
  "claims st ip mac \<longleftrightarrow> (case arp_claim st of Some (obs, _, c) \<Rightarrow> c = ip \<and> obs_mac obs = mac | None \<Rightarrow> False)"

definition quiet_for :: "stimulus \<Rightarrow> ipv4_addr \<Rightarrow> mac_addr \<Rightarrow> bool" where
  "quiet_for st ip mac \<longleftrightarrow> (case arp_claim st of Some (obs, _, c) \<Rightarrow> c \<noteq> ip \<or> obs_mac obs = mac | None \<Rightarrow> True)"

lemma settled_is_gateway:
  "settled g ip mac \<Longrightarrow> is_gateway g m \<longleftrightarrow> m = mac" "settled g ip mac \<Longrightarrow> is_gateway_ip g a \<longleftrightarrow> a = ip"
  by (auto simp: settled_def is_gateway_def is_gateway_ip_def)

lemma untouched_step:
  assumes u: "untouched s ip mac" and q: "quiet_for st ip mac" and g: "settled (cx_gateway cx) ip mac"
  shows "untouched (snd (spoof_analyze s st cx)) ip mac"
proof (cases rule: spoof_cases [of s st cx])
  case idle
  then show ?thesis using u by simp
next
  case (claimed obs arp c)
  have good: "spoof_good s" and ok: "bm_ok (spf_holders s)" using u by (simp_all add: untouched_def spoof_good_def)
  have g': "spoof_good (snd (spoof_analyze s st cx))" using good by (rule spoof.analyze_good)
  let ?h = "\<lparr>ho_mac = obs_mac obs, ho_last_claim = obs_at obs,
      ho_last_alert = (if hostile s cx (obs_mac obs) c (obs_at obs)
                          \<and> cooled_down (spoof_last s c) (obs_at obs) SPOOF_COOLDOWN
                       then Some (obs_at obs) else spoof_last s c)\<rparr>"
  have s': "spf_holders (snd (spoof_analyze s st cx)) = bm_insert (spf_holders s) c ?h (obs_at obs)"
    using claimed by (simp add: spoof_analyze_claim Let_def)
  show ?thesis
  proof (cases "c = ip")
    case True
    then have m: "obs_mac obs = mac" using q claimed by (simp add: quiet_for_def)
    have h: "\<not> hostile s cx mac ip (obs_at obs)"
      using u g by (auto simp: hostile_def gateway_impersonation_def settled_is_gateway untouched_def split: option.splits)
    have "spoof_last s ip = None"
      using u by (auto simp: spoof_last_def untouched_def split: option.splits)
    then show ?thesis
      using g' h m True by (simp add: untouched_def s' bm_get_insert(1) [OF ok])
  next
    case False
    then show ?thesis
      using g' u bm_get_insert(2) [OF ok, of ip c ?h "obs_at obs"]
      by (auto simp: untouched_def s' split: option.splits)
  qed
qed

definition is_untouched :: "any_analyzer \<Rightarrow> ipv4_addr \<Rightarrow> mac_addr \<Rightarrow> bool" where
  "is_untouched a ip mac \<longleftrightarrow> (case a of SpoofA s \<Rightarrow> untouched s ip mac | _ \<Rightarrow> False)"

lemma is_untouched_iff: "is_untouched a ip mac \<longleftrightarrow> (\<exists>s. a = SpoofA s \<and> untouched s ip mac)"
  by (cases a) (simp_all add: is_untouched_def)

definition guarded :: "chain \<Rightarrow> ipv4_addr \<Rightarrow> mac_addr \<Rightarrow> bool" where
  "guarded ch ip mac \<longleftrightarrow> ch_enabled ch \<and> settled (cx_gateway (ch_context ch)) ip mac
     \<and> list_ex (\<lambda>a. is_untouched a ip mac) (ch_analyzers ch)"

lemma proxy_arp_for_other: "\<not> is_gateway g (obs_mac obs) \<Longrightarrow> proxy_arp_for g obs = None"
  by (cases "obs_arp obs") (simp_all add: proxy_arp_for_def)

lemma settled_context:
  "settled (cx_gateway (ch_context ch)) ip mac \<Longrightarrow> settled (cx_gateway (stimulus_context ch st)) ip mac"
  by (simp add: stimulus_context_def settled_observe split: stimulus.split)

lemma guarded_step:
  assumes "guarded ch ip mac" and "quiet_for st ip mac"
  shows "guarded (snd (chain_step ch st)) ip mac"
proof -
  have g: "settled (cx_gateway (stimulus_context ch st)) ip mac"
    using assms(1) by (intro settled_context) (simp add: guarded_def)
  obtain s where s: "SpoofA s \<in> set (ch_analyzers ch)" "untouched s ip mac"
    using assms(1) by (auto simp: guarded_def list_ex_iff is_untouched_iff)
  have "SpoofA (snd (spoof_analyze s st (stimulus_context ch st))) \<in> set (ch_analyzers (snd (chain_step ch st)))"
    using assms(1) s(1) by (force simp: chain_step_eq guarded_def)
  then have "list_ex (\<lambda>a. is_untouched a ip mac) (ch_analyzers (snd (chain_step ch st)))"
    using untouched_step [OF s(2) assms(2) g] by (auto simp: list_ex_iff is_untouched_iff)
  moreover have "ch_context (snd (chain_step ch st)) = stimulus_context ch st"
    using assms(1) by (simp add: chain_step_eq guarded_def)
  ultimately show ?thesis using assms(1) g by (simp add: guarded_def chain_step_frame)
qed

lemma guarded_steps:
  "guarded ch ip mac \<Longrightarrow> list_all (\<lambda>st. quiet_for st ip mac) sts \<Longrightarrow> guarded (snd (chain_steps ch sts)) ip mac"
  by (induction sts arbitrary: ch) (simp_all add: case_prod_beta Let_def guarded_step)

lemma guarded_alerts:
  assumes "guarded ch ip mac" and "arp_claim st = Some (obs, arp, ip)" and "obs_mac obs \<noteq> mac"
    and "obs_mac obs \<notin> set (cx_exempt (ch_context ch))"
  shows "list_ex (\<lambda>al. al_event_type al = ArpSpoof \<and> al_mac al = obs_mac obs \<and> al_at al = obs_at obs)
           (fst (chain_step ch st))"
proof -
  let ?cx = "stimulus_context ch st"
  have g: "settled (cx_gateway ?cx) ip mac"
    using assms(1) by (intro settled_context) (simp add: guarded_def)
  obtain s where s: "SpoofA s \<in> set (ch_analyzers ch)" "untouched s ip mac"
    using assms(1) by (auto simp: guarded_def list_ex_iff is_untouched_iff)
  have "proxy_arp_for (cx_gateway ?cx) obs = None"
    using g assms(3) by (intro proxy_arp_for_other) (simp add: settled_is_gateway)
  moreover have "hostile s ?cx (obs_mac obs) ip (obs_at obs)"
    using g assms(3) by (simp add: hostile_def gateway_impersonation_def settled_is_gateway)
  moreover have "spoof_last s ip = None"
    using s(2) by (auto simp: spoof_last_def untouched_def split: option.splits)
  ultimately obtain al where al: "al \<in> set (fst (spoof_analyze s st ?cx))"
    using assms(2) by (auto simp: spoof_analyze_claim Let_def cooled_down_def)
  have "al_event_type al = ArpSpoof \<and> al_mac al = obs_mac obs \<and> al_at al = obs_at obs"
    using spoof.analyze_about [OF al] assms(2) by simp
  moreover have "al \<in> set (fst (chain_step ch st))"
    using al s(1) assms(1,4) calculation by (force simp: chain_step_eq guarded_def is_exempt_def)
  ultimately show ?thesis by (auto simp: list_ex_iff)
qed

lemma guarded_new:
  assumes "sc_enabled cfg" and "sp_enabled (sc_arp_spoof cfg)"
    and "gateway_ip_of cfg = Some ip" and "gateway_mac_of cfg = Some mac"
  shows "guarded (chain_new cfg) ip mac"
  using assms
  by (auto simp: guarded_def chain_new_def chain_analyzers_def settled_def gateway_new_def with_proxy_arp_def
      is_untouched_def untouched_def spoof_new_def spoof_good_def)


subsection \<open>An exempt device starts the cooldown\<close>

lemma chain_new_spoof:
  "SpoofA s \<in> set (ch_analyzers (chain_new cfg)) \<Longrightarrow> s = spoof_new (sc_arp_spoof cfg) (sc_max_tracked cfg)"
  by (auto simp: chain_new_def chain_analyzers_def split: if_splits)

lemma chain_step_spoof:
  "al \<in> set (fst (chain_step ch st)) \<Longrightarrow> al_event_type al = ArpSpoof \<Longrightarrow>
     \<exists>s. SpoofA s \<in> set (ch_analyzers ch) \<and> al \<in> set (fst (spoof_analyze s st (stimulus_context ch st)))"
proof -
  assume "al \<in> set (fst (chain_step ch st))" and k: "al_event_type al = ArpSpoof"
  then obtain a where a: "a \<in> set (ch_analyzers ch)" "al \<in> set (fst (analyze_any a st (stimulus_context ch st)))"
    by (auto simp: chain_step_eq split: if_splits)
  then have "analyzer_kind a = ArpSpoof" using k analyze_any_about by fastforce
  then obtain s where "a = SpoofA s" by (cases a) auto
  then show ?thesis using a by auto
qed

text \<open>
  An exempt device's claim is not reported but does start the cooldown of the address: another
  device that claims the gateway's address in the five minutes after it is not reported as a spoof.
\<close>

theorem exempt_claim_masks_spoof:
  assumes "sc_enabled cfg" and "gateway_ip_of cfg = Some ip" and "gateway_mac_of cfg = Some mac"
    and "arp_claim st1 = Some (obs1, arp1, ip)" and "obs_mac obs1 \<noteq> mac" and "obs_mac obs1 \<in> set (exempt_macs_of cfg)"
    and "arp_claim st2 = Some (obs2, arp2, ip)" and "obs_at obs2 < obs_at obs1 + int (secs 300)"
  shows "list_all (\<lambda>al. al_event_type al \<noteq> ArpSpoof) (fst (chain_steps (chain_new cfg) [st1, st2]))"
proof -
  let ?ch = "chain_new cfg"
  let ?ch1 = "snd (chain_step ?ch st1)"
  have exempt: "obs_mac obs1 \<in> set (cx_exempt (ch_context ?ch))" using assms(6) by (simp add: chain_new_def)
  have first: "fst (chain_step ?ch st1) = []"
  proof (rule ccontr)
    assume "fst (chain_step ?ch st1) \<noteq> []"
    then obtain al where "al \<in> set (fst (chain_step ?ch st1))" by (cases "fst (chain_step ?ch st1)") auto
    from chain_step_sound [OF this] exempt assms(4) show False by auto
  qed
  have settled: "settled (cx_gateway (stimulus_context ?ch st1)) ip mac"
    using assms(2,3) by (intro settled_context) (simp add: settled_def chain_new_def gateway_new_def with_proxy_arp_def)
  have second: "al_event_type al \<noteq> ArpSpoof" if al: "al \<in> set (fst (chain_step ?ch1 st2))" for al
  proof
    assume "al_event_type al = ArpSpoof"
    from chain_step_spoof [OF al this]
    obtain s where s: "SpoofA s \<in> set (ch_analyzers ?ch1)" "al \<in> set (fst (spoof_analyze s st2 (stimulus_context ?ch1 st2)))"
      by blast
    obtain a where a: "a \<in> set (ch_analyzers ?ch)" "SpoofA s = snd (analyze_any a st1 (stimulus_context ?ch st1))"
      using s(1) assms(1) by (auto simp: chain_step_eq chain_new_def)
    from a(2) obtain s0 where "a = SpoofA s0" by (cases a) auto
    then have s0: "s = snd (spoof_analyze s0 st1 (stimulus_context ?ch st1))"
      "s0 = spoof_new (sc_arp_spoof cfg) (sc_max_tracked cfg)" using a chain_new_spoof by auto
    have empty: "bm_ok (spf_holders s0)" "bm_get (spf_holders s0) c = None" for c
      by (simp_all add: s0(2) spoof_new_def)
    have "proxy_arp_for (cx_gateway (stimulus_context ?ch st1)) obs1 = None"
      using settled assms(5) by (intro proxy_arp_for_other) (simp add: settled_is_gateway)
    moreover have "hostile s0 (stimulus_context ?ch st1) (obs_mac obs1) ip (obs_at obs1)"
      using settled assms(5) by (simp add: hostile_def gateway_impersonation_def settled_is_gateway)
    ultimately have "spoof_last s ip = Some (obs_at obs1)"
      using assms(4) empty
      by (simp add: s0(1) spoof_analyze_claim Let_def spoof_last_def cooled_down_def bm_get_insert(1))
    then have "fst (spoof_analyze s st2 (stimulus_context ?ch1 st2)) = []"
      using spoof_reported [of s st2 "stimulus_context ?ch1 st2"] assms(7,8) by (auto simp: cooled_down_iff)
    then show False using s(2) by simp
  qed
  show ?thesis using first second by (auto simp: list_all_iff case_prod_beta Let_def)
qed

subsection \<open>A concrete configuration\<close>

definition guarded_config :: security_config where
  "guarded_config = default_security\<lparr>sc_gateway_mac := show_mac (MacAddr 2 0 0 0 0 1), sc_gateway_ip := ''10.0.0.1'',
     sc_exempt_macs := [show_mac (MacAddr 2 0 0 0 0 7)]\<rparr>"

lemma show_mac_nonempty [simp]: "show_mac m \<noteq> []"
  by (cases m) (simp add: show_mac_def hex_byte_def)

lemma guarded_config_values:
  "sc_enabled guarded_config" "sp_enabled (sc_arp_spoof guarded_config)"
  "gateway_mac_of guarded_config = Some (MacAddr 2 0 0 0 0 1)"
  "gateway_ip_of guarded_config = Some (Ipv4Addr 10 0 0 1)"
  "exempt_macs_of guarded_config = [MacAddr 2 0 0 0 0 7]"
proof -
  have t: "trim ''10.0.0.1'' = ''10.0.0.1''" by (rule trim_plain) (simp add: plain_def ordc_def)
  have p: "parse_ipv4_text ''10.0.0.1'' = Some (Ipv4Addr 10 0 0 1)"
    by (simp add: parse_ipv4_text_def parse_octet_def is_digit_def ordc_def)
  show "sc_enabled guarded_config" "sp_enabled (sc_arp_spoof guarded_config)"
    by (simp_all add: guarded_config_def default_security_def default_arp_spoof_def)
  show "gateway_mac_of guarded_config = Some (MacAddr 2 0 0 0 0 1)"
    by (simp add: guarded_config_def gateway_mac_of_def parse_optional_def)
  show "gateway_ip_of guarded_config = Some (Ipv4Addr 10 0 0 1)"
    by (simp add: guarded_config_def gateway_ip_of_def parse_optional_def t p)
  show "exempt_macs_of guarded_config = [MacAddr 2 0 0 0 0 7]"
    by (simp add: guarded_config_def exempt_macs_of_def map_filter_simps)
qed

lemma claim_frame:
  "is_host_address ip \<Longrightarrow> arp_claim (Observed (announce_frame m ip t)) = Some (announce_frame m ip t,
     \<lparr>arp_op = ArpRequest, arp_sender_mac = m, arp_sender_ip = Some ip, arp_target_ip = ip, arp_gratuitous = True\<rparr>, ip)"
  by (simp add: arp_claim_def)


theorem exempt_claim_masks_spoof_witness:
  "list_all (\<lambda>al. al_event_type al \<noteq> ArpSpoof) (fst (chain_steps (chain_new guarded_config)
     [Observed (announce_frame (MacAddr 2 0 0 0 0 7) (Ipv4Addr 10 0 0 1) 0),
      Observed (announce_frame (MacAddr 2 0 0 0 0 9) (Ipv4Addr 10 0 0 1) 5)]))"
  by (rule exempt_claim_masks_spoof [OF guarded_config_values(1,4,3) claim_frame [OF sample_hosts(1)] _ _
        claim_frame [OF sample_hosts(1)]])
    (simp_all add: guarded_config_values secs_def)

end
