(* ===== verification/Names.thy ===== *)
theory Names
  imports Types
begin

text \<open>
  \<^verbatim>\<open>src/capture/names.rs\<close>: the rules that turn a name off the wire into one worth showing, or
  reject it.
\<close>

definition MAX_NAME_LEN :: nat where "MAX_NAME_LEN = 96"

definition is_address_char :: "char \<Rightarrow> bool" where
  "is_address_char c \<longleftrightarrow> is_digit c \<or> c = CHR ''-'' \<or> c = CHR ''_'' \<or> c = CHR ''.''"

definition clean_name :: "string \<Rightarrow> string option" where
  "clean_name raw =
     (let name = trim (trim_end_matches (CHR ''.'') (trim raw)) in
      if name = [] \<or> chars_count name > MAX_NAME_LEN then None
      else if has_control name then None
      else if list_all is_address_char name then None
      else Some name)"

definition clean_value :: "string \<Rightarrow> string option" where
  "clean_value raw =
     (let value = trim raw in
      if value = [] \<or> chars_count value > MAX_NAME_LEN then None
      else if has_control value then None
      else Some value)"

definition text_of :: "byte list \<Rightarrow> string" where
  "text_of bytes = from_utf8_lossy (rev (dropWhile (\<lambda>b. b = 0) (rev bytes)))"

text \<open>What every accepted name and value satisfies.\<close>

definition showable :: "string \<Rightarrow> bool" where
  "showable s \<longleftrightarrow> s \<noteq> [] \<and> chars_count s \<le> MAX_NAME_LEN \<and> \<not> has_control s"

lemma clean_name_Some:
  "clean_name raw = Some n \<Longrightarrow> showable n \<and> \<not> list_all is_address_char n \<and> sublist n raw"
proof -
  assume n: "clean_name raw = Some n"
  then have "n = trim (trim_end_matches (CHR ''.'') (trim raw))"
    by (auto simp: clean_name_def Let_def split: if_splits)
  moreover have "sublist (trim_end_matches (CHR ''.'') s) s" for s
    using suffix_dropWhile [of "\<lambda>c. c = CHR ''.''" "rev s"]
    by (simp add: trim_end_matches_def suffix_to_prefix prefix_imp_sublist)
  ultimately have "sublist n raw"
    using trim_sublist sublist_order.order_trans by metis
  then show ?thesis using n by (auto simp: clean_name_def showable_def Let_def split: if_splits)
qed

lemma clean_value_Some: "clean_value raw = Some v \<Longrightarrow> showable v \<and> v = trim raw"
  by (auto simp: clean_value_def showable_def Let_def split: if_splits)

text \<open>
  A name that survives cleaning is a piece of the raw one, is not blank, fits the limit, holds
  no control character and is not an address in disguise; a cleaned value keeps all but the last.
\<close>

theorem cleaned_names_are_showable:
  "(case clean_name raw of None \<Rightarrow> True | Some n \<Rightarrow>
      showable n \<and> \<not> list_all is_address_char n \<and> sublist n raw)
   \<and> (case clean_value raw of None \<Rightarrow> True | Some v \<Rightarrow> showable v \<and> sublist v raw)"
  by (auto split: option.splits dest: clean_name_Some clean_value_Some simp: trim_sublist)

end
