(* ===== verification/DnsWire.thy ===== *)
theory DnsWire
  imports Ethernet
begin

text \<open>
  \<^verbatim>\<open>src/capture/dns.rs\<close>: the read-only DNS message walker. A record's data carries the offset at
  which it starts in the message, which the source recovers as the difference of two pointers into
  the same buffer.
\<close>

definition MAX_POINTERS :: nat where "MAX_POINTERS = 16"
definition MAX_LABELS :: nat where "MAX_LABELS = 64"
definition TYPE_A :: u16 where "TYPE_A = 1"
definition TYPE_PTR :: u16 where "TYPE_PTR = 12"
definition TYPE_TXT :: u16 where "TYPE_TXT = 16"
definition TYPE_AAAA :: u16 where "TYPE_AAAA = 28"
definition TYPE_SRV :: u16 where "TYPE_SRV = 33"

record dns_record =
  rr_name :: "string list"
  rr_type :: u16
  rr_class :: u16
  rr_cache_flush :: bool
  rr_ttl :: u32
  rr_rdata :: "byte list"
  rr_rdata_at :: nat

record dns_message =
  msg_is_response :: bool
  msg_authoritative :: bool
  msg_questions :: "string list list"
  msg_records :: "dns_record list"

subsection \<open>Names\<close>

text \<open>
  The loop of \<^verbatim>\<open>read_name\<close>: the offset, the labels read so far, where the name ends in its original
  position once a pointer has been followed, and the pointers followed. It ends because a pointer
  uses up one of \<open>MAX_POINTERS\<close> and a label moves the offset towards the end of the buffer.
\<close>

function read_name_loop ::
  "byte list \<Rightarrow> nat \<Rightarrow> string list \<Rightarrow> nat option \<Rightarrow> nat \<Rightarrow> (string list \<times> nat) option"
where
  "read_name_loop buf offset labels end_of_name pointers =
     (case byte_at buf offset of
        None \<Rightarrow> None
      | Some len \<Rightarrow>
          if len AND 0xc0 = 0 then
            (if len = 0 then
               Some (labels, case end_of_name of Some e \<Rightarrow> e | None \<Rightarrow> offset + 1)
             else
               (case slice buf (offset + 1) (offset + 1 + unat len) of
                  None \<Rightarrow> None
                | Some label \<Rightarrow>
                    if Suc (length labels) > MAX_LABELS then None
                    else read_name_loop buf (offset + 1 + unat len)
                           (labels @ [from_utf8_lossy label]) end_of_name pointers))
          else if len AND 0xc0 = 0xc0 then
            (case byte_at buf (offset + 1) of
               None \<Rightarrow> None
             | Some lo \<Rightarrow>
                 let target = unat (be16 (len AND 0x3f) lo) in
                 if target \<ge> offset then None
                 else if Suc pointers > MAX_POINTERS then None
                 else read_name_loop buf target labels
                        (Some (case end_of_name of Some e \<Rightarrow> e | None \<Rightarrow> offset + 2)) (Suc pointers))
          else None)"
  by pat_completeness auto
termination
  by (relation "measures [\<lambda>(buf, offset, labels, e, pointers). MAX_POINTERS - pointers,
                          \<lambda>(buf, offset, labels, e, pointers). length buf - offset]")
    (auto simp: byte_at_Some_iff)

declare read_name_loop.simps [simp del]

definition read_name :: "byte list \<Rightarrow> nat \<Rightarrow> (string list \<times> nat) option" where
  "read_name buf start = read_name_loop buf start [] None 0"

subsection \<open>Records and messages\<close>

definition be32 :: "byte \<Rightarrow> byte \<Rightarrow> byte \<Rightarrow> byte \<Rightarrow> u32" where
  "be32 a b c d = word_of_nat (((unat a * 256 + unat b) * 256 + unat c) * 256 + unat d)"

definition read_record :: "byte list \<Rightarrow> nat \<Rightarrow> (dns_record \<times> nat) option" where
  "read_record buf offset =
     do {
       (name, after_name) \<leftarrow> read_name buf offset;
       rtype \<leftarrow> read_u16 buf after_name;
       raw_class \<leftarrow> read_u16 buf (after_name + 2);
       b0 \<leftarrow> byte_at buf (after_name + 4);
       b1 \<leftarrow> byte_at buf (after_name + 5);
       b2 \<leftarrow> byte_at buf (after_name + 6);
       b3 \<leftarrow> byte_at buf (after_name + 7);
       rdlength \<leftarrow> read_u16 buf (after_name + 8);
       rdata \<leftarrow> slice buf (after_name + 10) (after_name + 10 + unat rdlength);
       Some (\<lparr>rr_name = name, rr_type = rtype, rr_class = raw_class AND 0x7fff,
              rr_cache_flush = (raw_class AND 0x8000 \<noteq> 0), rr_ttl = be32 b0 b1 b2 b3,
              rr_rdata = rdata, rr_rdata_at = after_name + 10\<rparr>,
             after_name + 10 + unat rdlength)
     }"

fun read_questions :: "nat \<Rightarrow> byte list \<Rightarrow> nat \<Rightarrow> string list list \<Rightarrow> (string list list \<times> nat) option" where
  "read_questions 0 buf offset questions = Some (questions, offset)" |
  "read_questions (Suc n) buf offset questions =
     do {
       (name, next_at) \<leftarrow> read_name buf offset;
       if next_at + 4 > length buf then None
       else read_questions n buf (next_at + 4) (questions @ [name])
     }"

fun read_records :: "nat \<Rightarrow> byte list \<Rightarrow> nat \<Rightarrow> dns_record list \<Rightarrow> dns_record list" where
  "read_records 0 buf offset records = records" |
  "read_records (Suc n) buf offset records =
     (case read_record buf offset of
        Some (r, next_at) \<Rightarrow> read_records n buf next_at (records @ [r])
      | None \<Rightarrow> records)"

definition parse_dns_message :: "byte list \<Rightarrow> dns_message option" where
  "parse_dns_message buf =
     (if length buf < 12 then None
      else
        let flags = be16 (buf ! 2) (buf ! 3);
            qdcount = unat (be16 (buf ! 4) (buf ! 5));
            total = unat (be16 (buf ! 6) (buf ! 7)) + unat (be16 (buf ! 8) (buf ! 9))
                    + unat (be16 (buf ! 10) (buf ! 11)) in
        do {
          (questions, offset) \<leftarrow> read_questions qdcount buf 12 [];
          Some \<lparr>msg_is_response = (flags AND 0x8000 \<noteq> 0), msg_authoritative = (flags AND 0x0400 \<noteq> 0),
                msg_questions = questions, msg_records = read_records total buf offset []\<rparr>
        })"

definition ptr_target :: "byte list \<Rightarrow> dns_record \<Rightarrow> string list option" where
  "ptr_target msg r = map_option fst (read_name msg (rr_rdata_at r))"

definition srv_target :: "byte list \<Rightarrow> dns_record \<Rightarrow> string list option" where
  "srv_target msg r = map_option fst (read_name msg (rr_rdata_at r + 6))"

function txt_chunks :: "byte list \<Rightarrow> string list" where
  "txt_chunks [] = []" |
  "txt_chunks (len # rest) =
     (if length rest < unat len then []
      else from_utf8_lossy (take (unat len) rest) # txt_chunks (drop (unat len) rest))"
  by pat_completeness auto
termination by (relation "measure length") auto

definition txt_strings :: "dns_record \<Rightarrow> string list" where
  "txt_strings r = txt_chunks (rr_rdata r)"

subsection \<open>Bounds\<close>

lemma read_name_loop_bounds:
  assumes "read_name_loop buf offset labels e pointers = Some (ls, en)"
    and "\<And>x. e = Some x \<Longrightarrow> x \<le> length buf" and "length labels \<le> MAX_LABELS"
  shows "length ls \<le> MAX_LABELS \<and> en \<le> length buf \<and> (case e of Some x \<Rightarrow> en = x | None \<Rightarrow> offset < en)"
  using assms
proof (induction buf offset labels e pointers rule: read_name_loop.induct)
  case (1 buf offset labels e pointers)
  from "1.prems"(1) obtain len where len: "byte_at buf offset = Some len"
    by (auto simp: read_name_loop.simps [of buf offset] split: option.splits)
  consider (stop) "len = 0" | (label) "len AND 0xc0 = 0" "len \<noteq> 0" | (pointer) "len AND 0xc0 = 0xc0"
    using "1.prems"(1) len by (auto simp: read_name_loop.simps [of buf offset] split: if_splits)
  then show ?case
  proof cases
    case stop
    then show ?thesis
      using "1.prems" len
      by (auto simp: read_name_loop.simps [of buf offset] byte_at_Some_iff split: option.splits)
  next
    case label
    then obtain l where l: "slice buf (offset + 1) (offset + 1 + unat len) = Some l"
      and s: "Suc (length labels) \<le> MAX_LABELS"
      and r: "read_name_loop buf (offset + 1 + unat len) (labels @ [from_utf8_lossy l]) e pointers = Some (ls, en)"
      using "1.prems"(1) len
      by (auto simp: read_name_loop.simps [of buf offset] split: option.splits if_splits)
    have "length ls \<le> MAX_LABELS \<and> en \<le> length buf
        \<and> (case e of Some x \<Rightarrow> en = x | None \<Rightarrow> offset + 1 + unat len < en)"
      using "1.IH"(1) [OF len _ _ l] label s r "1.prems"(2) by auto
    then show ?thesis by (auto split: option.splits)
  next
    case pointer
    then have n: "len AND 0xc0 \<noteq> 0" by auto
    from pointer obtain lo where lo: "byte_at buf (offset + 1) = Some lo"
      using "1.prems"(1) len
      by (auto simp: read_name_loop.simps [of buf offset] split: option.splits)
    let ?t = "unat (be16 (len AND 0x3f) lo)"
    let ?e = "Some (case e of Some e \<Rightarrow> e | None \<Rightarrow> offset + 2)"
    have t: "\<not> ?t \<ge> offset" "\<not> Suc pointers > MAX_POINTERS"
      and r: "read_name_loop buf ?t labels ?e (Suc pointers) = Some (ls, en)"
      using "1.prems"(1) len lo pointer n
      by (auto simp: read_name_loop.simps [of buf offset] Let_def split: if_splits)
    have e: "x \<le> length buf" if "?e = Some x" for x
      using that "1.prems"(2) lo by (auto simp: byte_at_Some_iff split: option.splits)
    from "1.IH"(2) [OF len n pointer lo refl t r e "1.prems"(3)] show ?thesis
      using lo by (auto simp: byte_at_Some_iff split: option.splits)
  qed
qed

subsection \<open>Encoded names\<close>

definition encode_labels :: "byte list list \<Rightarrow> byte list" where
  "encode_labels ls = concat (map (\<lambda>l. word_of_nat (length l) # l) ls)"

definition proper_labels :: "byte list list \<Rightarrow> bool" where
  "proper_labels ls \<longleftrightarrow> list_all (\<lambda>l. 0 < length l \<and> length l < 64) ls"

definition pointer_bytes :: "nat \<Rightarrow> byte list" where
  "pointer_bytes n = [word_of_nat (0xc0 + n div 256), word_of_nat (n mod 256)]"

lemma length_byte: "n < 64 \<Longrightarrow> (word_of_nat n :: byte) AND 0xc0 = 0"
proof -
  have "list_all (\<lambda>n. (word_of_nat n :: byte) AND 0xc0 = 0) [0..<64]" by code_simp
  then show "n < 64 \<Longrightarrow> (word_of_nat n :: byte) AND 0xc0 = 0" unfolding list_all_iff by simp
qed

lemma pointer_byte:
  "n < 64 \<Longrightarrow> (word_of_nat (0xc0 + n) :: byte) AND 0xc0 = 0xc0
     \<and> (word_of_nat (0xc0 + n) :: byte) AND 0x3f = word_of_nat n"
proof -
  have "list_all (\<lambda>n. (word_of_nat (0xc0 + n) :: byte) AND 0xc0 = 0xc0
     \<and> (word_of_nat (0xc0 + n) :: byte) AND 0x3f = word_of_nat n) [0..<64]" by code_simp
  then show "n < 64 \<Longrightarrow> (word_of_nat (0xc0 + n) :: byte) AND 0xc0 = 0xc0
     \<and> (word_of_nat (0xc0 + n) :: byte) AND 0x3f = word_of_nat n"
    unfolding list_all_iff by simp
qed

lemma unat_length_byte: "n < 256 \<Longrightarrow> unat (word_of_nat n :: byte) = n"
  by (simp add: unat_of_nat)

lemma byte_at_append: "byte_at (xs @ y # ys) (length xs) = Some y"
  by (simp add: byte_at_def nth_append)

lemma read_labels:
  assumes "proper_labels ls" and "length acc + length ls \<le> MAX_LABELS"
  shows "read_name_loop (pre @ encode_labels ls @ rest) (length pre) acc e k
       = read_name_loop (pre @ encode_labels ls @ rest) (length pre + length (encode_labels ls))
           (acc @ map from_utf8_lossy ls) e k"
  using assms
proof (induction ls arbitrary: pre acc)
  case Nil
  then show ?case by (simp add: encode_labels_def)
next
  case (Cons l ls)
  let ?n = "word_of_nat (length l) :: byte"
  let ?buf = "pre @ encode_labels (l # ls) @ rest"
  have n: "0 < length l" "length l < 64" using Cons.prems by (simp_all add: proper_labels_def)
  have buf: "?buf = pre @ ?n # l @ encode_labels ls @ rest" by (simp add: encode_labels_def)
  have u: "unat ?n = length l" using n by (simp add: unat_length_byte)
  then have z: "?n \<noteq> 0" using n by (auto simp: unat_eq_0)
  have sl: "slice ?buf (length pre + 1) (length pre + 1 + length l) = Some l"
    by (simp add: buf slice_Some_iff)
  have "read_name_loop ?buf (length pre) acc e k
      = read_name_loop ?buf (length pre + 1 + length l) (acc @ [from_utf8_lossy l]) e k"
    using Cons.prems(2) sl
    by (subst read_name_loop.simps) (simp add: buf byte_at_append length_byte n z u)
  also have "\<dots> = read_name_loop ((pre @ ?n # l) @ encode_labels ls @ rest) (length (pre @ ?n # l))
        (acc @ [from_utf8_lossy l]) e k"
    by (simp add: buf)
  also have "\<dots> = read_name_loop ?buf (length pre + length (encode_labels (l # ls)))
           (acc @ map from_utf8_lossy (l # ls)) e k"
    using Cons.prems
    by (subst Cons.IH) (simp_all add: proper_labels_def buf encode_labels_def add_ac)
  finally show ?case .
qed

lemma read_end:
  "read_name_loop (pre @ 0 # post) (length pre) acc e k
     = Some (acc, case e of Some x \<Rightarrow> x | None \<Rightarrow> length pre + 1)"
  by (simp add: read_name_loop.simps [of "pre @ 0 # post"] byte_at_append split: option.split)

lemma read_pointer:
  assumes "n < length pre" and "n < 2 ^ 14" and "k < MAX_POINTERS"
  shows "read_name_loop (pre @ pointer_bytes n @ post) (length pre) acc None k
     = read_name_loop (pre @ pointer_bytes n @ post) n acc (Some (length pre + 2)) (Suc k)"
proof -
  define hi lo :: byte where "hi = word_of_nat (0xc0 + n div 256)" and "lo = word_of_nat (n mod 256)"
  have q: "n div 256 < 64" using assms(2) by (simp add: less_mult_imp_div_less)
  have h: "hi AND 0xc0 = 0xc0" "unat (hi AND 0x3f) = n div 256" "unat lo = n mod 256"
    using pointer_byte [OF q] q by (simp_all add: hi_def lo_def unat_length_byte del: of_nat_add)
  have p: "pointer_bytes n = [hi, lo]" by (simp add: pointer_bytes_def hi_def lo_def)
  have b: "byte_at (pre @ hi # lo # post) (length pre + 1) = Some lo"
    using byte_at_append [of "pre @ [hi]" lo post] by simp
  have "unat (be16 (hi AND 0x3f) lo) = n" by (simp add: unat_be16 h)
  then show ?thesis
    using assms h(1) b unfolding p
    by (subst read_name_loop.simps) (simp add: byte_at_append Let_def)
qed

text \<open>
  A name whose tail is a compression pointer to an earlier name reads as its own labels followed
  by the labels of that name, and the reader goes on just past the pointer.
\<close>

theorem read_name_compressed:
  fixes pre mid post :: "byte list"
  assumes "proper_labels ls" and "proper_labels ms" and "length ls + length ms \<le> MAX_LABELS"
    and "length pre < 2 ^ 14"
  defines "front \<equiv> pre @ encode_labels ms @ 0 # mid"
  shows "read_name (front @ encode_labels ls @ pointer_bytes (length pre) @ post) (length front)
     = Some (map from_utf8_lossy (ls @ ms), length front + length (encode_labels ls) + 2)"
proof -
  let ?rest = "mid @ encode_labels ls @ pointer_bytes (length pre) @ post"
  let ?front = "front @ encode_labels ls"
  have p: "length pre < length ?front" by (simp add: front_def)
  have k: "0 < MAX_POINTERS" by (simp add: MAX_POINTERS_def)
  have b: "front @ encode_labels ls @ pointer_bytes (length pre) @ post
      = pre @ encode_labels ms @ 0 # ?rest" by (simp add: front_def)
  have "read_name (front @ encode_labels ls @ pointer_bytes (length pre) @ post) (length front)
      = read_name_loop (?front @ pointer_bytes (length pre) @ post) (length ?front)
          (map from_utf8_lossy ls) None 0"
    using assms(1,3) by (simp add: read_name_def read_labels)
  also have "\<dots> = read_name_loop (pre @ encode_labels ms @ 0 # ?rest) (length pre)
          (map from_utf8_lossy ls) (Some (length ?front + 2)) 1"
    using read_pointer [OF p assms(4) k] b by (simp add: add_ac)
  also have "\<dots> = read_name_loop ((pre @ encode_labels ms) @ 0 # ?rest) (length (pre @ encode_labels ms))
          (map from_utf8_lossy (ls @ ms)) (Some (length ?front + 2)) 1"
    using assms(2,3) by (subst read_labels) simp_all
  also have "\<dots> = Some (map from_utf8_lossy (ls @ ms), length front + length (encode_labels ls) + 2)"
    by (subst read_end) simp
  finally show ?thesis .
qed

theorem read_name_compressed_witness:
  "read_name (([7] @ encode_labels [[108]] @ 0 # []) @ encode_labels [[97, 98]] @ pointer_bytes (length [7 :: byte]) @ [])
     (length ([7] @ encode_labels [[108]] @ 0 # ([] :: byte list)))
   = Some (map from_utf8_lossy ([[97, 98]] @ [[108]]),
       length ([7] @ encode_labels [[108]] @ 0 # ([] :: byte list)) + length (encode_labels [[97, 98]]) + 2)"
  by (rule read_name_compressed) (simp_all add: proper_labels_def MAX_LABELS_def)



end
