(* ===== verification/DhcpFrames.thy ===== *)
theory DhcpFrames
  imports ArpFrames Names
begin

text \<open>
  \<^verbatim>\<open>src/capture/dhcp.rs\<close>: the BOOTP header, the option walk with overload, and the observation about
  the right device: the client for a client message, the transmitter for a server message.
\<close>

definition DHCP_SOURCE :: string where "DHCP_SOURCE = ''dhcp''"
definition SERVER_PORT :: u16 where "SERVER_PORT = 67"
definition CLIENT_PORT :: u16 where "CLIENT_PORT = 68"
definition MAGIC_OFFSET :: nat where "MAGIC_OFFSET = 236"
definition MAGIC :: "byte list" where "MAGIC = [0x63, 0x82, 0x53, 0x63]"
definition OPT_ROUTER :: byte where "OPT_ROUTER = 3"
definition OPT_HOSTNAME :: byte where "OPT_HOSTNAME = 12"
definition OPT_OVERLOAD :: byte where "OPT_OVERLOAD = 52"
definition OPT_MESSAGE_TYPE :: byte where "OPT_MESSAGE_TYPE = 53"
definition OPT_PARAM_LIST :: byte where "OPT_PARAM_LIST = 55"
definition OPT_VENDOR_CLASS :: byte where "OPT_VENDOR_CLASS = 60"
definition OPT_PAD :: byte where "OPT_PAD = 0"
definition OPT_END :: byte where "OPT_END = 255"
definition MAX_PARAM_LIST :: nat where "MAX_PARAM_LIST = 64"

lemmas option_code_defs =
  OPT_ROUTER_def OPT_HOSTNAME_def OPT_OVERLOAD_def OPT_MESSAGE_TYPE_def OPT_PARAM_LIST_def
  OPT_VENDOR_CLASS_def OPT_PAD_def OPT_END_def

record dhcp_message =
  dm_message_type :: dhcp_message_type
  dm_client_mac :: "mac_addr option"
  dm_client_ip :: "ipv4_addr option"
  dm_assigned_ip :: "ipv4_addr option"
  dm_hostname :: "string option"
  dm_fingerprint :: "string option"
  dm_vendor_class :: "string option"
  dm_router :: "ipv4_addr option"

subsection \<open>Options\<close>

record dhcp_options =
  op_message_type :: "dhcp_message_type option"
  op_hostname :: "string option"
  op_fingerprint :: "string option"
  op_vendor_class :: "string option"
  op_router :: "ipv4_addr option"
  op_overload :: byte

definition no_options :: dhcp_options where
  "no_options = \<lparr>op_message_type = None, op_hostname = None, op_fingerprint = None,
                 op_vendor_class = None, op_router = None, op_overload = 0\<rparr>"

definition render_param_list :: "byte list \<Rightarrow> string option" where
  "render_param_list value =
     (if value = [] \<or> length value > MAX_PARAM_LIST then None
      else Some (join '','' (map (\<lambda>code. show_nat (unat code)) value)))"

definition BROADCAST4 :: ipv4_addr where
  "BROADCAST4 = Ipv4Addr 255 255 255 255"

definition dhcp_address :: "byte list \<Rightarrow> ipv4_addr option" where
  "dhcp_address bytes =
     do { a \<leftarrow> ipv4_of bytes;
          if a \<noteq> UNSPECIFIED4 \<and> a \<noteq> BROADCAST4 \<and> \<not> is_multicast4 a then Some a else None }"

definition absorb :: "dhcp_options \<Rightarrow> byte \<Rightarrow> byte list \<Rightarrow> dhcp_options" where
  "absorb ops code value =
     (if code = OPT_MESSAGE_TYPE then
        ops\<lparr>op_message_type := or_else (op_message_type ops)
            (case value of [] \<Rightarrow> None | first # _ \<Rightarrow> message_type_from_code first)\<rparr>
      else if code = OPT_HOSTNAME then
        ops\<lparr>op_hostname := or_else (op_hostname ops) (clean_name (text_of value))\<rparr>
      else if code = OPT_PARAM_LIST then
        ops\<lparr>op_fingerprint := or_else (op_fingerprint ops) (render_param_list value)\<rparr>
      else if code = OPT_VENDOR_CLASS then
        ops\<lparr>op_vendor_class := or_else (op_vendor_class ops) (clean_value (text_of value))\<rparr>
      else if code = OPT_ROUTER then
        ops\<lparr>op_router := or_else (op_router ops) (dhcp_address (if length value < 4 then [] else take 4 value))\<rparr>
      else if code = OPT_OVERLOAD then
        ops\<lparr>op_overload := (case value of [] \<Rightarrow> op_overload ops | first # _ \<Rightarrow> op_overload ops OR first)\<rparr>
      else ops)"

text \<open>The walk of one block; the rest of the block is the state of the source's index.\<close>

function walk_options :: "dhcp_options \<Rightarrow> byte list \<Rightarrow> dhcp_options" where
  "walk_options ops [] = ops" |
  "walk_options ops (code # rest) =
     (if code = OPT_PAD then walk_options ops rest
      else if code = OPT_END then ops
      else case rest of
             [] \<Rightarrow> ops
           | len # body \<Rightarrow>
               if length body < unat len then ops
               else walk_options (absorb ops code (take (unat len) body)) (drop (unat len) body))"
  by pat_completeness auto
termination by (relation "measure (\<lambda>(ops, block). length block)") auto

definition parse_dhcp_message :: "byte list \<Rightarrow> dhcp_message option" where
  "parse_dhcp_message buf =
     (if length buf < MAGIC_OFFSET + 4 then None
      else if take 4 (drop MAGIC_OFFSET buf) \<noteq> MAGIC then None
      else
        let client_mac = (if buf ! 1 = 1 \<and> buf ! 2 = 6 then
                            (case mac_of (take 6 (drop 28 buf)) of
                               Some m \<Rightarrow> if \<not> is_zero m \<and> \<not> is_group m then Some m else None
                             | None \<Rightarrow> None)
                          else None);
            client_ip = dhcp_address (take 4 (drop 12 buf));
            assigned_ip = dhcp_address (take 4 (drop 16 buf));
            o1 = walk_options no_options (drop (MAGIC_OFFSET + 4) buf);
            o2 = (if op_overload o1 AND 1 \<noteq> 0 then walk_options o1 (take 128 (drop 108 buf)) else o1);
            o3 = (if op_overload o2 AND 2 \<noteq> 0 then walk_options o2 (take 64 (drop 44 buf)) else o2) in
        do {
          t \<leftarrow> op_message_type o3;
          Some \<lparr>dm_message_type = t, dm_client_mac = client_mac, dm_client_ip = client_ip,
                dm_assigned_ip = assigned_ip, dm_hostname = op_hostname o3,
                dm_fingerprint = op_fingerprint o3, dm_vendor_class = op_vendor_class o3,
                dm_router = op_router o3\<rparr>
        })"

subsection \<open>The observation\<close>

definition server_ip :: "ip_addr \<Rightarrow> ip_addr option" where
  "server_ip src =
     (case src of V4 v4 \<Rightarrow> if v4 \<noteq> UNSPECIFIED4 \<and> v4 \<noteq> BROADCAST4 then Some src else None
                | V6 _ \<Rightarrow> None)"

fun dhcp_kind :: "dhcp_message_type \<Rightarrow> observation_kind" where
  "dhcp_kind DhcpDiscover = ObsQuery" |
  "dhcp_kind DhcpRequest = ObsQuery" |
  "dhcp_kind DhcpInform = ObsQuery" |
  "dhcp_kind DhcpOffer = ObsReply" |
  "dhcp_kind DhcpAck = ObsReply" |
  "dhcp_kind DhcpNak = ObsReply" |
  "dhcp_kind DhcpDecline = ObsAnnouncement" |
  "dhcp_kind DhcpRelease = ObsAnnouncement"

definition signal_if :: "signal_kind \<Rightarrow> string option \<Rightarrow> observation \<Rightarrow> observation" where
  "signal_if k v obs = (case v of Some s \<Rightarrow> with_signal obs (Signal k s) | None \<Rightarrow> obs)"

definition build_dhcp ::
  "dhcp_message \<Rightarrow> mac_addr \<Rightarrow> ip_addr \<Rightarrow> string \<Rightarrow> time \<Rightarrow> observation option"
where
  "build_dhcp m frame_src src interface ts =
     (let server = is_server_message (dm_message_type m);
          mac = (if server then frame_src
                 else case dm_client_mac m of Some c \<Rightarrow> c | None \<Rightarrow> frame_src) in
      if is_group mac \<or> is_zero mac then None
      else
        let ip = (if server then server_ip src else map_option V4 (dm_client_ip m));
            obs = with_detail
                    (new_observation mac ip interface DHCP_SOURCE (dhcp_kind (dm_message_type m)) ts)
                    (Dhcp \<lparr>dhcp_message_type = dm_message_type m, dhcp_client_mac = dm_client_mac m,
                           dhcp_assigned_ip = dm_assigned_ip m, dhcp_router = dm_router m\<rparr>) in
        Some (if server then obs
              else signal_if DhcpVendorClass (dm_vendor_class m)
                     (signal_if DhcpFingerprint (dm_fingerprint m)
                       (signal_if DhcpHostname (dm_hostname m) obs))))"

definition parse_dhcp :: "byte list \<Rightarrow> string \<Rightarrow> time \<Rightarrow> observation option" where
  "parse_dhcp bytes interface ts =
     do {
       frame \<leftarrow> parse_ethernet bytes;
       if eth_type frame \<noteq> ETHERTYPE_IPV4 then None
       else do {
         ip \<leftarrow> parse_ipv4 (eth_payload frame);
         if ip_protocol ip \<noteq> IPPROTO_UDP then None
         else do {
           udp \<leftarrow> parse_udp (ip_payload ip);
           let ports = {udp_src_port udp, udp_dst_port udp} in
           if SERVER_PORT \<notin> ports \<and> CLIENT_PORT \<notin> ports then None
           else if is_group (eth_src frame) \<or> is_zero (eth_src frame) then None
           else do {
             message \<leftarrow> parse_dhcp_message (udp_payload udp);
             build_dhcp message (eth_src frame) (ip_src ip) interface ts
           } } } }"

subsection \<open>Lemmas\<close>

lemma build_dhcp_fields:
  assumes "build_dhcp m src ip interface ts = Some obs"
  shows "usable (obs_mac obs) \<and> obs_interface obs = interface \<and> obs_at obs = ts
    \<and> obs_source obs = DHCP_SOURCE
    \<and> obs_mac obs = (if is_server_message (dm_message_type m) then src
                     else case dm_client_mac m of Some c \<Rightarrow> c | None \<Rightarrow> src)
    \<and> (\<exists>d. obs_dhcp obs = Some d \<and> dhcp_message_type d = dm_message_type m
         \<and> dhcp_client_mac d = dm_client_mac m \<and> dhcp_router d = dm_router m)
    \<and> (is_server_message (dm_message_type m) \<longrightarrow> obs_signals obs = [])"
  using assms
  by (auto simp: build_dhcp_def Let_def signal_if_def observation_defs usable_def
      split: if_splits option.splits)

lemma parse_dhcp_build:
  assumes "parse_dhcp bytes interface ts = Some obs"
  obtains frame :: ethernet_frame and ip :: ip_header and m :: dhcp_message
  where "parse_ethernet bytes = Some frame" "usable (eth_src frame)"
    "build_dhcp m (eth_src frame) (ip_src ip) interface ts = Some obs"
  using assms
  by (auto simp: parse_dhcp_def bind_eq_Some_conv Let_def usable_def split: if_splits)

interpretation dhcp: frame_parser parse_dhcp DHCP_SOURCE
proof
  fix bytes interface ts obs
  assume "parse_dhcp bytes interface ts = Some obs"
  then obtain frame :: ethernet_frame and ip :: ip_header and m :: dhcp_message
    where "build_dhcp m (eth_src frame) (ip_src ip) interface ts = Some obs"
    by (rule parse_dhcp_build)
  from build_dhcp_fields [OF this]
  show "usable (obs_mac obs)"
    and "obs_interface obs = interface \<and> obs_at obs = ts \<and> obs_source obs = DHCP_SOURCE"
    by blast+
qed

text \<open>One option as a server or client writes it.\<close>

definition encode_option :: "byte \<times> byte list \<Rightarrow> byte list" where
  "encode_option ov = fst ov # word_of_nat (length (snd ov)) # snd ov"

lemma walk_encoded_option:
  assumes "fst ov \<notin> {OPT_PAD, OPT_END}" and "length (snd ov) < 256"
  shows "walk_options ops (encode_option ov @ rest) = walk_options (absorb ops (fst ov) (snd ov)) rest"
  using assms by (simp add: encode_option_def unat_of_nat)

text \<open>
  C38: a block of well-formed options, with padding between them and anything after the end marker,
  is absorbed option by option in its order.
\<close>

theorem walk_options_encoded:
  assumes "\<forall>ov \<in> set ovs. fst ov \<notin> {OPT_PAD, OPT_END} \<and> length (snd ov) < 256"
  shows "walk_options ops (concat (map (\<lambda>ov. encode_option ov @ replicate k OPT_PAD) ovs) @ OPT_END # junk)
     = foldl (\<lambda>ops ov. absorb ops (fst ov) (snd ov)) ops ovs"
proof -
  have pad: "walk_options ops (replicate k OPT_PAD @ rest) = walk_options ops rest" for ops rest
    by (induction k) simp_all
  show ?thesis
    using assms
  proof (induction ovs arbitrary: ops)
    case Nil
    then show ?case by (simp add: option_code_defs)
  next
    case (Cons ov ovs)
    then show ?case by (simp add: walk_encoded_option pad)
  qed
qed

theorem walk_options_encoded_witness:
  "walk_options no_options
     (concat (map (\<lambda>ov. encode_option ov @ replicate 1 OPT_PAD) [(OPT_MESSAGE_TYPE, [5])]) @ OPT_END # [1, 2])
   = foldl (\<lambda>ops ov. absorb ops (fst ov) (snd ov)) no_options [(OPT_MESSAGE_TYPE, [5])]"
  by (rule walk_options_encoded) (simp add: option_code_defs)

text \<open>
  A DHCP observation is keyed on the transmitter for a message only a server sends, which then
  carries no identity evidence, and otherwise on the client's address when the header has a usable
  one; either way the key is usable.
\<close>

theorem dhcp_observation_sound:
  assumes "parse_dhcp bytes interface ts = Some obs"
  shows "usable (obs_mac obs) \<and> obs_interface obs = interface \<and> obs_at obs = ts
    \<and> (\<exists>frame d. parse_ethernet bytes = Some frame \<and> obs_dhcp obs = Some d
         \<and> obs_mac obs = (if is_server_message (dhcp_message_type d) then eth_src frame
                          else case dhcp_client_mac d of Some c \<Rightarrow> c | None \<Rightarrow> eth_src frame)
         \<and> (is_server_message (dhcp_message_type d) \<longrightarrow> obs_signals obs = []))"
proof -
  obtain frame :: ethernet_frame and ip :: ip_header and m :: dhcp_message
    where f: "parse_ethernet bytes = Some frame"
    and b: "build_dhcp m (eth_src frame) (ip_src ip) interface ts = Some obs"
    using assms by (rule parse_dhcp_build)
  show ?thesis using build_dhcp_fields [OF b] f by auto
qed

theorem dhcp_observation_sound_witness:
  "\<exists>obs. parse_dhcp (octets BROADCAST @ octets (MacAddr 4 0 0 0 0 1) @ 8 # 0 #
       [0x45, 0, 1, 16, 0, 0, 0, 0, 64, 17, 0, 0, 0, 0, 0, 0, 255, 255, 255, 255]
       @ [0, 68, 0, 67, 0, 252, 0, 0]
       @ [1, 1, 6, 0] @ replicate 24 0 @ octets (MacAddr 2 0 0 0 0 1) @ replicate 202 0
       @ MAGIC @ [53, 1, 1, 255]) ''eth0'' 5 = Some obs
     \<and> usable (obs_mac obs) \<and> obs_interface obs = ''eth0''"
proof -
  define bootp where "bootp = [1, 1, 6, 0] @ replicate 24 0 @ octets (MacAddr 2 0 0 0 0 1)
       @ replicate 202 0 @ MAGIC @ [53, 1, 1, 255 :: byte]"
  define udp where "udp = [0, 68, 0, 67, 0, 252, 0, 0] @ bootp"
  define packet where
    "packet = [0x45, 0, 1, 16, 0, 0, 0, 0, 64, 17, 0, 0, 0, 0, 0, 0, 255, 255, 255, 255] @ udp"
  have len: "length bootp = 244" by (simp add: bootp_def MAGIC_def)
  have m: "\<exists>m. parse_dhcp_message bootp = Some m \<and> dm_message_type m = DhcpDiscover
      \<and> dm_client_mac m = Some (MacAddr 2 0 0 0 0 1)"
    by (simp add: parse_dhcp_message_def len) (simp add: bootp_def MAGIC_def MAGIC_OFFSET_def
        mac_of_def option_code_defs absorb_def no_options_def or_else_def message_type_from_code_def
        nth_append Let_def)
  have u: "parse_udp udp = Some \<lparr>udp_src_port = 68, udp_dst_port = 67, udp_payload = bootp\<rparr>"
    by (simp add: parse_udp_def udp_def read_u16_def byte_at_def be16_def clamp_def
        Prelude.slice_def len)
  have p: "\<exists>h. parse_ipv4 packet = Some h \<and> ip_protocol h = 17 \<and> ip_payload h = udp"
    by (simp add: parse_ipv4_def packet_def udp_def read_u16_def byte_at_def be16_def clamp_def
        Prelude.slice_def len)
  have t: "\<not> is_tag (be16 8 0)" "be16 8 0 = ETHERTYPE_IPV4"
    by (simp_all add: is_tag_def be16_def ETHERTYPE_VLAN_def ETHERTYPE_QINQ_def ETHERTYPE_IPV4_def)
  have us: "usable (MacAddr 2 0 0 0 0 1)" "usable (MacAddr 4 0 0 0 0 1)" by (simp_all add: usable_def)
  have "\<exists>obs. parse_dhcp (octets BROADCAST @ octets (MacAddr 4 0 0 0 0 1) @ 8 # 0 # packet) ''eth0'' 5
      = Some obs"
    using parse_ethernet_plain [OF t(1), of BROADCAST "MacAddr 4 0 0 0 0 1" packet] t(2) us m u p
    by (auto simp: parse_dhcp_def IPPROTO_UDP_def SERVER_PORT_def usable_def build_dhcp_def Let_def
        is_server_message_def)
  then show ?thesis
    using dhcp_observation_sound unfolding packet_def udp_def bootp_def by fastforce
qed

end
