(* ===== verification/Scorer.thy ===== *)
theory Scorer
  imports Types
begin

text \<open>
  \<^verbatim>\<open>src/identity/scorer.rs\<close>: from a device's signals to its display identity, and the
  comparison of a candidate identity with the current one. Confidences are rationals.
\<close>

record identity_input =
  ii_mac :: mac_addr
  ii_signals :: "signal list"
  ii_device_type :: "string option"

record identity =
  idn_display_name :: string
  idn_source :: signal_kind
  idn_confidence :: rat

definition first_usable :: "signal list \<Rightarrow> signal_kind \<Rightarrow> string option" where
  "first_usable signals kind =
     List.find (\<lambda>v. v \<noteq> []) (map (\<lambda>s. trim (sig_value s)) (filter (\<lambda>s. sig_kind s = kind) signals))"

definition NAMING :: "signal_kind list" where
  "NAMING = [MdnsName, DhcpHostname, ReverseDns, NetbiosName, SsdpFriendlyName]"

definition identity_of :: "string \<Rightarrow> signal_kind \<Rightarrow> identity" where
  "identity_of n k = \<lparr>idn_display_name = n, idn_source = k, idn_confidence = weight k\<rparr>"

fun first_naming :: "signal list \<Rightarrow> signal_kind list \<Rightarrow> identity option" where
  "first_naming signals [] = None" |
  "first_naming signals (k # ks) =
     (case first_usable signals k of
        Some v \<Rightarrow> Some (identity_of v k)
      | None \<Rightarrow> first_naming signals ks)"

definition resolve :: "identity_input \<Rightarrow> identity" where
  "resolve input =
     (case first_usable (ii_signals input) UserAssigned of
        Some v \<Rightarrow> identity_of v UserAssigned
      | None \<Rightarrow>
          (case first_naming (ii_signals input) NAMING of
             Some i \<Rightarrow> i
           | None \<Rightarrow>
               (case first_usable (ii_signals input) Vendor of
                  Some vendor \<Rightarrow>
                    identity_of
                      (case ii_device_type input of
                         Some t \<Rightarrow> if trim t \<noteq> [] then vendor @ '' '' @ trim t else vendor @ '' device''
                       | None \<Rightarrow> vendor @ '' device'') Vendor
                | None \<Rightarrow> identity_of (show_mac (ii_mac input)) MacSignal)))"

datatype verdict = Same | Better | Rival | Worse

definition compare_identity :: "identity \<Rightarrow> identity \<Rightarrow> verdict" where
  "compare_identity candidate current =
     (if idn_confidence candidate > idn_confidence current then Better
      else if idn_confidence candidate < idn_confidence current then Worse
      else if idn_display_name candidate = idn_display_name current then Same
      else Rival)"

definition SETTLE_WINDOW :: duration where
  "SETTLE_WINDOW = secs 300"

definition settled_for :: "time \<Rightarrow> time \<Rightarrow> bool" where
  "settled_for since now \<longleftrightarrow>
     (case to_std (now - since) of Some elapsed \<Rightarrow> elapsed \<ge> SETTLE_WINDOW | None \<Rightarrow> False)"

definition improves_on :: "identity \<Rightarrow> identity \<Rightarrow> bool" where
  "improves_on candidate current \<longleftrightarrow> compare_identity candidate current \<in> {Better, Rival}"

subsection \<open>The strongest usable signal names the device\<close>

lemma first_usable_None:
  "first_usable signals k = None \<longleftrightarrow> (\<forall>s \<in> set signals. sig_kind s = k \<longrightarrow> trim (sig_value s) = [])"
  by (auto simp: first_usable_def find_None_iff)

lemma settled_for_iff: "settled_for since now \<longleftrightarrow> since + int SETTLE_WINDOW \<le> now"
  by (auto simp: settled_for_def to_std_def SETTLE_WINDOW_def secs_def)

text \<open>Kinds that name a device, in the order the scorer tries them.\<close>

definition display_kinds :: "signal_kind list" where
  "display_kinds = UserAssigned # NAMING @ [Vendor]"

definition usable_kinds :: "signal list \<Rightarrow> signal_kind set" where
  "usable_kinds signals = {sig_kind s |s. s \<in> set signals \<and> trim (sig_value s) \<noteq> []} \<inter> set display_kinds"

lemma usable_kinds_iff: "k \<in> usable_kinds signals \<longleftrightarrow> k \<in> set display_kinds \<and> first_usable signals k \<noteq> None"
  by (auto simp: usable_kinds_def first_usable_None)

lemma resolve_cases:
  "(\<exists>k \<in> usable_kinds (ii_signals input). idn_source (resolve input) = k
      \<and> (\<forall>k' \<in> usable_kinds (ii_signals input). weight k' \<le> weight k))
   \<or> usable_kinds (ii_signals input) = {} \<and> resolve input = identity_of (show_mac (ii_mac input)) MacSignal"
proof -
  have set: "usable_kinds (ii_signals input) = set (filter (\<lambda>k. first_usable (ii_signals input) k \<noteq> None) display_kinds)"
    using usable_kinds_iff [of _ "ii_signals input"] by auto
  show ?thesis
    unfolding set by (simp add: resolve_def display_kinds_def NAMING_def identity_of_def split: option.split)
qed

text \<open>
  The display identity comes from a signal that is not blank and whose kind no other usable
  naming signal outweighs, it carries that kind's weight as its confidence, and only a device with
  no usable naming signal is shown by its hardware address.
\<close>

theorem resolve_is_strongest:
  "idn_confidence (resolve input) = weight (idn_source (resolve input))
   \<and> (if usable_kinds (ii_signals input) = {}
      then idn_display_name (resolve input) = show_mac (ii_mac input) \<and> idn_source (resolve input) = MacSignal
      else idn_source (resolve input) \<in> usable_kinds (ii_signals input)
        \<and> weight (idn_source (resolve input)) = Max (weight ` usable_kinds (ii_signals input)))"
proof -
  have c: "idn_confidence (resolve input) = weight (idn_source (resolve input))"
    by (simp add: resolve_def NAMING_def identity_of_def split: option.split)
  have fin: "finite (usable_kinds (ii_signals input))" by (simp add: usable_kinds_def)
  show ?thesis
  proof (cases "usable_kinds (ii_signals input) = {}")
    case True
    then show ?thesis using resolve_cases [of input] c by (auto simp: identity_of_def)
  next
    case False
    then have s: "idn_source (resolve input) \<in> usable_kinds (ii_signals input)"
      "\<forall>k' \<in> usable_kinds (ii_signals input). weight k' \<le> weight (idn_source (resolve input))"
      using resolve_cases [of input] by auto
    then have "weight (idn_source (resolve input)) = Max (weight ` usable_kinds (ii_signals input))"
      using fin by (intro Max_eqI [symmetric]) auto
    then show ?thesis using False s(1) c by simp
  qed
qed

subsection \<open>Adoption\<close>

lemma compare_trichotomy:
  "compare_identity a b = Better \<longleftrightarrow> compare_identity b a = Worse"
  "compare_identity a b = Rival \<longleftrightarrow> compare_identity b a = Rival"
  by (auto simp: compare_identity_def)

lemma improves_on_iff:
  "improves_on a b \<longleftrightarrow> idn_confidence b < idn_confidence a
     \<or> idn_confidence b = idn_confidence a \<and> idn_display_name a \<noteq> idn_display_name b"
  by (auto simp: improves_on_def compare_identity_def)

end
