(* ===== verification/Vendor.thy ===== *)
theory Vendor
  imports Net
begin

text \<open>
  \<^verbatim>\<open>src/identity/oui.rs\<close>: the registered vendor of a hardware address. The registry is embedded
  data, so its text is an argument; the parser and the lookup are the source's.
\<close>

definition REGISTRY_PLACEHOLDER :: string where
  "REGISTRY_PLACEHOLDER = ''IEEE Registration Authority''"

definition PREFIX_WIDTHS :: "nat list" where
  "PREFIX_WIDTHS = [9, 7, 6]"

definition registry_line :: "(string \<rightharpoonup> string) \<Rightarrow> string \<Rightarrow> (string \<rightharpoonup> string)" where
  "registry_line m line =
     (case split_once (chr 9) line of
        None \<Rightarrow> m
      | Some (pre, org) \<Rightarrow> if pre = [] \<or> org = [] then m else m(pre \<mapsto> org))"

definition registry_table :: "string \<Rightarrow> (string \<rightharpoonup> string)" where
  "registry_table tsv = foldl registry_line Map.empty (str_lines tsv)"

fun lookup_widths :: "(string \<rightharpoonup> string) \<Rightarrow> mac_addr \<Rightarrow> nat list \<Rightarrow> string option" where
  "lookup_widths t mac [] = None" |
  "lookup_widths t mac (w # ws) =
     (case t (hex_prefix mac w) of
        Some org \<Rightarrow> if org \<noteq> REGISTRY_PLACEHOLDER then Some org else lookup_widths t mac ws
      | None \<Rightarrow> lookup_widths t mac ws)"

definition vendor_lookup :: "(string \<rightharpoonup> string) \<Rightarrow> mac_addr \<Rightarrow> string option" where
  "vendor_lookup t mac =
     (if is_locally_administered mac \<or> is_group mac \<or> is_zero mac then None
      else lookup_widths t mac PREFIX_WIDTHS)"

definition is_vendor :: "string option \<Rightarrow> bool" where
  "is_vendor e \<longleftrightarrow> e \<noteq> None \<and> e \<noteq> Some REGISTRY_PLACEHOLDER"

lemma lookup_widths_first:
  "lookup_widths t mac ws =
     (case List.find (\<lambda>w. is_vendor (t (hex_prefix mac w))) ws of
        Some w \<Rightarrow> t (hex_prefix mac w) | None \<Rightarrow> None)"
  by (induction ws) (auto simp: is_vendor_def split: option.splits)

text \<open>
  A vendor is reported only for a globally administered unicast address, is never the registry's
  placeholder, and is the one registered for the longest of the three prefixes that names a real
  organisation.
\<close>

theorem vendor_is_longest_prefix:
  "vendor_lookup t mac =
     (if is_locally_administered mac \<or> is_group mac \<or> is_zero mac then None
      else if is_vendor (t (hex_prefix mac 9)) then t (hex_prefix mac 9)
      else if is_vendor (t (hex_prefix mac 7)) then t (hex_prefix mac 7)
      else if is_vendor (t (hex_prefix mac 6)) then t (hex_prefix mac 6)
      else None)"
  by (simp add: vendor_lookup_def lookup_widths_first PREFIX_WIDTHS_def)

end
