(* ===== verification/Rdns.thy ===== *)
theory Rdns
  imports Net
begin

text \<open>
  \<^verbatim>\<open>src/identity/rdns.rs\<close>: the name asked for an address, the cleaning of an answer, and the
  cache in front of the system resolver. The resolver is a parameter: for a query name it gives the
  pointer names of its answer in order, or nothing when the lookup fails. Instants are nanoseconds.
\<close>

definition octets6 :: "ipv6_addr \<Rightarrow> byte list" where
  "octets6 a = concat (map (\<lambda>s. [word_of_nat (unat s div 256), word_of_nat (unat s mod 256)]) (segments a))"

definition nibbles :: "byte \<Rightarrow> string" where
  "nibbles b = [hexdig (unat b mod 16), CHR ''.'', hexdig (unat b div 16), CHR ''.'']"

fun arpa_name :: "ip_addr \<Rightarrow> string" where
  "arpa_name (V4 (Ipv4Addr a b c d)) = show_ipv4 (Ipv4Addr d c b a) @ ''.in-addr.arpa.''" |
  "arpa_name (V6 v6) = concat (map nibbles (rev (octets6 v6))) @ ''ip6.arpa.''"

definition clean_ptr :: "string \<Rightarrow> string option" where
  "clean_ptr raw =
     (let name = trim (trim_end_matches (CHR ''.'') (trim raw)); first_label = hd (split_on (CHR ''.'') name) in
      if name = [] then None
      else if first_label = [] then None
      else if list_all (\<lambda>c. is_digit c \<or> c = CHR ''-'' \<or> c = CHR ''_'') first_label then None
      else if ends_with name ''in-addr.arpa'' \<or> ends_with name ''ip6.arpa'' then None
      else Some name)"

record cache_entry =
  ce_name :: "string option"
  ce_stored_at :: nat

record reverse_resolver =
  rr_ttl :: duration
  rr_cache :: "ip_addr \<rightharpoonup> cache_entry"

definition resolved_name :: "(string \<Rightarrow> string list option) \<Rightarrow> ip_addr \<Rightarrow> string option" where
  "resolved_name resolver ip =
     (case resolver (arpa_name ip) of
        Some ptrs \<Rightarrow> (case List.map_filter clean_ptr ptrs of [] \<Rightarrow> None | n # _ \<Rightarrow> Some n)
      | None \<Rightarrow> None)"

text \<open>The result: the name, the new state, and whether a query left the machine.\<close>

definition reverse_lookup ::
  "(string \<Rightarrow> string list option) \<Rightarrow> reverse_resolver \<Rightarrow> ip_addr \<Rightarrow> nat \<Rightarrow> string option \<times> reverse_resolver \<times> bool"
where
  "reverse_lookup resolver st ip now =
     (let query = (let n = resolved_name resolver ip in
                   (n, st\<lparr>rr_cache := (rr_cache st)(ip \<mapsto> \<lparr>ce_name = n, ce_stored_at = now\<rparr>)\<rparr>, True))
      in case rr_cache st ip of
           Some e \<Rightarrow> if now - ce_stored_at e < rr_ttl st then (ce_name e, st, False) else query
         | None \<Rightarrow> query)"

subsection \<open>Query names\<close>

lemma word_of_nat_div_mod:
  "word_of_nat (unat s div 256) = (word_of_nat (unat t div 256) :: byte) \<Longrightarrow>
   word_of_nat (unat s mod 256) = (word_of_nat (unat t mod 256) :: byte) \<Longrightarrow> s = (t :: u16)"
proof -
  assume h: "word_of_nat (unat s div 256) = (word_of_nat (unat t div 256) :: byte)"
    and l: "word_of_nat (unat s mod 256) = (word_of_nat (unat t mod 256) :: byte)"
  have d: "unat u div 256 < 256" for u :: u16
    using unsigned_less [of u, where 'a = nat] by (simp add: less_mult_imp_div_less)
  have "unat s div 256 = unat t div 256"
    using arg_cong [OF h, of unat] d [of s] d [of t] by (simp add: unat_of_nat)
  moreover have "unat s mod 256 = unat t mod 256"
    using arg_cong [OF l, of unat] by (simp add: unat_of_nat)
  ultimately have "unat s = unat t" by (metis mult_div_mod_eq)
  then show "s = t" by (rule unsigned_word_eqI)
qed

lemma octets6_inject: "octets6 a = octets6 b \<longleftrightarrow> a = b"
  by (cases a; cases b) (auto simp: octets6_def intro: word_of_nat_div_mod)

lemma nibbles_inject: "nibbles a = nibbles b \<longleftrightarrow> a = b"
proof
  assume e: "nibbles a = nibbles b"
  have d: "unat c div 16 < 16" for c :: byte by simp
  have "hexval (hexdig (unat a mod 16)) = hexval (hexdig (unat b mod 16))"
    "hexval (hexdig (unat a div 16)) = hexval (hexdig (unat b div 16))"
    using e by (simp_all add: nibbles_def)
  then have "unat a mod 16 = unat b mod 16" "unat a div 16 = unat b div 16" using d by simp_all
  then have "unat a = unat b" by (metis mult_div_mod_eq)
  then show "a = b" by (rule unsigned_word_eqI)
qed simp

lemma concat_nibbles_inject:
  "length xs = length ys \<Longrightarrow> concat (map nibbles xs) = concat (map nibbles ys) \<longleftrightarrow> xs = ys"
proof (induction xs ys rule: list_induct2)
  case (Cons x xs y ys)
  have "length (nibbles x) = length (nibbles y)" by (simp add: nibbles_def)
  then show ?case using Cons by (simp add: nibbles_inject)
qed simp

lemma length_octets6: "length (octets6 a) = 16"
  by (cases a) (simp add: octets6_def)

lemma arpa_name_kinds: "arpa_name (V4 x) \<noteq> arpa_name (V6 y)"
proof
  assume e: "arpa_name (V4 x) = arpa_name (V6 y)"
  have "rev (arpa_name (V4 x)) ! 6 = CHR ''r''" by (cases x) (simp add: nth_append)
  moreover have "rev (arpa_name (V6 y)) ! 6 = CHR ''6''" by (simp add: nth_append)
  ultimately show False using e by simp
qed

text \<open>Different addresses are asked for under different names.\<close>

theorem arpa_name_injective:
  "arpa_name a = arpa_name b \<longleftrightarrow> a = b"
proof (cases a; cases b)
  fix x y
  assume "a = V4 x" "b = V4 y"
  then show ?thesis by (cases x; cases y) auto
next
  fix x y
  assume "a = V4 x" "b = V6 y"
  then show ?thesis using arpa_name_kinds [of x y] by auto
next
  fix x y
  assume "a = V6 x" "b = V4 y"
  then show ?thesis using arpa_name_kinds [of y x] by auto
next
  fix x y
  assume "a = V6 x" "b = V6 y"
  then show ?thesis by (simp add: concat_nibbles_inject length_octets6 octets6_inject)
qed

subsection \<open>The cache\<close>

text \<open>
  An answer, a failed lookup included, is given again without a query for as long as the
  configured time to live, and the first lookup after that asks again.
\<close>

theorem reverse_lookup_cached:
  assumes "reverse_lookup resolver st ip now = (n, st', True)"
  shows "reverse_lookup resolver' st' ip (now + d)
     = (if d < rr_ttl st then (n, st', False)
        else (resolved_name resolver' ip,
              st'\<lparr>rr_cache := (rr_cache st')(ip \<mapsto>
                    \<lparr>ce_name = resolved_name resolver' ip, ce_stored_at = now + d\<rparr>)\<rparr>, True))"
  using assms by (auto simp: reverse_lookup_def Let_def split: option.splits if_splits)

theorem reverse_lookup_cached_witness:
  "\<exists>st'. reverse_lookup (\<lambda>_. None) \<lparr>rr_ttl = 5, rr_cache = Map.empty\<rparr> (V4 UNSPECIFIED4) 0 = (None, st', True)
     \<and> reverse_lookup (\<lambda>_. Some [''printer.lan'']) st' (V4 UNSPECIFIED4) (0 + 4) = (None, st', False)"
proof -
  have "\<exists>st'. reverse_lookup (\<lambda>_. None) \<lparr>rr_ttl = 5, rr_cache = Map.empty\<rparr> (V4 UNSPECIFIED4) 0 = (None, st', True)"
    by (simp add: reverse_lookup_def resolved_name_def)
  then obtain st' where s:
    "reverse_lookup (\<lambda>_. None) \<lparr>rr_ttl = 5, rr_cache = Map.empty\<rparr> (V4 UNSPECIFIED4) 0 = (None, st', True)" ..
  show ?thesis
    using reverse_lookup_cached [OF s, of "\<lambda>_. Some [''printer.lan'']" 4] s by (intro exI [of _ st']) simp
qed

end
