(* ===== verification/Location.thy ===== *)
theory Location
  imports Config
begin

text \<open>
  \<^verbatim>\<open>src/location/mod.rs\<close>: access points to places, and what a crossing between two access points
  means. \<open>lc\<close> is \<^verbatim>\<open>str::to_lowercase\<close>. The map of locations is an association list with distinct
  keys, the set of edge access points a set.
\<close>

datatype movement = Arriving | Departing | Roaming | MovementUnknown

fun movement_str :: "movement \<Rightarrow> string" where
  "movement_str Arriving = ''arriving''" |
  "movement_str Departing = ''departing''" |
  "movement_str Roaming = ''roaming''" |
  "movement_str MovementUnknown = ''unknown''"

record place =
  pl_ap_name :: string
  pl_location :: string
  pl_edge :: bool

record location_map =
  lm_locations :: "(string \<times> string) list"
  lm_edge_aps :: "string set"

definition ap_key :: "(string \<Rightarrow> string) \<Rightarrow> string \<Rightarrow> string" where
  "ap_key lc ap = lc (trim ap)"

definition add_location ::
  "(string \<Rightarrow> string) \<Rightarrow> string \<times> string \<Rightarrow> (string \<times> string) list \<Rightarrow> (string \<times> string) list"
where
  "add_location lc = (\<lambda>(ap, location) locations.
     if trim location \<noteq> [] then AList.update (ap_key lc ap) (trim location) locations else locations)"

definition from_unifi :: "(string \<Rightarrow> string) \<Rightarrow> unifi_config \<Rightarrow> location_map" where
  "from_unifi lc cfg =
     \<lparr>lm_locations = fold (add_location lc) (un_locations cfg) [],
      lm_edge_aps = set (filter (\<lambda>ap. ap \<noteq> []) (map (ap_key lc) (un_edge_aps cfg)))\<rparr>"

definition location_count :: "location_map \<Rightarrow> nat" where
  "location_count m = length (lm_locations m)"

definition location_is_empty :: "location_map \<Rightarrow> bool" where
  "location_is_empty m \<longleftrightarrow> lm_locations m = []"

definition edge_count :: "location_map \<Rightarrow> nat" where
  "edge_count m = card (lm_edge_aps m)"

definition is_edge :: "(string \<Rightarrow> string) \<Rightarrow> location_map \<Rightarrow> string \<Rightarrow> bool" where
  "is_edge lc m ap \<longleftrightarrow> ap_key lc ap \<in> lm_edge_aps m"

definition location_of_ap :: "(string \<Rightarrow> string) \<Rightarrow> location_map \<Rightarrow> string \<Rightarrow> string" where
  "location_of_ap lc m ap =
     (case map_of (lm_locations m) (ap_key lc ap) of Some l \<Rightarrow> l | None \<Rightarrow> trim ap)"

definition place_of :: "(string \<Rightarrow> string) \<Rightarrow> location_map \<Rightarrow> string \<Rightarrow> place" where
  "place_of lc m ap =
     \<lparr>pl_ap_name = trim ap, pl_location = location_of_ap lc m ap, pl_edge = is_edge lc m ap\<rparr>"

definition movement_of :: "(string \<Rightarrow> string) \<Rightarrow> location_map \<Rightarrow> string option \<Rightarrow> string \<Rightarrow> movement" where
  "movement_of lc m previous current =
     (case previous of
        None \<Rightarrow> MovementUnknown
      | Some p \<Rightarrow>
          if ap_key lc p = ap_key lc current then Roaming
          else
            (case (is_edge lc m p, is_edge lc m current) of
               (True, False) \<Rightarrow> Arriving
             | (False, True) \<Rightarrow> Departing
             | _ \<Rightarrow> Roaming))"

subsection \<open>Crossings\<close>

lemma movement_of_edges:
  "movement_of lc m (Some p) c =
     (if is_edge lc m p = is_edge lc m c then Roaming else if is_edge lc m p then Arriving else Departing)"
  by (auto simp: movement_of_def is_edge_def)

lemma distinct_locations: "distinct (map fst (fold (add_location lc) ps acc))" if "distinct (map fst acc)"
  using that by (induction ps arbitrary: acc) (auto simp: add_location_def distinct_update)

text \<open>The place an access point resolves to is never blank unless its own name is (\<open>location_nonblank\<close>).\<close>

lemma location_values: "\<forall>l \<in> ran (map_of acc). l \<noteq> [] \<Longrightarrow> distinct (map fst acc) \<Longrightarrow>
    \<forall>l \<in> ran (map_of (fold (add_location lc) ps acc)). l \<noteq> []"
proof (induction ps arbitrary: acc)
  case (Cons p ps)
  obtain ap l where p: "p = (ap, l)" by force
  have "\<forall>l \<in> ran (map_of (add_location lc p acc)). l \<noteq> []"
    using Cons.prems by (auto simp: p add_location_def ran_def update_conv')
  moreover have "distinct (map fst (add_location lc p acc))"
    using Cons.prems by (auto simp: p add_location_def distinct_update)
  ultimately show ?case using Cons.IH by simp
qed simp

text \<open>
  Only a crossing of the threshold reads as somebody coming or going. A device arrives exactly
  when it goes from an edge access point to one that is not an edge, it departs exactly when the
  reverse crossing would be an arrival, it roams exactly when both ends are edges or neither is, and
  being placed for the first time is none of these.
\<close>

theorem only_thresholds_move:
  "(movement_of lc m previous current = Arriving
      \<longleftrightarrow> (\<exists>p. previous = Some p \<and> is_edge lc m p \<and> \<not> is_edge lc m current))
   \<and> (movement_of lc m (Some a) b = Departing \<longleftrightarrow> movement_of lc m (Some b) a = Arriving)
   \<and> (movement_of lc m (Some a) b = Roaming \<longleftrightarrow> is_edge lc m a = is_edge lc m b)
   \<and> movement_of lc m None b = MovementUnknown"
proof (intro conjI)
  show "movement_of lc m previous current = Arriving
      \<longleftrightarrow> (\<exists>p. previous = Some p \<and> is_edge lc m p \<and> \<not> is_edge lc m current)"
    by (cases previous) (auto simp: movement_of_edges, simp add: movement_of_def)
qed (auto simp: movement_of_edges, simp add: movement_of_def)

lemma location_nonblank:
  assumes "trim ap \<noteq> []"
  shows "location_of_ap lc (from_unifi lc cfg) ap \<noteq> []"
  using location_values [of "[]" lc "un_locations cfg"] assms
  by (auto simp: location_of_ap_def from_unifi_def ran_def split: option.split)

end
