(* ===== verification/Containers.thy ===== *)
theory Containers
  imports Prelude "HOL-Library.Option_ord" "HOL-Library.List_Lexorder" "HOL-Library.Char_ord"
begin

text \<open>
  The ordered map and the iterator adaptors several components share. A \<^verbatim>\<open>BTreeMap\<close> is an
  association list in ascending order of its keys; strings compare bytewise, as \<^verbatim>\<open>str\<close> does, through
  the lexicographic order of the library.
\<close>

definition show_bool :: "bool \<Rightarrow> string" where
  "show_bool b = (if b then ''true'' else ''false'')"

subsection \<open>Ordered maps\<close>

fun bt_insert :: "'k::linorder \<Rightarrow> 'v \<Rightarrow> ('k \<times> 'v) list \<Rightarrow> ('k \<times> 'v) list" where
  "bt_insert k v [] = [(k, v)]" |
  "bt_insert k v ((k', v') # m) =
     (if k < k' then (k, v) # (k', v') # m
      else if k = k' then (k, v) # m
      else (k', v') # bt_insert k v m)"

definition bt_ok :: "('k::linorder \<times> 'v) list \<Rightarrow> bool" where
  "bt_ok m \<longleftrightarrow> sorted_wrt (<) (map fst m)"

lemma bt_insert_keys [simp]: "fst ` set (bt_insert k v m) = insert k (fst ` set m)"
  by (induction m rule: bt_insert.induct) auto

lemma bt_ok_distinct: "bt_ok m \<Longrightarrow> distinct (map fst m)"
  by (simp add: bt_ok_def strict_sorted_iff)

lemma bt_ok_Nil [simp, intro]: "bt_ok []"
  by (simp add: bt_ok_def)

lemma bt_ok_insert [inv_intros]: "bt_ok m \<Longrightarrow> bt_ok (bt_insert k v m)"
proof (induction m)
  case (Cons p m)
  obtain k' v' where p: "p = (k', v')" by force
  have ok: "bt_ok m" "\<forall>x \<in> fst ` set m. k' < x" using Cons.prems by (auto simp: bt_ok_def p)
  from ok(1) have "bt_ok (bt_insert k v m)" by (rule Cons.IH)
  moreover have "\<forall>x \<in> fst ` set (bt_insert k v m). k' < x" if "k' < k"
    using ok(2) that by simp
  ultimately show ?case using Cons.prems by (auto simp: bt_ok_def p)
qed (simp add: bt_ok_def)

lemma map_of_bt_insert [simp]: "map_of (bt_insert k v m) = (map_of m)(k \<mapsto> v)"
  by (induction m rule: bt_insert.induct) (auto simp: fun_eq_iff)

lemma bt_insert_set:
  assumes ok: "bt_ok m"
  shows "set (bt_insert k v m) = insert (k, v) {e \<in> set m. fst e \<noteq> k}"
proof -
  have "(a, b) \<in> set (bt_insert k v m) \<longleftrightarrow> (a, b) \<in> insert (k, v) {e \<in> set m. fst e \<noteq> k}" for a b
    unfolding map_of_eq_Some_iff [OF bt_ok_distinct [OF bt_ok_insert [OF ok, of k v]], symmetric]
    using bt_ok_distinct [OF ok] by auto
  then show ?thesis by force
qed

lemma bt_insert_same: "bt_ok m \<Longrightarrow> map_of m k = Some v \<Longrightarrow> bt_insert k v m = m"
proof (induction m)
  case (Cons p m)
  obtain k' v' where p: "p = (k', v')" by force
  have "bt_ok m" "\<forall>x \<in> fst ` set m. k' < x" using Cons.prems by (auto simp: bt_ok_def p)
  moreover have "k' < k" if "k \<noteq> k'"
    using Cons.prems(2) that map_of_SomeD [of m k v] calculation(2) by (force simp: p)
  ultimately show ?case using Cons by (auto simp: p)
qed simp

lemma bt_ok_filter [inv_intros]: "bt_ok m \<Longrightarrow> bt_ok (filter P m)"
  by (auto simp: bt_ok_def sorted_wrt_map intro: sorted_wrt_filter)

lemma bt_ok_map_values [inv_intros]: "bt_ok m \<Longrightarrow> bt_ok (map (\<lambda>(k, v). (k, f k v)) m)"
  by (simp add: bt_ok_def case_prod_beta' comp_def)

lemma map_of_filter_keys: "map_of (filter (\<lambda>(k, v). P k) m) k = (if P k then map_of m k else None)"
  by (induction m) auto

subsection \<open>The greatest element of an iterator\<close>

text \<open>\<^verbatim>\<open>Iterator::max_by\<close>: of equal greatest elements the last one.\<close>

definition max_by :: "('a \<Rightarrow> 'a \<Rightarrow> bool) \<Rightarrow> 'a list \<Rightarrow> 'a option" where
  "max_by le xs =
     (case xs of [] \<Rightarrow> None | y # ys \<Rightarrow> Some (fold (\<lambda>x best. if le best x then x else best) ys y))"

lemma max_by_Nil_iff [simp]: "max_by le xs = None \<longleftrightarrow> xs = []"
  by (simp add: max_by_def split: list.split)

lemma max_by_Nil [simp]: "max_by le [] = None"
  by (simp add: max_by_def)

lemma max_by_fold:
  assumes total: "\<And>x y. le x y \<or> le y x" and trans: "\<And>x y z. le x y \<Longrightarrow> le y z \<Longrightarrow> le x z"
  shows "fold (\<lambda>x best. if le best x then x else best) xs b \<in> insert b (set xs)
    \<and> (\<forall>x \<in> insert b (set xs). le x (fold (\<lambda>x best. if le best x then x else best) xs b))"
proof (induction xs arbitrary: b)
  case Nil
  show ?case using total [of b b] by simp
next
  case (Cons y ys)
  show ?case
  proof (cases "le b y")
    case True
    then show ?thesis using Cons.IH [of y] trans [of b y] by auto
  next
    case False
    then have "le y b" using total [of b y] by blast
    then show ?thesis using Cons.IH [of b] trans [of y b] False by auto
  qed
qed

lemma max_by_Some:
  assumes "\<And>x y. le x y \<or> le y x" and "\<And>x y z. le x y \<Longrightarrow> le y z \<Longrightarrow> le x z"
    and "max_by le xs = Some m"
  shows "m \<in> set xs" and "\<forall>x \<in> set xs. le x m"
proof -
  obtain y ys where xs: "xs = y # ys" and m: "m = fold (\<lambda>x best. if le best x then x else best) ys y"
    using assms(3) by (auto simp: max_by_def split: list.splits)
  have "m \<in> insert y (set ys) \<and> (\<forall>x \<in> insert y (set ys). le x m)"
    unfolding m by (rule max_by_fold) (use assms(1,2) in auto)
  then show "m \<in> set xs" and "\<forall>x \<in> set xs. le x m" by (auto simp: xs)
qed

end
