(* ===== verification/Machine.thy ===== *)
theory Machine
  imports Prelude
begin

text \<open>
  The contract between a state machine of the program and the specification it refines: a machine
  takes one operation at a time and reports what it did, the specification reads the reports and
  refuses one that contradicts what it knows. The locale \<open>simulation\<close> lifts the refinement from one
  step to every run.
\<close>

fun machine_run :: "('s \<Rightarrow> 'op \<Rightarrow> 's \<times> 'e list) \<Rightarrow> 's \<Rightarrow> 'op list \<Rightarrow> 's \<times> 'e list" where
  "machine_run step s [] = (s, [])" |
  "machine_run step s (x # xs) =
     (let (s1, es) = step s x; (s2, es') = machine_run step s1 xs in (s2, es @ es'))"

lemma machine_run_append:
  "machine_run step s (xs @ ys) =
     (let (s1, es) = machine_run step s xs; (s2, es') = machine_run step s1 ys in (s2, es @ es'))"
  by (induction xs arbitrary: s) (simp_all add: case_prod_beta Let_def)

text \<open>The specification's run over the reports: the first refusal is final.\<close>

fun spec_run :: "('a \<Rightarrow> 'e \<Rightarrow> 'a option) \<Rightarrow> 'a \<Rightarrow> 'e list \<Rightarrow> 'a option" where
  "spec_run accept a [] = Some a" |
  "spec_run accept a (e # es) = do { b \<leftarrow> accept a e; spec_run accept b es }"

lemma spec_run_append:
  "spec_run accept a (es @ es') = do { b \<leftarrow> spec_run accept a es; spec_run accept b es' }"
  by (induction es arbitrary: a) (auto split: bind_split)

locale simulation =
  fixes ok :: "'s \<Rightarrow> bool"
    and step :: "'s \<Rightarrow> 'op \<Rightarrow> 's \<times> 'e list"
    and view :: "'s \<Rightarrow> 'a"
    and accept :: "'a \<Rightarrow> 'e \<Rightarrow> 'a option"
  assumes step_ok: "ok s \<Longrightarrow> ok (fst (step s x))"
    and step_accepted: "ok s \<Longrightarrow> spec_run accept (view s) (snd (step s x)) = Some (view (fst (step s x)))"
begin

lemma run_ok: "ok s \<Longrightarrow> ok (fst (machine_run step s xs))"
  by (induction xs arbitrary: s) (auto simp: case_prod_beta step_ok)

lemma run_accepted:
  "ok s \<Longrightarrow> spec_run accept (view s) (snd (machine_run step s xs)) = Some (view (fst (machine_run step s xs)))"
  by (induction xs arbitrary: s) (simp_all add: case_prod_beta step_ok step_accepted spec_run_append)

text \<open>Nothing the specification refuses in its present state is ever reported first.\<close>

lemma run_head:
  assumes "ok s" "snd (machine_run step s xs) = e # es"
  shows "accept (view s) e \<noteq> None"
  using run_accepted [OF assms(1), of xs] assms(2) by (cases "accept (view s) e") auto

lemma run_prefix:
  assumes "ok s" "snd (machine_run step s xs) = es @ e # es'"
  shows "\<exists>a. spec_run accept (view s) es = Some a \<and> accept a e \<noteq> None"
  using run_accepted [OF assms(1), of xs] assms(2)
  by (cases "spec_run accept (view s) es"; cases "accept (the (spec_run accept (view s) es)) e")
    (auto simp: spec_run_append)

end

end
