(* ===== verification/People.thy ===== *)
theory People
  imports Location Alert Containers Machine
begin

text \<open>
  \<^verbatim>\<open>src/people/mod.rs\<close>: who is home, inferred from which of their devices are online. The people
  are an ordered map; the owners, which the source iterates, an association list; the
  configured owners and the views of the devices are maps. \<open>dbg\<close> is the quoting of \<^verbatim>\<open>{:?}\<close>, whose
  table of printable characters is not modelled.
\<close>

definition EDGE_EVIDENCE_WINDOW :: int where
  "EDGE_EVIDENCE_WINDOW = 15 * 60 * 1000000000"

datatype person_state = Home | Away

fun person_state_str :: "person_state \<Rightarrow> string" where
  "person_state_str Home = ''home''" |
  "person_state_str Away = ''away''"

definition person_state_from_db :: "string \<Rightarrow> person_state" where
  "person_state_from_db s = (if s = ''home'' then Home else Away)"

record person =
  pn_item_id :: string
  pn_name :: string
  pn_notify_arrive :: bool
  pn_notify_depart :: bool
  pn_state :: person_state
  pn_current_location :: "string option"
  pn_last_arrived_at :: "time option"
  pn_last_departed_at :: "time option"

record person_update =
  pu_item_id :: string
  pu_state :: person_state
  pu_current_location :: "string option"
  pu_last_arrived_at :: "time option"
  pu_last_departed_at :: "time option"

record person_event =
  pe_event_type :: event_type
  pe_item_id :: string
  pe_name :: string
  pe_mac :: mac_addr
  pe_at :: time
  pe_notify :: bool
  pe_details :: json

record outcome =
  oc_events :: "person_event list"
  oc_updates :: "person_update list"

definition no_outcome :: outcome where
  "no_outcome = \<lparr>oc_events = [], oc_updates = []\<rparr>"

definition outcome_is_empty :: "outcome \<Rightarrow> bool" where
  "outcome_is_empty oc \<longleftrightarrow> oc_events oc = [] \<and> oc_updates oc = []"

record device_view =
  vw_online :: bool
  vw_ap_name :: "string option"
  vw_location :: "string option"
  vw_last_active :: "time option"
  vw_last_edge :: "(string \<times> time) option"

definition default_view :: device_view where
  "default_view =
     \<lparr>vw_online = False, vw_ap_name = None, vw_location = None, vw_last_active = None,
      vw_last_edge = None\<rparr>"

datatype registry_change =
    PersonAdded string string
  | PersonEdited string string "string list"
  | PersonRemoved string string
  | OwnerChanged mac_addr "string option" "string option"

record registry =
  rg_people :: "(string \<times> person) list"
  rg_owner :: "(mac_addr \<times> string) list"
  rg_config_owner :: "mac_addr \<rightharpoonup> string"
  rg_devices :: "mac_addr \<rightharpoonup> device_view"

definition new_registry :: registry where
  "new_registry = \<lparr>rg_people = [], rg_owner = [], rg_config_owner = Map.empty, rg_devices = Map.empty\<rparr>"

subsection \<open>Loading and reconciling\<close>

definition insert_person :: "registry \<Rightarrow> person \<Rightarrow> registry" where
  "insert_person r p = r\<lparr>rg_people := bt_insert (pn_item_id p) p (rg_people r)\<rparr>"

definition set_owner :: "registry \<Rightarrow> mac_addr \<Rightarrow> string \<Rightarrow> registry" where
  "set_owner r mac item_id = r\<lparr>rg_owner := AList.update mac item_id (rg_owner r)\<rparr>"

definition set_config_owner :: "registry \<Rightarrow> mac_addr \<Rightarrow> string \<Rightarrow> registry" where
  "set_config_owner r mac item_id =
     r\<lparr>rg_config_owner := (rg_config_owner r)(mac \<mapsto> item_id),
       rg_owner := AList.update mac item_id (rg_owner r)\<rparr>"

text \<open>The plugin-owned fields of a person already known, and what changed among them.\<close>

definition edit_person :: "(string \<Rightarrow> string) \<Rightarrow> person \<Rightarrow> person \<Rightarrow> person \<times> string list" where
  "edit_person dbg known p =
     (known\<lparr>pn_name := pn_name p, pn_notify_arrive := pn_notify_arrive p,
        pn_notify_depart := pn_notify_depart p\<rparr>,
      (if pn_name known \<noteq> pn_name p then [''name='' @ dbg (pn_name p)] else [])
      @ (if pn_notify_arrive known \<noteq> pn_notify_arrive p
         then [''notify_arrive='' @ show_bool (pn_notify_arrive p)] else [])
      @ (if pn_notify_depart known \<noteq> pn_notify_depart p
         then [''notify_depart='' @ show_bool (pn_notify_depart p)] else []))"

definition reconcile_person ::
  "(string \<Rightarrow> string) \<Rightarrow> person \<Rightarrow> (string \<times> person) list \<times> registry_change list
     \<Rightarrow> (string \<times> person) list \<times> registry_change list"
where
  "reconcile_person dbg p = (\<lambda>(people, changes).
     case map_of people (pn_item_id p) of
       Some known \<Rightarrow>
         (let (edited, fields) = edit_person dbg known p in
          (bt_insert (pn_item_id p) edited people,
           if fields \<noteq> [] then changes @ [PersonEdited (pn_item_id p) (pn_name p) fields] else changes))
     | None \<Rightarrow>
         (bt_insert (pn_item_id p) p people, changes @ [PersonAdded (pn_item_id p) (pn_name p)]))"

definition retain_people ::
  "string set \<Rightarrow> (string \<times> person) list \<Rightarrow> (string \<times> person) list \<times> registry_change list"
where
  "retain_people present people =
     (filter (\<lambda>(item_id, p). item_id \<in> present) people,
      map (\<lambda>(item_id, p). PersonRemoved item_id (pn_name p))
        (filter (\<lambda>(item_id, p). item_id \<notin> present) people))"

definition reconcile_owner ::
  "(mac_addr \<rightharpoonup> string) \<Rightarrow> mac_addr \<times> string option \<Rightarrow> (mac_addr \<times> string) list \<times> registry_change list
     \<Rightarrow> (mac_addr \<times> string) list \<times> registry_change list"
where
  "reconcile_owner config_owner = (\<lambda>(mac, stored) (owner, changes).
     let wanted = (case stored of Some i \<Rightarrow> Some i | None \<Rightarrow> config_owner mac);
         current = map_of owner mac in
     if current = wanted then (owner, changes)
     else
       (case wanted of Some i \<Rightarrow> AList.update mac i owner | None \<Rightarrow> AList.delete mac owner,
        changes @ [OwnerChanged mac current wanted]))"

definition reconcile ::
  "(string \<Rightarrow> string) \<Rightarrow> registry \<Rightarrow> person list \<Rightarrow> (mac_addr \<times> string option) list
     \<Rightarrow> registry \<times> registry_change list"
where
  "reconcile dbg r people owners =
     (let (merged, edits) = fold (reconcile_person dbg) people (rg_people r, []);
          (kept, removals) = retain_people (set (map pn_item_id people)) merged;
          (owner, moves) = fold (reconcile_owner (rg_config_owner r)) owners (rg_owner r, []) in
      (r\<lparr>rg_people := kept, rg_owner := owner\<rparr>, edits @ removals @ moves))"

subsection \<open>Reading\<close>

definition registry_len :: "registry \<Rightarrow> nat" where
  "registry_len r = length (rg_people r)"

definition registry_is_empty :: "registry \<Rightarrow> bool" where
  "registry_is_empty r \<longleftrightarrow> rg_people r = []"

definition registry_is_active :: "registry \<Rightarrow> bool" where
  "registry_is_active r \<longleftrightarrow> rg_people r \<noteq> []
     \<and> list_ex (\<lambda>(mac, item_id). map_of (rg_people r) item_id \<noteq> None) (rg_owner r)"

definition person_of :: "registry \<Rightarrow> string \<Rightarrow> person option" where
  "person_of r item_id = map_of (rg_people r) item_id"

definition all_people :: "registry \<Rightarrow> person list" where
  "all_people r = map snd (rg_people r)"

definition by_name :: "registry \<Rightarrow> string \<Rightarrow> person option" where
  "by_name r name = List.find (\<lambda>p. eq_ignore_ascii_case (pn_name p) (trim name)) (map snd (rg_people r))"

definition owned_by :: "registry \<Rightarrow> string \<Rightarrow> mac_addr list" where
  "owned_by r item_id = map fst (filter (\<lambda>(mac, own). own = item_id) (rg_owner r))"

definition devices_of :: "registry \<Rightarrow> string \<Rightarrow> mac_addr list" where
  "devices_of r item_id = sort (owned_by r item_id)"

definition any_online :: "registry \<Rightarrow> string \<Rightarrow> bool" where
  "any_online r item_id \<longleftrightarrow>
     list_ex (\<lambda>mac. case rg_devices r mac of Some v \<Rightarrow> vw_online v | None \<Rightarrow> False) (owned_by r item_id)"

definition owned_views :: "registry \<Rightarrow> string \<Rightarrow> device_view list" where
  "owned_views r item_id = List.map_filter (rg_devices r) (owned_by r item_id)"

definition less_active :: "device_view \<Rightarrow> device_view \<Rightarrow> bool" where
  "less_active a b \<longleftrightarrow> vw_last_active a < vw_last_active b
     \<or> vw_last_active a = vw_last_active b \<and> vw_location a \<le> vw_location b"

definition location_of_person :: "registry \<Rightarrow> string \<Rightarrow> string option" where
  "location_of_person r item_id =
     (case max_by less_active
         (filter (\<lambda>v. vw_online v \<and> vw_location v \<noteq> None) (owned_views r item_id)) of
        Some v \<Rightarrow> vw_location v | None \<Rightarrow> None)"

definition edge_evidence :: "registry \<Rightarrow> mac_addr \<Rightarrow> time \<Rightarrow> string option" where
  "edge_evidence r mac now =
     do { v \<leftarrow> rg_devices r mac;
          (ap, crossed) \<leftarrow> vw_last_edge v;
          if now \<ge> crossed \<and> now - crossed \<le> EDGE_EVIDENCE_WINDOW then Some ap else None }"

definition edge_of_view :: "device_view \<Rightarrow> (string \<times> time) option" where
  "edge_of_view v =
     do { (ap, crossed) \<leftarrow> vw_last_edge v;
          active \<leftarrow> vw_last_active v;
          if active \<ge> crossed \<and> active - crossed \<le> EDGE_EVIDENCE_WINDOW then Some (ap, crossed) else None }"

definition edge_evidence_for_person :: "registry \<Rightarrow> string \<Rightarrow> string option" where
  "edge_evidence_for_person r item_id =
     map_option fst
       (max_by (\<lambda>a b. snd a \<le> snd b) (List.map_filter edge_of_view (owned_views r item_id)))"

subsection \<open>The state machine\<close>

definition update_of :: "person \<Rightarrow> person_update" where
  "update_of p =
     \<lparr>pu_item_id = pn_item_id p, pu_state = pn_state p, pu_current_location = pn_current_location p,
      pu_last_arrived_at = pn_last_arrived_at p, pu_last_departed_at = pn_last_departed_at p\<rparr>"

fun merge_update :: "person_update list \<Rightarrow> person_update \<Rightarrow> person_update list" where
  "merge_update [] u = [u]" |
  "merge_update (e # es) u = (if pu_item_id e = pu_item_id u then u # es else e # merge_update es u)"

definition merge :: "outcome \<Rightarrow> outcome \<Rightarrow> outcome" where
  "merge oc other =
     \<lparr>oc_events = oc_events oc @ oc_events other,
      oc_updates = foldl merge_update (oc_updates oc) (oc_updates other)\<rparr>"

definition view_of :: "registry \<Rightarrow> mac_addr \<Rightarrow> device_view" where
  "view_of r mac = (case rg_devices r mac of Some v \<Rightarrow> v | None \<Rightarrow> default_view)"

definition put_view :: "registry \<Rightarrow> mac_addr \<Rightarrow> device_view \<Rightarrow> registry" where
  "put_view r mac v = r\<lparr>rg_devices := (rg_devices r)(mac \<mapsto> v)\<rparr>"

definition put_person :: "registry \<Rightarrow> string \<Rightarrow> person \<Rightarrow> registry" where
  "put_person r item_id p = r\<lparr>rg_people := bt_insert item_id p (rg_people r)\<rparr>"

definition restore_device :: "registry \<Rightarrow> mac_addr \<Rightarrow> bool \<Rightarrow> time \<Rightarrow> registry" where
  "restore_device r mac online now =
     put_view r mac ((view_of r mac)\<lparr>vw_online := online, vw_last_active := Some now\<rparr>)"

definition device_seen :: "registry \<Rightarrow> mac_addr \<Rightarrow> time \<Rightarrow> registry" where
  "device_seen r mac now =
     (if map_of (rg_owner r) mac = None then r
      else
        (let v = view_of r mac in
         put_view r mac
           (if (case vw_last_active v of None \<Rightarrow> True | Some previous \<Rightarrow> now > previous)
            then v\<lparr>vw_last_active := Some now\<rparr> else v)))"

definition refresh_location ::
  "registry \<Rightarrow> string \<Rightarrow> mac_addr \<Rightarrow> time \<Rightarrow> registry \<times> outcome"
where
  "refresh_location r item_id trigger now =
     (let location = location_of_person r item_id in
      case map_of (rg_people r) item_id of
        None \<Rightarrow> (r, no_outcome)
      | Some p \<Rightarrow>
          if pn_state p \<noteq> Home \<or> pn_current_location p = location then (r, no_outcome)
          else
            (let p1 = p\<lparr>pn_current_location := location\<rparr> in
             (put_person r item_id p1,
              \<lparr>oc_events =
                 (if location \<noteq> None then
                    [\<lparr>pe_event_type = PersonLocationChanged, pe_item_id = item_id, pe_name = pn_name p1,
                      pe_mac = trigger, pe_at = now, pe_notify = False,
                      pe_details = JObj
                        [(''person'', JStr (pn_name p1)), (''person_item_id'', JStr item_id),
                         (''device'', JStr (show_mac trigger)),
                         (''previous_location'', jopt JStr (pn_current_location p)),
                         (''location'', jopt JStr location)]\<rparr>]
                  else []),
               oc_updates = [update_of p1]\<rparr>)))"

definition device_online :: "registry \<Rightarrow> mac_addr \<Rightarrow> time \<Rightarrow> registry \<times> outcome" where
  "device_online r mac now =
     (case map_of (rg_owner r) mac of
        None \<Rightarrow> (r, no_outcome)
      | Some item_id \<Rightarrow>
          (let r1 = put_view r mac ((view_of r mac)\<lparr>vw_online := True, vw_last_active := Some now\<rparr>) in
           case map_of (rg_people r1) item_id of
             None \<Rightarrow> (r1, no_outcome)
           | Some p \<Rightarrow>
               if pn_state p = Away then
                 (let via = edge_evidence r1 mac now;
                      location = location_of_person r1 item_id;
                      p1 = p\<lparr>pn_state := Home, pn_last_arrived_at := Some now,
                             pn_current_location := location\<rparr> in
                  (put_person r1 item_id p1,
                   \<lparr>oc_events =
                      [\<lparr>pe_event_type = PersonArrived, pe_item_id = item_id, pe_name = pn_name p1,
                        pe_mac = mac, pe_at = now, pe_notify = pn_notify_arrive p1,
                        pe_details = JObj
                          [(''person'', JStr (pn_name p1)), (''person_item_id'', JStr item_id),
                           (''device'', JStr (show_mac mac)), (''location'', jopt JStr location),
                           (''via'', jopt JStr via)]\<rparr>],
                    oc_updates = [update_of p1]\<rparr>))
               else
                 (let (r2, oc) = refresh_location r1 item_id mac now in (r2, merge no_outcome oc))))"

definition device_offline :: "registry \<Rightarrow> mac_addr \<Rightarrow> time \<Rightarrow> registry \<times> outcome" where
  "device_offline r mac now =
     (case map_of (rg_owner r) mac of
        None \<Rightarrow> (r, no_outcome)
      | Some item_id \<Rightarrow>
          (let r1 = put_view r mac
                      ((view_of r mac)\<lparr>vw_online := False, vw_ap_name := None, vw_location := None\<rparr>) in
           case map_of (rg_people r1) item_id of
             None \<Rightarrow> (r1, no_outcome)
           | Some p \<Rightarrow>
               if any_online r1 item_id then
                 (let (r2, oc) = refresh_location r1 item_id mac now in (r2, merge no_outcome oc))
               else if pn_state p = Away then (r1, no_outcome)
               else
                 (let via = edge_evidence_for_person r1 item_id;
                      p1 = p\<lparr>pn_state := Away, pn_last_departed_at := Some now,
                             pn_current_location := None\<rparr> in
                  (put_person r1 item_id p1,
                   \<lparr>oc_events =
                      [\<lparr>pe_event_type = PersonDeparted, pe_item_id = item_id, pe_name = pn_name p1,
                        pe_mac = mac, pe_at = now, pe_notify = pn_notify_depart p1,
                        pe_details = JObj
                          [(''person'', JStr (pn_name p1)), (''person_item_id'', JStr item_id),
                           (''device'', JStr (show_mac mac)), (''via'', jopt JStr via)]\<rparr>],
                    oc_updates = [update_of p1]\<rparr>))))"

definition device_moved ::
  "registry \<Rightarrow> mac_addr \<Rightarrow> place \<Rightarrow> movement \<Rightarrow> time \<Rightarrow> registry \<times> outcome"
where
  "device_moved r mac place movement now =
     (case map_of (rg_owner r) mac of
        None \<Rightarrow> (r, no_outcome)
      | Some item_id \<Rightarrow>
          (let v = (view_of r mac)\<lparr>vw_ap_name := Some (pl_ap_name place),
                     vw_location := Some (pl_location place), vw_last_active := Some now\<rparr>;
               r1 = put_view r mac
                      (if pl_edge place then v\<lparr>vw_last_edge := Some (pl_ap_name place, now)\<rparr> else v) in
           if map_of (rg_people r1) item_id = None then (r1, no_outcome)
           else refresh_location r1 item_id mac now))"

subsection \<open>The roster\<close>

record roster =
  ro_people :: "person list"
  ro_owners :: "(mac_addr \<times> string) list"
  ro_config_owners :: "(mac_addr \<times> string) list"

definition into_registry :: "roster \<Rightarrow> registry" where
  "into_registry ro =
     (let known = set (map pn_item_id (ro_people ro));
          r1 = foldl insert_person new_registry (ro_people ro);
          r2 = foldl (\<lambda>r (mac, item_id). if item_id \<in> known then set_config_owner r mac item_id else r)
                 r1 (ro_config_owners ro) in
      foldl (\<lambda>r (mac, item_id). if item_id \<in> known then set_owner r mac item_id else r) r2 (ro_owners ro))"

subsection \<open>Presence follows the devices\<close>

datatype presence_op =
    CameOnline mac_addr time
  | FellOffline mac_addr time
  | ChangedPlace mac_addr place movement time
  | WasSeen mac_addr time

fun presence_step :: "registry \<Rightarrow> presence_op \<Rightarrow> registry \<times> outcome" where
  "presence_step r (CameOnline mac now) = device_online r mac now" |
  "presence_step r (FellOffline mac now) = device_offline r mac now" |
  "presence_step r (ChangedPlace mac place movement now) = device_moved r mac place movement now" |
  "presence_step r (WasSeen mac now) = (device_seen r mac now, no_outcome)"

definition presence_events :: "registry \<Rightarrow> presence_op \<Rightarrow> registry \<times> person_event list" where
  "presence_events r x = (fst (presence_step r x), oc_events (snd (presence_step r x)))"

definition is_online :: "registry \<Rightarrow> mac_addr \<Rightarrow> bool" where
  "is_online r mac \<longleftrightarrow> (case rg_devices r mac of Some v \<Rightarrow> vw_online v | None \<Rightarrow> False)"

definition registry_ok :: "registry \<Rightarrow> bool" where
  "registry_ok r \<longleftrightarrow> bt_ok (rg_people r) \<and> distinct (map fst (rg_owner r))
     \<and> (\<forall>(i, p) \<in> set (rg_people r). pn_item_id p = i)"

text \<open>A person is home exactly when a device they own is online.\<close>

definition home_matches :: "registry \<Rightarrow> bool" where
  "home_matches r \<longleftrightarrow> (\<forall>(i, p) \<in> set (rg_people r). pn_state p = Home \<longleftrightarrow> any_online r i)"

text \<open>
  The specification is the household: who is known, and whether they are home. It accepts an arrival
  of somebody away, a departure of somebody home, and a move of somebody home.
\<close>

definition household :: "registry \<Rightarrow> (string \<rightharpoonup> person_state)" where
  "household r = (\<lambda>i. map_option pn_state (map_of (rg_people r) i))"

definition announce :: "(string \<rightharpoonup> person_state) \<Rightarrow> person_event \<Rightarrow> (string \<rightharpoonup> person_state) option" where
  "announce h e =
     (case pe_event_type e of
        PersonArrived \<Rightarrow> if h (pe_item_id e) = Some Away then Some (h(pe_item_id e \<mapsto> Home)) else None
      | PersonDeparted \<Rightarrow> if h (pe_item_id e) = Some Home then Some (h(pe_item_id e \<mapsto> Away)) else None
      | PersonLocationChanged \<Rightarrow> if h (pe_item_id e) = Some Home then Some h else None
      | _ \<Rightarrow> None)"

lemma set_owned_by: "distinct (map fst (rg_owner r)) \<Longrightarrow> set (owned_by r i) = {mac. map_of (rg_owner r) mac = Some i}"
  by (force simp: owned_by_def)

lemma any_online_iff:
  "registry_ok r \<Longrightarrow> any_online r i \<longleftrightarrow> (\<exists>mac. map_of (rg_owner r) mac = Some i \<and> is_online r mac)"
  by (auto simp: registry_ok_def any_online_def list_ex_iff set_owned_by is_online_def)

lemma put_view_simps [simp]:
  "rg_people (put_view r mac v) = rg_people r" "rg_owner (put_view r mac v) = rg_owner r"
  "rg_config_owner (put_view r mac v) = rg_config_owner r"
  "is_online (put_view r mac v) mac' = (if mac' = mac then vw_online v else is_online r mac')"
  "registry_ok (put_view r mac v) = registry_ok r"
  by (simp_all add: put_view_def is_online_def registry_ok_def)

lemma put_person_simps [simp]:
  "map_of (rg_people (put_person r i p)) = (map_of (rg_people r))(i \<mapsto> p)"
  "rg_owner (put_person r i p) = rg_owner r"
  "rg_devices (put_person r i p) = rg_devices r"
  "is_online (put_person r i p) mac = is_online r mac"
  "any_online (put_person r i p) j = any_online r j"
  "location_of_person (put_person r i p) j = location_of_person r j"
  by (simp_all add: put_person_def is_online_def any_online_def owned_by_def location_of_person_def
      owned_views_def)

lemma put_person_ok [inv_intros]: "registry_ok r \<Longrightarrow> pn_item_id p = i \<Longrightarrow> registry_ok (put_person r i p)"
  by (auto simp: registry_ok_def put_person_def bt_insert_set intro: bt_ok_insert)

lemma home_matches_iff:
  "registry_ok r \<Longrightarrow> home_matches r
     \<longleftrightarrow> (\<forall>i p. map_of (rg_people r) i = Some p \<longrightarrow> (pn_state p = Home \<longleftrightarrow> any_online r i))"
  using bt_ok_distinct [of "rg_people r"] by (fastforce simp: home_matches_def registry_ok_def)

lemma person_id: "registry_ok r \<Longrightarrow> map_of (rg_people r) i = Some p \<Longrightarrow> pn_item_id p = i"
  using map_of_SomeD [of "rg_people r" i p] by (fastforce simp: registry_ok_def)

lemma household_simps [simp]:
  "household (put_view r mac v) = household r"
  "household (put_person r i p) = (household r)(i \<mapsto> pn_state p)"
  by (auto simp: household_def fun_eq_iff)

lemma outcome_simps [simp]:
  "oc_events no_outcome = []" "oc_updates no_outcome = []"
  "oc_events (merge a b) = oc_events a @ oc_events b"
  by (simp_all add: no_outcome_def merge_def)

lemma any_online_put_view:
  assumes "registry_ok r" "map_of (rg_owner r) mac = Some i"
  shows "any_online (put_view r mac v) j =
     (if j = i then vw_online v \<or> (\<exists>m. m \<noteq> mac \<and> map_of (rg_owner r) m = Some i \<and> is_online r m)
      else any_online r j)"
  using assms by (auto simp: any_online_iff split: if_splits) (metis option.inject)

lemma home_matchesI:
  assumes "registry_ok r"
    and "\<And>i p. map_of (rg_people r) i = Some p \<Longrightarrow> pn_state p = Home \<longleftrightarrow> any_online r i"
  shows "home_matches r"
  using assms by (simp add: home_matches_iff)

lemma home_matchesD:
  "home_matches r \<Longrightarrow> registry_ok r \<Longrightarrow> map_of (rg_people r) i = Some p
     \<Longrightarrow> pn_state p = Home \<longleftrightarrow> any_online r i"
  by (simp add: home_matches_iff)

lemma refresh_location_state:
  "map_of (rg_people (fst (refresh_location r i mac now))) j = Some p'
     \<Longrightarrow> \<exists>p. map_of (rg_people r) j = Some p \<and> pn_state p' = pn_state p"
  by (auto simp: refresh_location_def Let_def split: option.splits if_splits)

lemma refresh_location_rest [simp]:
  "any_online (fst (refresh_location r i mac now)) j = any_online r j"
  "household (fst (refresh_location r i mac now)) = household r"
  "spec_run announce (household r) (oc_events (snd (refresh_location r i mac now))) = Some (household r)"
  by (auto simp: refresh_location_def Let_def household_def announce_def fun_upd_idem fun_eq_iff split: option.split)

lemma refresh_location_ok: "registry_ok r \<Longrightarrow> registry_ok (fst (refresh_location r i mac now))"
  by (auto simp: refresh_location_def Let_def person_id intro!: put_person_ok split: option.split)

lemma refresh_location_home:
  assumes "registry_ok r" "home_matches r"
  shows "home_matches (fst (refresh_location r i mac now))"
proof (rule home_matchesI [OF refresh_location_ok [OF assms(1)]])
  fix j p'
  assume "map_of (rg_people (fst (refresh_location r i mac now))) j = Some p'"
  from refresh_location_state [OF this] obtain p where
    "map_of (rg_people r) j = Some p" "pn_state p' = pn_state p" by blast
  then show "pn_state p' = Home \<longleftrightarrow> any_online (fst (refresh_location r i mac now)) j"
    using home_matchesD [OF assms(2,1)] by simp
qed

text \<open>A change of one view that leaves the owner's standing as it was.\<close>

lemma put_view_home:
  assumes "registry_ok r" "home_matches r" "map_of (rg_owner r) mac = Some i"
    and "case map_of (rg_people r) i of None \<Rightarrow> True
         | Some p \<Rightarrow> pn_state p = Home \<longleftrightarrow> any_online (put_view r mac v) i"
  shows "home_matches (put_view r mac v)"
proof (rule home_matchesI)
  fix j p
  assume "map_of (rg_people (put_view r mac v)) j = Some p"
  then show "pn_state p = Home \<longleftrightarrow> any_online (put_view r mac v) j"
    using assms home_matchesD [OF assms(2,1), of j p]
    by (cases "j = i") (auto simp: any_online_put_view)
qed (use assms in simp)

lemma put_view_same_presence:
  assumes "registry_ok r" "home_matches r" "map_of (rg_owner r) mac = Some i"
    and "vw_online v = is_online r mac"
  shows "home_matches (put_view r mac v)"
proof (rule put_view_home [OF assms(1-3)])
  have "any_online (put_view r mac v) i = any_online r i"
    using assms by (auto simp: any_online_iff)
  then show "case map_of (rg_people r) i of None \<Rightarrow> True
         | Some p \<Rightarrow> pn_state p = Home \<longleftrightarrow> any_online (put_view r mac v) i"
    using home_matchesD [OF assms(2,1)] by (auto split: option.split)
qed

lemma view_of_online: "vw_online (view_of r mac) = is_online r mac"
  by (simp add: view_of_def is_online_def default_view_def split: option.split)

definition follows :: "registry \<Rightarrow> registry \<times> outcome \<Rightarrow> bool" where
  "follows r res \<longleftrightarrow> registry_ok (fst res) \<and> home_matches (fst res)
     \<and> spec_run announce (household r) (oc_events (snd res)) = Some (household (fst res))"

lemma follows_refl: "registry_ok r \<Longrightarrow> home_matches r \<Longrightarrow> follows r (r, no_outcome)"
  by (simp add: follows_def)

lemma follows_view:
  "registry_ok r \<Longrightarrow> home_matches (put_view r mac v) \<Longrightarrow> follows r (put_view r mac v, no_outcome)"
  by (simp add: follows_def)

lemma follows_refresh:
  assumes "registry_ok r" "home_matches (put_view r mac v)"
  shows "follows r (refresh_location (put_view r mac v) i m now)"
  using refresh_location_ok [of "put_view r mac v" i m now] refresh_location_home [of "put_view r mac v" i m now]
    refresh_location_rest [of "put_view r mac v" i m now] assms by (simp add: follows_def)

text \<open>The owner's own change of state, everybody else being left alone.\<close>

lemma follows_turn:
  assumes "registry_ok r" "home_matches r" "map_of (rg_owner r) mac = Some i"
    and "map_of (rg_people r) i = Some p" "pn_item_id p' = i"
    and "pn_state p' = Home \<longleftrightarrow> any_online (put_view r mac v) i"
    and "spec_run announce (household r) (oc_events oc) = Some ((household r)(i \<mapsto> pn_state p'))"
  shows "follows r (put_person (put_view r mac v) i p', oc)"
proof -
  have ok: "registry_ok (put_person (put_view r mac v) i p')"
    using assms(1,5) by (intro put_person_ok) simp_all
  moreover have "home_matches (put_person (put_view r mac v) i p')"
  proof (rule home_matchesI [OF ok])
    fix j q
    assume "map_of (rg_people (put_person (put_view r mac v) i p')) j = Some q"
    then show "pn_state q = Home \<longleftrightarrow> any_online (put_person (put_view r mac v) i p') j"
      using assms home_matchesD [OF assms(2,1), of j q]
      by (auto simp: any_online_put_view split: if_splits)
  qed
  ultimately show ?thesis
    using assms(7) by (simp add: follows_def)
qed

lemma device_online_follows:
  assumes "registry_ok r" "home_matches r"
  shows "follows r (device_online r mac now)"
proof (cases "map_of (rg_owner r) mac")
  case None
  then show ?thesis using follows_refl assms by (simp add: device_online_def)
next
  case (Some i)
  let ?v = "(view_of r mac)\<lparr>vw_online := True, vw_last_active := Some now\<rparr>"
  have up: "any_online (put_view r mac ?v) i" by (simp add: any_online_put_view [OF assms(1) Some])
  show ?thesis
  proof (cases "map_of (rg_people r) i")
    case None
    then show ?thesis using follows_view [OF assms(1) put_view_home [OF assms Some, of ?v]] Some
      by (simp add: device_online_def Let_def)
  next
    case p: (Some p)
    show ?thesis
    proof (cases "pn_state p")
      case Home
      then have "home_matches (put_view r mac ?v)" using p up by (intro put_view_home [OF assms Some]) simp
      from follows_refresh [OF assms(1) this] show ?thesis
        using Some p Home by (simp add: device_online_def Let_def follows_def case_prod_beta)
    next
      case Away
      have id: "pn_item_id p = i" by (rule person_id [OF assms(1) p])
      show ?thesis using Some p Away
        by (simp add: device_online_def Let_def) (rule follows_turn [OF assms Some p]; simp add: up id Away household_def announce_def p)
    qed
  qed
qed

lemma device_offline_follows:
  assumes "registry_ok r" "home_matches r"
  shows "follows r (device_offline r mac now)"
proof (cases "map_of (rg_owner r) mac")
  case None
  then show ?thesis using follows_refl assms by (simp add: device_offline_def)
next
  case (Some i)
  let ?v = "(view_of r mac)\<lparr>vw_online := False, vw_ap_name := None, vw_location := None\<rparr>"
  show ?thesis
  proof (cases "map_of (rg_people r) i")
    case None
    then show ?thesis using follows_view [OF assms(1) put_view_home [OF assms Some, of ?v]] Some
      by (simp add: device_offline_def Let_def)
  next
    case p: (Some p)
    have home: "pn_state p = Home" if "any_online (put_view r mac ?v) i"
      using that home_matchesD [OF assms(2,1) p] Some
      by (auto simp: any_online_put_view [OF assms(1) Some] any_online_iff [OF assms(1)])
    have still: "follows r (put_view r mac ?v, no_outcome)" if "pn_state p = Away" "\<not> any_online (put_view r mac ?v) i"
      using that p by (intro follows_view put_view_home [OF assms Some] assms) simp
    have stay: "follows r (refresh_location (put_view r mac ?v) i mac now)" if "any_online (put_view r mac ?v) i"
      using that p home by (intro follows_refresh put_view_home [OF assms Some] assms) simp
    show ?thesis
    proof (cases "any_online (put_view r mac ?v) i")
      case True
      then show ?thesis using stay Some p
        by (simp add: device_offline_def Let_def follows_def case_prod_beta)
    next
      case False
      have id: "pn_item_id p = i" by (rule person_id [OF assms(1) p])
      show ?thesis
      proof (cases "pn_state p")
        case Home
        then show ?thesis using Some p False
          by (simp add: device_offline_def Let_def)
            (rule follows_turn [OF assms Some p]; simp add: False id Home household_def announce_def p)
      next
        case Away
        then show ?thesis using Some p False still by (simp add: device_offline_def Let_def)
      qed
    qed
  qed
qed

lemma device_moved_follows:
  assumes "registry_ok r" "home_matches r"
  shows "follows r (device_moved r mac place movement now)"
proof (cases "map_of (rg_owner r) mac")
  case None
  then show ?thesis using follows_refl assms by (simp add: device_moved_def)
next
  case (Some i)
  have "home_matches (put_view r mac v)" if "vw_online v = is_online r mac" for v
    using put_view_same_presence [OF assms Some that] .
  then show ?thesis using Some
    by (auto simp: device_moved_def Let_def view_of_online assms intro: follows_view follows_refresh)
qed

lemma device_seen_follows:
  assumes "registry_ok r" "home_matches r"
  shows "follows r (device_seen r mac now, no_outcome)"
proof (cases "map_of (rg_owner r) mac")
  case None
  then show ?thesis using follows_refl assms by (simp add: device_seen_def)
next
  case (Some i)
  have "home_matches (put_view r mac v)" if "vw_online v = is_online r mac" for v
    using put_view_same_presence [OF assms Some that] .
  then show ?thesis using Some
    by (auto simp: device_seen_def Let_def view_of_online assms intro!: follows_view)
qed

lemma presence_step_follows:
  "registry_ok r \<Longrightarrow> home_matches r \<Longrightarrow> follows r (presence_step r x)"
  by (cases x) (auto simp: device_online_follows device_offline_follows device_moved_follows device_seen_follows)

interpretation presence: simulation "\<lambda>r. registry_ok r \<and> home_matches r" presence_events household announce
  by unfold_locales (use presence_step_follows in \<open>auto simp: presence_events_def follows_def\<close>)


subsection \<open>Where a person is\<close>

lemma less_active_linear:
  "less_active a b \<or> less_active b a" "less_active a b \<Longrightarrow> less_active b c \<Longrightarrow> less_active a c"
  by (auto simp: less_active_def)

text \<open>
  A person's location is that of the device heard from last, among those they own that are
  online and have been placed; they have no location exactly when there is no such device.
\<close>

theorem person_location_latest:
  "case location_of_person r i of
     None \<Rightarrow> \<not> (\<exists>v \<in> set (owned_views r i). vw_online v \<and> vw_location v \<noteq> None)
   | Some l \<Rightarrow> (\<exists>v \<in> set (owned_views r i). vw_online v \<and> vw_location v = Some l
        \<and> vw_last_active v = Max (vw_last_active ` {w \<in> set (owned_views r i). vw_online w \<and> vw_location w \<noteq> None}))"
proof -
  let ?vs = "filter (\<lambda>v. vw_online v \<and> vw_location v \<noteq> None) (owned_views r i)"
  show ?thesis
  proof (cases "max_by less_active ?vs")
    case None
    moreover from None have "?vs = []" by simp
    ultimately show ?thesis by (simp add: location_of_person_def filter_empty_conv)
  next
    case (Some v)
    have v: "v \<in> set ?vs" "\<forall>w \<in> set ?vs. less_active w v"
      using max_by_Some [OF less_active_linear(1) less_active_linear(2) Some] by auto
    have "vw_last_active v = Max (vw_last_active ` set ?vs)"
      using v by (intro Max_eqI [symmetric]) (auto simp: less_active_def)
    moreover obtain l where "vw_location v = Some l" using v(1) by auto
    moreover have "location_of_person r i = vw_location v" by (simp only: location_of_person_def Some option.case)
    ultimately show ?thesis using v(1) by (auto simp: set_filter)
  qed
qed

subsection \<open>Reconciling with the database\<close>

definition merged :: "(string \<Rightarrow> string) \<Rightarrow> person option \<Rightarrow> person \<Rightarrow> person" where
  "merged dbg known p = (case known of Some k \<Rightarrow> fst (edit_person dbg k p) | None \<Rightarrow> p)"

lemma edit_person_again: "edit_person dbg (merged dbg known p) p = (merged dbg known p, [])"
  by (auto simp: merged_def edit_person_def split: option.split)

lemma reconcile_person_fst:
  "map_of (fst (reconcile_person dbg p acc)) =
     (map_of (fst acc))(pn_item_id p \<mapsto> merged dbg (map_of (fst acc) (pn_item_id p)) p)"
  by (cases acc) (auto simp: reconcile_person_def merged_def case_prod_beta split: option.split)

lemma reconcile_person_ok: "bt_ok (fst acc) \<Longrightarrow> bt_ok (fst (reconcile_person dbg p acc))"
  by (cases acc) (auto simp: reconcile_person_def case_prod_beta bt_ok_insert split: option.split)

lemma reconcile_people_ok: "bt_ok (fst acc) \<Longrightarrow> bt_ok (fst (fold (reconcile_person dbg) ps acc))"
  by (induction ps arbitrary: acc) (auto simp: reconcile_person_ok)

lemma reconcile_people_lookup:
  assumes "distinct (map pn_item_id ps)"
  shows "map_of (fst (fold (reconcile_person dbg) ps acc)) i =
     (case List.find (\<lambda>p. pn_item_id p = i) ps of
        Some p \<Rightarrow> Some (merged dbg (map_of (fst acc) i) p) | None \<Rightarrow> map_of (fst acc) i)"
  using assms
proof (induction ps arbitrary: acc)
  case (Cons p ps)
  have "List.find (\<lambda>q. pn_item_id q = pn_item_id p) ps = None"
    using Cons.prems by (auto simp: find_None_iff image_iff)
  then show ?case using Cons by (auto simp: reconcile_person_fst split: option.split)
qed simp

lemma reconcile_people_settled:
  assumes "bt_ok m" "\<And>p. p \<in> set ps \<Longrightarrow> \<exists>k. map_of m (pn_item_id p) = Some k \<and> edit_person dbg k p = (k, [])"
  shows "fold (reconcile_person dbg) ps (m, ch) = (m, ch)"
  using assms(2)
proof (induction ps)
  case (Cons p ps)
  obtain k where "map_of m (pn_item_id p) = Some k" "edit_person dbg k p = (k, [])"
    using Cons.prems [of p] by auto
  then have "reconcile_person dbg p (m, ch) = (m, ch)"
    by (simp add: reconcile_person_def bt_insert_same assms(1))
  then show ?case using Cons by simp
qed simp

definition wanted_owner :: "(mac_addr \<rightharpoonup> string) \<Rightarrow> mac_addr \<times> string option \<Rightarrow> string option" where
  "wanted_owner config_owner = (\<lambda>(mac, stored). case stored of Some i \<Rightarrow> Some i | None \<Rightarrow> config_owner mac)"

lemma reconcile_owner_fst:
  "map_of (fst (reconcile_owner cfg e acc)) = (map_of (fst acc))(fst e := wanted_owner cfg e)"
  by (cases acc; cases e)
    (auto simp: reconcile_owner_def wanted_owner_def Let_def update_conv' delete_conv' restrict_map_def
      fun_eq_iff split: option.split)

lemma reconcile_owner_distinct:
  "distinct (map fst (fst acc)) \<Longrightarrow> distinct (map fst (fst (reconcile_owner cfg e acc)))"
  by (cases acc; cases e)
    (auto simp: reconcile_owner_def Let_def distinct_update distinct_delete split: option.split)

lemma reconcile_owners_distinct:
  "distinct (map fst (fst acc)) \<Longrightarrow> distinct (map fst (fst (fold (reconcile_owner cfg) es acc)))"
  by (induction es arbitrary: acc) (auto simp: reconcile_owner_distinct)

lemma reconcile_owners_other:
  "mac \<notin> fst ` set es \<Longrightarrow> map_of (fst (fold (reconcile_owner cfg) es acc)) mac = map_of (fst acc) mac"
  by (induction es arbitrary: acc) (auto simp: reconcile_owner_fst)

lemma reconcile_owners_lookup:
  "distinct (map fst es) \<Longrightarrow> e \<in> set es
     \<Longrightarrow> map_of (fst (fold (reconcile_owner cfg) es acc)) (fst e) = wanted_owner cfg e"
proof (induction es arbitrary: acc)
  case (Cons x es)
  then show ?case
    using reconcile_owners_other [of "fst x" es cfg "reconcile_owner cfg x acc"]
    by (cases "e = x") (auto simp: reconcile_owner_fst)
qed simp

lemma reconcile_owners_settled:
  assumes "\<And>e. e \<in> set es \<Longrightarrow> map_of owner (fst e) = wanted_owner cfg e"
  shows "fold (reconcile_owner cfg) es (owner, ch) = (owner, ch)"
  using assms
proof (induction es)
  case (Cons e es)
  have "reconcile_owner cfg e (owner, ch) = (owner, ch)"
    using Cons.prems [of e] by (cases e) (auto simp: reconcile_owner_def wanted_owner_def split: option.splits)
  then show ?case using Cons by simp
qed simp

lemma reconcile_fields:
  "rg_people (fst (reconcile dbg r ps es)) =
     filter (\<lambda>(i, p). i \<in> set (map pn_item_id ps)) (fst (fold (reconcile_person dbg) ps (rg_people r, [])))"
  "rg_owner (fst (reconcile dbg r ps es)) = fst (fold (reconcile_owner (rg_config_owner r)) es (rg_owner r, []))"
  "rg_config_owner (fst (reconcile dbg r ps es)) = rg_config_owner r"
  "rg_devices (fst (reconcile dbg r ps es)) = rg_devices r"
  by (simp_all add: reconcile_def retain_people_def Let_def case_prod_beta)

lemma reconcile_lookup:
  assumes "distinct (map pn_item_id ps)" "p \<in> set ps"
  shows "map_of (rg_people (fst (reconcile dbg r ps es))) (pn_item_id p)
    = Some (merged dbg (map_of (rg_people r) (pn_item_id p)) p)"
proof -
  have "List.find (\<lambda>q. pn_item_id q = pn_item_id p) ps = Some p"
    using assms by (induction ps) auto
  then show ?thesis using assms(2)
    by (simp add: reconcile_fields map_of_filter_keys reconcile_people_lookup [OF assms(1)])
qed

text \<open>
  C33: reading the database back settles in one pass. After a reconcile every person of the mirror
  has the name and the flags stored there, keeps the state, place and times the daemon holds, or is
  taken whole when they are new; every listed device belongs to its stored owner or, when none is
  stored, to the configured one; and reconciling again with the same rows changes and reports
  nothing.
\<close>

theorem reconcile_settles:
  assumes "registry_ok r" "distinct (map pn_item_id ps)" "distinct (map fst es)"
  shows "reconcile dbg (fst (reconcile dbg r ps es)) ps es = (fst (reconcile dbg r ps es), [])
    \<and> (\<forall>p \<in> set ps. person_of (fst (reconcile dbg r ps es)) (pn_item_id p) =
         Some (case person_of r (pn_item_id p) of
                 None \<Rightarrow> p
               | Some k \<Rightarrow> k\<lparr>pn_name := pn_name p, pn_notify_arrive := pn_notify_arrive p,
                     pn_notify_depart := pn_notify_depart p\<rparr>))
    \<and> (\<forall>(mac, stored) \<in> set es. map_of (rg_owner (fst (reconcile dbg r ps es))) mac =
         (case stored of Some i \<Rightarrow> Some i | None \<Rightarrow> rg_config_owner r mac))"
proof (intro conjI)
  let ?r = "fst (reconcile dbg r ps es)"
  have ok: "bt_ok (rg_people ?r)"
    using assms(1) unfolding reconcile_fields
    by (intro bt_ok_filter reconcile_people_ok) (simp add: registry_ok_def)
  have people: "fold (reconcile_person dbg) ps (rg_people ?r, []) = (rg_people ?r, [])"
    by (rule reconcile_people_settled [OF ok]) (auto simp: reconcile_lookup [OF assms(2)] edit_person_again)
  have owners: "fold (reconcile_owner (rg_config_owner r)) es (rg_owner ?r, []) = (rg_owner ?r, [])"
    by (rule reconcile_owners_settled) (simp add: reconcile_fields reconcile_owners_lookup [OF assms(3)])
  have kept: "retain_people (set (map pn_item_id ps)) (rg_people ?r) = (rg_people ?r, [])"
    by (auto simp: retain_people_def reconcile_fields filter_empty_conv)
  show "reconcile dbg ?r ps es = (?r, [])"
    unfolding reconcile_def [of dbg "?r"] by (simp add: people owners kept reconcile_fields(3) del: set_map)
  show "\<forall>p \<in> set ps. person_of ?r (pn_item_id p) =
         Some (case person_of r (pn_item_id p) of
                 None \<Rightarrow> p
               | Some k \<Rightarrow> k\<lparr>pn_name := pn_name p, pn_notify_arrive := pn_notify_arrive p,
                     pn_notify_depart := pn_notify_depart p\<rparr>)"
    by (auto simp: person_of_def reconcile_lookup [OF assms(2)] merged_def edit_person_def split: option.split)
  show "\<forall>(mac, stored) \<in> set es. map_of (rg_owner ?r) mac =
         (case stored of Some i \<Rightarrow> Some i | None \<Rightarrow> rg_config_owner r mac)"
    using reconcile_owners_lookup [OF assms(3)] by (fastforce simp: reconcile_fields wanted_owner_def)
qed

text \<open>
  A reconcile that takes a person's only device away leaves them home with nothing online, and
  the device going offline later does not correct it: the rule that a person is home when a device
  they own is online does not survive a change of ownership.
\<close>

theorem reconcile_strands_person:
  assumes "registry_ok r" "person_of r i = Some k" "pn_state k = Home" "owned_by r i = [mac]"
    and "rg_config_owner r mac = None" "pn_item_id p = i"
  shows "let r1 = fst (reconcile dbg r [p] [(mac, None)]) in
     map_option pn_state (person_of r1 i) = Some Home \<and> \<not> any_online r1 i
     \<and> device_offline r1 mac now = (r1, no_outcome)"
proof -
  let ?r = "fst (reconcile dbg r [p] [(mac, None)])"
  have owner: "map_of (rg_owner ?r) mac = None"
    using reconcile_owners_lookup [of "[(mac, None)]" "(mac, None)"] assms(5)
    by (simp add: reconcile_fields wanted_owner_def)
  have distinct: "distinct (map fst (rg_owner ?r))"
    using assms(1) unfolding reconcile_fields
    by (intro reconcile_owners_distinct) (simp add: registry_ok_def)
  have "map_of (rg_owner ?r) m \<noteq> Some i" for m
  proof (cases "m = mac")
    case False
    then have "map_of (rg_owner ?r) m = map_of (rg_owner r) m"
      using reconcile_owners_other [of m "[(mac, None)]" _ "(rg_owner r, [])"] by (simp add: reconcile_fields)
    moreover have "m \<notin> set (owned_by r i)" using False assms(4) by simp
    ultimately show ?thesis using assms(1) by (simp add: set_owned_by registry_ok_def)
  qed (simp add: owner)
  then have "owned_by ?r i = []"
    using set_owned_by [OF distinct, of i] by (metis (mono_tags, lifting) empty_Collect_eq set_empty)
  moreover have "person_of ?r i = Some (merged dbg (Some k) p)"
    using reconcile_lookup [of "[p]" p dbg r "[(mac, None)]"] assms(2,6) by (simp add: person_of_def)
  ultimately show ?thesis using owner assms(3)
    by (simp add: Let_def any_online_def device_offline_def merged_def edit_person_def)
qed

subsection \<open>Instances\<close>

definition sample_person :: person where
  "sample_person =
     \<lparr>pn_item_id = ''1'', pn_name = ''Ann'', pn_notify_arrive = True, pn_notify_depart = True,
      pn_state = Away, pn_current_location = None, pn_last_arrived_at = None, pn_last_departed_at = None\<rparr>"

definition sample_phone :: mac_addr where
  "sample_phone = MacAddr 2 0 0 0 0 1"

definition sample_registry :: registry where
  "sample_registry = set_owner (insert_person new_registry sample_person) sample_phone ''1''"

lemma sample_registry_fields:
  "rg_people sample_registry = [(''1'', sample_person)]" "rg_owner sample_registry = [(sample_phone, ''1'')]"
  "rg_config_owner sample_registry = Map.empty" "rg_devices sample_registry = Map.empty"
  by (simp_all add: sample_registry_def set_owner_def insert_person_def new_registry_def sample_person_def)

lemma sample_registry_ok: "registry_ok sample_registry" "home_matches sample_registry"
  by (simp_all add: registry_ok_def bt_ok_def home_matches_def sample_registry_fields any_online_def
      owned_by_def sample_person_def)


theorem reconcile_settles_witness:
  "reconcile rev (fst (reconcile rev sample_registry [sample_person] [(sample_phone, None)]))
     [sample_person] [(sample_phone, None)]
   = (fst (reconcile rev sample_registry [sample_person] [(sample_phone, None)]), [])"
  using reconcile_settles [OF sample_registry_ok(1), of "[sample_person]" "[(sample_phone, None)]" rev] by simp

definition stranded_registry :: registry where
  "stranded_registry = fst (device_online sample_registry sample_phone 0)"

theorem reconcile_strands_person_witness:
  "device_offline (fst (reconcile rev stranded_registry [sample_person] [(sample_phone, None)])) sample_phone 9
   = (fst (reconcile rev stranded_registry [sample_person] [(sample_phone, None)]), no_outcome)"
proof -
  have ok: "registry_ok stranded_registry"
    using device_online_follows [OF sample_registry_ok, of sample_phone 0]
    by (simp add: stranded_registry_def follows_def)
  have "\<exists>k. person_of stranded_registry ''1'' = Some k \<and> pn_state k = Home"
    and "owned_by stranded_registry ''1'' = [sample_phone]"
    and "rg_config_owner stranded_registry sample_phone = None"
    by (simp_all add: stranded_registry_def device_online_def sample_registry_fields Let_def person_of_def
        put_person_def put_view_def owned_by_def sample_person_def)
  then show ?thesis
    using reconcile_strands_person [OF ok, of "''1''" _ sample_phone sample_person rev 9]
    by (auto simp: sample_person_def Let_def)
qed

end
