(* ===== verification/Ip_Text.thy ===== *)
theory Ip_Text
  imports Net
begin

text \<open>
  The standard library's parser of an address in text, \<^verbatim>\<open>str::parse::<IpAddr>()\<close>, which the device
  table uses to read back the addresses it stored: up to eight groups of hexadecimal digits, the
  last two possibly written as an IPv4 address, with at most one \<^verbatim>\<open>::\<close> for a run of zero groups.
\<close>

definition read_hex_group :: "string \<Rightarrow> (u16 \<times> string) option" where
  "read_hex_group s =
     (let ds = takeWhile (\<lambda>c. hexval c \<noteq> None) s in
      if ds = [] \<or> 4 < length ds then None
      else Some (word_of_nat (foldl (\<lambda>n c. 16 * n + the (hexval c)) 0 ds), drop (length ds) s))"

definition read_octet :: "string \<Rightarrow> (byte \<times> string) option" where
  "read_octet s =
     (let ds = takeWhile is_digit s in
      do { b \<leftarrow> parse_octet ds; Some (b, drop (length ds) s) })"

definition read_char :: "char \<Rightarrow> string \<Rightarrow> string option" where
  "read_char c s = (case s of [] \<Rightarrow> None | d # ds \<Rightarrow> if d = c then Some ds else None)"

definition read_ipv4 :: "string \<Rightarrow> (ipv4_addr \<times> string) option" where
  "read_ipv4 s =
     do { (a, s) \<leftarrow> read_octet s; s \<leftarrow> read_char (CHR ''.'') s;
          (b, s) \<leftarrow> read_octet s; s \<leftarrow> read_char (CHR ''.'') s;
          (c, s) \<leftarrow> read_octet s; s \<leftarrow> read_char (CHR ''.'') s;
          (d, s) \<leftarrow> read_octet s; Some (Ipv4Addr a b c d, s) }"

definition read_separated :: "nat \<Rightarrow> (string \<Rightarrow> 'a option) \<Rightarrow> string \<Rightarrow> 'a option" where
  "read_separated i f s = (if 0 < i then do { s \<leftarrow> read_char (CHR '':'') s; f s } else f s)"

fun ipv4_groups :: "ipv4_addr \<Rightarrow> u16 list" where
  "ipv4_groups (Ipv4Addr a b c d) = [be16 a b, be16 c d]"

function read_groups :: "nat \<Rightarrow> nat \<Rightarrow> string \<Rightarrow> u16 list \<times> bool \<times> string" where
  "read_groups limit i s =
     (if limit \<le> i then ([], False, s)
      else
        (case (if i + 1 < limit then read_separated i read_ipv4 s else None) of
           Some (v4, rest) \<Rightarrow> (ipv4_groups v4, True, rest)
         | None \<Rightarrow>
             (case read_separated i read_hex_group s of
                None \<Rightarrow> ([], False, s)
              | Some (g, rest) \<Rightarrow>
                  (let r = read_groups limit (Suc i) rest in (g # fst r, snd r)))))"
  by pat_completeness auto
termination by (relation "measure (\<lambda>(limit, i, s). limit - i)") auto

declare read_groups.simps [simp del]

fun ipv6_of_groups :: "u16 list \<Rightarrow> ipv6_addr option" where
  "ipv6_of_groups [a, b, c, d, e, f, g, h] = Some (Ipv6Addr a b c d e f g h)" |
  "ipv6_of_groups _ = None"

definition parse_ipv6_text :: "string \<Rightarrow> ipv6_addr option" where
  "parse_ipv6_text s =
     (let (head, v4, rest) = read_groups 8 0 s in
      if length head = 8 then (if rest = [] then ipv6_of_groups head else None)
      else if v4 then None
      else
        do { rest \<leftarrow> read_char (CHR '':'') rest; rest \<leftarrow> read_char (CHR '':'') rest;
             (let (tail, _, rest) = read_groups (8 - (length head + 1)) 0 rest in
              if rest = [] then ipv6_of_groups (head @ replicate (8 - length head - length tail) 0 @ tail)
              else None) })"

definition parse_ip_text :: "string \<Rightarrow> ip_addr option" where
  "parse_ip_text s =
     (case parse_ipv4_text s of Some a \<Rightarrow> Some (V4 a) | None \<Rightarrow> map_option V6 (parse_ipv6_text s))"

end
