(* ===== verification/Device_Entry.thy ===== *)
theory Device_Entry
  imports Ip_Text People Scorer Classify Vendor Ndp
begin

text \<open>
  The first half of \<^verbatim>\<open>src/device/mod.rs\<close>: what the state machine reports (effects, events,
  snapshots) and one device's in-memory entry with the operations on it. \<open>db\<close> is the table of DHCP
  fingerprints and \<open>t\<close> the vendor registry, both embedded data of the program.
\<close>

subsection \<open>What the state machine reports\<close>

record device_event =
  ev_event_type :: event_type
  ev_mac :: mac_addr
  ev_display_name :: string
  ev_vendor :: "string option"
  ev_ip :: "string option"
  ev_interface :: "string option"
  ev_at :: time
  ev_baseline :: bool
  ev_during_learning :: bool
  ev_notify :: bool
  ev_priority :: event_priority
  ev_details :: json

text \<open>The confidence of a snapshot is stored as an \<^verbatim>\<open>f32\<close>; its rounding is not modelled.\<close>

record device_snapshot =
  sn_mac :: mac_addr
  sn_state :: device_state
  sn_last_ip :: "string option"
  sn_last_ipv6 :: "string option"
  sn_last_interface :: "string option"
  sn_first_seen_at :: time
  sn_last_seen_at :: time
  sn_baseline :: bool
  sn_identity :: identity
  sn_display_name :: "string option"
  sn_hostname :: "string option"
  sn_mdns_name :: "string option"
  sn_vendor :: "string option"
  sn_device_type :: "string option"
  sn_device_type_confidence :: "rat option"
  sn_os_family :: "string option"
  sn_current_ap :: "string option"
  sn_current_location :: "string option"
  sn_observations_since_flush :: u64

datatype effect =
    Discovered device_snapshot
  | EventEffect device_event
  | SignalEffect mac_addr signal time
  | AddressEffect mac_addr string string time
  | PresenceOpened mac_addr string "string option" time
  | PresenceClosed mac_addr time
  | LocationChanged mac_addr "string option" string time
  | LocationClosed mac_addr time

definition deliverable :: "device_event \<Rightarrow> bool" where
  "deliverable e \<longleftrightarrow> (if is_security (ev_event_type e) then True else ev_notify e \<and> \<not> ev_during_learning e)"

definition display :: "device_snapshot \<Rightarrow> string" where
  "display s =
     (case sn_display_name s of
        Some n \<Rightarrow> if trim n \<noteq> [] then trim n else idn_display_name (sn_identity s)
      | None \<Rightarrow> idn_display_name (sn_identity s))"

subsection \<open>One device's entry\<close>

record entry =
  dv_mac :: mac_addr
  dv_state :: device_state
  dv_first_seen_at :: time
  dv_last_seen_at :: time
  dv_last_ip :: "string option"
  dv_last_ipv6 :: "string option"
  dv_last_interface :: "string option"
  dv_signals :: "signal list"
  dv_identity :: identity
  dv_pending_identity :: "(identity \<times> time) option"
  dv_classification :: classification
  dv_display_name :: "string option"
  dv_current_ap :: "string option"
  dv_current_location :: "string option"
  dv_baseline :: bool
  dv_notify :: bool
  dv_offline_transitions :: u32
  dv_observations_since_flush :: u64
  dv_dirty :: bool

definition best :: "entry \<Rightarrow> signal_kind \<Rightarrow> string option" where
  "best e kind =
     map_option sig_value (List.find (\<lambda>s. sig_kind s = kind \<and> trim (sig_value s) \<noteq> []) (dv_signals e))"

definition entry_snapshot :: "entry \<Rightarrow> device_snapshot" where
  "entry_snapshot e =
     \<lparr>sn_mac = dv_mac e, sn_state = dv_state e, sn_last_ip = dv_last_ip e, sn_last_ipv6 = dv_last_ipv6 e,
      sn_last_interface = dv_last_interface e, sn_first_seen_at = dv_first_seen_at e,
      sn_last_seen_at = dv_last_seen_at e, sn_baseline = dv_baseline e, sn_identity = dv_identity e,
      sn_display_name = dv_display_name e, sn_hostname = best e ReverseDns,
      sn_mdns_name = best e MdnsName, sn_vendor = best e Vendor,
      sn_device_type = cl_device_type (dv_classification e),
      sn_device_type_confidence =
        (if cl_device_type (dv_classification e) \<noteq> None
         then Some (cl_confidence (dv_classification e)) else None),
      sn_os_family = cl_os_family (dv_classification e), sn_current_ap = dv_current_ap e,
      sn_current_location = dv_current_location e,
      sn_observations_since_flush = dv_observations_since_flush e\<rparr>"

definition record_ipv6 :: "entry \<Rightarrow> ipv6_addr \<Rightarrow> entry" where
  "record_ipv6 e a =
     (let keep_existing = is_link_local6 a
        \<and> (case do { existing \<leftarrow> dv_last_ipv6 e; parse_ipv6_text existing } of
             Some existing \<Rightarrow> \<not> is_link_local6 existing | None \<Rightarrow> False) in
      if keep_existing then e else e\<lparr>dv_last_ipv6 := Some (show_ipv6 a)\<rparr>)"

definition entry_always_on :: "entry \<Rightarrow> time \<Rightarrow> bool" where
  "entry_always_on e now \<longleftrightarrow> dv_offline_transitions e = 0 \<and> dv_state e \<noteq> Offline
     \<and> num_hours (now - dv_first_seen_at e) \<ge> ALWAYS_ON_HOURS"

definition reclassify :: "fingerprint_db \<Rightarrow> entry \<Rightarrow> time \<Rightarrow> entry \<times> classification option" where
  "reclassify db e now =
     (let candidate = classify db
            \<lparr>ci_mac = dv_mac e, ci_signals = dv_signals e, ci_vendor = best e Vendor,
             ci_always_on = entry_always_on e now\<rparr> in
      if changed_at_all candidate (dv_classification e)
      then (e\<lparr>dv_classification := candidate\<rparr>, Some (dv_classification e))
      else (e\<lparr>dv_classification := candidate\<rparr>, None))"

definition holds :: "entry \<Rightarrow> ip_addr \<Rightarrow> bool" where
  "holds e a \<longleftrightarrow> dv_last_ip e = Some (show_ip a) \<or> dv_last_ipv6 e = Some (show_ip a)"

definition current_addresses :: "entry \<Rightarrow> ip_addr list" where
  "current_addresses e =
     List.map_filter (\<lambda>text. do { s \<leftarrow> text; parse_ip_text s }) [dv_last_ip e, dv_last_ipv6 e]"

text \<open>
  A batch of signals goes to the front as a block, in the order the source offered it: \<open>take_batch\<close>
  walks the incoming signals, dropping repeats within the batch and removing each from the stored
  list, and reports whether one of them was not stored.
\<close>

definition same_signal :: "signal \<Rightarrow> signal \<Rightarrow> bool" where
  "same_signal s s' \<longleftrightarrow> sig_kind s' = sig_kind s \<and> sig_value s' = sig_value s"

fun take_batch :: "signal list \<Rightarrow> signal list \<Rightarrow> signal list \<Rightarrow> bool \<Rightarrow> signal list \<times> signal list \<times> bool" where
  "take_batch stored batch [] any_new = (stored, batch, any_new)" |
  "take_batch stored batch (s # incoming) any_new =
     (if list_ex (same_signal s) batch then take_batch stored batch incoming any_new
      else
        (case List.extract (same_signal s) stored of
           Some (before, _, after) \<Rightarrow> take_batch (before @ after) (batch @ [s]) incoming any_new
         | None \<Rightarrow> take_batch stored (batch @ [s]) incoming True))"

definition record_signals :: "entry \<Rightarrow> signal list \<Rightarrow> entry \<times> bool" where
  "record_signals e incoming =
     (let (stored, batch, any_new) = take_batch (dv_signals e) [] incoming False in
      (e\<lparr>dv_signals := foldl (\<lambda>acc s. s # acc) stored (rev batch)\<rparr>, any_new))"

definition rescore :: "entry \<Rightarrow> time \<Rightarrow> entry \<times> identity option" where
  "rescore e now =
     (let candidate = resolve \<lparr>ii_mac = dv_mac e, ii_signals = dv_signals e,
                         ii_device_type = cl_device_type (dv_classification e)\<rparr> in
      case compare_identity candidate (dv_identity e) of
        Worse \<Rightarrow> (e\<lparr>dv_pending_identity := None\<rparr>, None)
      | Same \<Rightarrow> (e\<lparr>dv_pending_identity := None\<rparr>, None)
      | Better \<Rightarrow>
          (e\<lparr>dv_pending_identity := None, dv_identity := candidate\<rparr>, Some (dv_identity e))
      | Rival \<Rightarrow>
          (let since =
                 (case dv_pending_identity e of
                    Some (pending, since) \<Rightarrow>
                      if idn_display_name pending = idn_display_name candidate then since else now
                  | None \<Rightarrow> now) in
           if settled_for since now
           then (e\<lparr>dv_pending_identity := None, dv_identity := candidate\<rparr>, Some (dv_identity e))
           else (e\<lparr>dv_pending_identity := Some (candidate, since)\<rparr>, None)))"

subsection \<open>User-owned columns\<close>

record user_settings =
  us_mac :: mac_addr
  us_display_name :: "string option"
  us_notes :: "string option"
  us_hidden :: bool
  us_notify :: bool
  us_owner_item_id :: "string option"

record user_change =
  uc_mac :: mac_addr
  uc_column :: string
  uc_from :: string
  uc_to :: string

definition unwrap_or_empty :: "string option \<Rightarrow> string" where
  "unwrap_or_empty s = (case s of Some t \<Rightarrow> t | None \<Rightarrow> [])"

definition apply_display_name :: "entry \<Rightarrow> user_settings \<Rightarrow> entry \<times> (string \<times> string) option" where
  "apply_display_name e settings =
     (if dv_display_name e = us_display_name settings then (e, None)
      else (e\<lparr>dv_display_name := us_display_name settings\<rparr>,
            Some (unwrap_or_empty (dv_display_name e), unwrap_or_empty (us_display_name settings))))"

definition apply_notify :: "entry \<Rightarrow> user_settings \<Rightarrow> entry \<times> (string \<times> string) option" where
  "apply_notify e settings =
     (if dv_notify e = us_notify settings then (e, None)
      else (e\<lparr>dv_notify := us_notify settings\<rparr>,
            Some (show_bool (dv_notify e), show_bool (us_notify settings))))"

definition USER_OWNED_COLUMNS ::
  "(string \<times> (entry \<Rightarrow> user_settings \<Rightarrow> entry \<times> (string \<times> string) option)) list"
where
  "USER_OWNED_COLUMNS = [(''display_name'', apply_display_name), (''notify'', apply_notify)]"

end
