(* ===== verification/Manager.thy ===== *)
theory Manager
  imports Device_Entry "HOL-Library.Product_Lexorder"
begin

text \<open>
  The second half of \<^verbatim>\<open>src/device/mod.rs\<close>: the table of devices keyed by hardware address and the
  transitions over it. The table is an association list whose order stands for the iteration order
  of the hash map; \<open>observe\<close> is split where the source's comments split it.
\<close>

record attributed =
  at_mine :: "signal list"
  at_others :: "(mac_addr \<times> signal) list"
  at_unattributed :: u64

definition no_attribution :: attributed where
  "no_attribution = \<lparr>at_mine = [], at_others = [], at_unattributed = 0\<rparr>"

record manager =
  mg_devices :: "(mac_addr \<times> entry) list"
  mg_addresses :: "ip_addr \<rightharpoonup> mac_addr"
  mg_config :: state_config
  mg_learning :: bool
  mg_reclassifications :: "reclassification list"
  mg_unattributed_claims :: u64

definition new_manager :: "state_config \<Rightarrow> bool \<Rightarrow> manager" where
  "new_manager cfg learning =
     \<lparr>mg_devices = [], mg_addresses = Map.empty, mg_config = cfg, mg_learning = learning,
      mg_reclassifications = [], mg_unattributed_claims = 0\<rparr>"

definition device :: "manager \<Rightarrow> mac_addr \<Rightarrow> entry option" where
  "device m mac = map_of (mg_devices m) mac"

definition put_device :: "manager \<Rightarrow> mac_addr \<Rightarrow> entry \<Rightarrow> manager" where
  "put_device m mac e = m\<lparr>mg_devices := AList.update mac e (mg_devices m)\<rparr>"

subsection \<open>Attribution of evidence\<close>

definition holder_of :: "manager \<Rightarrow> ip_addr \<Rightarrow> mac_addr option" where
  "holder_of m address =
     do { mac \<leftarrow> mg_addresses m address; e \<leftarrow> device m mac; if holds e address then Some mac else None }"

definition attribute_claim ::
  "manager \<Rightarrow> mac_addr \<Rightarrow> ip_addr list \<Rightarrow> bool \<Rightarrow> name_claim \<Rightarrow> attributed \<Rightarrow> attributed"
where
  "attribute_claim m mac sender speaks_for_others claim out =
     (if trim (sig_value (claim_signal claim)) = [] then out
      else if claim_addresses claim = [] then
        (if speaks_for_others then out\<lparr>at_unattributed := at_unattributed out + 1\<rparr>
         else out\<lparr>at_mine := at_mine out @ [claim_signal claim]\<rparr>)
      else if claim_matches claim sender then out\<lparr>at_mine := at_mine out @ [claim_signal claim]\<rparr>
      else
        (case first_some (holder_of m) (claim_addresses claim) of
           Some holder \<Rightarrow>
             if holder = mac then out\<lparr>at_mine := at_mine out @ [claim_signal claim]\<rparr>
             else out\<lparr>at_others := at_others out @ [(holder, claim_signal claim)]\<rparr>
         | None \<Rightarrow> out\<lparr>at_unattributed := at_unattributed out + 1\<rparr>))"

definition sender_addresses :: "manager \<Rightarrow> observation \<Rightarrow> ip_addr list" where
  "sender_addresses m obs =
     (let known = (case device m (obs_mac obs) of Some e \<Rightarrow> current_addresses e | None \<Rightarrow> []) in
      case obs_ip obs of
        Some ip \<Rightarrow> if ip \<notin> set known then known @ [ip] else known
      | None \<Rightarrow> known)"

definition attribute_claims :: "manager \<Rightarrow> observation \<Rightarrow> attributed" where
  "attribute_claims m obs =
     (if obs_claims obs = [] then no_attribution
      else
        (let sender = sender_addresses m obs;
             speaks_for_others =
               list_ex (\<lambda>c. claim_addresses c \<noteq> [] \<and> \<not> claim_matches c sender) (obs_claims obs) in
         fold (attribute_claim m (obs_mac obs) sender speaks_for_others) (obs_claims obs) no_attribution))"

subsection \<open>Reading and administration\<close>

definition take_reclassifications :: "manager \<Rightarrow> manager \<times> reclassification list" where
  "take_reclassifications m = (m\<lparr>mg_reclassifications := []\<rparr>, mg_reclassifications m)"

definition end_learning :: "manager \<Rightarrow> manager" where
  "end_learning m = m\<lparr>mg_learning := False\<rparr>"

definition manager_len :: "manager \<Rightarrow> nat" where
  "manager_len m = length (mg_devices m)"

definition manager_is_empty :: "manager \<Rightarrow> bool" where
  "manager_is_empty m \<longleftrightarrow> mg_devices m = []"

fun count_state :: "mac_addr \<times> entry \<Rightarrow> nat \<times> nat \<times> nat \<Rightarrow> nat \<times> nat \<times> nat" where
  "count_state (mac, e) (online, idle, offline) =
     (case dv_state e of
        Online \<Rightarrow> (online + 1, idle, offline)
      | Idle \<Rightarrow> (online, idle + 1, offline)
      | Offline \<Rightarrow> (online, idle, offline + 1))"

definition state_counts :: "manager \<Rightarrow> nat \<times> nat \<times> nat" where
  "state_counts m = fold count_state (mg_devices m) (0, 0, 0)"

record device_record =
  dr_id :: int
  dr_mac :: mac_addr
  dr_display_name :: "string option"
  dr_resolved_name :: "string option"
  dr_identity_source :: "string option"
  dr_identity_confidence :: "rat option"
  dr_hostname :: "string option"
  dr_mdns_name :: "string option"
  dr_vendor :: "string option"
  dr_device_type :: "string option"
  dr_device_type_confidence :: "rat option"
  dr_os_family :: "string option"
  dr_state :: device_state
  dr_last_ip :: "string option"
  dr_last_ipv6 :: "string option"
  dr_last_interface :: "string option"
  dr_first_seen_at :: time
  dr_last_seen_at :: time
  dr_baseline :: bool
  dr_current_ap :: "string option"
  dr_current_location :: "string option"
  dr_hidden :: bool
  dr_notify :: bool
  dr_notes :: "string option"
  dr_owner_item_id :: "string option"

definition restored_entry :: "device_record \<Rightarrow> signal list \<Rightarrow> entry" where
  "restored_entry rec stored =
     (let placed = dr_state rec \<noteq> Offline in
      \<lparr>dv_mac = dr_mac rec, dv_state = dr_state rec, dv_first_seen_at = dr_first_seen_at rec,
       dv_last_seen_at = dr_last_seen_at rec, dv_last_ip = dr_last_ip rec,
       dv_last_ipv6 = dr_last_ipv6 rec, dv_last_interface = dr_last_interface rec,
       dv_signals = stored,
       dv_identity = resolve \<lparr>ii_mac = dr_mac rec, ii_signals = stored, ii_device_type = dr_device_type rec\<rparr>,
       dv_pending_identity = None,
       dv_classification =
         \<lparr>cl_device_type = dr_device_type rec, cl_os_family = dr_os_family rec,
          cl_confidence = (case dr_device_type_confidence rec of Some c \<Rightarrow> c | None \<Rightarrow> 0),
          cl_reason = None\<rparr>,
       dv_display_name = dr_display_name rec,
       dv_current_ap = (if placed then dr_current_ap rec else None),
       dv_current_location = (if placed then dr_current_location rec else None),
       dv_baseline = dr_baseline rec, dv_notify = dr_notify rec, dv_offline_transitions = 0,
       dv_observations_since_flush = 0, dv_dirty = False\<rparr>)"

definition restore_record ::
  "manager \<times> (int \<rightharpoonup> signal list) \<Rightarrow> device_record \<Rightarrow> manager \<times> (int \<rightharpoonup> signal list)"
where
  "restore_record = (\<lambda>(m, signals) rec.
     (let stored = (case signals (dr_id rec) of Some s \<Rightarrow> s | None \<Rightarrow> []);
          addresses = List.map_filter (\<lambda>text. do { s \<leftarrow> text; parse_ip_text s })
                        [dr_last_ip rec, dr_last_ipv6 rec];
          m1 = m\<lparr>mg_addresses := foldl (\<lambda>index a. index(a \<mapsto> dr_mac rec)) (mg_addresses m) addresses\<rparr> in
      (put_device m1 (dr_mac rec) (restored_entry rec stored), signals(dr_id rec := None))))"

definition restore :: "manager \<Rightarrow> device_record list \<Rightarrow> (int \<rightharpoonup> signal list) \<Rightarrow> manager" where
  "restore m records signals = fst (foldl restore_record (m, signals) records)"

definition apply_column ::
  "user_settings \<Rightarrow> entry \<times> user_change list
     \<Rightarrow> string \<times> (entry \<Rightarrow> user_settings \<Rightarrow> entry \<times> (string \<times> string) option) \<Rightarrow> entry \<times> user_change list"
where
  "apply_column setting = (\<lambda>(e, changes) (name, apply_one).
     (case apply_one e setting of
        (e1, Some (old, new)) \<Rightarrow>
          (e1, changes @ [\<lparr>uc_mac = us_mac setting, uc_column = name, uc_from = old, uc_to = new\<rparr>])
      | (e1, None) \<Rightarrow> (e1, changes)))"

definition apply_setting :: "manager \<times> user_change list \<Rightarrow> user_settings \<Rightarrow> manager \<times> user_change list" where
  "apply_setting = (\<lambda>(m, changes) setting.
     (case device m (us_mac setting) of
        None \<Rightarrow> (m, changes)
      | Some e \<Rightarrow>
          (let (e1, changes1) = foldl (apply_column setting) (e, changes) USER_OWNED_COLUMNS in
           (put_device m (us_mac setting) e1, changes1))))"

definition apply_user_settings :: "manager \<Rightarrow> user_settings list \<Rightarrow> manager \<times> user_change list" where
  "apply_user_settings m settings = foldl apply_setting (m, []) settings"

definition state_of :: "manager \<Rightarrow> mac_addr \<Rightarrow> (device_state \<times> time) option" where
  "state_of m mac = map_option (\<lambda>e. (dv_state e, dv_last_seen_at e)) (device m mac)"

subsection \<open>Observations\<close>

definition ipv4_string :: "ip_addr option \<Rightarrow> string option" where
  "ipv4_string ip =
     (case ip of
        Some (V4 a) \<Rightarrow> if \<not> is_unspecified (V4 a) \<and> \<not> is_multicast4 a then Some (show_ipv4 a) else None
      | _ \<Rightarrow> None)"

definition is_recordable :: "ip_addr \<Rightarrow> bool" where
  "is_recordable ip \<longleftrightarrow>
     (case ip of
        V4 a \<Rightarrow> \<not> is_unspecified ip \<and> \<not> is_multicast4 a \<and> a \<noteq> Ipv4Addr 255 255 255 255
      | V6 a \<Rightarrow> \<not> is_unspecified ip \<and> \<not> is_multicast6 a)"

text \<open>An event about a device, with the fields every event takes from its entry.\<close>

definition event_about ::
  "event_type \<Rightarrow> entry \<Rightarrow> string option \<Rightarrow> string option \<Rightarrow> time \<Rightarrow> bool \<Rightarrow> json \<Rightarrow> effect"
where
  "event_about kind e ip interface now learning details =
     EventEffect
       \<lparr>ev_event_type = kind, ev_mac = dv_mac e, ev_display_name = display (entry_snapshot e),
        ev_vendor = best e Vendor, ev_ip = ip, ev_interface = interface, ev_at = now,
        ev_baseline = dv_baseline e, ev_during_learning = learning, ev_notify = dv_notify e,
        ev_priority = Normal, ev_details = details\<rparr>"

definition vendor_signal :: "(string \<rightharpoonup> string) \<Rightarrow> mac_addr \<Rightarrow> signal option" where
  "vendor_signal t mac = map_option (Signal Vendor) (vendor_lookup t mac)"

definition discovered_entry :: "(string \<rightharpoonup> string) \<Rightarrow> bool \<Rightarrow> observation \<Rightarrow> entry" where
  "discovered_entry t learning obs =
     (let signals = (case vendor_signal t (obs_mac obs) of Some v \<Rightarrow> [v] | None \<Rightarrow> []) in
      \<lparr>dv_mac = obs_mac obs, dv_state = Online, dv_first_seen_at = obs_at obs,
       dv_last_seen_at = obs_at obs, dv_last_ip = None, dv_last_ipv6 = None,
       dv_last_interface = Some (obs_interface obs), dv_signals = signals,
       dv_identity = resolve \<lparr>ii_mac = obs_mac obs, ii_signals = signals, ii_device_type = None\<rparr>,
       dv_pending_identity = None, dv_classification = default_classification,
       dv_display_name = None, dv_current_ap = None, dv_current_location = None,
       dv_baseline = learning, dv_notify = True, dv_offline_transitions = 0,
       dv_observations_since_flush = 0, dv_dirty = True\<rparr>)"

definition discover :: "(string \<rightharpoonup> string) \<Rightarrow> manager \<Rightarrow> observation \<Rightarrow> manager \<times> effect list" where
  "discover t m obs =
     (let e = discovered_entry t (mg_learning m) obs; vendor = best e Vendor in
      (put_device m (obs_mac obs) e,
       [Discovered (entry_snapshot e)]
       @ (case vendor of
            Some v \<Rightarrow> [SignalEffect (obs_mac obs) (Signal Vendor v) (obs_at obs)] | None \<Rightarrow> [])
       @ [PresenceOpened (obs_mac obs) (obs_interface obs) (ipv4_string (obs_ip obs)) (obs_at obs),
          EventEffect
            \<lparr>ev_event_type = NewDevice, ev_mac = obs_mac obs,
             ev_display_name = display (entry_snapshot e), ev_vendor = vendor,
             ev_ip = ipv4_string (obs_ip obs), ev_interface = Some (obs_interface obs),
             ev_at = obs_at obs, ev_baseline = mg_learning m, ev_during_learning = mg_learning m,
             ev_notify = True, ev_priority = Normal,
             ev_details = JObj
               [(''source'', JStr (obs_source obs)), (''interface'', JStr (obs_interface obs)),
                (''learning'', JBool (mg_learning m))]\<rparr>]))"

text \<open>The parts of \<open>observe\<close> that work on the sender's entry, in the order of the source.\<close>

definition note_sighting :: "time \<Rightarrow> entry \<Rightarrow> entry" where
  "note_sighting now e =
     e\<lparr>dv_last_seen_at := (if now > dv_last_seen_at e then now else dv_last_seen_at e),
       dv_observations_since_flush := dv_observations_since_flush e + 1, dv_dirty := True\<rparr>"

definition step_presence :: "bool \<Rightarrow> observation \<Rightarrow> entry \<Rightarrow> entry \<times> effect list" where
  "step_presence learning obs e =
     (case dv_state e of
        Offline \<Rightarrow>
          (let e1 = e\<lparr>dv_state := Online\<rparr> in
           (e1,
            [PresenceOpened (dv_mac e1) (obs_interface obs) (ipv4_string (obs_ip obs)) (obs_at obs),
             event_about Returned e1 (ipv4_string (obs_ip obs)) (Some (obs_interface obs)) (obs_at obs) learning
               (JObj [(''source'', JStr (obs_source obs)), (''interface'', JStr (obs_interface obs))])]))
      | Idle \<Rightarrow> (e\<lparr>dv_state := Online\<rparr>, [])
      | Online \<Rightarrow> (e, []))"

definition step_ipv4 :: "bool \<Rightarrow> observation \<Rightarrow> ip_addr \<Rightarrow> entry \<Rightarrow> entry \<times> effect list" where
  "step_ipv4 learning obs ip e =
     (case ipv4_string (Some ip) of
        None \<Rightarrow> (e, [])
      | Some v4 \<Rightarrow>
          (let e1 = e\<lparr>dv_last_ip := Some v4\<rparr>;
               changed = (case dv_last_ip e of Some old \<Rightarrow> old \<noteq> v4 | None \<Rightarrow> False) in
           (e1,
            if changed
            then [event_about IpChanged e1 (Some v4) (Some (obs_interface obs)) (obs_at obs) learning
                    (JObj [(''previous_ip'', jopt JStr (dv_last_ip e)), (''new_ip'', JStr v4),
                           (''interface'', JStr (obs_interface obs))])]
            else [])))"

definition step_address :: "bool \<Rightarrow> observation \<Rightarrow> entry \<Rightarrow> entry \<times> effect list" where
  "step_address learning obs e =
     (let (e1, effects) =
            (case obs_ip obs of
               Some ip \<Rightarrow>
                 if is_recordable ip then
                   (let (e1, changed) = step_ipv4 learning obs ip e;
                        e2 = (case ip of V6 a \<Rightarrow> record_ipv6 e1 a | V4 _ \<Rightarrow> e1) in
                    (e2, AddressEffect (dv_mac e) (show_ip ip) (obs_interface obs) (obs_at obs) # changed))
                 else (e, [])
             | None \<Rightarrow> (e, [])) in
      (e1\<lparr>dv_last_interface := Some (obs_interface obs)\<rparr>, effects))"

definition usable_signals :: "observation \<Rightarrow> signal list \<Rightarrow> signal list" where
  "usable_signals obs mine = filter (\<lambda>s. trim (sig_value s) \<noteq> []) (obs_signals obs) @ mine"

definition name_updated :: "bool \<Rightarrow> observation \<Rightarrow> entry \<Rightarrow> identity \<Rightarrow> effect" where
  "name_updated learning obs e previous =
     event_about NameUpdated e (dv_last_ip e) (Some (obs_interface obs)) (obs_at obs) learning
       (JObj [(''previous_name'', JStr (idn_display_name previous)),
              (''previous_source'', JStr (signal_kind_str (idn_source previous))),
              (''new_source'', JStr (signal_kind_str (idn_source (dv_identity e)))),
              (''confidence'', JRat (idn_confidence (dv_identity e)))])"

definition just_discovered :: "effect list \<Rightarrow> bool" where
  "just_discovered effects \<longleftrightarrow> (case effects of Discovered _ # _ \<Rightarrow> True | _ \<Rightarrow> False)"

definition step_evidence ::
  "bool \<Rightarrow> observation \<Rightarrow> signal list \<Rightarrow> effect list \<Rightarrow> entry \<Rightarrow> entry \<times> effect list"
where
  "step_evidence learning obs mine effects e =
     (let usable = usable_signals obs mine;
          e1 = fst (record_signals e usable);
          stored = map (\<lambda>s. SignalEffect (dv_mac e) s (obs_at obs)) usable;
          (e2, rescored) = rescore e1 (obs_at obs) in
      (e2,
       stored @
       (case rescored of
          Some previous \<Rightarrow>
            if just_discovered (effects @ stored) then [] else [name_updated learning obs e2 previous]
        | None \<Rightarrow> [])))"

definition reclassification_of ::
  "entry \<Rightarrow> string option \<Rightarrow> time \<Rightarrow> classification option \<Rightarrow> reclassification list"
where
  "reclassification_of e interface now previous =
     (case previous of
        None \<Rightarrow> []
      | Some p \<Rightarrow>
          [\<lparr>rc_mac = dv_mac e, rc_display_name = display (entry_snapshot e), rc_previous = p,
            rc_current = dv_classification e, rc_interface = interface, rc_at = now\<rparr>])"

definition add_signal ::
  "fingerprint_db \<Rightarrow> manager \<Rightarrow> mac_addr \<Rightarrow> signal \<Rightarrow> time \<Rightarrow> manager \<times> effect list"
where
  "add_signal db m mac s now =
     (if trim (sig_value s) = [] then (m, [])
      else
        (case device m mac of
           None \<Rightarrow> (m, [])
         | Some e \<Rightarrow>
             (let (e1, is_new) = record_signals e [s];
                  e2 = e1\<lparr>dv_dirty := True\<rparr>;
                  (e3, rescored) = (if is_new then rescore e2 now else (e2, None));
                  events =
                    (case rescored of
                       Some previous \<Rightarrow>
                         [event_about NameUpdated (e3\<lparr>dv_mac := mac\<rparr>) (dv_last_ip e3) (dv_last_interface e3)
                            now (mg_learning m)
                            (JObj [(''previous_name'', JStr (idn_display_name previous)),
                                   (''previous_source'', JStr (signal_kind_str (idn_source previous))),
                                   (''new_source'', JStr (signal_kind_str (idn_source (dv_identity e3))))])]
                     | None \<Rightarrow> []);
                  (e4, previous) = reclassify db e3 now;
                  m1 = put_device m mac e4 in
              (m1\<lparr>mg_reclassifications := mg_reclassifications m1
                    @ reclassification_of (e4\<lparr>dv_mac := mac\<rparr>) (dv_last_interface e4) now previous\<rparr>,
               SignalEffect mac s now # events))))"

fun add_others ::
  "fingerprint_db \<Rightarrow> manager \<Rightarrow> (mac_addr \<times> signal) list \<Rightarrow> time \<Rightarrow> manager \<times> effect list"
where
  "add_others db m [] now = (m, [])" |
  "add_others db m ((mac, s) # rest) now =
     (let (m1, effects) = add_signal db m mac s now; (m2, effects') = add_others db m1 rest now in
      (m2, effects @ effects'))"

definition observe_entry ::
  "fingerprint_db \<Rightarrow> bool \<Rightarrow> observation \<Rightarrow> signal list \<Rightarrow> effect list \<Rightarrow> entry
     \<Rightarrow> entry \<times> effect list \<times> reclassification list"
where
  "observe_entry db learning obs mine effects e =
     (let (e1, presence) = step_presence learning obs (note_sighting (obs_at obs) e);
          (e2, address) = step_address learning obs e1;
          (e3, evidence) = step_evidence learning obs mine (effects @ presence @ address) e2;
          (e4, previous) = reclassify db e3 (obs_at obs) in
      (e4, presence @ address @ evidence,
       reclassification_of e4 (Some (obs_interface obs)) (obs_at obs) previous))"

definition index_address :: "manager \<Rightarrow> observation \<Rightarrow> manager" where
  "index_address m obs =
     (case obs_ip obs of
        Some ip \<Rightarrow>
          if is_recordable ip then m\<lparr>mg_addresses := (mg_addresses m)(ip \<mapsto> obs_mac obs)\<rparr> else m
      | None \<Rightarrow> m)"

definition observe ::
  "(string \<rightharpoonup> string) \<Rightarrow> fingerprint_db \<Rightarrow> manager \<Rightarrow> observation \<Rightarrow> manager \<times> effect list"
where
  "observe t db m obs =
     (if is_group (obs_mac obs) \<or> is_zero (obs_mac obs) then (m, [])
      else
        (let (m1, found) = (if device m (obs_mac obs) = None then discover t m obs else (m, []));
             m2 = index_address m1 obs;
             attributed = attribute_claims m2 obs;
             m3 = m2\<lparr>mg_unattributed_claims := mg_unattributed_claims m2 + at_unattributed attributed\<rparr> in
         case device m3 (obs_mac obs) of
           None \<Rightarrow> (m3, found)
         | Some e \<Rightarrow>
             (let (e1, effects, changes) =
                    observe_entry db (mg_learning m3) obs (at_mine attributed) found e;
                  m4 = (put_device m3 (obs_mac obs) e1)
                         \<lparr>mg_reclassifications := mg_reclassifications m3 @ changes\<rparr>;
                  (m5, others) = add_others db m4 (at_others attributed) (obs_at obs) in
              (m5, found @ effects @ others))))"

subsection \<open>Places, people and alerts\<close>

definition current_ap :: "manager \<Rightarrow> mac_addr \<Rightarrow> string option" where
  "current_ap m mac = do { e \<leftarrow> device m mac; dv_current_ap e }"

definition insert_field :: "string \<Rightarrow> json \<Rightarrow> json \<Rightarrow> json" where
  "insert_field k v j = (case j of JObj es \<Rightarrow> JObj (AList.update k v es) | _ \<Rightarrow> j)"

definition set_location ::
  "manager \<Rightarrow> mac_addr \<Rightarrow> place \<Rightarrow> movement \<Rightarrow> json option \<Rightarrow> time \<Rightarrow> manager \<times> effect list"
where
  "set_location m mac place movement telemetry now =
     (case device m mac of
        None \<Rightarrow> (m, [])
      | Some e \<Rightarrow>
          if dv_current_ap e = Some (pl_ap_name place) then (m, [])
          else
            (let e1 = e\<lparr>dv_current_ap := Some (pl_ap_name place),
                        dv_current_location := Some (pl_location place), dv_dirty := True\<rparr>;
                 details = JObj
                   [(''ap'', JStr (pl_ap_name place)), (''location'', JStr (pl_location place)),
                    (''previous_ap'', jopt JStr (dv_current_ap e)),
                    (''previous_location'', jopt JStr (dv_current_location e)),
                    (''movement'', JStr (movement_str movement)), (''edge'', JBool (pl_edge place))];
                 details = (case telemetry of Some j \<Rightarrow> insert_field ''telemetry'' j details | None \<Rightarrow> details) in
             (put_device m mac e1,
              [LocationChanged mac (Some (pl_ap_name place)) (pl_location place) now,
               event_about DeviceLocationChanged (e1\<lparr>dv_mac := mac\<rparr>) (dv_last_ip e1) (dv_last_interface e1) now
                 (mg_learning m) details])))"

definition person_event_effects :: "manager \<Rightarrow> person_event \<Rightarrow> effect list" where
  "person_event_effects m pe =
     (let e = device m (pe_mac pe) in
      [EventEffect
         \<lparr>ev_event_type = pe_event_type pe, ev_mac = pe_mac pe, ev_display_name = pe_name pe,
          ev_vendor = Option.bind e (\<lambda>e. best e Vendor), ev_ip = Option.bind e dv_last_ip,
          ev_interface = Option.bind e dv_last_interface, ev_at = pe_at pe,
          ev_baseline = (case e of Some e \<Rightarrow> dv_baseline e | None \<Rightarrow> False),
          ev_during_learning = False, ev_notify = pe_notify pe, ev_priority = Normal,
          ev_details = pe_details pe\<rparr>])"

definition security_event :: "(string \<rightharpoonup> string) \<Rightarrow> manager \<Rightarrow> security_alert \<Rightarrow> effect list" where
  "security_event t m al =
     (let e = device m (al_mac al);
          display_name =
            (case e of
               Some e \<Rightarrow> display (entry_snapshot e)
             | None \<Rightarrow>
                 (case vendor_signal t (al_mac al) of
                    Some v \<Rightarrow> sig_value v @ '' device'' | None \<Rightarrow> show_mac (al_mac al)));
          details = insert_field ''priority'' (JStr (event_priority_str (al_priority al)))
                      (insert_field ''security'' (JBool True) (al_details al)) in
      [EventEffect
         \<lparr>ev_event_type = al_event_type al, ev_mac = al_mac al, ev_display_name = display_name,
          ev_vendor = Option.bind e (\<lambda>e. best e Vendor), ev_ip = al_ip al, ev_interface = al_interface al,
          ev_at = al_at al, ev_baseline = (case e of Some e \<Rightarrow> dv_baseline e | None \<Rightarrow> False),
          ev_during_learning = False, ev_notify = True, ev_priority = al_priority al,
          ev_details = details\<rparr>])"

subsection \<open>Timeouts and snapshots\<close>

definition silence_of :: "entry \<Rightarrow> time \<Rightarrow> duration" where
  "silence_of e now = (case to_std (now - dv_last_seen_at e) of Some d \<Rightarrow> d | None \<Rightarrow> 0)"

definition go_offline :: "bool \<Rightarrow> time \<Rightarrow> entry \<Rightarrow> entry \<times> effect list" where
  "go_offline learning now e =
     (let e1 = e\<lparr>dv_state := Offline, dv_dirty := True,
                 dv_offline_transitions :=
                   (if dv_offline_transitions e = -1 then -1 else dv_offline_transitions e + 1)\<rparr>;
          (e2, closed) =
            (case dv_current_ap e1 of
               Some _ \<Rightarrow> (e1\<lparr>dv_current_ap := None, dv_current_location := None\<rparr>, [LocationClosed (dv_mac e1) now])
             | None \<Rightarrow> (e1, [])) in
      (e2,
       [PresenceClosed (dv_mac e1) now] @ closed
       @ [event_about WentOffline e2 (dv_last_ip e2) (dv_last_interface e2) now learning
            (JObj [(''last_seen_at'', JTime (dv_last_seen_at e2)),
                   (''silent_for_secs'', jnat (as_secs (silence_of e now)))])]))"

definition sweep_entry :: "state_config \<Rightarrow> bool \<Rightarrow> time \<Rightarrow> entry \<Rightarrow> entry \<times> effect list" where
  "sweep_entry cfg learning now e =
     (if dv_state e = Offline then (e, [])
      else
        (let silence = silence_of e now;
             device_type = cl_device_type (dv_classification e) in
         if silence \<ge> offline_timeout_for cfg device_type then go_offline learning now e
         else if silence \<ge> idle_timeout_for cfg device_type \<and> dv_state e = Online
         then (e\<lparr>dv_state := Idle, dv_dirty := True\<rparr>, [])
         else (e, [])))"

definition sweep :: "manager \<Rightarrow> time \<Rightarrow> manager \<times> effect list" where
  "sweep m now =
     (m\<lparr>mg_devices := map (\<lambda>(mac, e). (mac, fst (sweep_entry (mg_config m) (mg_learning m) now e)))
                        (mg_devices m)\<rparr>,
      concat (map (\<lambda>(mac, e). snd (sweep_entry (mg_config m) (mg_learning m) now e)) (mg_devices m)))"

definition take_dirty :: "manager \<Rightarrow> manager \<times> device_snapshot list" where
  "take_dirty m =
     (m\<lparr>mg_devices := map (\<lambda>(mac, e). (mac, if dv_dirty e
                             then e\<lparr>dv_dirty := False, dv_observations_since_flush := 0\<rparr> else e))
                        (mg_devices m)\<rparr>,
      map (\<lambda>(mac, e). entry_snapshot e) (filter (\<lambda>(mac, e). dv_dirty e) (mg_devices m)))"

definition snapshot :: "manager \<Rightarrow> device_snapshot list" where
  "snapshot m =
     sort_key (\<lambda>s. (- sn_last_seen_at s, sn_mac s)) (map (\<lambda>(mac, e). entry_snapshot e) (mg_devices m))"

end
