(* ===== verification/Ledger.thy ===== *)
theory Ledger
  imports Manager Machine
begin

text \<open>
  What the device table promises the database, as a ledger: which devices have a row, which have an
  open presence session and which access point each open stay is at. \<open>ledger_step\<close> refuses an
  effect that contradicts the ledger, and the table refines it: from any well-formed table, every
  sequence of operations emits effects the ledger of that table accepts, and they lead to the
  ledger of the resulting table.
\<close>

subsection \<open>The abstract specification\<close>

record ledger =
  lg_known :: "mac_addr set"
  lg_open :: "mac_addr set"
  lg_stays :: "mac_addr \<rightharpoonup> string"

text \<open>The lifecycle events say what the ledger already shows.\<close>

definition event_agrees :: "ledger \<Rightarrow> device_event \<Rightarrow> bool" where
  "event_agrees L ev \<longleftrightarrow>
     (case ev_event_type ev of
        NewDevice \<Rightarrow> ev_mac ev \<in> lg_open L
      | Returned \<Rightarrow> ev_mac ev \<in> lg_open L
      | WentOffline \<Rightarrow> ev_mac ev \<in> lg_known L \<and> ev_mac ev \<notin> lg_open L \<and> lg_stays L (ev_mac ev) = None
      | IpChanged \<Rightarrow> ev_mac ev \<in> lg_open L
      | NameUpdated \<Rightarrow> ev_mac ev \<in> lg_known L
      | DeviceLocationChanged \<Rightarrow> lg_stays L (ev_mac ev) \<noteq> None
      | _ \<Rightarrow> False)"

fun ledger_step :: "ledger \<Rightarrow> effect \<Rightarrow> ledger option" where
  "ledger_step L (Discovered s) =
     (if sn_mac s \<in> lg_known L then None else Some (L\<lparr>lg_known := insert (sn_mac s) (lg_known L)\<rparr>))" |
  "ledger_step L (EventEffect ev) = (if event_agrees L ev then Some L else None)" |
  "ledger_step L (SignalEffect mac s now) = (if mac \<in> lg_known L then Some L else None)" |
  "ledger_step L (AddressEffect mac ip interface now) = (if mac \<in> lg_open L then Some L else None)" |
  "ledger_step L (PresenceOpened mac interface ip now) =
     (if mac \<in> lg_known L \<and> mac \<notin> lg_open L then Some (L\<lparr>lg_open := insert mac (lg_open L)\<rparr>) else None)" |
  "ledger_step L (PresenceClosed mac now) =
     (if mac \<in> lg_open L then Some (L\<lparr>lg_open := lg_open L - {mac}\<rparr>) else None)" |
  "ledger_step L (LocationChanged mac ap location now) =
     (if mac \<in> lg_known L \<and> ap \<noteq> None \<and> lg_stays L mac \<noteq> ap
      then Some (L\<lparr>lg_stays := (lg_stays L)(mac := ap)\<rparr>) else None)" |
  "ledger_step L (LocationClosed mac now) =
     (if lg_stays L mac \<noteq> None then Some (L\<lparr>lg_stays := (lg_stays L)(mac := None)\<rparr>) else None)"

subsection \<open>The operations of the table\<close>

datatype manager_op =
    Observe observation
  | AddSignal mac_addr signal time
  | SetLocation mac_addr place movement "json option" time
  | Sweep time
  | ApplySettings "user_settings list"
  | TakeDirty
  | TakeReclassifications
  | EndLearning

fun manager_step ::
  "(string \<rightharpoonup> string) \<Rightarrow> fingerprint_db \<Rightarrow> manager \<Rightarrow> manager_op \<Rightarrow> manager \<times> effect list"
where
  "manager_step t db m (Observe obs) = observe t db m obs" |
  "manager_step t db m (AddSignal mac s now) = add_signal db m mac s now" |
  "manager_step t db m (SetLocation mac place movement telemetry now) =
     set_location m mac place movement telemetry now" |
  "manager_step t db m (Sweep now) = sweep m now" |
  "manager_step t db m (ApplySettings settings) = (fst (apply_user_settings m settings), [])" |
  "manager_step t db m TakeDirty = (fst (take_dirty m), [])" |
  "manager_step t db m TakeReclassifications = (fst (take_reclassifications m), [])" |
  "manager_step t db m EndLearning = (end_learning m, [])"

subsection \<open>The abstraction\<close>

definition manager_ok :: "manager \<Rightarrow> bool" where
  "manager_ok m \<longleftrightarrow> distinct (map fst (mg_devices m)) \<and> (\<forall>(mac, e) \<in> set (mg_devices m). dv_mac e = mac)"

definition open_now :: "entry option \<Rightarrow> bool" where
  "open_now e \<longleftrightarrow> (case e of Some e \<Rightarrow> dv_state e \<noteq> Offline | None \<Rightarrow> False)"

definition ledger_of :: "manager \<Rightarrow> ledger" where
  "ledger_of m =
     \<lparr>lg_known = {mac. device m mac \<noteq> None}, lg_open = {mac. open_now (device m mac)},
      lg_stays = (\<lambda>mac. Option.bind (device m mac) dv_current_ap)\<rparr>"

definition set_entry :: "ledger \<Rightarrow> mac_addr \<Rightarrow> entry \<Rightarrow> ledger" where
  "set_entry L mac e =
     \<lparr>lg_known = insert mac (lg_known L),
      lg_open = (if dv_state e = Offline then lg_open L - {mac} else insert mac (lg_open L)),
      lg_stays = (lg_stays L)(mac := dv_current_ap e)\<rparr>"

text \<open>The effects of one step on the entry of \<open>mac\<close>, whatever the other entries are.\<close>

definition accounts :: "mac_addr \<Rightarrow> entry \<Rightarrow> effect list \<Rightarrow> entry \<Rightarrow> bool" where
  "accounts mac e es e' \<longleftrightarrow> (\<forall>L. spec_run ledger_step (set_entry L mac e) es = Some (set_entry L mac e'))"

lemma device_put_device [simp]:
  "device (put_device m mac e) mac' = (if mac' = mac then Some e else device m mac')"
  by (simp add: device_def put_device_def update_conv')

lemma ledger_of_put: "ledger_of (put_device m mac e) = set_entry (ledger_of m) mac e"
  by (auto simp: ledger_of_def set_entry_def open_now_def fun_eq_iff)

lemma ledger_of_same: "device m mac = Some e \<Longrightarrow> set_entry (ledger_of m) mac e = ledger_of m"
  by (auto simp: ledger_of_def set_entry_def open_now_def fun_eq_iff)

lemma ledger_of_cong: "mg_devices m = mg_devices m' \<Longrightarrow> ledger_of m = ledger_of m'"
  by (simp add: ledger_of_def device_def)

lemma accounts_run:
  "accounts mac e es e' \<Longrightarrow> device m mac = Some e
     \<Longrightarrow> spec_run ledger_step (ledger_of m) es = Some (ledger_of (put_device m mac e'))"
  by (metis accounts_def ledger_of_put ledger_of_same)

lemma accounts_append:
  "accounts mac e es e' \<Longrightarrow> accounts mac e' es' e'' \<Longrightarrow> accounts mac e (es @ es') e''"
  by (simp add: accounts_def spec_run_append)

lemma set_entry_cong:
  "dv_state e = dv_state e' \<Longrightarrow> dv_current_ap e = dv_current_ap e' \<Longrightarrow> set_entry L mac e = set_entry L mac e'"
  by (simp add: set_entry_def)

lemma accounts_Nil:
  "dv_state e = dv_state e' \<Longrightarrow> dv_current_ap e = dv_current_ap e' \<Longrightarrow> accounts mac e [] e'"
  using set_entry_cong [of e e'] by (simp add: accounts_def)

lemma set_entry_simps [simp]:
  "mac \<in> lg_known (set_entry L mac e)"
  "mac \<in> lg_open (set_entry L mac e) \<longleftrightarrow> dv_state e \<noteq> Offline"
  "lg_stays (set_entry L mac e) mac = dv_current_ap e"
  by (auto simp: set_entry_def)

lemma manager_ok_iff:
  "manager_ok m \<longleftrightarrow> distinct (map fst (mg_devices m)) \<and> (\<forall>mac e. device m mac = Some e \<longrightarrow> dv_mac e = mac)"
  by (auto simp: manager_ok_def device_def)

lemma manager_ok_put [inv_intros]: "manager_ok m \<Longrightarrow> dv_mac e = mac \<Longrightarrow> manager_ok (put_device m mac e)"
  unfolding manager_ok_iff by (simp add: distinct_update put_device_def [of m]) (simp add: put_device_def [symmetric])

lemma manager_ok_mac: "manager_ok m \<Longrightarrow> device m mac = Some e \<Longrightarrow> dv_mac e = mac"
  by (simp add: manager_ok_iff)

lemma manager_ok_cong: "mg_devices m = mg_devices m' \<Longrightarrow> manager_ok m = manager_ok m'"
  by (simp add: manager_ok_def)

subsection \<open>The steps on one entry\<close>

lemma best_cong: "dv_signals e = dv_signals e' \<Longrightarrow> best e k = best e' k"
  by (simp add: best_def)

lemma record_signals_frame [simp]:
  "dv_mac (fst (record_signals e ss)) = dv_mac e"
  "dv_state (fst (record_signals e ss)) = dv_state e"
  "dv_current_ap (fst (record_signals e ss)) = dv_current_ap e"
  by (simp_all add: record_signals_def case_prod_beta)

lemma rescore_frame [simp]:
  "dv_mac (fst (rescore e now)) = dv_mac e"
  "dv_state (fst (rescore e now)) = dv_state e"
  "dv_current_ap (fst (rescore e now)) = dv_current_ap e"
  by (simp_all add: rescore_def Let_def split: verdict.split)

lemma reclassify_frame [simp]:
  "dv_mac (fst (reclassify db e now)) = dv_mac e"
  "dv_state (fst (reclassify db e now)) = dv_state e"
  "dv_current_ap (fst (reclassify db e now)) = dv_current_ap e"
  by (simp_all add: reclassify_def Let_def)

lemma record_ipv6_frame [simp]:
  "dv_mac (record_ipv6 e a) = dv_mac e"
  "dv_state (record_ipv6 e a) = dv_state e"
  "dv_current_ap (record_ipv6 e a) = dv_current_ap e"
  by (simp_all add: record_ipv6_def Let_def)

lemma ledger_step_about:
  "ledger_step L (event_about kind e ip interface now learning details) =
     (if event_agrees L \<lparr>ev_event_type = kind, ev_mac = dv_mac e, ev_display_name = display (entry_snapshot e),
        ev_vendor = best e Vendor, ev_ip = ip, ev_interface = interface, ev_at = now,
        ev_baseline = dv_baseline e, ev_during_learning = learning, ev_notify = dv_notify e,
        ev_priority = Normal, ev_details = details\<rparr> then Some L else None)"
  by (simp add: event_about_def)

lemma note_sighting_accounts: "accounts mac e [] (note_sighting now e)"
  by (rule accounts_Nil) (simp_all add: note_sighting_def)

lemma step_presence_accounts:
  assumes "dv_mac e = mac"
  shows "accounts mac e (snd (step_presence learning obs e)) (fst (step_presence learning obs e))"
proof (cases "dv_state e")
  case Offline
  then show ?thesis using assms
    by (simp add: accounts_def step_presence_def Let_def ledger_step_about event_agrees_def)
      (simp add: set_entry_def)
next
  case Idle
  then show ?thesis by (simp add: step_presence_def accounts_def) (simp add: set_entry_def)
next
  case Online
  then show ?thesis by (simp add: step_presence_def accounts_Nil)
qed

lemma step_presence_frame [simp]:
  "dv_mac (fst (step_presence learning obs e)) = dv_mac e"
  "dv_state (fst (step_presence learning obs e)) = Online"
  by (simp_all add: step_presence_def Let_def split: device_state.split)

lemma step_ipv4_accounts:
  assumes "dv_mac e = mac" "dv_state e = Online"
  shows "accounts mac e (snd (step_ipv4 learning obs ip e)) (fst (step_ipv4 learning obs ip e))
    \<and> dv_mac (fst (step_ipv4 learning obs ip e)) = mac \<and> dv_state (fst (step_ipv4 learning obs ip e)) = Online"
proof (cases "ipv4_string (Some ip)")
  case None
  then show ?thesis using assms by (simp add: step_ipv4_def accounts_Nil)
next
  case (Some v4)
  let ?e = "e\<lparr>dv_last_ip := Some v4\<rparr>"
  have "set_entry L mac e = set_entry L mac ?e" for L by (rule set_entry_cong) simp_all
  then show ?thesis using assms Some
    by (simp add: step_ipv4_def Let_def accounts_def ledger_step_about event_agrees_def)
qed

lemma step_address_accounts:
  assumes "dv_mac e = mac" "dv_state e = Online"
  shows "accounts mac e (snd (step_address learning obs e)) (fst (step_address learning obs e))
    \<and> dv_mac (fst (step_address learning obs e)) = mac \<and> dv_state (fst (step_address learning obs e)) = Online"
proof (cases "\<exists>ip. obs_ip obs = Some ip \<and> is_recordable ip")
  case True
  then obtain ip where ip: "obs_ip obs = Some ip" "is_recordable ip" by blast
  note v4 = step_ipv4_accounts [OF assms, of learning obs ip]
  let ?e = "fst (step_ipv4 learning obs ip e)"
  let ?e2 = "(case ip of V6 a \<Rightarrow> record_ipv6 ?e a | V4 _ \<Rightarrow> ?e)\<lparr>dv_last_interface := Some (obs_interface obs)\<rparr>"
  have same: "dv_mac ?e2 = dv_mac ?e" "dv_state ?e2 = dv_state ?e" "dv_current_ap ?e2 = dv_current_ap ?e"
    by (simp_all split: ip_addr.split)
  have "accounts mac e [AddressEffect mac (show_ip ip) (obs_interface obs) (obs_at obs)] e"
    using assms by (simp add: accounts_def)
  from accounts_append [OF accounts_append [OF this conjunct1 [OF v4]] accounts_Nil [of ?e ?e2]]
  have "accounts mac e (AddressEffect mac (show_ip ip) (obs_interface obs) (obs_at obs)
      # snd (step_ipv4 learning obs ip e)) ?e2" using same by simp
  then show ?thesis using ip v4 same assms by (simp add: step_address_def Let_def case_prod_beta)
next
  case False
  then have "step_address learning obs e = (e\<lparr>dv_last_interface := Some (obs_interface obs)\<rparr>, [])"
    by (auto simp: step_address_def split: option.split)
  then show ?thesis using assms by (simp add: accounts_Nil)
qed

lemma signals_account: "accounts mac e (map (\<lambda>s. SignalEffect mac s now) ss) e"
  unfolding accounts_def by (induction ss) simp_all

lemma name_updated_accounts: "dv_mac e = mac \<Longrightarrow> accounts mac e [name_updated learning obs e previous] e"
  by (simp add: accounts_def name_updated_def ledger_step_about event_agrees_def)

lemma step_evidence_accounts:
  assumes "dv_mac e = mac"
  shows "accounts mac e (snd (step_evidence learning obs mine effects e)) (fst (step_evidence learning obs mine effects e))
    \<and> dv_mac (fst (step_evidence learning obs mine effects e)) = mac
    \<and> dv_state (fst (step_evidence learning obs mine effects e)) = dv_state e"
proof -
  let ?usable = "usable_signals obs mine"
  let ?e1 = "fst (record_signals e ?usable)"
  let ?e2 = "fst (rescore ?e1 (obs_at obs))"
  let ?renamed = "\<lambda>previous. if just_discovered (effects @ map (\<lambda>s. SignalEffect mac s (obs_at obs)) ?usable)
      then [] else [name_updated learning obs ?e2 previous]"
  have "accounts mac e (map (\<lambda>s. SignalEffect mac s (obs_at obs)) ?usable @ []) ?e2"
    by (rule accounts_append [OF signals_account accounts_Nil]) simp_all
  moreover have "accounts mac ?e2 (case snd (rescore ?e1 (obs_at obs)) of
      Some previous \<Rightarrow> ?renamed previous | None \<Rightarrow> []) ?e2"
    using assms by (auto simp: name_updated_accounts accounts_Nil split: option.split)
  ultimately have "accounts mac e (map (\<lambda>s. SignalEffect mac s (obs_at obs)) ?usable
      @ (case snd (rescore ?e1 (obs_at obs)) of Some previous \<Rightarrow> ?renamed previous | None \<Rightarrow> [])) ?e2"
    by (intro accounts_append) simp_all
  then show ?thesis using assms by (simp add: step_evidence_def Let_def case_prod_beta)
qed

lemma observe_entry_accounts:
  assumes "dv_mac e = mac" and r: "observe_entry db learning obs mine effects e = (e', es, changes)"
  shows "accounts mac e es e' \<and> dv_mac e' = mac"
proof -
  let ?e0 = "note_sighting (obs_at obs) e"
  let ?p = "step_presence learning obs ?e0"
  let ?a = "step_address learning obs (fst ?p)"
  let ?v = "step_evidence learning obs mine (effects @ snd ?p @ snd ?a) (fst ?a)"
  have mac0: "dv_mac ?e0 = mac" using assms(1) by (simp add: note_sighting_def)
  have p: "accounts mac e (snd ?p) (fst ?p)"
    using accounts_append [OF note_sighting_accounts [of mac e "obs_at obs"] step_presence_accounts [OF mac0]] by simp
  have a: "accounts mac (fst ?p) (snd ?a) (fst ?a)" "dv_mac (fst ?a) = mac"
    using step_address_accounts [of "fst ?p" mac learning obs] mac0 by simp_all
  have v: "accounts mac (fst ?a) (snd ?v) (fst ?v)" "dv_mac (fst ?v) = mac"
    using step_evidence_accounts [OF a(2)] by simp_all
  have c: "accounts mac (fst ?v) [] (fst (reclassify db (fst ?v) (obs_at obs)))"
    by (rule accounts_Nil) simp_all
  have "accounts mac e (snd ?p @ snd ?a @ snd ?v @ []) (fst (reclassify db (fst ?v) (obs_at obs)))"
    using accounts_append [OF p accounts_append [OF a(1) accounts_append [OF v(1) c]]] by simp
  moreover have "e' = fst (reclassify db (fst ?v) (obs_at obs))" "es = snd ?p @ snd ?a @ snd ?v"
    using r by (auto simp: observe_entry_def Let_def case_prod_beta)
  ultimately show ?thesis using v(2) by simp
qed

lemma go_offline_accounts:
  assumes "dv_mac e = mac" "dv_state e \<noteq> Offline"
  shows "accounts mac e (snd (go_offline learning now e)) (fst (go_offline learning now e))
    \<and> dv_mac (fst (go_offline learning now e)) = mac"
  using assms
  by (cases "dv_current_ap e")
    (auto simp: accounts_def go_offline_def Let_def ledger_step_about event_agrees_def set_entry_def fun_upd_idem)

lemma sweep_entry_accounts:
  assumes "dv_mac e = mac"
  shows "accounts mac e (snd (sweep_entry cfg learning now e)) (fst (sweep_entry cfg learning now e))
    \<and> dv_mac (fst (sweep_entry cfg learning now e)) = mac"
proof -
  have "accounts mac e [] (e\<lparr>dv_state := Idle, dv_dirty := True\<rparr>)" if "dv_state e \<noteq> Offline"
    using that by (simp add: accounts_def) (simp add: set_entry_def)
  then show ?thesis using go_offline_accounts [OF assms, of learning now] assms
    by (auto simp: sweep_entry_def Let_def accounts_Nil)
qed

subsection \<open>The steps on the table\<close>

definition refines :: "manager \<Rightarrow> manager \<times> effect list \<Rightarrow> bool" where
  "refines m res \<longleftrightarrow> manager_ok (fst res) \<and> spec_run ledger_step (ledger_of m) (snd res) = Some (ledger_of (fst res))"

lemma refines_same: "manager_ok m \<Longrightarrow> mg_devices m' = mg_devices m \<Longrightarrow> refines m (m', [])"
  using ledger_of_cong [of m' m] manager_ok_cong [of m' m] by (simp add: refines_def)

lemma refines_cong: "mg_devices m = mg_devices m' \<Longrightarrow> refines m res = refines m' res"
  using ledger_of_cong [of m m'] by (simp add: refines_def)

lemma refines_result_cong:
  "mg_devices m1 = mg_devices m2 \<Longrightarrow> refines m (m1, es) = refines m (m2, es)"
  using ledger_of_cong [of m1 m2] manager_ok_cong [of m1 m2] by (simp add: refines_def)

lemma refines_append:
  "refines m (m1, es) \<Longrightarrow> refines m1 (m2, es') \<Longrightarrow> refines m (m2, es @ es')"
  by (simp add: refines_def spec_run_append)

lemma refines_put:
  "manager_ok m \<Longrightarrow> device m mac = Some e \<Longrightarrow> accounts mac e es e' \<Longrightarrow> dv_mac e' = mac
     \<Longrightarrow> refines m (put_device m mac e', es)"
  by (simp add: refines_def manager_ok_put accounts_run)

lemma update_devices [simp]:
  "mg_devices (m\<lparr>mg_reclassifications := rs\<rparr>) = mg_devices m"
  "device (m\<lparr>mg_reclassifications := rs\<rparr>) mac = device m mac"
  "mg_devices (m\<lparr>mg_addresses := ad\<rparr>) = mg_devices m"
  "device (m\<lparr>mg_addresses := ad\<rparr>) mac = device m mac"
  "mg_devices (m\<lparr>mg_unattributed_claims := n\<rparr>) = mg_devices m"
  "device (m\<lparr>mg_unattributed_claims := n\<rparr>) mac = device m mac"
  by (simp_all add: device_def)

lemma discover_refines:
  assumes "manager_ok m" "device m (obs_mac obs) = None"
  shows "refines m (discover t m obs)"
proof -
  let ?e = "discovered_entry t (mg_learning m) obs"
  have e: "dv_mac ?e = obs_mac obs" "dv_state ?e = Online" "dv_current_ap ?e = None"
    by (simp_all add: discovered_entry_def Let_def)
  have fresh: "obs_mac obs \<notin> lg_known (ledger_of m)" "obs_mac obs \<notin> lg_open (ledger_of m)"
    "lg_stays (ledger_of m) (obs_mac obs) = None"
    using assms(2) by (simp_all add: ledger_of_def open_now_def)
  have "spec_run ledger_step (ledger_of m) (snd (discover t m obs)) = Some (set_entry (ledger_of m) (obs_mac obs) ?e)"
    using e fresh
    by (simp add: discover_def Let_def entry_snapshot_def event_agrees_def fun_upd_idem set_entry_def
        split: option.split)
  then show ?thesis using e
    by (simp add: refines_def discover_def Let_def manager_ok_put [OF assms(1)] ledger_of_put)
qed

lemma add_signal_refines:
  assumes "manager_ok m"
  shows "refines m (add_signal db m mac s now)"
proof (cases "trim (sig_value s) = [] \<or> device m mac = None")
  case True
  then show ?thesis using refines_same [OF assms] by (auto simp: add_signal_def)
next
  case False
  then obtain e where e: "device m mac = Some e" by auto
  have mac: "dv_mac e = mac" by (rule manager_ok_mac [OF assms e])
  let ?e1 = "(fst (record_signals e [s]))\<lparr>dv_dirty := True\<rparr>"
  let ?r = "if snd (record_signals e [s]) then rescore ?e1 now else (?e1, None)"
  let ?e4 = "fst (reclassify db (fst ?r) now)"
  let ?events = "case snd ?r of
      Some previous \<Rightarrow>
        [event_about NameUpdated ((fst ?r)\<lparr>dv_mac := mac\<rparr>) (dv_last_ip (fst ?r)) (dv_last_interface (fst ?r))
           now (mg_learning m)
           (JObj [(''previous_name'', JStr (idn_display_name previous)),
                  (''previous_source'', JStr (signal_kind_str (idn_source previous))),
                  (''new_source'', JStr (signal_kind_str (idn_source (dv_identity (fst ?r)))))])]
    | None \<Rightarrow> []"
  have frame: "dv_mac ?e4 = mac" "dv_state ?e4 = dv_state e" "dv_current_ap ?e4 = dv_current_ap e"
    using mac by simp_all
  have "accounts mac e [SignalEffect mac s now] e" by (simp add: accounts_def)
  moreover have "accounts mac e ?events e"
    by (auto simp: accounts_def ledger_step_about event_agrees_def split: option.split)
  moreover have "accounts mac e [] ?e4" by (rule accounts_Nil) (simp_all add: frame)
  ultimately have "accounts mac e ([SignalEffect mac s now] @ ?events @ []) ?e4"
    by (intro accounts_append)
  then have "refines m (put_device m mac ?e4, SignalEffect mac s now # ?events)"
    using refines_put [OF assms e] frame(1) by simp
  then show ?thesis using False e
    by (subst (asm) refines_result_cong [of _ "fst (add_signal db m mac s now)"])
      (simp_all add: add_signal_def Let_def case_prod_beta)
qed

lemma add_others_refines: "manager_ok m \<Longrightarrow> refines m (add_others db m others now)"
proof (induction others arbitrary: m)
  case (Cons x rest)
  obtain mac s where x: "x = (mac, s)" by force
  let ?a = "add_signal db m mac s now"
  have a: "refines m ?a" by (rule add_signal_refines [OF Cons.prems])
  then have "refines (fst ?a) (add_others db (fst ?a) rest now)"
    by (intro Cons.IH) (simp add: refines_def)
  then show ?case using a refines_append [of m "fst ?a" "snd ?a"] by (simp add: x case_prod_beta)
qed (simp add: refines_same)

lemma index_address_frame [simp]:
  "mg_devices (index_address m obs) = mg_devices m"
  "device (index_address m obs) mac = device m mac"
  "mg_learning (index_address m obs) = mg_learning m"
  by (simp_all add: index_address_def device_def split: option.split)

lemma observe_refines:
  assumes "manager_ok m"
  shows "refines m (observe t db m obs)"
proof (cases "is_group (obs_mac obs) \<or> is_zero (obs_mac obs)")
  case True
  then show ?thesis using refines_same [OF assms] by (auto simp: observe_def)
next
  case False
  let ?d = "if device m (obs_mac obs) = None then discover t m obs else (m, [])"
  let ?m2 = "index_address (fst ?d) obs"
  let ?at = "attribute_claims ?m2 obs"
  let ?m3 = "?m2\<lparr>mg_unattributed_claims := mg_unattributed_claims ?m2 + at_unattributed ?at\<rparr>"
  have d: "refines m ?d"
    using discover_refines [OF assms] refines_same [OF assms] by simp
  have "device (fst ?d) (obs_mac obs) \<noteq> None"
    by (simp add: discover_def Let_def)
  then obtain e where e: "device ?m3 (obs_mac obs) = Some e" by auto
  have ok3: "manager_ok ?m3"
    using d manager_ok_cong [of ?m3 "fst ?d"] by (simp add: refines_def)
  obtain e1 es changes where r:
    "observe_entry db (mg_learning ?m3) obs (at_mine ?at) (snd ?d) e = (e1, es, changes)"
    by (metis prod_cases3)
  let ?m4 = "(put_device ?m3 (obs_mac obs) e1)\<lparr>mg_reclassifications := mg_reclassifications ?m3 @ changes\<rparr>"
  have "accounts (obs_mac obs) e es e1" "dv_mac e1 = obs_mac obs"
    using observe_entry_accounts [OF manager_ok_mac [OF ok3 e] r] by simp_all
  from refines_put [OF ok3 e this] have step: "refines ?m3 (?m4, es)"
    by (subst refines_result_cong [of _ "put_device ?m3 (obs_mac obs) e1"]) simp_all
  then have "refines ?m4 (add_others db ?m4 (at_others ?at) (obs_at obs))"
    by (intro add_others_refines) (simp add: refines_def)
  then have "refines ?m3 (fst (add_others db ?m4 (at_others ?at) (obs_at obs)),
      es @ snd (add_others db ?m4 (at_others ?at) (obs_at obs)))"
    using refines_append [OF step] by simp
  then have "refines (fst ?d) (fst (add_others db ?m4 (at_others ?at) (obs_at obs)),
      es @ snd (add_others db ?m4 (at_others ?at) (obs_at obs)))"
    using refines_cong [of ?m3 "fst ?d"] by simp
  then have "refines m (fst (add_others db ?m4 (at_others ?at) (obs_at obs)),
      snd ?d @ es @ snd (add_others db ?m4 (at_others ?at) (obs_at obs)))"
    using refines_append [of m "fst ?d" "snd ?d"] d by simp
  moreover have "observe t db m obs = (fst (add_others db ?m4 (at_others ?at) (obs_at obs)),
      snd ?d @ es @ snd (add_others db ?m4 (at_others ?at) (obs_at obs)))"
    using False e r by (simp add: observe_def Let_def case_prod_beta)
  ultimately show ?thesis by simp
qed

lemma set_location_refines:
  assumes "manager_ok m"
  shows "refines m (set_location m mac place movement telemetry now)"
proof (cases "device m mac")
  case None
  then show ?thesis using refines_same [OF assms] by (simp add: set_location_def)
next
  case (Some e)
  let ?e = "e\<lparr>dv_current_ap := Some (pl_ap_name place),
              dv_current_location := Some (pl_location place), dv_dirty := True\<rparr>"
  show ?thesis
  proof (cases "dv_current_ap e = Some (pl_ap_name place)")
    case True
    then show ?thesis using Some refines_same [OF assms] by (simp add: set_location_def)
  next
    case False
    then have "accounts mac e (snd (set_location m mac place movement telemetry now)) ?e"
      using Some by (simp add: accounts_def set_location_def Let_def ledger_step_about event_agrees_def)
        (simp add: set_entry_def)
    from refines_put [OF assms Some this] manager_ok_mac [OF assms Some] show ?thesis
      using Some False by (simp add: set_location_def Let_def)
  qed
qed

text \<open>A pass over the whole table, one entry at a time.\<close>

definition with_devices :: "manager \<Rightarrow> (mac_addr \<times> entry) list \<Rightarrow> manager" where
  "with_devices m xs = m\<lparr>mg_devices := xs\<rparr>"

lemma with_devices_simps [simp]:
  "mg_devices (with_devices m xs) = xs" "with_devices (with_devices m xs) ys = with_devices m ys"
  "device (with_devices m xs) mac = map_of xs mac"
  by (simp_all add: with_devices_def device_def)

lemma update_middle:
  "mac \<notin> fst ` set before \<Longrightarrow> AList.update mac v (before @ (mac, e) # after) = before @ (mac, v) # after"
  by (induction before) auto

lemma concat_nothing: "concat (map (\<lambda>(k, v). []) xs) = []"
  by (induction xs) auto

lemma refines_pass:
  assumes step: "\<And>mac e. dv_mac e = mac \<Longrightarrow> accounts mac e (es e) (f e) \<and> dv_mac (f e) = mac"
    and "manager_ok (with_devices m (before @ todo))"
  shows "refines (with_devices m (before @ todo))
    (with_devices m (before @ map (\<lambda>(mac, e). (mac, f e)) todo), concat (map (\<lambda>(mac, e). es e) todo))"
  using assms(2)
proof (induction todo arbitrary: before)
  case Nil
  then show ?case using refines_same [OF Nil] by simp
next
  case (Cons x todo)
  obtain mac e where x: "x = (mac, e)" by force
  have notin: "mac \<notin> fst ` set before" and mac: "dv_mac e = mac"
    using Cons.prems by (auto simp: manager_ok_def x)
  have now: "device (with_devices m (before @ x # todo)) mac = Some e"
    using notin by (simp add: x map_add_def map_of_eq_None_iff [THEN iffD2] split: option.split)
  have "put_device (with_devices m (before @ x # todo)) mac (f e)
      = with_devices m ((before @ [(mac, f e)]) @ todo)"
    using notin by (simp add: put_device_def with_devices_def x update_middle)
  then have one: "refines (with_devices m (before @ x # todo)) (with_devices m ((before @ [(mac, f e)]) @ todo), es e)"
    using refines_put [OF Cons.prems now conjunct1 [OF step [OF mac]] conjunct2 [OF step [OF mac]]] by simp
  then have "manager_ok (with_devices m ((before @ [(mac, f e)]) @ todo))" by (simp add: refines_def)
  from refines_append [OF one Cons.IH [OF this]] show ?case by (simp add: x)
qed

lemma sweep_refines:
  assumes "manager_ok m"
  shows "refines m (sweep m now)"
  using refines_pass [of "\<lambda>e. snd (sweep_entry (mg_config m) (mg_learning m) now e)"
      "\<lambda>e. fst (sweep_entry (mg_config m) (mg_learning m) now e)" m "[]" "mg_devices m"]
    sweep_entry_accounts assms
  by (simp add: sweep_def with_devices_def)

lemma take_dirty_refines:
  assumes "manager_ok m"
  shows "refines m (fst (take_dirty m), [])"
proof -
  let ?f = "\<lambda>e. if dv_dirty e then e\<lparr>dv_dirty := False, dv_observations_since_flush := 0\<rparr> else e"
  have "accounts mac e [] (?f e) \<and> dv_mac (?f e) = mac" if "dv_mac e = mac" for mac e
    using that by (simp add: accounts_Nil)
  from refines_pass [of "\<lambda>_. []" ?f m "[]" "mg_devices m"] this assms show ?thesis
    by (simp add: take_dirty_def with_devices_def concat_nothing)
qed

lemma apply_columns_frame:
  "dv_mac (fst (foldl (apply_column setting) (e, changes) USER_OWNED_COLUMNS)) = dv_mac e"
  "dv_state (fst (foldl (apply_column setting) (e, changes) USER_OWNED_COLUMNS)) = dv_state e"
  "dv_current_ap (fst (foldl (apply_column setting) (e, changes) USER_OWNED_COLUMNS)) = dv_current_ap e"
  by (simp_all add: USER_OWNED_COLUMNS_def apply_column_def apply_display_name_def apply_notify_def)

lemma apply_setting_refines:
  assumes "manager_ok m"
  shows "refines m (fst (apply_setting (m, changes) setting), [])"
proof (cases "device m (us_mac setting)")
  case None
  then show ?thesis using refines_same [OF assms] by (simp add: apply_setting_def)
next
  case (Some e)
  let ?e = "fst (foldl (apply_column setting) (e, changes) USER_OWNED_COLUMNS)"
  have "accounts (us_mac setting) e [] ?e" by (rule accounts_Nil) (simp_all add: apply_columns_frame)
  from refines_put [OF assms Some this] show ?thesis
    using manager_ok_mac [OF assms Some] Some
    by (simp add: apply_setting_def case_prod_beta apply_columns_frame)
qed

lemma apply_settings_refines:
  "manager_ok m \<Longrightarrow> refines m (fst (foldl apply_setting (m, changes) settings), [])"
proof (induction settings arbitrary: m changes)
  case (Cons x rest)
  let ?a = "apply_setting (m, changes) x"
  have a: "refines m (fst ?a, [])" by (rule apply_setting_refines [OF Cons.prems])
  then have "refines (fst ?a) (fst (foldl apply_setting (fst ?a, snd ?a) rest), [])"
    by (intro Cons.IH) (simp add: refines_def)
  from refines_append [OF a this] show ?case by simp
qed (simp add: refines_same)

lemma manager_step_refines: "manager_ok m \<Longrightarrow> refines m (manager_step t db m x)"
  by (cases x)
    (auto simp: observe_refines add_signal_refines set_location_refines sweep_refines take_dirty_refines
      apply_user_settings_def apply_settings_refines take_reclassifications_def end_learning_def
      intro: refines_same)

interpretation table: simulation manager_ok "manager_step t db" ledger_of ledger_step
  by unfold_locales (use manager_step_refines in \<open>auto simp: refines_def\<close>)

text \<open>
  C3: the device table refines the ledger. From a well-formed table, whatever sequence of
  observations, signals, placements, sweeps, edits and flushes follows, the ledger of the first
  table accepts the effects emitted, one after the other, and they lead to the ledger of the last
  table. So a device is discovered once and before anything else is said of it, its presence
  sessions open and close alternately and match its state, an address is recorded only inside a
  session, and it has at most one open stay, which ends before it is announced offline.
\<close>

theorem table_refines_ledger:
  assumes "manager_ok m"
  shows "manager_ok (fst (machine_run (manager_step t db) m ops))
    \<and> spec_run ledger_step (ledger_of m) (snd (machine_run (manager_step t db) m ops))
      = Some (ledger_of (fst (machine_run (manager_step t db) m ops)))"
  using table.run_ok [OF assms] table.run_accepted [OF assms] by blast

lemma new_manager_ok: "manager_ok (new_manager cfg learning)"
  by (simp add: manager_ok_def new_manager_def)

definition sample_sighting :: observation where
  "sample_sighting =
     new_observation sample_phone (Some (V4 (Ipv4Addr 192 168 1 9))) ''eth0'' ''arp'' ObsRequest 0"

definition sample_ops :: "manager_op list" where
  "sample_ops = [Observe sample_sighting, Sweep 9000000000000, Observe (sample_sighting\<lparr>obs_at := 9000000000001\<rparr>),
     Sweep 99000000000000]"

theorem table_refines_ledger_witness:
  "spec_run ledger_step (ledger_of (new_manager default_state False))
     (snd (machine_run (manager_step Map.empty sample_db) (new_manager default_state False) sample_ops))
   = Some (ledger_of (fst (machine_run (manager_step Map.empty sample_db) (new_manager default_state False) sample_ops)))"
  using table_refines_ledger [OF new_manager_ok] by blast

end
