(* ===== verification/Attribution.thy ===== *)
theory Attribution
  imports Ledger
begin

text \<open>
  Whose name a frame's evidence is: the sender's, the holder's of an address it names, or nobody's;
  and the devices one frame can touch.
\<close>

subsection \<open>Attributing claims\<close>

lemma first_some_Some: "first_some f xs = Some y \<Longrightarrow> \<exists>x \<in> set xs. f x = Some y"
  by (induction xs) (auto simp: first_some_def List.map_filter_simps split: option.splits list.splits)

lemma holder_of_Some:
  "holder_of m address = Some mac
     \<longleftrightarrow> mg_addresses m address = Some mac \<and> (\<exists>e. device m mac = Some e \<and> holds e address)"
  by (auto simp: holder_of_def split: bind_splits if_splits)

text \<open>Evidence that may name the sender, and evidence that may name another device.\<close>

definition own_claim :: "manager \<Rightarrow> mac_addr \<Rightarrow> ip_addr list \<Rightarrow> bool \<Rightarrow> name_claim \<Rightarrow> bool" where
  "own_claim m mac sender speaks_for_others c \<longleftrightarrow>
     (if claim_addresses c = [] then \<not> speaks_for_others
      else \<exists>ip \<in> set (claim_addresses c). ip \<in> set sender \<or> holder_of m ip = Some mac)"

definition claim_about :: "manager \<Rightarrow> ip_addr list \<Rightarrow> mac_addr \<Rightarrow> name_claim \<Rightarrow> bool" where
  "claim_about m sender holder c \<longleftrightarrow> set (claim_addresses c) \<inter> set sender = {}
     \<and> (\<exists>ip \<in> set (claim_addresses c). holder_of m ip = Some holder)"

definition attribution_ok ::
  "manager \<Rightarrow> mac_addr \<Rightarrow> ip_addr list \<Rightarrow> bool \<Rightarrow> name_claim set \<Rightarrow> attributed \<Rightarrow> bool"
where
  "attribution_ok m mac sender speaks claims out \<longleftrightarrow>
     (\<forall>s \<in> set (at_mine out). \<exists>c \<in> claims. claim_signal c = s \<and> trim (sig_value s) \<noteq> []
        \<and> own_claim m mac sender speaks c)
     \<and> (\<forall>(holder, s) \<in> set (at_others out). holder \<noteq> mac \<and> trim (sig_value s) \<noteq> []
        \<and> (\<exists>c \<in> claims. claim_signal c = s \<and> claim_about m sender holder c))"

lemma claim_matches_iff: "claim_matches c sender \<longleftrightarrow> set (claim_addresses c) \<inter> set sender \<noteq> {}"
  by (auto simp: claim_matches_def list_ex_iff)

lemma attribution_ok_mono:
  "attribution_ok m mac sender speaks claims out \<Longrightarrow> attribution_ok m mac sender speaks (insert c claims) out"
  by (simp add: attribution_ok_def case_prod_beta)

lemma attribution_ok_count [simp]:
  "attribution_ok m mac sender speaks claims (out\<lparr>at_unattributed := n\<rparr>)
     = attribution_ok m mac sender speaks claims out"
  by (simp add: attribution_ok_def)

lemma attribution_ok_mine:
  assumes "attribution_ok m mac sender speaks claims out"
    and "trim (sig_value (claim_signal c)) \<noteq> []" "own_claim m mac sender speaks c"
  shows "attribution_ok m mac sender speaks (insert c claims) (out\<lparr>at_mine := at_mine out @ [claim_signal c]\<rparr>)"
  using attribution_ok_mono [OF assms(1), of c] assms(2,3) by (simp add: attribution_ok_def)

lemma attribution_ok_other:
  assumes "attribution_ok m mac sender speaks claims out"
    and "trim (sig_value (claim_signal c)) \<noteq> []" "holder \<noteq> mac" "claim_about m sender holder c"
  shows "attribution_ok m mac sender speaks (insert c claims)
    (out\<lparr>at_others := at_others out @ [(holder, claim_signal c)]\<rparr>)"
  using attribution_ok_mono [OF assms(1), of c] assms(2-4) by (simp add: attribution_ok_def)

lemma attribute_claim_ok:
  assumes "attribution_ok m mac sender speaks claims out"
  shows "attribution_ok m mac sender speaks (insert c claims) (attribute_claim m mac sender speaks c out)"
proof -
  note some = attribution_ok_mine [OF assms, of c] attribution_ok_other [OF assms, of c]
    attribution_ok_mono [OF assms, of c]
  consider (blank) "trim (sig_value (claim_signal c)) = []"
    | (bare) "trim (sig_value (claim_signal c)) \<noteq> []" "claim_addresses c = []"
    | (mine) "trim (sig_value (claim_signal c)) \<noteq> []" "claim_addresses c \<noteq> []" "claim_matches c sender"
    | (foreign) "trim (sig_value (claim_signal c)) \<noteq> []" "claim_addresses c \<noteq> []" "\<not> claim_matches c sender"
    by blast
  then show ?thesis
  proof cases
    case blank
    then show ?thesis using some(3) by (simp add: attribute_claim_def)
  next
    case bare
    then show ?thesis using some by (cases speaks) (simp_all add: attribute_claim_def own_claim_def)
  next
    case mine
    then have "own_claim m mac sender speaks c" by (auto simp: own_claim_def claim_matches_iff)
    then show ?thesis using mine some(1) by (simp add: attribute_claim_def)
  next
    case foreign
    show ?thesis
    proof (cases "first_some (holder_of m) (claim_addresses c)")
      case None
      then show ?thesis using foreign some(3) by (simp add: attribute_claim_def)
    next
      case (Some holder)
      then obtain ip where ip: "ip \<in> set (claim_addresses c)" "holder_of m ip = Some holder"
        using first_some_Some by metis
      have "claim_about m sender holder c" using ip foreign by (auto simp: claim_about_def claim_matches_iff)
      moreover have "own_claim m mac sender speaks c" if "holder = mac"
        using ip foreign that by (auto simp: own_claim_def)
      ultimately show ?thesis using foreign Some some(1,2) by (simp add: attribute_claim_def)
    qed
  qed
qed

lemma attribute_fold_ok:
  "attribution_ok m mac sender speaks seen out
     \<Longrightarrow> attribution_ok m mac sender speaks (set cs \<union> seen) (fold (attribute_claim m mac sender speaks) cs out)"
proof (induction cs arbitrary: seen out)
  case (Cons c cs)
  from Cons.IH [OF attribute_claim_ok [OF Cons.prems, of c]] show ?case by simp
qed simp

definition speaks_for_others :: "manager \<Rightarrow> observation \<Rightarrow> bool" where
  "speaks_for_others m obs \<longleftrightarrow> (\<exists>c \<in> set (obs_claims obs).
     claim_addresses c \<noteq> [] \<and> set (claim_addresses c) \<inter> set (sender_addresses m obs) = {})"

lemma attribute_claims_ok:
  "attribution_ok m (obs_mac obs) (sender_addresses m obs) (speaks_for_others m obs) (set (obs_claims obs))
     (attribute_claims m obs)"
proof -
  have "list_ex (\<lambda>c. claim_addresses c \<noteq> [] \<and> \<not> claim_matches c (sender_addresses m obs)) (obs_claims obs)
      = speaks_for_others m obs"
    by (auto simp: speaks_for_others_def claim_matches_iff list_ex_iff)
  moreover have "attribution_ok m (obs_mac obs) (sender_addresses m obs) (speaks_for_others m obs) {} no_attribution"
    by (simp add: attribution_ok_def no_attribution_def)
  ultimately show ?thesis
    using attribute_fold_ok [of m "obs_mac obs" "sender_addresses m obs" "speaks_for_others m obs" "{}" no_attribution "obs_claims obs"]
    by (auto simp: attribute_claims_def Let_def attribution_ok_def no_attribution_def)
qed

text \<open>
  C7: a name a frame carries goes to the sender only when the claim names an address of the sender,
  or names none and the frame answers for nobody else; it goes to another device only when that
  device currently uses an address the claim names and the sender uses none of them. A responder
  that answers for sleeping hosts is never given their names.
\<close>

theorem claims_name_their_holders:
  "(\<forall>s \<in> set (at_mine (attribute_claims m obs)). \<exists>c \<in> set (obs_claims obs). claim_signal c = s
      \<and> (if claim_addresses c = [] then \<not> speaks_for_others m obs
         else \<exists>ip \<in> set (claim_addresses c).
           ip \<in> set (sender_addresses m obs) \<or> (\<exists>e. device m (obs_mac obs) = Some e \<and> holds e ip)))
   \<and> (\<forall>(holder, s) \<in> set (at_others (attribute_claims m obs)). holder \<noteq> obs_mac obs
      \<and> (\<exists>c \<in> set (obs_claims obs). claim_signal c = s
          \<and> set (claim_addresses c) \<inter> set (sender_addresses m obs) = {}
          \<and> (\<exists>ip \<in> set (claim_addresses c). \<exists>e. device m holder = Some e \<and> holds e ip)))"
  using attribute_claims_ok [of m obs]
  by (fastforce simp: attribution_ok_def own_claim_def claim_about_def holder_of_Some split: if_splits)

subsection \<open>The devices one frame can touch\<close>

lemma add_signal_frame: "mac' \<noteq> mac \<Longrightarrow> device (fst (add_signal db m mac s now)) mac' = device m mac'"
  by (simp add: add_signal_def Let_def case_prod_beta split: option.split)

lemma add_others_frame:
  "mac' \<notin> fst ` set others \<Longrightarrow> device (fst (add_others db m others now)) mac' = device m mac'"
proof (induction others arbitrary: m)
  case (Cons x rest)
  then show ?case using add_signal_frame [of mac' "fst x" db m "snd x" now]
    by (cases x) (simp add: case_prod_beta)
qed simp

lemma observe_other_device:
  assumes "mac' \<noteq> obs_mac obs"
    and "mac' \<notin> fst ` set (at_others (attribute_claims
      (index_address (if device m (obs_mac obs) = None then fst (discover t m obs) else m) obs) obs))"
  shows "device (fst (observe t db m obs)) mac' = device m mac'"
proof -
  have found: "device (fst (discover t m obs)) mac' = device m mac'"
    "device (fst (discover t m obs)) (obs_mac obs) = Some (discovered_entry t (mg_learning m) obs)"
    using assms(1) by (simp_all add: discover_def Let_def)
  show ?thesis
  proof (cases "device m (obs_mac obs)")
    case None
    then show ?thesis using assms found by (simp add: observe_def Let_def case_prod_beta add_others_frame)
  next
    case (Some e)
    then show ?thesis using assms by (simp add: observe_def Let_def case_prod_beta add_others_frame)
  qed
qed

text \<open>
  One observation changes the entry of its sender and of devices that use an address one of its
  claims names, and no other entry.
\<close>

theorem observe_touches_named_devices:
  assumes "mac \<noteq> obs_mac obs"
    and "\<forall>c \<in> set (obs_claims obs). \<forall>ip \<in> set (claim_addresses c). holder_of m ip \<noteq> Some mac"
  shows "device (fst (observe t db m obs)) mac = device m mac"
proof (rule observe_other_device [OF assms(1)])
  let ?m = "index_address (if device m (obs_mac obs) = None then fst (discover t m obs) else m) obs"
  have addresses: "mg_addresses ?m ip = Some mac \<Longrightarrow> mg_addresses m ip = Some mac" for ip
    using assms(1) by (auto simp: index_address_def discover_def Let_def put_device_def
        split: option.splits if_splits)
  have dev: "device ?m mac = device m mac"
    using assms(1) by (simp add: discover_def Let_def)
  have "holder_of ?m ip = Some mac \<Longrightarrow> holder_of m ip = Some mac" for ip
    using addresses [of ip] dev by (simp add: holder_of_Some)
  then show "mac \<notin> fst ` set (at_others (attribute_claims ?m obs))"
    using attribute_claims_ok [of ?m obs] assms(2)
    by (fastforce simp: attribution_ok_def claim_about_def)
qed

definition sample_claim :: observation where
  "sample_claim = with_claim sample_sighting (unaddressed (Signal MdnsName ''a''))"

lemma sample_claim_mine:
  "at_mine (attribute_claims (new_manager default_state False) sample_claim) = [Signal MdnsName ''a'']"
  by (simp add: attribute_claims_def sample_claim_def with_claim_def sample_sighting_def new_observation_def
      unaddressed_def attribute_claim_def no_attribution_def Let_def Signal_def trim_plain plain_def ordc_def)

theorem claims_name_their_holders_witness:
  "\<exists>c \<in> set (obs_claims sample_claim). claim_signal c = Signal MdnsName ''a''"
  using claims_name_their_holders [of "new_manager default_state False" sample_claim]
  unfolding sample_claim_mine by auto

theorem observe_touches_named_devices_witness:
  "device (fst (observe Map.empty db (new_manager default_state False) sample_sighting)) (MacAddr 2 0 0 0 0 2)
   = device (new_manager default_state False) (MacAddr 2 0 0 0 0 2)"
  by (rule observe_touches_named_devices)
    (simp_all add: sample_sighting_def new_observation_def sample_phone_def)

end
