(* ===== verification/Sightings.thy ===== *)
theory Sightings
  imports Ledger
begin

text \<open>
  The functional behaviour of the table's operations: which observations announce a change of
  address, what a sweep makes of silence, what an edit by the user may touch, which events reach a
  notifier, and where an offline device can be.
\<close>

subsection \<open>The events of one observation\<close>

definition events_of :: "event_type \<Rightarrow> effect list \<Rightarrow> device_event list" where
  "events_of kind es = filter (\<lambda>ev. ev_event_type ev = kind) (List.map_filter
     (\<lambda>x. case x of EventEffect ev \<Rightarrow> Some ev | _ \<Rightarrow> None) es)"

lemma events_of_simps [simp]:
  "events_of kind [] = []"
  "events_of kind (EventEffect ev # es) = (if ev_event_type ev = kind then ev # events_of kind es else events_of kind es)"
  "events_of kind (Discovered snap # es) = events_of kind es"
  "events_of kind (SignalEffect mac s now # es) = events_of kind es"
  "events_of kind (AddressEffect mac ip i now # es) = events_of kind es"
  "events_of kind (PresenceOpened mac i addr now # es) = events_of kind es"
  "events_of kind (PresenceClosed mac now # es) = events_of kind es"
  "events_of kind (LocationChanged mac ap place now # es) = events_of kind es"
  "events_of kind (LocationClosed mac now # es) = events_of kind es"
  by (simp_all add: events_of_def List.map_filter_simps)

lemma events_of_append [simp]: "events_of kind (xs @ ys) = events_of kind xs @ events_of kind ys"
  by (simp add: events_of_def map_filter_def)

lemma events_of_about [simp]:
  "events_of kind [event_about k e ip i now learning details] = [] \<longleftrightarrow> k \<noteq> kind"
  by (simp add: event_about_def)

lemma events_of_signals [simp]: "events_of kind (map (\<lambda>s. SignalEffect mac s now) ss) = []"
  by (induction ss) simp_all

lemma add_signal_events: "kind \<noteq> NameUpdated \<Longrightarrow> events_of kind (snd (add_signal db m mac s now)) = []"
  by (auto simp: add_signal_def Let_def case_prod_beta split: option.split)

lemma add_others_events: "kind \<noteq> NameUpdated \<Longrightarrow> events_of kind (snd (add_others db m others now)) = []"
proof (induction others arbitrary: m)
  case (Cons x rest)
  then show ?case by (cases x) (simp add: case_prod_beta add_signal_events)
qed simp

lemma step_evidence_events:
  "kind \<noteq> NameUpdated \<Longrightarrow> events_of kind (snd (step_evidence learning obs mine effects e)) = []"
  by (auto simp: step_evidence_def Let_def case_prod_beta name_updated_def split: option.split)

lemma step_presence_events:
  "kind \<noteq> Returned \<Longrightarrow> events_of kind (snd (step_presence learning obs e)) = []"
  by (simp add: step_presence_def Let_def split: device_state.split)

lemma step_presence_addresses [simp]:
  "dv_last_ip (fst (step_presence learning obs e)) = dv_last_ip e"
  by (simp add: step_presence_def Let_def split: device_state.split)

lemma note_sighting_addresses [simp]: "dv_last_ip (note_sighting now e) = dv_last_ip e"
  by (simp add: note_sighting_def)

lemma recordable_ipv4: "is_recordable (V4 a) \<Longrightarrow> ipv4_string (Some (V4 a)) = Some (show_ipv4 a)"
  by (simp add: is_recordable_def ipv4_string_def)

definition moves_address :: "entry \<Rightarrow> observation \<Rightarrow> bool" where
  "moves_address e obs \<longleftrightarrow> (\<exists>a old. obs_ip obs = Some (V4 a) \<and> is_recordable (V4 a)
     \<and> dv_last_ip e = Some old \<and> old \<noteq> show_ipv4 a)"

lemma step_address_events:
  "events_of IpChanged (snd (step_address learning obs e)) \<noteq> [] \<longleftrightarrow> moves_address e obs"
proof (cases "\<exists>ip. obs_ip obs = Some ip \<and> is_recordable ip")
  case True
  then obtain ip where ip: "obs_ip obs = Some ip" "is_recordable ip" by blast
  show ?thesis
  proof (cases ip)
    case (V4 a)
    then show ?thesis using ip recordable_ipv4 [of a]
      by (auto simp: step_address_def step_ipv4_def Let_def moves_address_def split: option.splits)
  next
    case (V6 a)
    then show ?thesis using ip
      by (simp add: step_address_def step_ipv4_def ipv4_string_def moves_address_def)
  qed
next
  case False
  then show ?thesis by (auto simp: step_address_def moves_address_def split: option.split)
qed

lemma observe_entry_ip_changed:
  "events_of IpChanged (fst (snd (observe_entry db learning obs mine effects e))) \<noteq> [] \<longleftrightarrow> moves_address e obs"
  using step_address_events [of learning obs "fst (step_presence learning obs (note_sighting (obs_at obs) e))"]
  by (simp add: observe_entry_def Let_def case_prod_beta step_presence_events step_evidence_events moves_address_def)

lemma discover_events: "kind \<noteq> NewDevice \<Longrightarrow> events_of kind (snd (discover t m obs)) = []"
  by (simp add: discover_def Let_def split: option.split)

lemma discovered_not_moved: "\<not> moves_address (discovered_entry t learning obs) obs"
  by (simp add: moves_address_def discovered_entry_def Let_def)

text \<open>
  An observation announces a change of address exactly when it comes from a device already known
  by an IPv4 address and carries another one that can be recorded. A rotating IPv6 address, a
  multicast or unset one, and the first address of a device announce nothing.
\<close>

theorem address_change_iff:
  "events_of IpChanged (snd (observe t db m obs)) \<noteq> [] \<longleftrightarrow>
     \<not> is_group (obs_mac obs) \<and> \<not> is_zero (obs_mac obs)
     \<and> (\<exists>e. device m (obs_mac obs) = Some e \<and> moves_address e obs)"
proof (cases "is_group (obs_mac obs) \<or> is_zero (obs_mac obs)")
  case True
  then show ?thesis by (auto simp: observe_def)
next
  case False
  show ?thesis
  proof (cases "device m (obs_mac obs)")
    case None
    then have "device (fst (discover t m obs)) (obs_mac obs) = Some (discovered_entry t (mg_learning m) obs)"
      by (simp add: discover_def Let_def)
    then show ?thesis using None False
      by (simp add: observe_def Let_def case_prod_beta add_others_events discover_events
          observe_entry_ip_changed [simplified] discovered_not_moved)
  next
    case (Some e)
    then show ?thesis using False
      by (simp add: observe_def Let_def case_prod_beta add_others_events observe_entry_ip_changed [simplified])
  qed
qed

subsection \<open>Sweeps\<close>

definition state_after :: "device_state \<Rightarrow> duration \<Rightarrow> duration \<Rightarrow> duration \<Rightarrow> device_state" where
  "state_after s silence idle_after offline_after =
     (if s = Offline \<or> silence \<ge> offline_after then Offline
      else if silence \<ge> idle_after \<and> s = Online then Idle
      else s)"

lemma sweep_entry_state:
  "dv_state (fst (sweep_entry cfg learning now e)) =
     state_after (dv_state e) (silence_of e now)
       (idle_timeout_for cfg (cl_device_type (dv_classification e)))
       (offline_timeout_for cfg (cl_device_type (dv_classification e)))"
  by (auto simp: sweep_entry_def Let_def state_after_def go_offline_def split: option.split)

lemma sweep_entry_events:
  "events_of WentOffline (snd (sweep_entry cfg learning now e)) = [] \<longleftrightarrow>
     \<not> (dv_state e \<noteq> Offline
        \<and> silence_of e now \<ge> offline_timeout_for cfg (cl_device_type (dv_classification e)))"
  by (auto simp: sweep_entry_def Let_def go_offline_def split: option.split)

lemma device_sweep:
  "device (fst (sweep m now)) mac =
     map_option (\<lambda>e. fst (sweep_entry (mg_config m) (mg_learning m) now e)) (device m mac)"
proof -
  have "map_of (map (\<lambda>(mac, e). (mac, f e)) xs) mac = map_option f (map_of xs mac)" for f :: "entry \<Rightarrow> entry" and xs
    by (induction xs) auto
  then show ?thesis by (simp add: sweep_def device_def)
qed

lemma silence_of_eq: "dv_last_seen_at e \<le> now \<Longrightarrow> silence_of e now = nat (now - dv_last_seen_at e)"
  by (simp add: silence_of_def to_std_def)

text \<open>
  C32: a sweep puts every device where its silence says, in one pass: offline once the silence
  reaches the timeout of its type, idle once it reaches the idle timeout while it was online, and
  otherwise where it was; a device seen after the moment of the sweep counts as not silent at all.
\<close>

theorem sweep_places_every_device:
  "map_option dv_state (device (fst (sweep m now)) mac) =
     map_option (\<lambda>e. let silence = nat (max 0 (now - dv_last_seen_at e));
                         kind = cl_device_type (dv_classification e) in
        if dv_state e = Offline \<or> silence \<ge> offline_timeout_for (mg_config m) kind then Offline
        else if silence \<ge> idle_timeout_for (mg_config m) kind \<and> dv_state e = Online then Idle
        else dv_state e) (device m mac)"
proof -
  have "silence_of e now = nat (max 0 (now - dv_last_seen_at e))" for e :: entry
    by (simp add: silence_of_def to_std_def max_def)
  then show ?thesis
    by (cases "device m mac") (simp_all add: device_sweep sweep_entry_state state_after_def Let_def)
qed

subsection \<open>Edits by the user\<close>

definition with_settings :: "entry \<Rightarrow> user_settings \<Rightarrow> entry" where
  "with_settings e s = e\<lparr>dv_display_name := us_display_name s, dv_notify := us_notify s\<rparr>"

lemma apply_columns_result:
  "fst (foldl (apply_column s) (e, changes) USER_OWNED_COLUMNS) = with_settings e s"
  by (simp add: USER_OWNED_COLUMNS_def apply_column_def apply_display_name_def apply_notify_def with_settings_def)

lemma apply_columns_quiet:
  "snd (foldl (apply_column s) (e, changes) USER_OWNED_COLUMNS) = changes \<longleftrightarrow> with_settings e s = e"
  by (cases e) (auto simp: USER_OWNED_COLUMNS_def apply_column_def apply_display_name_def apply_notify_def with_settings_def)

lemma apply_setting_device:
  "device (fst (apply_setting (m, changes) s)) mac =
     (if mac = us_mac s then map_option (\<lambda>e. with_settings e s) (device m mac) else device m mac)"
  by (auto simp: apply_setting_def case_prod_beta apply_columns_result split: option.split)

lemma apply_settings_device:
  "distinct (map us_mac settings) \<Longrightarrow> device (fst (foldl apply_setting (m, changes) settings)) mac =
     (case List.find (\<lambda>s. us_mac s = mac) settings of
        Some s \<Rightarrow> map_option (\<lambda>e. with_settings e s) (device m mac) | None \<Rightarrow> device m mac)"
proof (induction settings arbitrary: m changes)
  case (Cons s rest)
  let ?a = "apply_setting (m, changes) s"
  have other: "List.find (\<lambda>x. us_mac x = us_mac s) rest = None"
    using Cons.prems by (auto simp: find_None_iff image_iff)
  have "device (fst (foldl apply_setting (m, changes) (s # rest))) mac =
      (case List.find (\<lambda>s. us_mac s = mac) rest of
         Some s \<Rightarrow> map_option (\<lambda>e. with_settings e s) (device (fst ?a) mac) | None \<Rightarrow> device (fst ?a) mac)"
    using Cons.IH [of "fst ?a" "snd ?a"] Cons.prems by simp
  then show ?case using other by (auto simp: apply_setting_device split: option.split)
qed simp

lemma apply_settings_quiet:
  "(\<forall>s \<in> set settings. \<forall>e. device m (us_mac s) = Some e \<longrightarrow> with_settings e s = e)
     \<Longrightarrow> snd (foldl apply_setting (m, changes) settings) = changes"
proof (induction settings arbitrary: m changes)
  case (Cons s rest)
  let ?a = "apply_setting (m, changes) s"
  have quiet: "snd ?a = changes"
    using Cons.prems by (auto simp: apply_setting_def case_prod_beta apply_columns_quiet split: option.split)
  have same: "device (fst ?a) mac = device m mac" for mac
    using Cons.prems by (auto simp: apply_setting_device split: option.split) (cases "device m mac"; simp)
  have "snd (foldl apply_setting (fst ?a, snd ?a) rest) = snd ?a"
    by (rule Cons.IH) (use Cons.prems same in auto)
  then have "snd (foldl apply_setting ?a rest) = snd ?a" by simp
  then show ?case using quiet by simp
qed simp

text \<open>
  Folding the user's columns back in gives every listed device its stored name and flag and
  changes nothing else about any device, state, evidence and the mark that it has something to
  write included; folding the same rows in again reports no change.
\<close>

theorem user_settings_frame:
  assumes "distinct (map us_mac settings)"
  shows "device (fst (apply_user_settings m settings)) mac =
      (case List.find (\<lambda>s. us_mac s = mac) settings of
         None \<Rightarrow> device m mac
       | Some s \<Rightarrow> map_option (\<lambda>e. e\<lparr>dv_display_name := us_display_name s, dv_notify := us_notify s\<rparr>)
                     (device m mac))
    \<and> snd (apply_user_settings (fst (apply_user_settings m settings)) settings) = []"
proof -
  have find: "List.find (\<lambda>x. us_mac x = us_mac s) settings = Some s" if "s \<in> set settings" for s
    using assms that by (induction settings) auto
  have "snd (apply_user_settings (fst (apply_user_settings m settings)) settings) = []"
    unfolding apply_user_settings_def
    by (rule apply_settings_quiet) (auto simp: apply_settings_device [OF assms] find with_settings_def)
  then show ?thesis
    by (auto simp: apply_user_settings_def apply_settings_device [OF assms] with_settings_def split: option.split)
qed

subsection \<open>Which events reach a notifier\<close>

definition routine :: "bool \<Rightarrow> effect \<Rightarrow> bool" where
  "routine learning x \<longleftrightarrow>
     (case x of
        EventEffect ev \<Rightarrow> \<not> is_security (ev_event_type ev) \<and> ev_during_learning ev = learning
      | _ \<Rightarrow> True)"

lemma routine_simps [simp]:
  "routine learning (Discovered snap)" "routine learning (SignalEffect mac s now)"
  "routine learning (AddressEffect mac ip i now)" "routine learning (PresenceOpened mac i addr now)"
  "routine learning (PresenceClosed mac now)" "routine learning (LocationChanged mac ap place now)"
  "routine learning (LocationClosed mac now)"
  "routine learning (event_about kind e addr port now l details) \<longleftrightarrow> \<not> is_security kind \<and> l = learning"
  by (simp_all add: routine_def event_about_def)

lemma routine_signals [simp]: "list_all (routine learning) (map (\<lambda>s. SignalEffect mac s now) ss)"
  by (simp add: list_all_iff)

lemma add_signal_learning [simp]: "mg_learning (fst (add_signal db m mac s now)) = mg_learning m"
  by (simp add: add_signal_def Let_def case_prod_beta put_device_def split: option.split)

lemma add_signal_routine: "list_all (routine (mg_learning m)) (snd (add_signal db m mac s now))"
  by (auto simp: add_signal_def Let_def case_prod_beta is_security_def split: option.split)

lemma add_others_routine: "list_all (routine (mg_learning m)) (snd (add_others db m others now))"
proof (induction others arbitrary: m)
  case (Cons x rest)
  obtain mac s where x: "x = (mac, s)" by force
  show ?case using add_signal_routine [of m db mac s now] Cons.IH [of "fst (add_signal db m mac s now)"]
    by (simp add: x case_prod_beta)
qed simp

lemma observe_entry_routine:
  "list_all (routine learning) (fst (snd (observe_entry db learning obs mine effects e)))"
  by (auto simp: observe_entry_def Let_def case_prod_beta step_presence_def step_address_def step_ipv4_def
      step_evidence_def name_updated_def is_security_def split: option.split device_state.split)

lemma discover_routine:
  "list_all (routine (mg_learning m)) (snd (discover t m obs)) \<and> mg_learning (fst (discover t m obs)) = mg_learning m"
  by (simp add: discover_def Let_def routine_def is_security_def put_device_def split: option.split)

lemma put_device_learning [simp]: "mg_learning (put_device m mac e) = mg_learning m"
  by (simp add: put_device_def)

lemma observe_routine: "list_all (routine (mg_learning m)) (snd (observe t db m obs))"
proof (cases "is_group (obs_mac obs) \<or> is_zero (obs_mac obs)")
  case True
  then show ?thesis by (auto simp: observe_def)
next
  case False
  let ?d = "if device m (obs_mac obs) = None then discover t m obs else (m, [])"
  let ?m2 = "index_address (fst ?d) obs"
  let ?at = "attribute_claims ?m2 obs"
  let ?m3 = "?m2\<lparr>mg_unattributed_claims := mg_unattributed_claims ?m2 + at_unattributed ?at\<rparr>"
  have d: "list_all (routine (mg_learning m)) (snd ?d)" "mg_learning ?m3 = mg_learning m"
    using discover_routine [of m t obs] by simp_all
  have others: "list_all (routine (mg_learning m)) (snd (add_others db m' others now))"
    if "mg_learning m' = mg_learning m" for m' others now
    using add_others_routine [of m' db others now] that by simp
  show ?thesis
  proof (cases "device ?m3 (obs_mac obs)")
    case None
    then show ?thesis using False d by (simp add: observe_def Let_def case_prod_beta)
  next
    case (Some e)
    let ?r = "observe_entry db (mg_learning ?m3) obs (at_mine ?at) (snd ?d) e"
    let ?m4 = "(put_device ?m3 (obs_mac obs) (fst ?r))\<lparr>mg_reclassifications := mg_reclassifications ?m3 @ snd (snd ?r)\<rparr>"
    have "snd (observe t db m obs) = snd ?d @ fst (snd ?r) @ snd (add_others db ?m4 (at_others ?at) (obs_at obs))"
      using False Some by (simp add: observe_def Let_def case_prod_beta)
    moreover have "list_all (routine (mg_learning m)) (fst (snd ?r))"
      using observe_entry_routine [of "mg_learning ?m3"] d(2) by simp
    moreover have "mg_learning ?m4 = mg_learning m" using d(2) by simp
    ultimately show ?thesis using d(1) others by simp
  qed
qed

lemma set_location_routine: "list_all (routine (mg_learning m)) (snd (set_location m mac place movement telemetry now))"
  by (simp add: set_location_def Let_def is_security_def split: option.split)

lemma sweep_routine: "list_all (routine (mg_learning m)) (snd (sweep m now))"
proof -
  have "list_all (routine learning) (snd (sweep_entry cfg learning now e))" for cfg learning and e :: entry
    by (auto simp: sweep_entry_def Let_def go_offline_def is_security_def split: option.split)
  then show ?thesis by (auto simp: sweep_def list_all_iff)
qed

text \<open>
  While a learning window is open no event of the table reaches a notifier, though every one is
  recorded, and once it is closed the device's own flag decides; a security alert is delivered
  regardless of both.
\<close>

theorem learning_silences_only_devices:
  assumes "EventEffect ev \<in> set (snd (manager_step t db m x))"
  shows "(deliverable ev \<longleftrightarrow> ev_notify ev \<and> \<not> mg_learning m)
    \<and> (\<exists>sev. security_event t m al = [EventEffect sev] \<and> ev_mac sev = al_mac al \<and> deliverable sev)"
proof -
  have "list_all (routine (mg_learning m)) (snd (manager_step t db m x))"
    by (cases x) (simp_all add: observe_routine add_signal_routine set_location_routine sweep_routine)
  then have "routine (mg_learning m) (EventEffect ev)" using assms by (auto simp: list_all_iff)
  then show ?thesis by (auto simp: routine_def deliverable_def security_event_def Let_def)
qed

subsection \<open>Placing an offline device\<close>

text \<open>
  A device that is offline can be placed: the access point is taken without a look at the state,
  so the table then holds an offline device that is somewhere, and opens a stay for it.
\<close>

theorem offline_device_can_be_placed:
  assumes "device m mac = Some e" "dv_state e = Offline" "dv_current_ap e = None"
  shows "\<exists>e'. device (fst (set_location m mac place movement telemetry now)) mac = Some e'
    \<and> dv_state e' = Offline \<and> dv_current_ap e' = Some (pl_ap_name place)
    \<and> LocationChanged mac (Some (pl_ap_name place)) (pl_location place) now
        \<in> set (snd (set_location m mac place movement telemetry now))"
  using assms by (simp add: set_location_def Let_def)

subsection \<open>Instances\<close>

definition absent_manager :: manager where
  "absent_manager =
     put_device (new_manager default_state True) sample_phone
       ((discovered_entry Map.empty True sample_sighting)\<lparr>dv_state := Offline\<rparr>)"

lemma absent_device:
  "device absent_manager sample_phone = Some ((discovered_entry Map.empty True sample_sighting)\<lparr>dv_state := Offline\<rparr>)"
  by (simp add: absent_manager_def)

theorem offline_device_can_be_placed_witness:
  "\<exists>e'. device (fst (set_location absent_manager sample_phone
        \<lparr>pl_ap_name = ''ap'', pl_location = ''hall'', pl_edge = False\<rparr> MovementUnknown None 5)) sample_phone = Some e'
    \<and> dv_state e' = Offline \<and> dv_current_ap e' = Some ''ap''"
  using offline_device_can_be_placed [OF absent_device, of "\<lparr>pl_ap_name = ''ap'', pl_location = ''hall'', pl_edge = False\<rparr>"
      MovementUnknown None 5]
  by (auto simp: discovered_entry_def Let_def)

definition sample_settings :: user_settings where
  "sample_settings =
     \<lparr>us_mac = sample_phone, us_display_name = Some ''Phone'', us_notes = None, us_hidden = False,
      us_notify = False, us_owner_item_id = None\<rparr>"

theorem user_settings_frame_witness:
  "snd (apply_user_settings (fst (apply_user_settings absent_manager [sample_settings])) [sample_settings]) = []"
  using user_settings_frame [of "[sample_settings]" absent_manager sample_phone] by simp

lemma placed_event:
  "\<exists>ev. EventEffect ev \<in> set (snd (manager_step Map.empty db absent_manager
     (SetLocation sample_phone \<lparr>pl_ap_name = ''ap'', pl_location = ''hall'', pl_edge = False\<rparr> MovementUnknown None 5)))"
  by (simp add: set_location_def absent_device discovered_entry_def Let_def event_about_def)

theorem learning_silences_only_devices_witness:
  "\<exists>ev. EventEffect ev \<in> set (snd (manager_step Map.empty sample_db absent_manager
     (SetLocation sample_phone \<lparr>pl_ap_name = ''ap'', pl_location = ''hall'', pl_edge = False\<rparr> MovementUnknown None 5)))
   \<and> \<not> deliverable ev"
proof -
  obtain ev where ev: "EventEffect ev \<in> set (snd (manager_step Map.empty sample_db absent_manager
     (SetLocation sample_phone \<lparr>pl_ap_name = ''ap'', pl_location = ''hall'', pl_edge = False\<rparr> MovementUnknown None 5)))"
    using placed_event by blast
  have "mg_learning absent_manager" by (simp add: absent_manager_def new_manager_def)
  then show ?thesis using ev learning_silences_only_devices [OF ev] by blast
qed

end
