(* ===== verification/Naming.thy ===== *)
theory Naming
  imports Manager
begin

text \<open>
  What a device is called: the batch rule of the stored signals, and the settle window that a rival
  name has to outlast before it replaces the current one.
\<close>

subsection \<open>Recording evidence\<close>

lemma same_signal_iff [simp]: "same_signal s s' \<longleftrightarrow> s' = s"
  by (cases s; cases s') (auto simp: same_signal_def)

fun first_occurrences :: "'a set \<Rightarrow> 'a list \<Rightarrow> 'a list" where
  "first_occurrences seen [] = []" |
  "first_occurrences seen (x # xs) =
     (if x \<in> seen then first_occurrences seen xs else x # first_occurrences (insert x seen) xs)"

lemma first_occurrences_set [simp]: "set (first_occurrences seen xs) = set xs - seen"
  by (induction xs arbitrary: seen) auto

lemma first_occurrences_distinct [simp]: "distinct (first_occurrences seen xs)"
  by (induction xs arbitrary: seen) auto

lemma filter_skip: "s \<notin> set xs \<Longrightarrow> filter (\<lambda>x. x \<noteq> s \<and> P x) xs = filter P xs"
  by (intro filter_cong) auto

lemma take_batch_spec:
  assumes "distinct stored" "set batch \<inter> set stored = {}"
  shows "take_batch stored batch incoming any_new =
    (filter (\<lambda>s. s \<notin> set incoming) stored, batch @ first_occurrences (set batch) incoming,
     any_new \<or> \<not> set incoming \<subseteq> set batch \<union> set stored)"
  using assms
proof (induction incoming arbitrary: stored batch any_new)
  case (Cons s incoming)
  show ?case
  proof (cases "s \<in> set batch")
    case True
    then have "filter (\<lambda>x. x \<noteq> s \<and> x \<notin> set incoming) stored = filter (\<lambda>x. x \<notin> set incoming) stored"
      using Cons.prems(2) by (intro filter_cong) auto
    then show ?thesis using Cons True by (auto simp: list_ex_iff)
  next
    case False
    show ?thesis
    proof (cases "List.extract (same_signal s) stored")
      case None
      then have "s \<notin> set stored" by (simp add: extract_None_iff)
      moreover from this have "filter (\<lambda>x. x \<noteq> s \<and> x \<notin> set incoming) stored = filter (\<lambda>x. x \<notin> set incoming) stored"
        by (intro filter_cong) auto
      ultimately show ?thesis using Cons.IH [of stored "batch @ [s]" True] Cons.prems False None
        by (simp add: list_ex_iff)
    next
      case (Some r)
      obtain before y after where r: "r = (before, y, after)" by (cases r) auto
      have y: "y = s" and stored: "stored = before @ s # after"
        using extract_SomeE [OF Some [unfolded r]] by auto
      have rest: "filter (\<lambda>x. x \<noteq> s \<and> x \<notin> set incoming) stored = filter (\<lambda>x. x \<notin> set incoming) (before @ after)"
        using Cons.prems(1) by (simp add: stored filter_skip)
      have "take_batch stored batch (s # incoming) any_new = take_batch (before @ after) (batch @ [s]) incoming any_new"
        using False Some r y by (simp add: list_ex_iff)
      also have "\<dots> = (filter (\<lambda>x. x \<notin> set incoming) (before @ after),
          (batch @ [s]) @ first_occurrences (set (batch @ [s])) incoming,
          any_new \<or> \<not> set incoming \<subseteq> set (batch @ [s]) \<union> set (before @ after))"
        using Cons.prems by (intro Cons.IH) (auto simp: stored)
      finally show ?thesis using False rest by (auto simp: stored)
    qed
  qed
qed simp

lemma foldl_front: "foldl (\<lambda>acc s. s # acc) acc xs = rev xs @ acc"
  by (induction xs arbitrary: acc) auto

text \<open>
  A batch of evidence is recorded as one block at the front, in the order the source listed it
  and without its repeats; what was stored keeps its order and loses exactly what the batch confirms;
  and the batch counts as new evidence exactly when it holds something not stored before.
\<close>

theorem record_signals_block:
  assumes "distinct (dv_signals e)"
  shows "record_signals e incoming =
    (e\<lparr>dv_signals := first_occurrences {} incoming @ filter (\<lambda>s. s \<notin> set incoming) (dv_signals e)\<rparr>,
     \<not> set incoming \<subseteq> set (dv_signals e))"
  using take_batch_spec [OF assms, of "[]" incoming False]
  by (simp add: record_signals_def foldl_front)

subsection \<open>A rival name has to settle\<close>

text \<open>
  One rescoring of an entry: the signals and the classification it has at that moment, and the
  moment. \<open>name_after\<close> is the entry after a history of rescorings, newest first.
\<close>

type_synonym rescoring = "signal list \<times> classification \<times> time"

fun candidate_at :: "mac_addr \<Rightarrow> rescoring \<Rightarrow> identity" where
  "candidate_at mac (signals, cl, now) =
     resolve \<lparr>ii_mac = mac, ii_signals = signals, ii_device_type = cl_device_type cl\<rparr>"

fun rescored :: "entry \<Rightarrow> rescoring \<Rightarrow> entry \<times> identity option" where
  "rescored e (signals, cl, now) = rescore (e\<lparr>dv_signals := signals, dv_classification := cl\<rparr>) now"

fun moment :: "rescoring \<Rightarrow> time" where
  "moment (signals, cl, now) = now"

fun name_after :: "entry \<Rightarrow> rescoring list \<Rightarrow> entry" where
  "name_after e [] = e" |
  "name_after e (x # older) = fst (rescored (name_after e older) x)"

text \<open>The candidate of a history has been the same since \<open>since\<close>, without a break.\<close>

definition unbroken :: "mac_addr \<Rightarrow> rescoring list \<Rightarrow> string \<Rightarrow> time \<Rightarrow> bool" where
  "unbroken mac history name since \<longleftrightarrow>
     (\<exists>n. 0 < n \<and> n \<le> length history \<and> since = moment (history ! (n - 1))
        \<and> (\<forall>x \<in> set (take n history). idn_display_name (candidate_at mac x) = name))"

lemma unbroken_start: "unbroken mac (x # older) (idn_display_name (candidate_at mac x)) (moment x)"
  unfolding unbroken_def by (intro exI [of _ 1]) simp

lemma unbroken_more:
  assumes "unbroken mac older name since" "idn_display_name (candidate_at mac x) = name"
  shows "unbroken mac (x # older) name since"
proof -
  obtain n where n: "0 < n" "n \<le> length older" "since = moment (older ! (n - 1))"
    "\<forall>y \<in> set (take n older). idn_display_name (candidate_at mac y) = name"
    using assms(1) by (auto simp: unbroken_def)
  then show ?thesis unfolding unbroken_def using assms(2) by (intro exI [of _ "Suc n"]) auto
qed

lemma rescored_mac [simp]: "dv_mac (fst (rescored e x)) = dv_mac e"
  by (cases x) (auto simp: rescore_def Let_def split: verdict.split)

lemma name_after_mac [simp]: "dv_mac (name_after e history) = dv_mac e"
  by (induction history) simp_all

definition pending_ok :: "mac_addr \<Rightarrow> rescoring list \<Rightarrow> entry \<Rightarrow> bool" where
  "pending_ok mac history e \<longleftrightarrow>
     (case dv_pending_identity e of
        None \<Rightarrow> True | Some (p, since) \<Rightarrow> unbroken mac history (idn_display_name p) since)"

lemma rescored_pending:
  assumes "pending_ok (dv_mac e) older e"
  shows "pending_ok (dv_mac e) (x # older) (fst (rescored e x))"
    and "snd (rescored e x) = Some previous \<Longrightarrow> previous = dv_identity e
      \<and> dv_identity (fst (rescored e x)) = candidate_at (dv_mac e) x
      \<and> (idn_confidence (dv_identity e) < idn_confidence (candidate_at (dv_mac e) x)
         \<or> (\<exists>since. unbroken (dv_mac e) (x # older) (idn_display_name (candidate_at (dv_mac e) x)) since
              \<and> since + int SETTLE_WINDOW \<le> moment x))"
proof -
  obtain signals cl now where x: "x = (signals, cl, now)" by (cases x)
  define c where "c = candidate_at (dv_mac e) x"
  define since where "since =
     (case dv_pending_identity e of
        Some (pending, since) \<Rightarrow> if idn_display_name pending = idn_display_name c then since else now
      | None \<Rightarrow> now)"
  let ?e = "e\<lparr>dv_signals := signals, dv_classification := cl, dv_pending_identity := None\<rparr>"
  have step: "rescored e x =
     (case compare_identity c (dv_identity e) of
        Worse \<Rightarrow> (?e, None) | Same \<Rightarrow> (?e, None)
      | Better \<Rightarrow> (?e\<lparr>dv_identity := c\<rparr>, Some (dv_identity e))
      | Rival \<Rightarrow>
          if settled_for since now then (?e\<lparr>dv_identity := c\<rparr>, Some (dv_identity e))
          else (?e\<lparr>dv_pending_identity := Some (c, since)\<rparr>, None))"
  proof -
    have c: "resolve \<lparr>ii_mac = dv_mac e, ii_signals = signals, ii_device_type = cl_device_type cl\<rparr> = c"
      by (simp add: c_def x)
    show ?thesis by (simp add: x rescore_def Let_def c since_def split: verdict.split option.split)
  qed
  have start: "unbroken (dv_mac e) (x # older) (idn_display_name c) now"
    using unbroken_start [of "dv_mac e" x older] by (simp add: x c_def)
  have more: "unbroken (dv_mac e) (x # older) (idn_display_name c) s"
    if "dv_pending_identity e = Some (p, s)" "idn_display_name p = idn_display_name c" for p s
    using that assms by (intro unbroken_more) (auto simp: pending_ok_def c_def)
  have run: "unbroken (dv_mac e) (x # older) (idn_display_name c) since"
    using start more by (auto simp: since_def split: option.split)
  show "pending_ok (dv_mac e) (x # older) (fst (rescored e x))"
    using run by (simp add: step pending_ok_def split: verdict.split)
  show "previous = dv_identity e \<and> dv_identity (fst (rescored e x)) = candidate_at (dv_mac e) x
      \<and> (idn_confidence (dv_identity e) < idn_confidence (candidate_at (dv_mac e) x)
         \<or> (\<exists>since. unbroken (dv_mac e) (x # older) (idn_display_name (candidate_at (dv_mac e) x)) since
              \<and> since + int SETTLE_WINDOW \<le> moment x))"
    if "snd (rescored e x) = Some previous"
    unfolding c_def [symmetric]
  proof (cases "compare_identity c (dv_identity e)")
    case Rival
    then have "settled_for since now" "previous = dv_identity e" "dv_identity (fst (rescored e x)) = c"
      using that by (auto simp: step split: if_splits)
    then show "previous = dv_identity e \<and> dv_identity (fst (rescored e x)) = c
      \<and> (idn_confidence (dv_identity e) < idn_confidence c
         \<or> (\<exists>since. unbroken (dv_mac e) (x # older) (idn_display_name c) since
              \<and> since + int SETTLE_WINDOW \<le> moment x))"
      using run by (auto simp: settled_for_iff x)
  next
    case Better
    moreover from this have "idn_confidence (dv_identity e) < idn_confidence c"
      by (simp add: compare_identity_def split: if_splits)
    ultimately show "previous = dv_identity e \<and> dv_identity (fst (rescored e x)) = c
      \<and> (idn_confidence (dv_identity e) < idn_confidence c
         \<or> (\<exists>since. unbroken (dv_mac e) (x # older) (idn_display_name c) since
              \<and> since + int SETTLE_WINDOW \<le> moment x))"
      using that by (simp add: step)
  qed (use that in \<open>auto simp: step\<close>)
qed

lemma name_after_pending: "dv_pending_identity e = None \<Longrightarrow> pending_ok (dv_mac e) history (name_after e history)"
proof (induction history)
  case (Cons x older)
  then show ?case using rescored_pending(1) [of "name_after e older" older x] by simp
qed (simp add: pending_ok_def)

text \<open>
  C20: whatever the history of a device's evidence, a name is replaced by one of no greater
  confidence only after the new name has won every rescoring of an unbroken run that began at least
  five minutes before: two names that take turns winning never displace each other.
\<close>

theorem rival_name_settles:
  assumes "dv_pending_identity e = None"
    and "snd (rescored (name_after e older) x) = Some previous"
    and "idn_confidence (dv_identity (name_after e (x # older))) \<le> idn_confidence previous"
  shows "\<exists>n. 0 < n \<and> n \<le> length (x # older)
     \<and> (\<forall>y \<in> set (take n (x # older)).
          idn_display_name (candidate_at (dv_mac e) y) = idn_display_name (dv_identity (name_after e (x # older))))
     \<and> moment ((x # older) ! (n - 1)) + int (secs 300) \<le> moment x"
  using rescored_pending(2) [of "name_after e older" older x previous] name_after_pending [OF assms(1)] assms(2,3)
  by (auto simp: unbroken_def SETTLE_WINDOW_def)

subsection \<open>Instances\<close>

definition sample_entry :: entry where
  "sample_entry =
     \<lparr>dv_mac = sample_phone, dv_state = Online, dv_first_seen_at = 0, dv_last_seen_at = 0,
      dv_last_ip = None, dv_last_ipv6 = None, dv_last_interface = None,
      dv_signals = [Signal MdnsName ''a''],
      dv_identity = identity_of ''a'' MdnsName, dv_pending_identity = None,
      dv_classification = default_classification, dv_display_name = None, dv_current_ap = None,
      dv_current_location = None, dv_baseline = False, dv_notify = True, dv_offline_transitions = 0,
      dv_observations_since_flush = 0, dv_dirty = False\<rparr>"

theorem record_signals_block_witness:
  "dv_signals (fst (record_signals sample_entry [Signal MdnsName ''b'', Signal MdnsName ''a'', Signal MdnsName ''b'']))
   = [Signal MdnsName ''b'', Signal MdnsName ''a'']"
  by (subst record_signals_block) (simp_all add: sample_entry_def Signal_def)

lemma sample_candidate:
  "candidate_at sample_phone ([Signal MdnsName [CHR ''b'']], cl, now) = identity_of ''b'' MdnsName"
  by (simp add: resolve_def first_usable_def NAMING_def Signal_def trim_plain plain_def ordc_def)

definition sample_rescoring :: "time \<Rightarrow> rescoring" where
  "sample_rescoring now = ([Signal MdnsName ''b''], default_classification, now)"

lemma sample_rescoring_simps [simp]:
  "candidate_at sample_phone (sample_rescoring now) = identity_of ''b'' MdnsName"
  "moment (sample_rescoring now) = now"
  using sample_candidate by (simp_all add: sample_rescoring_def)

lemma sample_rescored:
  "dv_mac e = sample_phone \<Longrightarrow> rescored e (sample_rescoring now) =
     rescore (e\<lparr>dv_signals := [Signal MdnsName ''b''], dv_classification := default_classification\<rparr>) now"
  by (simp add: sample_rescoring_def)

lemma sample_rescore:
  assumes "dv_mac e = sample_phone" "dv_identity e = identity_of ''a'' MdnsName"
    and "dv_pending_identity e = None"
  shows "dv_identity (fst (rescored e (sample_rescoring now))) = identity_of ''a'' MdnsName
      \<and> dv_pending_identity (fst (rescored e (sample_rescoring now))) = Some (identity_of ''b'' MdnsName, now)
      \<and> snd (rescored e (sample_rescoring now)) = None"
  using assms sample_candidate [of "default_classification" now]
  by (simp add: sample_rescored rescore_def Let_def compare_identity_def identity_of_def settled_for_iff
      SETTLE_WINDOW_def secs_def)

lemma sample_settles:
  assumes "dv_mac e = sample_phone" "dv_identity e = identity_of ''a'' MdnsName"
    and "dv_pending_identity e = Some (identity_of ''b'' MdnsName, 0)"
  shows "snd (rescored e (sample_rescoring 300000000000)) = Some (identity_of ''a'' MdnsName)
      \<and> dv_identity (fst (rescored e (sample_rescoring 300000000000))) = identity_of ''b'' MdnsName"
  using assms sample_candidate [of "default_classification" "300000000000"]
  by (simp add: sample_rescored rescore_def Let_def compare_identity_def identity_of_def settled_for_iff
      SETTLE_WINDOW_def secs_def)

theorem rival_name_settles_witness:
  "\<exists>n. 0 < n \<and> n \<le> 2
     \<and> moment ([sample_rescoring 300000000000, sample_rescoring 0] ! (n - 1)) + int (secs 300) \<le> 300000000000"
proof -
  let ?x = "sample_rescoring 300000000000" and ?older = "[sample_rescoring 0]"
  let ?e = "name_after sample_entry ?older"
  have start: "dv_mac sample_entry = sample_phone" "dv_identity sample_entry = identity_of ''a'' MdnsName"
    "dv_pending_identity sample_entry = None" by (simp_all add: sample_entry_def)
  have mid: "dv_mac ?e = sample_phone" "dv_identity ?e = identity_of ''a'' MdnsName"
    "dv_pending_identity ?e = Some (identity_of ''b'' MdnsName, 0)"
    using sample_rescore [OF start(1,2,3), of 0] start(1) by simp_all
  note settled = sample_settles [OF mid]
  then have "idn_confidence (dv_identity (name_after sample_entry (?x # ?older)))
      \<le> idn_confidence (identity_of ''a'' MdnsName)" by (simp add: identity_of_def)
  from rival_name_settles [OF start(3) conjunct1 [OF settled] this] show ?thesis
    by (auto simp: numeral_2_eq_2)
qed

end
