(* ===== verification/Tables.thy ===== *)
theory Tables
  imports Manager
begin

text \<open>
  \<^verbatim>\<open>src/db/queries.rs\<close>: the statements the program sends to its database, as functions on the
  tables of its migrations. A table is the list of its rows in the order of their insertion, and an
  identity column a counter that advances with every attempted insert, conflicting ones included.
  What a statement reads and writes is taken from its SQL; an address, a name or a state is text, as
  in the schema; rows that tie in an ORDER BY come in the order of their insertion. A \<^verbatim>\<open>TIMESTAMPTZ\<close> keeps a nanosecond reading here, a \<^verbatim>\<open>REAL\<close> a rational.
\<close>

record device_row =
  rw_id :: int
  rw_mac :: string
  rw_display_name :: "string option"
  rw_notes :: "string option"
  rw_hidden :: bool
  rw_notify :: bool
  rw_resolved_name :: "string option"
  rw_identity_source :: "string option"
  rw_identity_confidence :: "rat option"
  rw_hostname :: "string option"
  rw_mdns_name :: "string option"
  rw_vendor :: "string option"
  rw_device_type :: "string option"
  rw_device_type_confidence :: "rat option"
  rw_os_family :: "string option"
  rw_state :: string
  rw_last_ip :: "string option"
  rw_last_ipv6 :: "string option"
  rw_last_interface :: "string option"
  rw_first_seen_at :: time
  rw_last_seen_at :: time
  rw_baseline :: bool
  rw_current_ap :: "string option"
  rw_current_location :: "string option"
  rw_sync_state :: string
  rw_owner_item_id :: "string option"

record signal_row =
  sr_id :: int
  sr_device_id :: int
  sr_signal_type :: string
  sr_value :: string
  sr_first_seen_at :: time
  sr_last_seen_at :: time

text \<open>One row of \<^verbatim>\<open>ng_presence\<close>, and one of \<^verbatim>\<open>ng_location_history\<close>.\<close>

record presence_row =
  pr_id :: int
  pr_device_id :: int
  pr_interface :: "string option"
  pr_ip :: "string option"
  pr_started_at :: time
  pr_ended_at :: "time option"
  pr_is_summary :: bool
  pr_observation_count :: int

record location_row =
  lo_id :: int
  lo_device_id :: int
  lo_ap_name :: "string option"
  lo_location :: string
  lo_started_at :: time
  lo_ended_at :: "time option"
  lo_is_summary :: bool

record ip_row =
  ip_id :: int
  ip_device_id :: int
  ip_ip :: string
  ip_interface :: "string option"
  ip_first_seen :: time
  ip_last_seen :: time

record event_row =
  er_id :: int
  er_device_id :: "int option"
  er_event_type :: string
  er_timestamp :: time
  er_details :: json
  er_notified :: bool
  er_sync_state :: string

record person_row =
  pw_item_id :: string
  pw_name :: string
  pw_notify_arrive :: bool
  pw_notify_depart :: bool
  pw_state :: string
  pw_current_location :: "string option"
  pw_last_arrived_at :: "time option"
  pw_last_departed_at :: "time option"

record tables =
  tb_devices :: "device_row list"
  tb_signals :: "signal_row list"
  tb_presence :: "presence_row list"
  tb_ips :: "ip_row list"
  tb_events :: "event_row list"
  tb_locations :: "location_row list"
  tb_people :: "person_row list"
  tb_device_seq :: int
  tb_signal_seq :: int
  tb_presence_seq :: int
  tb_ip_seq :: int
  tb_event_seq :: int
  tb_location_seq :: int

definition empty_tables :: tables where
  "empty_tables =
     \<lparr>tb_devices = [], tb_signals = [], tb_presence = [], tb_ips = [], tb_events = [],
      tb_locations = [], tb_people = [], tb_device_seq = 1, tb_signal_seq = 1, tb_presence_seq = 1,
      tb_ip_seq = 1, tb_event_seq = 1, tb_location_seq = 1\<rparr>"

subsection \<open>Devices\<close>

record new_device =
  nd_mac :: mac_addr
  nd_last_ip :: "string option"
  nd_last_interface :: "string option"
  nd_seen_at :: time
  nd_baseline :: bool
  nd_vendor :: "string option"

record device_update =
  du_id :: int
  du_state :: device_state
  du_last_ip :: "string option"
  du_last_ipv6 :: "string option"
  du_last_interface :: "string option"
  du_last_seen_at :: time
  du_resolved_name :: "string option"
  du_identity_source :: "string option"
  du_identity_confidence :: "rat option"
  du_hostname :: "string option"
  du_mdns_name :: "string option"
  du_vendor :: "string option"
  du_device_type :: "string option"
  du_device_type_confidence :: "rat option"
  du_os_family :: "string option"
  du_current_ap :: "string option"
  du_current_location :: "string option"

definition new_row :: "int \<Rightarrow> new_device \<Rightarrow> device_row" where
  "new_row id_value new =
     \<lparr>rw_id = id_value, rw_mac = show_mac (nd_mac new), rw_display_name = None, rw_notes = None,
      rw_hidden = False, rw_notify = True, rw_resolved_name = None, rw_identity_source = None,
      rw_identity_confidence = None, rw_hostname = None, rw_mdns_name = None,
      rw_vendor = nd_vendor new, rw_device_type = None, rw_device_type_confidence = None,
      rw_os_family = None, rw_state = ''online'', rw_last_ip = nd_last_ip new, rw_last_ipv6 = None,
      rw_last_interface = nd_last_interface new, rw_first_seen_at = nd_seen_at new,
      rw_last_seen_at = nd_seen_at new, rw_baseline = nd_baseline new, rw_current_ap = None,
      rw_current_location = None, rw_sync_state = ''dirty'', rw_owner_item_id = None\<rparr>"

definition row_of_mac :: "tables \<Rightarrow> string \<Rightarrow> device_row option" where
  "row_of_mac d mac = List.find (\<lambda>r. rw_mac r = mac) (tb_devices d)"

definition insert_device :: "tables \<Rightarrow> new_device \<Rightarrow> tables \<times> int" where
  "insert_device d new =
     (let id_value = tb_device_seq d; d1 = d\<lparr>tb_device_seq := id_value + 1\<rparr> in
      case row_of_mac d1 (show_mac (nd_mac new)) of
        Some r \<Rightarrow>
          (d1\<lparr>tb_devices := map (\<lambda>r. if rw_mac r = show_mac (nd_mac new)
             then r\<lparr>rw_last_seen_at := nd_seen_at new, rw_sync_state := ''dirty''\<rparr> else r) (tb_devices d1)\<rparr>,
           rw_id r)
      | None \<Rightarrow> (d1\<lparr>tb_devices := tb_devices d1 @ [new_row id_value new]\<rparr>, id_value))"

definition updated_row :: "device_update \<Rightarrow> device_row \<Rightarrow> device_row" where
  "updated_row u r =
     r\<lparr>rw_state := device_state_str (du_state u), rw_last_ip := du_last_ip u,
       rw_last_interface := du_last_interface u, rw_last_seen_at := du_last_seen_at u,
       rw_resolved_name := du_resolved_name u, rw_identity_source := du_identity_source u,
       rw_identity_confidence := du_identity_confidence u, rw_hostname := du_hostname u,
       rw_mdns_name := du_mdns_name u, rw_vendor := du_vendor u, rw_device_type := du_device_type u,
       rw_device_type_confidence := du_device_type_confidence u, rw_os_family := du_os_family u,
       rw_last_ipv6 := du_last_ipv6 u, rw_current_ap := du_current_ap u,
       rw_current_location := du_current_location u, rw_sync_state := ''dirty''\<rparr>"

definition update_device :: "tables \<Rightarrow> device_update \<Rightarrow> tables" where
  "update_device d u =
     d\<lparr>tb_devices := map (\<lambda>r. if rw_id r = du_id u then updated_row u r else r) (tb_devices d)\<rparr>"

definition record_of_row :: "device_row \<Rightarrow> device_record option" where
  "record_of_row r =
     do { mac \<leftarrow> parse_mac (rw_mac r);
          Some \<lparr>dr_id = rw_id r, dr_mac = mac, dr_display_name = rw_display_name r,
                dr_resolved_name = rw_resolved_name r, dr_identity_source = rw_identity_source r,
                dr_identity_confidence = rw_identity_confidence r, dr_hostname = rw_hostname r,
                dr_mdns_name = rw_mdns_name r, dr_vendor = rw_vendor r, dr_device_type = rw_device_type r,
                dr_device_type_confidence = rw_device_type_confidence r, dr_os_family = rw_os_family r,
                dr_state = device_state_from_db (rw_state r), dr_last_ip = rw_last_ip r,
                dr_last_ipv6 = rw_last_ipv6 r, dr_last_interface = rw_last_interface r,
                dr_first_seen_at = rw_first_seen_at r, dr_last_seen_at = rw_last_seen_at r,
                dr_baseline = rw_baseline r, dr_current_ap = rw_current_ap r,
                dr_current_location = rw_current_location r, dr_hidden = rw_hidden r,
                dr_notify = rw_notify r, dr_notes = rw_notes r, dr_owner_item_id = rw_owner_item_id r\<rparr> }"

text \<open>Collecting a column of results: one failure fails the whole query.\<close>

fun collect :: "'a option list \<Rightarrow> 'a list option" where
  "collect [] = Some []" |
  "collect (None # xs) = None" |
  "collect (Some x # xs) = map_option (Cons x) (collect xs)"

definition load_devices :: "tables \<Rightarrow> device_record list option" where
  "load_devices d = collect (map record_of_row (sort_key (\<lambda>r. - rw_last_seen_at r) (tb_devices d)))"

definition find_device_by_mac :: "tables \<Rightarrow> mac_addr \<Rightarrow> device_record option option" where
  "find_device_by_mac d mac =
     (case row_of_mac d (show_mac mac) of
        None \<Rightarrow> Some None | Some r \<Rightarrow> map_option Some (record_of_row r))"

definition record_display :: "device_record \<Rightarrow> string" where
  "record_display rec =
     (let chosen = (case dr_display_name rec of Some s \<Rightarrow> if trim s \<noteq> [] then Some s else None | None \<Rightarrow> None);
          shown = (case chosen of Some s \<Rightarrow> Some s | None \<Rightarrow> dr_resolved_name rec) in
      case shown of
        Some s \<Rightarrow> if trim s \<noteq> [] then s else show_mac (dr_mac rec)
      | None \<Rightarrow> show_mac (dr_mac rec))"

definition settings_of_row :: "device_row \<Rightarrow> user_settings option" where
  "settings_of_row r =
     do { mac \<leftarrow> parse_mac (rw_mac r);
          Some \<lparr>us_mac = mac, us_display_name = rw_display_name r, us_notes = rw_notes r,
                us_hidden = rw_hidden r, us_notify = rw_notify r, us_owner_item_id = rw_owner_item_id r\<rparr> }"

definition load_user_settings :: "tables \<Rightarrow> user_settings list option" where
  "load_user_settings d = collect (map settings_of_row (tb_devices d))"

definition count_devices :: "tables \<Rightarrow> nat" where
  "count_devices d = length (tb_devices d)"

definition count_baseline_devices :: "tables \<Rightarrow> nat" where
  "count_baseline_devices d = length (filter rw_baseline (tb_devices d))"

subsection \<open>Signals and addresses\<close>

definition upsert_signal :: "tables \<Rightarrow> int \<Rightarrow> signal_kind \<Rightarrow> string \<Rightarrow> time \<Rightarrow> tables" where
  "upsert_signal d device_id kind v seen_at =
     (let id_value = tb_signal_seq d; d1 = d\<lparr>tb_signal_seq := id_value + 1\<rparr>;
          same = (\<lambda>r. sr_device_id r = device_id \<and> sr_signal_type r = signal_kind_str kind \<and> sr_value r = v) in
      if list_ex same (tb_signals d1)
      then d1\<lparr>tb_signals := map (\<lambda>r. if same r then r\<lparr>sr_last_seen_at := seen_at\<rparr> else r) (tb_signals d1)\<rparr>
      else d1\<lparr>tb_signals := tb_signals d1 @
             [\<lparr>sr_id = id_value, sr_device_id = device_id, sr_signal_type = signal_kind_str kind,
               sr_value = v, sr_first_seen_at = seen_at, sr_last_seen_at = seen_at\<rparr>]\<rparr>)"

text \<open>
  \<^verbatim>\<open>ORDER BY device_id, last_seen_at DESC, id ASC\<close>, then one list per device; a signal type this
  build does not know is skipped.
\<close>

definition signals_of_device :: "tables \<Rightarrow> int \<Rightarrow> signal list" where
  "signals_of_device d device_id =
     List.map_filter (\<lambda>r. map_option (\<lambda>k. Signal k (sr_value r)) (signal_kind_from_str (sr_signal_type r)))
       (sort_key (\<lambda>r. - sr_last_seen_at r) (sort_key sr_id (filter (\<lambda>r. sr_device_id r = device_id) (tb_signals d))))"

definition load_all_signals :: "tables \<Rightarrow> (int \<rightharpoonup> signal list)" where
  "load_all_signals d =
     (\<lambda>device_id. if signals_of_device d device_id = [] then None else Some (signals_of_device d device_id))"

definition upsert_ip :: "tables \<Rightarrow> int \<Rightarrow> string \<Rightarrow> string option \<Rightarrow> time \<Rightarrow> tables" where
  "upsert_ip d device_id ip interface seen_at =
     (let id_value = tb_ip_seq d; d1 = d\<lparr>tb_ip_seq := id_value + 1\<rparr>;
          same = (\<lambda>r. ip_device_id r = device_id \<and> ip_ip r = ip) in
      if list_ex same (tb_ips d1)
      then d1\<lparr>tb_ips := map (\<lambda>r. if same r
             then r\<lparr>ip_last_seen := seen_at,
                    ip_interface := (case interface of Some i \<Rightarrow> Some i | None \<Rightarrow> ip_interface r)\<rparr>
             else r) (tb_ips d1)\<rparr>
      else d1\<lparr>tb_ips := tb_ips d1 @
             [\<lparr>ip_id = id_value, ip_device_id = device_id, ip_ip = ip, ip_interface = interface,
               ip_first_seen = seen_at, ip_last_seen = seen_at\<rparr>]\<rparr>)"

subsection \<open>Presence sessions\<close>

definition session_open :: "int \<Rightarrow> presence_row \<Rightarrow> bool" where
  "session_open device_id r \<longleftrightarrow> pr_device_id r = device_id \<and> pr_ended_at r = None \<and> \<not> pr_is_summary r"

definition open_presence :: "tables \<Rightarrow> int \<Rightarrow> string option \<Rightarrow> string option \<Rightarrow> time \<Rightarrow> tables" where
  "open_presence d device_id interface ip started_at =
     (if list_ex (session_open device_id) (tb_presence d) then d
      else d\<lparr>tb_presence_seq := tb_presence_seq d + 1,
             tb_presence := tb_presence d @
               [\<lparr>pr_id = tb_presence_seq d, pr_device_id = device_id, pr_interface = interface, pr_ip = ip,
                 pr_started_at = started_at, pr_ended_at = None, pr_is_summary = False,
                 pr_observation_count = 0\<rparr>]\<rparr>)"

definition bump_presence :: "tables \<Rightarrow> int \<Rightarrow> int \<Rightarrow> tables" where
  "bump_presence d device_id count =
     d\<lparr>tb_presence := map (\<lambda>r. if session_open device_id r
        then r\<lparr>pr_observation_count := pr_observation_count r + count\<rparr> else r) (tb_presence d)\<rparr>"

definition close_presence :: "tables \<Rightarrow> int \<Rightarrow> time \<Rightarrow> tables" where
  "close_presence d device_id ended_at =
     d\<lparr>tb_presence := map (\<lambda>r. if session_open device_id r then r\<lparr>pr_ended_at := Some ended_at\<rparr> else r)
                        (tb_presence d)\<rparr>"

definition count_open_presence :: "tables \<Rightarrow> nat" where
  "count_open_presence d = length (filter (\<lambda>r. pr_ended_at r = None \<and> \<not> pr_is_summary r) (tb_presence d))"

subsection \<open>Location stays\<close>

definition stay_open :: "int \<Rightarrow> location_row \<Rightarrow> bool" where
  "stay_open device_id r \<longleftrightarrow> lo_device_id r = device_id \<and> lo_ended_at r = None \<and> \<not> lo_is_summary r"

definition close_location :: "tables \<Rightarrow> int \<Rightarrow> time \<Rightarrow> tables" where
  "close_location d device_id ended_at =
     d\<lparr>tb_locations := map (\<lambda>r. if stay_open device_id r then r\<lparr>lo_ended_at := Some ended_at\<rparr> else r)
                         (tb_locations d)\<rparr>"

definition change_location :: "tables \<Rightarrow> int \<Rightarrow> string option \<Rightarrow> string \<Rightarrow> time \<Rightarrow> tables" where
  "change_location d device_id ap_name location now =
     (let d1 = close_location d device_id now in
      d1\<lparr>tb_location_seq := tb_location_seq d1 + 1,
         tb_locations := tb_locations d1 @
           [\<lparr>lo_id = tb_location_seq d1, lo_device_id = device_id, lo_ap_name = ap_name,
             lo_location = location, lo_started_at = now, lo_ended_at = None, lo_is_summary = False\<rparr>]\<rparr>)"

definition device_offline_row :: "tables \<Rightarrow> int \<Rightarrow> bool" where
  "device_offline_row d device_id \<longleftrightarrow>
     list_ex (\<lambda>r. rw_id r = device_id \<and> rw_state r = ''offline'') (tb_devices d)"

definition close_stale_location_stays :: "tables \<Rightarrow> time \<Rightarrow> tables" where
  "close_stale_location_stays d now =
     d\<lparr>tb_locations := map (\<lambda>r. if lo_ended_at r = None \<and> \<not> lo_is_summary r \<and> device_offline_row d (lo_device_id r)
                              then r\<lparr>lo_ended_at := Some now\<rparr> else r) (tb_locations d)\<rparr>"

definition count_open_locations :: "tables \<Rightarrow> nat" where
  "count_open_locations d = length (filter (\<lambda>r. lo_ended_at r = None \<and> \<not> lo_is_summary r) (tb_locations d))"

subsection \<open>Events\<close>

record new_event =
  ne_device_id :: "int option"
  ne_event_type :: event_type
  ne_timestamp :: time
  ne_details :: json
  ne_notified :: bool

definition insert_event :: "tables \<Rightarrow> new_event \<Rightarrow> tables \<times> int" where
  "insert_event d ev =
     (d\<lparr>tb_event_seq := tb_event_seq d + 1,
        tb_events := tb_events d @
          [\<lparr>er_id = tb_event_seq d, er_device_id = ne_device_id ev,
            er_event_type = event_type_str (ne_event_type ev), er_timestamp = ne_timestamp ev,
            er_details = ne_details ev, er_notified = ne_notified ev, er_sync_state = ''dirty''\<rparr>]\<rparr>,
      tb_event_seq d)"

definition mark_event_notified :: "tables \<Rightarrow> int \<Rightarrow> tables" where
  "mark_event_notified d event_id =
     d\<lparr>tb_events := map (\<lambda>r. if er_id r = event_id then r\<lparr>er_notified := True, er_sync_state := ''dirty''\<rparr> else r)
                      (tb_events d)\<rparr>"

record event_record =
  vr_id :: int
  vr_device_id :: "int option"
  vr_device_label :: "string option"
  vr_event_type :: string
  vr_timestamp :: time
  vr_details :: json
  vr_notified :: bool

text \<open>\<open>NULLIF(TRIM(x), '')\<close>, where SQL's \<open>TRIM\<close> takes off spaces and nothing else, and the join with the device.\<close>

definition sql_trim :: "string \<Rightarrow> string" where
  "sql_trim s = rev (dropWhile ((=) CHR 0x20) (rev (dropWhile ((=) CHR 0x20) s)))"

definition null_if_blank :: "string option \<Rightarrow> string option" where
  "null_if_blank v = (case v of None \<Rightarrow> None | Some s \<Rightarrow> if sql_trim s = [] then None else Some (sql_trim s))"

definition device_label :: "tables \<Rightarrow> int option \<Rightarrow> string option" where
  "device_label d device_id =
     (case List.find (\<lambda>r. Some (rw_id r) = device_id) (tb_devices d) of
        None \<Rightarrow> None
      | Some r \<Rightarrow>
          (case null_if_blank (rw_display_name r) of
             Some s \<Rightarrow> Some s
           | None \<Rightarrow> (case null_if_blank (rw_resolved_name r) of Some s \<Rightarrow> Some s | None \<Rightarrow> Some (rw_mac r))))"

definition decode_event :: "tables \<Rightarrow> event_row \<Rightarrow> event_record" where
  "decode_event d r =
     \<lparr>vr_id = er_id r, vr_device_id = er_device_id r, vr_device_label = device_label d (er_device_id r),
      vr_event_type = er_event_type r, vr_timestamp = er_timestamp r, vr_details = er_details r,
      vr_notified = er_notified r\<rparr>"

definition newest_first :: "event_row list \<Rightarrow> event_row list" where
  "newest_first rows = sort_key (\<lambda>r. - er_timestamp r) (sort_key (\<lambda>r. - er_id r) rows)"

definition recent_events :: "tables \<Rightarrow> nat \<Rightarrow> event_record list" where
  "recent_events d limit = map (decode_event d) (take limit (newest_first (tb_events d)))"

definition recent_security_events :: "tables \<Rightarrow> nat \<Rightarrow> event_record list" where
  "recent_security_events d limit =
     map (decode_event d) (take limit (newest_first (filter (\<lambda>r. er_event_type r \<in>
       {''arp_scan'', ''arp_spoof'', ''rogue_dhcp'', ''identity_change'', ''ip_conflict'', ''gratuitous_arp''})
       (tb_events d))))"

definition event_span :: "tables \<Rightarrow> time option \<times> time option" where
  "event_span d =
     (if tb_events d = [] then (None, None)
      else (Some (Min (er_timestamp ` set (tb_events d))), Some (Max (er_timestamp ` set (tb_events d)))))"

definition count_events_of_type :: "tables \<Rightarrow> event_type \<Rightarrow> nat" where
  "count_events_of_type d kind = length (filter (\<lambda>r. er_event_type r = event_type_str kind) (tb_events d))"

subsection \<open>People\<close>

text \<open>\<^verbatim>\<open>ORDER BY name\<close> compares with the collation \<open>before\<close> of the database.\<close>

fun insort_by :: "(string \<Rightarrow> string \<Rightarrow> bool) \<Rightarrow> person_row \<Rightarrow> person_row list \<Rightarrow> person_row list" where
  "insort_by before r [] = [r]" |
  "insort_by before r (x # xs) = (if before (pw_name x) (pw_name r) then x # insort_by before r xs else r # x # xs)"

definition update_person :: "tables \<Rightarrow> person_update \<Rightarrow> tables" where
  "update_person d u =
     d\<lparr>tb_people := map (\<lambda>r. if pw_item_id r = pu_item_id u
        then r\<lparr>pw_state := person_state_str (pu_state u), pw_current_location := pu_current_location u,
               pw_last_arrived_at := pu_last_arrived_at u, pw_last_departed_at := pu_last_departed_at u\<rparr>
        else r) (tb_people d)\<rparr>"

text \<open>\<open>fold_case\<close> is \<^verbatim>\<open>lower()\<close> of the database, \<open>fresh\<close> the next value of \<^verbatim>\<open>gen_random_uuid()\<close>.\<close>

definition ensure_person ::
  "(string \<Rightarrow> string) \<Rightarrow> string \<Rightarrow> tables \<Rightarrow> string \<Rightarrow> bool \<Rightarrow> bool \<Rightarrow> tables \<times> string"
where
  "ensure_person fold_case fresh d name notify_arrive notify_depart =
     (case List.find (\<lambda>r. fold_case (pw_name r) = fold_case name) (tb_people d) of
        Some r \<Rightarrow> (d, pw_item_id r)
      | None \<Rightarrow>
          (d\<lparr>tb_people := tb_people d @
             [\<lparr>pw_item_id = fresh, pw_name = name, pw_notify_arrive = notify_arrive,
               pw_notify_depart = notify_depart, pw_state = ''away'', pw_current_location = None,
               pw_last_arrived_at = None, pw_last_departed_at = None\<rparr>]\<rparr>, fresh))"

definition load_people :: "(string \<Rightarrow> string \<Rightarrow> bool) \<Rightarrow> tables \<Rightarrow> person_row list" where
  "load_people before d = foldr (insort_by before) (tb_people d) []"

text \<open>The newest summarised day of each compacted table, and how many summaries it holds.\<close>

definition newest :: "time list \<Rightarrow> time option" where
  "newest ts = (if ts = [] then None else Some (Max (set ts)))"

definition rollup_high_water :: "tables \<Rightarrow> (string \<times> time option \<times> nat) list" where
  "rollup_high_water d =
     (let p = map pr_started_at (filter pr_is_summary (tb_presence d));
          l = map lo_started_at (filter lo_is_summary (tb_locations d)) in
      [(''ng_presence'', newest p, length p), (''ng_location_history'', newest l, length l)])"

end
