(* ===== verification/Persist.thy ===== *)
theory Persist
  imports Tables Ledger
begin

text \<open>
  \<^verbatim>\<open>src/device/persist.rs\<close>: from the effects of the state machine to statements. The persister knows
  the row of every hardware address; \<open>fault\<close> says which statement of an effect the connection fails
  at, if any, and the batch ends there with what came before applied. The central result composes
  with the refinement of the ledger: the database shows the sessions and stays the table holds.
\<close>

record recorded_event =
  re_id :: int
  re_event :: device_event

type_synonym persister = "mac_addr \<rightharpoonup> int"

definition seed_persister :: "persister \<Rightarrow> device_record list \<Rightarrow> persister" where
  "seed_persister ids records = foldl (\<lambda>ids rec. ids(dr_mac rec \<mapsto> dr_id rec)) ids records"

definition id_for :: "persister \<Rightarrow> mac_addr \<Rightarrow> int option" where
  "id_for ids mac = ids mac"

definition with_row :: "persister \<Rightarrow> mac_addr \<Rightarrow> (int \<Rightarrow> tables) \<Rightarrow> tables \<Rightarrow> tables" where
  "with_row ids mac f d = (case id_for ids mac of Some id_value \<Rightarrow> f id_value | None \<Rightarrow> d)"

text \<open>One effect whose statements all succeed.\<close>

fun apply_effect :: "persister \<times> tables \<Rightarrow> effect \<Rightarrow> (persister \<times> tables) \<times> recorded_event list" where
  "apply_effect (ids, d) (Discovered s) =
     (let (d1, id_value) = insert_device d
            \<lparr>nd_mac = sn_mac s, nd_last_ip = sn_last_ip s, nd_last_interface = sn_last_interface s,
             nd_seen_at = sn_first_seen_at s, nd_baseline = sn_baseline s, nd_vendor = sn_vendor s\<rparr> in
      ((ids(sn_mac s \<mapsto> id_value), d1), []))" |
  "apply_effect (ids, d) (SignalEffect mac s now) =
     ((ids, with_row ids mac (\<lambda>i. upsert_signal d i (sig_kind s) (sig_value s) now) d), [])" |
  "apply_effect (ids, d) (AddressEffect mac ip interface now) =
     ((ids, with_row ids mac (\<lambda>i. upsert_ip d i ip (Some interface) now) d), [])" |
  "apply_effect (ids, d) (PresenceOpened mac interface ip now) =
     ((ids, with_row ids mac (\<lambda>i. open_presence d i (Some interface) ip now) d), [])" |
  "apply_effect (ids, d) (PresenceClosed mac now) =
     ((ids, with_row ids mac (\<lambda>i. close_presence d i now) d), [])" |
  "apply_effect (ids, d) (LocationChanged mac ap location now) =
     ((ids, with_row ids mac (\<lambda>i. change_location d i ap location now) d), [])" |
  "apply_effect (ids, d) (LocationClosed mac now) =
     ((ids, with_row ids mac (\<lambda>i. close_location d i now) d), [])" |
  "apply_effect (ids, d) (EventEffect ev) =
     (let (d1, id_value) = insert_event d
            \<lparr>ne_device_id = id_for ids (ev_mac ev), ne_event_type = ev_event_type ev,
             ne_timestamp = ev_at ev, ne_details = ev_details ev, ne_notified = False\<rparr> in
      ((ids, d1), [\<lparr>re_id = id_value, re_event = ev\<rparr>]))"

text \<open>
  How many statements an effect sends, and what is left in the database when one of them fails: only
  a change of place sends two.
\<close>

fun statements :: "persister \<Rightarrow> effect \<Rightarrow> nat" where
  "statements ids (Discovered s) = 1" |
  "statements ids (EventEffect ev) = 1" |
  "statements ids (LocationChanged mac ap location now) = (if id_for ids mac = None then 0 else 2)" |
  "statements ids (SignalEffect mac s now) = (if id_for ids mac = None then 0 else 1)" |
  "statements ids (AddressEffect mac ip interface now) = (if id_for ids mac = None then 0 else 1)" |
  "statements ids (PresenceOpened mac interface ip now) = (if id_for ids mac = None then 0 else 1)" |
  "statements ids (PresenceClosed mac now) = (if id_for ids mac = None then 0 else 1)" |
  "statements ids (LocationClosed mac now) = (if id_for ids mac = None then 0 else 1)"

fun half_applied :: "persister \<Rightarrow> tables \<Rightarrow> effect \<Rightarrow> nat \<Rightarrow> tables" where
  "half_applied ids d (LocationChanged mac ap location now) n =
     (if n = 1 then with_row ids mac (\<lambda>i. close_location d i now) d else d)" |
  "half_applied ids d _ n = d"

fun apply_effects ::
  "(effect \<Rightarrow> nat option) \<Rightarrow> persister \<times> tables \<Rightarrow> effect list
     \<Rightarrow> (persister \<times> tables) \<times> (effect + recorded_event list)"
where
  "apply_effects fault st [] = (st, Inr [])" |
  "apply_effects fault st (x # xs) =
     (case fault x of
        Some n \<Rightarrow>
          if n < statements (fst st) x then ((fst st, half_applied (fst st) (snd st) x n), Inl x)
          else (let (st1, recorded) = apply_effect st x; (st2, r) = apply_effects fault st1 xs in
                (st2, map_sum (\<lambda>e. e) (\<lambda>rs. recorded @ rs) r))
      | None \<Rightarrow>
          (let (st1, recorded) = apply_effect st x; (st2, r) = apply_effects fault st1 xs in
           (st2, map_sum (\<lambda>e. e) (\<lambda>rs. recorded @ rs) r)))"

subsection \<open>Flushing\<close>

definition update_of_snapshot :: "int \<Rightarrow> device_snapshot \<Rightarrow> device_update" where
  "update_of_snapshot id_value s =
     \<lparr>du_id = id_value, du_state = sn_state s, du_last_ip = sn_last_ip s, du_last_ipv6 = sn_last_ipv6 s,
      du_last_interface = sn_last_interface s, du_last_seen_at = sn_last_seen_at s,
      du_resolved_name = Some (idn_display_name (sn_identity s)),
      du_identity_source = Some (signal_kind_str (idn_source (sn_identity s))),
      du_identity_confidence = Some (idn_confidence (sn_identity s)), du_hostname = sn_hostname s,
      du_mdns_name = sn_mdns_name s, du_vendor = sn_vendor s, du_device_type = sn_device_type s,
      du_device_type_confidence = sn_device_type_confidence s, du_os_family = sn_os_family s,
      du_current_ap = sn_current_ap s, du_current_location = sn_current_location s\<rparr>"

text \<open>
  One device of a flush: an update, and a second statement when observations are to be counted. The
  flag says whether every statement succeeded; a flush ends at the first that did not.
\<close>

definition flush_snapshot :: "persister \<Rightarrow> nat option \<Rightarrow> device_snapshot \<Rightarrow> tables \<Rightarrow> tables \<times> bool" where
  "flush_snapshot ids fault s d =
     (case id_for ids (sn_mac s) of
        None \<Rightarrow> (d, True)
      | Some id_value \<Rightarrow>
          if fault = Some 0 then (d, False)
          else
            (let d1 = update_device d (update_of_snapshot id_value s) in
             if sint (sn_observations_since_flush s) > 0
             then if fault = Some 1 then (d1, False)
                  else (bump_presence d1 id_value (sint (sn_observations_since_flush s)), True)
             else (d1, True)))"

fun flush :: "(mac_addr \<Rightarrow> nat option) \<Rightarrow> persister \<Rightarrow> tables \<Rightarrow> device_snapshot list \<Rightarrow> tables \<times> bool" where
  "flush fault ids d [] = (d, True)" |
  "flush fault ids d (s # ss) =
     (case flush_snapshot ids (fault (sn_mac s)) s d of
        (d1, True) \<Rightarrow> flush fault ids d1 ss
      | (d1, False) \<Rightarrow> (d1, False))"

subsection \<open>The database shows what the ledger says\<close>

definition open_ids :: "tables \<Rightarrow> int set" where
  "open_ids d = {i. \<exists>r \<in> set (tb_presence d). session_open i r}"

definition stay_at :: "tables \<Rightarrow> int \<Rightarrow> string option" where
  "stay_at d i = Option.bind (List.find (stay_open i) (tb_locations d)) lo_ap_name"

definition ledger_of_db :: "persister \<Rightarrow> tables \<Rightarrow> ledger" where
  "ledger_of_db ids d =
     \<lparr>lg_known = dom ids, lg_open = {mac. \<exists>i. ids mac = Some i \<and> i \<in> open_ids d},
      lg_stays = (\<lambda>mac. Option.bind (ids mac) (stay_at d))\<rparr>"

definition one_open :: "tables \<Rightarrow> bool" where
  "one_open d \<longleftrightarrow> (\<forall>i. length (filter (session_open i) (tb_presence d)) \<le> 1
     \<and> length (filter (stay_open i) (tb_locations d)) \<le> 1)"

text \<open>The persister knows every row, rows have different ids, and the counter is ahead of them.\<close>

definition db_ok :: "persister \<Rightarrow> tables \<Rightarrow> bool" where
  "db_ok ids d \<longleftrightarrow> distinct (map rw_id (tb_devices d)) \<and> distinct (map rw_mac (tb_devices d))
     \<and> (\<forall>r \<in> set (tb_devices d). rw_id r < tb_device_seq d \<and> (\<exists>mac. rw_mac r = show_mac mac \<and> ids mac = Some (rw_id r)))
     \<and> (\<forall>mac i. ids mac = Some i \<longrightarrow> (\<exists>r \<in> set (tb_devices d). rw_id r = i \<and> rw_mac r = show_mac mac))
     \<and> (\<forall>i \<in> open_ids d. i < tb_device_seq d) \<and> (\<forall>i ap. stay_at d i = Some ap \<longrightarrow> i < tb_device_seq d)
     \<and> one_open d"

lemma db_ok_inject: "db_ok ids d \<Longrightarrow> ids mac = Some i \<Longrightarrow> ids mac' = Some i \<Longrightarrow> mac = mac'"
proof -
  assume ok: "db_ok ids d" and macs: "ids mac = Some i" "ids mac' = Some i"
  obtain r where r: "r \<in> set (tb_devices d)" "rw_id r = i" "rw_mac r = show_mac mac"
    using ok macs(1) unfolding db_ok_def by blast
  obtain r' where r': "r' \<in> set (tb_devices d)" "rw_id r' = i" "rw_mac r' = show_mac mac'"
    using ok macs(2) unfolding db_ok_def by blast
  have "inj_on rw_id (set (tb_devices d))" using ok by (simp add: db_ok_def distinct_map)
  then have "r = r'" using r r' unfolding inj_on_def by blast
  then show "mac = mac'" using r(3) r'(3) by (simp add: show_mac_inject)
qed

lemma db_ok_bound: "db_ok ids d \<Longrightarrow> ids mac = Some i \<Longrightarrow> i < tb_device_seq d"
  unfolding db_ok_def by blast

lemma session_open_simps [simp]:
  "session_open j (r\<lparr>pr_observation_count := n\<rparr>) = session_open j r"
  "\<not> session_open j (r\<lparr>pr_ended_at := Some now\<rparr>)"
  by (simp_all add: session_open_def)

lemma stay_open_simps [simp]:
  "\<not> stay_open j (r\<lparr>lo_ended_at := Some now\<rparr>)"
  "stay_open j \<lparr>lo_id = n, lo_device_id = i, lo_ap_name = ap, lo_location = l, lo_started_at = now,
     lo_ended_at = None, lo_is_summary = False\<rparr> \<longleftrightarrow> j = i"
  "session_open j \<lparr>pr_id = n, pr_device_id = i, pr_interface = interface, pr_ip = ip,
     pr_started_at = now, pr_ended_at = None, pr_is_summary = False, pr_observation_count = c\<rparr> \<longleftrightarrow> j = i"
  by (auto simp: stay_open_def session_open_def)

lemma session_open_eq: "session_open i r \<Longrightarrow> session_open j r \<longleftrightarrow> i = j"
  by (auto simp: session_open_def)

lemma stay_open_eq: "stay_open i r \<Longrightarrow> stay_open j r \<longleftrightarrow> i = j"
  by (auto simp: stay_open_def)

lemma open_ids_open: "open_ids (open_presence d i interface ip now) = insert i (open_ids d)"
  by (auto simp: open_ids_def open_presence_def list_ex_iff)

lemma open_ids_close: "open_ids (close_presence d i now) = open_ids d - {i}"
  by (force simp: open_ids_def close_presence_def session_open_eq split: if_splits)

lemma find_close:
  "List.find (stay_open j) (map (\<lambda>r. if stay_open i r then r\<lparr>lo_ended_at := Some now\<rparr> else r) rs)
     = (if j = i then None else List.find (stay_open j) rs)"
  by (induction rs) (auto simp: stay_open_eq)

lemma stay_at_close: "stay_at (close_location d i now) j = (if j = i then None else stay_at d j)"
  by (simp add: stay_at_def close_location_def find_close)

lemma stay_at_change: "stay_at (change_location d i ap l now) j = (if j = i then ap else stay_at d j)"
  by (simp add: stay_at_def change_location_def close_location_def Let_def find_append find_close split: option.split)

lemma filter_close_sessions:
  "filter (session_open j) (map (\<lambda>r. if session_open i r then r\<lparr>pr_ended_at := Some now\<rparr> else r) rs)
     = (if j = i then [] else filter (session_open j) rs)"
proof (induction rs)
  case (Cons r rs)
  show ?case using Cons session_open_eq [of i r j] by (cases "session_open i r"; cases "j = i") simp_all
qed simp

lemma filter_close_stays:
  "filter (stay_open j) (map (\<lambda>r. if stay_open i r then r\<lparr>lo_ended_at := Some now\<rparr> else r) rs)
     = (if j = i then [] else filter (stay_open j) rs)"
proof (induction rs)
  case (Cons r rs)
  show ?case using Cons stay_open_eq [of i r j] by (cases "stay_open i r"; cases "j = i") simp_all
qed simp

lemma one_open_presence: "one_open d \<Longrightarrow> one_open (open_presence d i interface ip now)"
proof (cases "list_ex (session_open i) (tb_presence d)")
  case False
  then have "filter (session_open i) (tb_presence d) = []" by (simp add: list_ex_iff filter_empty_conv)
  moreover assume "one_open d"
  ultimately show ?thesis using False by (auto simp: one_open_def open_presence_def)
qed (simp add: open_presence_def)

lemma one_open_close: "one_open d \<Longrightarrow> one_open (close_presence d i now)"
  by (simp add: one_open_def close_presence_def filter_close_sessions)

lemma one_open_location:
  "one_open d \<Longrightarrow> one_open (change_location d i ap l now)"
  "one_open d \<Longrightarrow> one_open (close_location d i now)"
  by (simp_all add: one_open_def change_location_def close_location_def Let_def filter_close_stays)

lemma db_ok_frame:
  assumes "db_ok ids d" "tb_devices d' = tb_devices d" "tb_device_seq d' = tb_device_seq d"
    and "\<And>i. i \<in> open_ids d' \<Longrightarrow> i \<in> open_ids d \<or> i < tb_device_seq d"
    and "\<And>i ap. stay_at d' i = Some ap \<Longrightarrow> stay_at d i = Some ap \<or> i < tb_device_seq d"
    and "one_open d'"
  shows "db_ok ids d'"
proof -
  have rest: "\<forall>i \<in> open_ids d. i < tb_device_seq d" "\<forall>i ap. stay_at d i = Some ap \<longrightarrow> i < tb_device_seq d"
    using assms(1) by (simp_all add: db_ok_def)
  have "\<forall>i \<in> open_ids d'. i < tb_device_seq d" using assms(4) rest(1) by blast
  moreover have "\<forall>i ap. stay_at d' i = Some ap \<longrightarrow> i < tb_device_seq d" using assms(5) rest(2) by blast
  ultimately show ?thesis using assms(1,6) unfolding db_ok_def assms(2,3) by blast
qed

lemma ledger_of_db_frame:
  "open_ids d' = open_ids d \<Longrightarrow> stay_at d' = stay_at d \<Longrightarrow> ledger_of_db ids d' = ledger_of_db ids d"
  by (simp add: ledger_of_db_def)

lemma one_open_frame:
  "tb_presence d' = tb_presence d \<Longrightarrow> tb_locations d' = tb_locations d \<Longrightarrow> one_open d' = one_open d"
  by (simp add: one_open_def)

lemma quiet_statement:
  assumes "db_ok ids d" "tb_devices d' = tb_devices d" "tb_device_seq d' = tb_device_seq d"
    and "tb_presence d' = tb_presence d" "tb_locations d' = tb_locations d"
  shows "db_ok ids d' \<and> ledger_of_db ids d' = ledger_of_db ids d"
proof -
  have same: "open_ids d' = open_ids d" "stay_at d' = stay_at d"
    using assms by (simp_all add: open_ids_def stay_at_def fun_eq_iff)
  have "one_open d'" using assms(1) one_open_frame [OF assms(4,5)] by (simp add: db_ok_def)
  then have "db_ok ids d'" by (intro db_ok_frame [OF assms(1-3)]) (simp_all add: same)
  then show ?thesis using ledger_of_db_frame [OF same, of ids] by (rule conjI)
qed

lemma statement_frames:
  "tb_devices (upsert_signal d i k v now) = tb_devices d"
  "tb_device_seq (upsert_signal d i k v now) = tb_device_seq d"
  "tb_presence (upsert_signal d i k v now) = tb_presence d"
  "tb_locations (upsert_signal d i k v now) = tb_locations d"
  "tb_devices (upsert_ip d i ip interface now) = tb_devices d"
  "tb_device_seq (upsert_ip d i ip interface now) = tb_device_seq d"
  "tb_presence (upsert_ip d i ip interface now) = tb_presence d"
  "tb_locations (upsert_ip d i ip interface now) = tb_locations d"
  "tb_devices (open_presence d i interface addr now) = tb_devices d"
  "tb_device_seq (open_presence d i interface addr now) = tb_device_seq d"
  "tb_locations (open_presence d i interface addr now) = tb_locations d"
  "tb_devices (close_presence d i now) = tb_devices d"
  "tb_device_seq (close_presence d i now) = tb_device_seq d"
  "tb_locations (close_presence d i now) = tb_locations d"
  "tb_devices (change_location d i ap l now) = tb_devices d"
  "tb_device_seq (change_location d i ap l now) = tb_device_seq d"
  "tb_presence (change_location d i ap l now) = tb_presence d"
  "tb_devices (close_location d i now) = tb_devices d"
  "tb_device_seq (close_location d i now) = tb_device_seq d"
  "tb_presence (close_location d i now) = tb_presence d"
  "tb_devices (fst (insert_event d ev)) = tb_devices d"
  "tb_device_seq (fst (insert_event d ev)) = tb_device_seq d"
  "tb_presence (fst (insert_event d ev)) = tb_presence d"
  "tb_locations (fst (insert_event d ev)) = tb_locations d"
  by (simp_all add: upsert_signal_def upsert_ip_def open_presence_def close_presence_def change_location_def
      close_location_def insert_event_def Let_def)

lemma open_ids_frames:
  "open_ids (change_location d i ap l now) = open_ids d" "open_ids (close_location d i now) = open_ids d"
  by (simp_all add: open_ids_def statement_frames)

lemma stay_at_frames:
  "stay_at (open_presence d i interface ip now) = stay_at d" "stay_at (close_presence d i now) = stay_at d"
  by (simp_all add: stay_at_def statement_frames fun_eq_iff)

definition shows_ledger :: "persister \<times> tables \<Rightarrow> ledger \<Rightarrow> bool" where
  "shows_ledger st L \<longleftrightarrow> db_ok (fst st) (snd st) \<and> ledger_of_db (fst st) (snd st) = L"

lemma insert_known:
  assumes "db_ok ids d" "ids mac = None" "nd_mac new = mac"
  shows "db_ok (ids(mac \<mapsto> tb_device_seq d)) (fst (insert_device d new))
    \<and> ledger_of_db (ids(mac \<mapsto> tb_device_seq d)) (fst (insert_device d new))
      = (ledger_of_db ids d)\<lparr>lg_known := insert mac (lg_known (ledger_of_db ids d))\<rparr>
    \<and> snd (insert_device d new) = tb_device_seq d"
proof -
  let ?n = "tb_device_seq d" and ?d = "fst (insert_device d new)"
  have unknown: "\<forall>r \<in> set (tb_devices d). rw_mac r \<noteq> show_mac mac"
    using assms(1,2) unfolding db_ok_def by (metis option.distinct(1) show_mac_inject)
  then have "row_of_mac (d\<lparr>tb_device_seq := ?n + 1\<rparr>) (show_mac mac) = None"
    by (simp add: row_of_mac_def find_None_iff)
  then have ins: "?d = d\<lparr>tb_device_seq := ?n + 1, tb_devices := tb_devices d @ [new_row ?n new]\<rparr>"
    "snd (insert_device d new) = ?n"
    using assms(3) by (simp_all add: insert_device_def Let_def)
  have row: "rw_id (new_row ?n new) = ?n" "rw_mac (new_row ?n new) = show_mac mac"
    using assms(3) by (simp_all add: new_row_def)
  have same: "open_ids ?d = open_ids d" "stay_at ?d = stay_at d" "one_open ?d = one_open d"
    by (simp_all add: ins open_ids_def stay_at_def one_open_def fun_eq_iff)
  have fresh: "?n \<notin> open_ids d" "stay_at d ?n = None"
    using assms(1) unfolding db_ok_def by (blast, metis less_irrefl not_None_eq)
  have old: "rw_id r < ?n \<and> (\<exists>mac'. mac' \<noteq> mac \<and> rw_mac r = show_mac mac' \<and> ids mac' = Some (rw_id r))"
    if "r \<in> set (tb_devices d)" for r
    using assms(1) unknown that unfolding db_ok_def by metis
  have "db_ok (ids(mac \<mapsto> ?n)) ?d"
    unfolding db_ok_def
  proof (intro conjI)
    show "distinct (map rw_id (tb_devices ?d))"
      using assms(1) old by (fastforce simp: ins row db_ok_def)
    show "distinct (map rw_mac (tb_devices ?d))"
      using assms(1) unknown by (fastforce simp: ins row db_ok_def)
    show "\<forall>r \<in> set (tb_devices ?d). rw_id r < tb_device_seq ?d
        \<and> (\<exists>mac'. rw_mac r = show_mac mac' \<and> (ids(mac \<mapsto> ?n)) mac' = Some (rw_id r))"
      using old row by (fastforce simp: ins)
    show "\<forall>mac' i. (ids(mac \<mapsto> ?n)) mac' = Some i \<longrightarrow> (\<exists>r \<in> set (tb_devices ?d). rw_id r = i \<and> rw_mac r = show_mac mac')"
    proof (intro allI impI)
      fix mac' i
      assume i: "(ids(mac \<mapsto> ?n)) mac' = Some i"
      show "\<exists>r \<in> set (tb_devices ?d). rw_id r = i \<and> rw_mac r = show_mac mac'"
      proof (cases "mac' = mac")
        case True
        then show ?thesis using i row by (simp add: ins)
      next
        case False
        then have "\<exists>r \<in> set (tb_devices d). rw_id r = i \<and> rw_mac r = show_mac mac'"
          using i assms(1) unfolding db_ok_def by (metis fun_upd_other)
        then show ?thesis by (auto simp: ins)
      qed
    qed
    show "\<forall>i \<in> open_ids ?d. i < tb_device_seq ?d"
      using assms(1) unfolding db_ok_def same by (force simp: ins)
    show "\<forall>i ap. stay_at ?d i = Some ap \<longrightarrow> i < tb_device_seq ?d"
      using assms(1) unfolding db_ok_def same by (force simp: ins)
    show "one_open ?d" using assms(1) same(3) by (simp add: db_ok_def)
  qed
  moreover have "ledger_of_db (ids(mac \<mapsto> ?n)) ?d
      = (ledger_of_db ids d)\<lparr>lg_known := insert mac (lg_known (ledger_of_db ids d))\<rparr>"
    unfolding ledger_of_db_def same using assms(2) fresh by (auto simp: fun_eq_iff)
  ultimately show ?thesis using ins(2) by simp
qed

lemma open_holders:
  assumes only: "\<And>mac'. mac' \<noteq> mac \<Longrightarrow> ids mac' \<noteq> Some i" and held: "ids mac = Some i"
  shows "{mac'. \<exists>j. ids mac' = Some j \<and> j \<in> insert i S} = insert mac {mac'. \<exists>j. ids mac' = Some j \<and> j \<in> S}"
    and "{mac'. \<exists>j. ids mac' = Some j \<and> j \<in> S - {i}} = {mac'. \<exists>j. ids mac' = Some j \<and> j \<in> S} - {mac}"
proof -
  have i: "ids mac' = Some j \<Longrightarrow> j = i \<longleftrightarrow> mac' = mac" for mac' j
    using only [of mac'] held by (cases "mac' = mac") auto
  show "{mac'. \<exists>j. ids mac' = Some j \<and> j \<in> insert i S} = insert mac {mac'. \<exists>j. ids mac' = Some j \<and> j \<in> S}"
  proof (rule set_eqI)
    fix mac'
    show "mac' \<in> {mac'. \<exists>j. ids mac' = Some j \<and> j \<in> insert i S}
        \<longleftrightarrow> mac' \<in> insert mac {mac'. \<exists>j. ids mac' = Some j \<and> j \<in> S}"
      using held i [of mac'] by (cases "ids mac'") auto
  qed
  show "{mac'. \<exists>j. ids mac' = Some j \<and> j \<in> S - {i}} = {mac'. \<exists>j. ids mac' = Some j \<and> j \<in> S} - {mac}"
  proof (rule set_eqI)
    fix mac'
    show "mac' \<in> {mac'. \<exists>j. ids mac' = Some j \<and> j \<in> S - {i}}
        \<longleftrightarrow> mac' \<in> {mac'. \<exists>j. ids mac' = Some j \<and> j \<in> S} - {mac}"
      using held i [of mac'] by (cases "ids mac'") auto
  qed
qed

lemma stay_holder:
  assumes only: "\<And>mac'. mac' \<noteq> mac \<Longrightarrow> ids mac' \<noteq> Some i" and held: "ids mac = Some i"
    and f': "f' i = v" "\<And>j. j \<noteq> i \<Longrightarrow> f' j = f j"
  shows "(\<lambda>mac'. Option.bind (ids mac') f') = (\<lambda>mac'. Option.bind (ids mac') f)(mac := v)"
proof (rule ext)
  fix mac'
  show "Option.bind (ids mac') f' = ((\<lambda>mac'. Option.bind (ids mac') f)(mac := v)) mac'"
    using only [of mac'] held f'(1) f'(2) [of "the (ids mac')"] by (cases "ids mac'") auto
qed

lemma apply_effect_shows:
  assumes shown: "shows_ledger st L" and accepted: "ledger_step L x = Some L'"
  shows "shows_ledger (fst (apply_effect st x)) L' \<and> (\<exists>n. statements (fst st) x = Suc n)"
proof -
  obtain ids d where st: "st = (ids, d)" by force
  have ok: "db_ok ids d" and L: "L = ledger_of_db ids d" using shown by (auto simp: shows_ledger_def st)
  have known: "\<exists>i. ids mac = Some i" if "mac \<in> lg_known L" for mac
    using that by (auto simp: L ledger_of_db_def)
  have known_open: "mac \<in> lg_known L" if "mac \<in> lg_open L" for mac
    using that by (auto simp: L ledger_of_db_def)
  have known_stay: "mac \<in> lg_known L" if "lg_stays L mac \<noteq> None" for mac
    using that by (cases "ids mac") (auto simp: L ledger_of_db_def)
  have only: "ids mac' \<noteq> Some i" if "ids mac = Some i" "mac' \<noteq> mac" for mac mac' i
    using db_ok_inject [OF ok] that by blast
  show ?thesis
  proof (cases x)
    case (Discovered s)
    have fresh: "ids (sn_mac s) = None"
      using accepted by (auto simp: Discovered L ledger_of_db_def split: if_splits)
    have L': "L' = L\<lparr>lg_known := insert (sn_mac s) (lg_known L)\<rparr>"
      using accepted by (simp add: Discovered split: if_splits)
    define new where "new =
      \<lparr>nd_mac = sn_mac s, nd_last_ip = sn_last_ip s, nd_last_interface = sn_last_interface s,
       nd_seen_at = sn_first_seen_at s, nd_baseline = sn_baseline s, nd_vendor = sn_vendor s\<rparr>"
    have mac: "nd_mac new = sn_mac s" by (simp add: new_def)
    obtain d1 n where row: "insert_device d new = (d1, n)" by force
    have ins: "n = tb_device_seq d" "db_ok (ids(sn_mac s \<mapsto> n)) d1"
      "ledger_of_db (ids(sn_mac s \<mapsto> n)) d1 = L'"
      using insert_known [OF ok fresh mac] unfolding row L' L by simp_all
    have res: "apply_effect st x = ((ids(sn_mac s \<mapsto> n), d1), [])"
      using row by (simp add: Discovered st new_def)
    have "shows_ledger (fst (apply_effect st x)) L'"
      unfolding res shows_ledger_def fst_conv snd_conv using ins(2,3) by (rule conjI)
    moreover have "statements (fst st) x = Suc 0" by (simp add: Discovered)
    ultimately show ?thesis by blast
  next
    case (EventEffect ev)
    then have L': "L' = L" using accepted by (simp split: if_splits)
    obtain d1 n where row: "insert_event d
        \<lparr>ne_device_id = id_for ids (ev_mac ev), ne_event_type = ev_event_type ev, ne_timestamp = ev_at ev,
         ne_details = ev_details ev, ne_notified = False\<rparr> = (d1, n)" by force
    then have d1: "d1 = fst (insert_event d
        \<lparr>ne_device_id = id_for ids (ev_mac ev), ne_event_type = ev_event_type ev, ne_timestamp = ev_at ev,
         ne_details = ev_details ev, ne_notified = False\<rparr>)" by simp
    have "db_ok ids d1 \<and> ledger_of_db ids d1 = ledger_of_db ids d"
      by (rule quiet_statement [OF ok]) (simp_all add: d1 statement_frames)
    then have "shows_ledger (ids, d1) L'" by (simp add: shows_ledger_def L' L)
    moreover have "fst (apply_effect st x) = (ids, d1)" using row by (simp add: EventEffect st)
    moreover have "statements (fst st) x = Suc 0" by (simp add: EventEffect)
    ultimately show ?thesis by simp
  next
    case (SignalEffect mac s now)
    then have L': "L' = L" and "mac \<in> lg_known L" using accepted by (auto split: if_splits)
    with known obtain i where i: "ids mac = Some i" by blast
    have "db_ok ids (upsert_signal d i (sig_kind s) (sig_value s) now)
        \<and> ledger_of_db ids (upsert_signal d i (sig_kind s) (sig_value s) now) = ledger_of_db ids d"
      by (rule quiet_statement [OF ok]) (simp_all add: statement_frames)
    then show ?thesis using i by (simp add: SignalEffect st shows_ledger_def L L' with_row_def id_for_def)
  next
    case (AddressEffect mac ip interface now)
    then have L': "L' = L" and "mac \<in> lg_known L" using accepted known_open by (auto split: if_splits)
    with known obtain i where i: "ids mac = Some i" by blast
    have "db_ok ids (upsert_ip d i ip (Some interface) now)
        \<and> ledger_of_db ids (upsert_ip d i ip (Some interface) now) = ledger_of_db ids d"
      by (rule quiet_statement [OF ok]) (simp_all add: statement_frames)
    then show ?thesis using i by (simp add: AddressEffect st shows_ledger_def L L' with_row_def id_for_def)
  next
    case (PresenceOpened mac interface ip now)
    then have L': "L' = L\<lparr>lg_open := insert mac (lg_open L)\<rparr>" and "mac \<in> lg_known L"
      using accepted by (auto split: if_splits)
    with known obtain i where i: "ids mac = Some i" by blast
    let ?d = "open_presence d i (Some interface) ip now"
    have "one_open d" using ok by (simp add: db_ok_def)
    then have "db_ok ids ?d" using db_ok_bound [OF ok i]
      by (intro db_ok_frame [OF ok])
        (auto simp: statement_frames open_ids_open stay_at_frames one_open_presence)
    moreover have "{mac'. \<exists>j. ids mac' = Some j \<and> j \<in> open_ids ?d}
        = insert mac {mac'. \<exists>j. ids mac' = Some j \<and> j \<in> open_ids d}"
      unfolding open_ids_open by (rule open_holders(1)) (fact only [OF i] | fact i)+
    then have "ledger_of_db ids ?d = L'" by (simp add: ledger_of_db_def L L' stay_at_frames)
    ultimately show ?thesis using i by (simp add: PresenceOpened st shows_ledger_def with_row_def id_for_def)
  next
    case (PresenceClosed mac now)
    then have L': "L' = L\<lparr>lg_open := lg_open L - {mac}\<rparr>" and "mac \<in> lg_known L"
      using accepted known_open by (auto split: if_splits)
    with known obtain i where i: "ids mac = Some i" by blast
    let ?d = "close_presence d i now"
    have "one_open d" using ok by (simp add: db_ok_def)
    then have "db_ok ids ?d"
      by (intro db_ok_frame [OF ok])
        (auto simp: statement_frames open_ids_close stay_at_frames one_open_close)
    moreover have "{mac'. \<exists>j. ids mac' = Some j \<and> j \<in> open_ids ?d}
        = {mac'. \<exists>j. ids mac' = Some j \<and> j \<in> open_ids d} - {mac}"
      unfolding open_ids_close by (rule open_holders(2)) (fact only [OF i] | fact i)+
    then have "ledger_of_db ids ?d = L'" by (simp add: ledger_of_db_def L L' stay_at_frames)
    ultimately show ?thesis using i by (simp add: PresenceClosed st shows_ledger_def with_row_def id_for_def)
  next
    case (LocationChanged mac ap location now)
    then have L': "L' = L\<lparr>lg_stays := (lg_stays L)(mac := ap)\<rparr>" and "mac \<in> lg_known L"
      using accepted by (auto split: if_splits)
    with known obtain i where i: "ids mac = Some i" by blast
    let ?d = "change_location d i ap location now"
    have "one_open d" using ok by (simp add: db_ok_def)
    then have "db_ok ids ?d" using db_ok_bound [OF ok i]
      by (intro db_ok_frame [OF ok])
        (auto simp: statement_frames open_ids_frames stay_at_change one_open_location split: if_splits)
    moreover have "(\<lambda>mac'. Option.bind (ids mac') (stay_at ?d)) = (\<lambda>mac'. Option.bind (ids mac') (stay_at d))(mac := ap)"
      by (rule stay_holder) (fact only [OF i] | fact i | simp add: stay_at_change)+
    then have "ledger_of_db ids ?d = L'" by (simp add: ledger_of_db_def L L' open_ids_frames)
    ultimately show ?thesis using i by (simp add: LocationChanged st shows_ledger_def with_row_def id_for_def)
  next
    case (LocationClosed mac now)
    then have L': "L' = L\<lparr>lg_stays := (lg_stays L)(mac := None)\<rparr>" and "mac \<in> lg_known L"
      using accepted known_stay by (auto split: if_splits)
    with known obtain i where i: "ids mac = Some i" by blast
    let ?d = "close_location d i now"
    have "one_open d" using ok by (simp add: db_ok_def)
    then have "db_ok ids ?d"
      by (intro db_ok_frame [OF ok])
        (auto simp: statement_frames open_ids_frames stay_at_close one_open_location split: if_splits)
    moreover have "(\<lambda>mac'. Option.bind (ids mac') (stay_at ?d)) = (\<lambda>mac'. Option.bind (ids mac') (stay_at d))(mac := None)"
      by (rule stay_holder) (fact only [OF i] | fact i | simp add: stay_at_close)+
    then have "ledger_of_db ids ?d = L'" by (simp add: ledger_of_db_def L L' open_ids_frames)
    ultimately show ?thesis using i by (simp add: LocationClosed st shows_ledger_def with_row_def id_for_def)
  qed
qed

lemma apply_effects_show:
  "shows_ledger st L \<Longrightarrow> spec_run ledger_step L es = Some L'
     \<Longrightarrow> shows_ledger (fst (apply_effects (\<lambda>_. None) st es)) L'
       \<and> (\<exists>recorded. snd (apply_effects (\<lambda>_. None) st es) = Inr recorded
            \<and> map re_event recorded = List.map_filter (\<lambda>x. case x of EventEffect ev \<Rightarrow> Some ev | _ \<Rightarrow> None) es)"
proof (induction es arbitrary: st L)
  case Nil
  then show ?case by (simp add: List.map_filter_simps)
next
  case (Cons x xs)
  obtain L1 where L1: "ledger_step L x = Some L1" "spec_run ledger_step L1 xs = Some L'"
    using Cons.prems(2) by (auto split: bind_splits)
  let ?a = "apply_effect st x"
  have one: "shows_ledger (fst ?a) L1" using apply_effect_shows [OF Cons.prems(1) L1(1)] by simp
  have here: "map re_event (snd ?a) = (case x of EventEffect ev \<Rightarrow> [ev] | _ \<Rightarrow> [])"
    by (cases st; cases x) (simp_all add: case_prod_beta)
  from Cons.IH [OF one L1(2)] here show ?case
    by (auto simp: case_prod_beta List.map_filter_simps split: effect.splits)
qed

text \<open>
  The database shows what the table holds. Started on a database that shows the ledger of a
  well-formed table, and as long as no statement fails, after any sequence of operations every known
  device has exactly one row and the persister its id, a presence session is open in the database
  exactly for the devices that are not offline, at most one for each, the open stay of a device is
  at its current access point, and every event was recorded in order.
\<close>

theorem database_follows_table:
  assumes "manager_ok m" "shows_ledger st (ledger_of m)"
  shows "shows_ledger (fst (apply_effects (\<lambda>_. None) st (snd (machine_run (manager_step t db) m ops))))
      (ledger_of (fst (machine_run (manager_step t db) m ops)))
    \<and> (\<exists>recorded. snd (apply_effects (\<lambda>_. None) st (snd (machine_run (manager_step t db) m ops))) = Inr recorded
        \<and> map re_event recorded = List.map_filter (\<lambda>x. case x of EventEffect ev \<Rightarrow> Some ev | _ \<Rightarrow> None)
             (snd (machine_run (manager_step t db) m ops)))"
  using apply_effects_show [OF assms(2) table.run_accepted [OF assms(1)]] .

lemma empty_shows: "shows_ledger (Map.empty, empty_tables) (ledger_of (new_manager cfg learning))"
  by (simp add: shows_ledger_def db_ok_def empty_tables_def open_ids_def stay_at_def one_open_def ledger_of_db_def
      ledger_of_def new_manager_def device_def open_now_def)

theorem database_follows_table_witness:
  "shows_ledger (fst (apply_effects (\<lambda>_. None) (Map.empty, empty_tables)
      (snd (machine_run (manager_step Map.empty sample_db) (new_manager default_state False) sample_ops))))
    (ledger_of (fst (machine_run (manager_step Map.empty sample_db) (new_manager default_state False) sample_ops)))"
  using database_follows_table [OF new_manager_ok empty_shows] by blast

subsection \<open>A device whose row could not be created\<close>

definition creates :: "mac_addr \<Rightarrow> effect \<Rightarrow> bool" where
  "creates mac x \<longleftrightarrow> (case x of Discovered s \<Rightarrow> sn_mac s = mac | _ \<Rightarrow> False)"

lemma apply_effects_unknown:
  "fst st mac = None \<Longrightarrow> \<forall>x \<in> set es. \<not> creates mac x \<Longrightarrow> fst (fst (apply_effects fault st es)) mac = None"
proof (induction es arbitrary: st)
  case (Cons x xs)
  have "fst (fst (apply_effect st x)) mac = None"
    using Cons.prems by (cases st; cases x) (auto simp: creates_def case_prod_beta)
  then show ?case using Cons by (auto simp: case_prod_beta split: option.split)
qed simp

lemma accepted_known: "spec_run ledger_step L es = Some L' \<Longrightarrow> mac \<in> lg_known L \<Longrightarrow> \<forall>x \<in> set es. \<not> creates mac x"
proof (induction es arbitrary: L)
  case (Cons x xs)
  obtain L1 where L1: "ledger_step L x = Some L1" "spec_run ledger_step L1 xs = Some L'"
    using Cons.prems(1) by (auto split: bind_splits)
  have "\<not> creates mac x" "mac \<in> lg_known L1"
    using L1(1) Cons.prems(2) by (cases x; auto simp: creates_def split: if_splits)+
  then show ?case using Cons.IH [OF L1(2)] by simp
qed simp



end
