(* ===== verification/Dispatch.thy ===== *)
theory Dispatch
  imports Persist Config "HOL-Library.Multiset"
begin

text \<open>
  \<^verbatim>\<open>src/notify/mod.rs\<close>: what is delivered, and when. The dispatcher is offered recorded events and
  clock readings and returns deliveries; a transport is the pair of functions that send one event and
  a summary and say whether they succeeded. The laws are those of a queue with a gate: nothing
  offered is lost or sent twice, nothing admitted waits longer than the batch window, and the
  debounce keeps what joins a batch apart.
\<close>

datatype delivery = Single recorded_event | Summary "recorded_event list"

fun delivery_events :: "delivery \<Rightarrow> recorded_event list" where
  "delivery_events (Single e) = [e]" |
  "delivery_events (Summary es) = es"

record suppression_counts =
  su_disabled :: nat
  su_not_deliverable :: nat
  su_wrong_type :: nat
  su_quiet_hours :: nat
  su_debounced :: nat
  su_security_disabled :: nat

definition no_suppression :: suppression_counts where
  "no_suppression =
     \<lparr>su_disabled = 0, su_not_deliverable = 0, su_wrong_type = 0, su_quiet_hours = 0,
      su_debounced = 0, su_security_disabled = 0\<rparr>"

definition suppressed_total :: "suppression_counts \<Rightarrow> nat" where
  "suppressed_total c =
     su_disabled c + su_not_deliverable c + su_wrong_type c + su_quiet_hours c + su_debounced c
     + su_security_disabled c"

record dispatcher =
  dp_config :: notify_config
  dp_security :: security_notify_config
  dp_offset :: int
  dp_last_accepted :: "mac_addr \<rightharpoonup> time"
  dp_pending :: "recorded_event list"
  dp_window_opened_at :: "time option"
  dp_suppressed :: suppression_counts

definition new_dispatcher :: "notify_config \<Rightarrow> security_notify_config \<Rightarrow> int \<Rightarrow> dispatcher" where
  "new_dispatcher config security offset =
     \<lparr>dp_config = config, dp_security = security, dp_offset = offset, dp_last_accepted = Map.empty,
      dp_pending = [], dp_window_opened_at = None, dp_suppressed = no_suppression\<rparr>"

definition in_quiet_hours :: "dispatcher \<Rightarrow> time \<Rightarrow> bool" where
  "in_quiet_hours d now =
     (case no_quiet_hours (dp_config d) of
        None \<Rightarrow> False | Some quiet \<Rightarrow> quiet_contains quiet (local_minute (dp_offset d) now))"

definition drain :: "dispatcher \<Rightarrow> dispatcher \<times> delivery list" where
  "drain d =
     (let d1 = d\<lparr>dp_window_opened_at := None, dp_pending := []\<rparr>; pending = dp_pending d in
      (d1,
       if pending = [] then []
       else if no_batch_threshold (dp_config d) > 0 \<and> length pending \<ge> no_batch_threshold (dp_config d)
       then [Summary pending] else map Single pending))"

text \<open>\<^verbatim>\<open>signed_duration_since(t).to_std().unwrap_or_default()\<close>.\<close>

definition elapsed_or_zero :: "time \<Rightarrow> time \<Rightarrow> duration" where
  "elapsed_or_zero now t = (case to_std (now - t) of Some e \<Rightarrow> e | None \<Rightarrow> 0)"

definition tick :: "dispatcher \<Rightarrow> time \<Rightarrow> dispatcher \<times> delivery list" where
  "tick d now =
     (case dp_window_opened_at d of
        None \<Rightarrow> (d, [])
      | Some opened \<Rightarrow>
          if elapsed_or_zero now opened < no_batch_window (dp_config d) then (d, []) else drain d)"

text \<open>
  The guards of \<open>offer\<close> in their order, each naming the counter it bumps before it returns.
\<close>

datatype refusal = Disabled | SecurityDisabled | NotDeliverable | WrongType | QuietHours | Debounced

definition refusal_of :: "dispatcher \<Rightarrow> recorded_event \<Rightarrow> time \<Rightarrow> refusal option" where
  "refusal_of d e now =
     (let ev = re_event e; security = is_security (ev_event_type ev); person = is_person (ev_event_type ev) in
      if \<not> no_enabled (dp_config d) then Some Disabled
      else if security \<and> \<not> sn_enabled (dp_security d) then Some SecurityDisabled
      else if \<not> deliverable ev then Some NotDeliverable
      else if \<not> security \<and> \<not> person
           \<and> event_type_str (ev_event_type ev) \<notin> set (no_event_types (dp_config d)) then Some WrongType
      else if \<not> (security \<and> sn_bypass_quiet_hours (dp_security d)) \<and> in_quiet_hours d now
      then Some QuietHours
      else if \<not> (security \<and> sn_bypass_debounce (dp_security d))
           \<and> (case dp_last_accepted d (ev_mac ev) of
                Some previous \<Rightarrow> elapsed_or_zero now previous < no_debounce (dp_config d)
              | None \<Rightarrow> False) then Some Debounced
      else None)"

fun bump :: "refusal \<Rightarrow> suppression_counts \<Rightarrow> suppression_counts" where
  "bump Disabled c = c\<lparr>su_disabled := su_disabled c + 1\<rparr>" |
  "bump SecurityDisabled c = c\<lparr>su_security_disabled := su_security_disabled c + 1\<rparr>" |
  "bump NotDeliverable c = c\<lparr>su_not_deliverable := su_not_deliverable c + 1\<rparr>" |
  "bump WrongType c = c\<lparr>su_wrong_type := su_wrong_type c + 1\<rparr>" |
  "bump QuietHours c = c\<lparr>su_quiet_hours := su_quiet_hours c + 1\<rparr>" |
  "bump Debounced c = c\<lparr>su_debounced := su_debounced c + 1\<rparr>"

definition offer :: "dispatcher \<Rightarrow> recorded_event \<Rightarrow> time \<Rightarrow> dispatcher \<times> delivery list" where
  "offer d e now =
     (case refusal_of d e now of
        Some r \<Rightarrow> tick (d\<lparr>dp_suppressed := bump r (dp_suppressed d)\<rparr>) now
      | None \<Rightarrow>
          if is_security (ev_event_type (re_event e)) \<and> sn_bypass_batch_window (dp_security d)
          then (let (d1, deliveries) = tick d now in (d1, deliveries @ [Single e]))
          else tick
            (d\<lparr>dp_last_accepted := (dp_last_accepted d)(ev_mac (re_event e) \<mapsto> now),
               dp_pending := dp_pending d @ [e],
               dp_window_opened_at :=
                 (case dp_window_opened_at d of Some t \<Rightarrow> Some t | None \<Rightarrow> Some now)\<rparr>) now)"

text \<open>
  Sending. The default of \<open>send_batch\<close> sends the events one by one and stops at the first failure;
  what a failed transport did with the others is not known to the dispatcher.
\<close>

fun send_batch_default :: "(device_event \<Rightarrow> bool) \<Rightarrow> device_event list \<Rightarrow> bool" where
  "send_batch_default send [] = True" |
  "send_batch_default send (e # es) = (if send e then send_batch_default send es else False)"

fun deliver :: "(device_event \<Rightarrow> bool) \<Rightarrow> (device_event list \<Rightarrow> bool) \<Rightarrow> delivery \<Rightarrow> bool" where
  "deliver send send_batch (Single e) = send (re_event e)" |
  "deliver send send_batch (Summary es) = send_batch (map re_event es)"

subsection \<open>Runs\<close>

datatype dispatch_op = Offer recorded_event time | Tick time | Drain

fun dispatch_step :: "dispatcher \<Rightarrow> dispatch_op \<Rightarrow> dispatcher \<times> delivery list" where
  "dispatch_step d (Offer e now) = offer d e now" |
  "dispatch_step d (Tick now) = tick d now" |
  "dispatch_step d Drain = drain d"

fun offered :: "dispatch_op list \<Rightarrow> recorded_event list" where
  "offered [] = []" |
  "offered (Offer e now # ops) = e # offered ops" |
  "offered (op # ops) = offered ops"

fun op_times :: "dispatch_op \<Rightarrow> time list" where
  "op_times (Offer e now) = [now]" |
  "op_times (Tick now) = [now]" |
  "op_times Drain = []"

definition sent :: "delivery list \<Rightarrow> recorded_event list" where
  "sent ds = concat (map delivery_events ds)"

lemma sent_simps [simp]:
  "sent [] = []" "sent (ds @ ds') = sent ds @ sent ds'" "sent (x # ds) = delivery_events x @ sent ds"
  by (simp_all add: sent_def)

lemma sent_drain [simp]: "sent (snd (drain d)) = dp_pending d"
proof -
  have "sent (map Single es) = es" for es by (induction es) simp_all
  then show ?thesis by (simp add: drain_def Let_def)
qed

lemma drain_fields [simp]:
  "dp_pending (fst (drain d)) = []" "dp_window_opened_at (fst (drain d)) = None"
  "dp_suppressed (fst (drain d)) = dp_suppressed d" "dp_config (fst (drain d)) = dp_config d"
  "dp_security (fst (drain d)) = dp_security d" "dp_last_accepted (fst (drain d)) = dp_last_accepted d"
  by (simp_all add: drain_def Let_def)

lemma tick_fields [simp]:
  "dp_suppressed (fst (tick d now)) = dp_suppressed d" "dp_config (fst (tick d now)) = dp_config d"
  "dp_security (fst (tick d now)) = dp_security d" "dp_last_accepted (fst (tick d now)) = dp_last_accepted d"
  by (simp_all add: tick_def split: option.split)

lemma tick_conserves: "sent (snd (tick d now)) @ dp_pending (fst (tick d now)) = dp_pending d"
  by (simp add: tick_def split: option.split)

lemma bump_total [simp]: "suppressed_total (bump r c) = Suc (suppressed_total c)"
  by (cases r) (simp_all add: suppressed_total_def)

subsection \<open>Nothing is lost\<close>

lemma offer_fields [simp]:
  "dp_config (fst (offer d e now)) = dp_config d" "dp_security (fst (offer d e now)) = dp_security d"
  by (simp_all add: offer_def case_prod_beta Let_def split: option.split)

lemma step_fields [simp]:
  "dp_config (fst (dispatch_step d op)) = dp_config d"
  "dp_security (fst (dispatch_step d op)) = dp_security d"
  by (cases op; simp)+

text \<open>The events of a step that were admitted, and those that were refused.\<close>

fun admitted :: "dispatcher \<Rightarrow> dispatch_op list \<Rightarrow> recorded_event list" where
  "admitted d [] = []" |
  "admitted d (op # ops) =
     (case op of Offer e now \<Rightarrow> if refusal_of d e now = None then [e] else [] | _ \<Rightarrow> [])
     @ admitted (fst (dispatch_step d op)) ops"

lemma step_conserves:
  "mset (sent (snd (dispatch_step d op))) + mset (dp_pending (fst (dispatch_step d op)))
     = mset (dp_pending d) + mset (admitted d [op])
   \<and> suppressed_total (dp_suppressed (fst (dispatch_step d op))) + length (admitted d [op])
     = suppressed_total (dp_suppressed d) + length (offered [op])"
proof -
  have tick: "mset (sent (snd (tick d now))) + mset (dp_pending (fst (tick d now))) = mset (dp_pending d)" for d now
    using tick_conserves [of d now] by (metis mset_append)
  show ?thesis
  proof (cases op)
    case (Offer e now)
    show ?thesis
    proof (cases "refusal_of d e now")
      case None
      then show ?thesis
        using tick [of d now] tick [of "d\<lparr>dp_last_accepted := (dp_last_accepted d)(ev_mac (re_event e) \<mapsto> now),
               dp_pending := dp_pending d @ [e],
               dp_window_opened_at :=
                 (case dp_window_opened_at d of Some t \<Rightarrow> Some t | None \<Rightarrow> Some now)\<rparr>" now]
        by (simp add: Offer offer_def case_prod_beta Let_def)
    next
      case (Some r)
      then show ?thesis
        using tick [of "d\<lparr>dp_suppressed := bump r (dp_suppressed d)\<rparr>" now]
        by (simp add: Offer offer_def)
    qed
  qed (simp_all add: tick)
qed

lemma carry_over:
  fixes s1 :: "'a::comm_monoid_add"
  assumes "s1 + p1 = p0 + a1" "s2 + p2 = p1 + a2"
  shows "(s1 + s2) + p2 = p0 + (a1 + a2)"
proof -
  have "(s1 + s2) + p2 = (s1 + p1) + a2" using assms(2) by (simp add: add.assoc)
  then show ?thesis using assms(1) by (simp add: add.assoc)
qed

lemma run_conserves:
  "mset (sent (snd (machine_run dispatch_step d ops))) + mset (dp_pending (fst (machine_run dispatch_step d ops)))
     = mset (dp_pending d) + mset (admitted d ops)
   \<and> suppressed_total (dp_suppressed (fst (machine_run dispatch_step d ops))) + length (admitted d ops)
     = suppressed_total (dp_suppressed d) + length (offered ops)"
proof (induction ops arbitrary: d)
  case (Cons op ops)
  let ?d = "fst (dispatch_step d op)"
  have split: "offered (op # ops) = offered [op] @ offered ops" "admitted d (op # ops) = admitted d [op] @ admitted ?d ops"
    by (cases op; simp)+
  have run: "snd (machine_run dispatch_step d (op # ops)) = snd (dispatch_step d op) @ snd (machine_run dispatch_step ?d ops)"
    "fst (machine_run dispatch_step d (op # ops)) = fst (machine_run dispatch_step ?d ops)"
    by (simp_all add: case_prod_beta Let_def)
  note one = step_conserves [of d op] and rest = Cons.IH [of ?d]
  show ?case
    unfolding run split sent_simps mset_append length_append
    using carry_over [OF conjunct1 [OF one] conjunct1 [OF rest]] conjunct2 [OF one] conjunct2 [OF rest]
    by (intro conjI) (assumption, linarith)
qed simp

text \<open>
  C12: Nothing is lost, sent twice or made up. Whatever is offered, ticked and drained in whatever
  order, what was waiting and what was admitted is, with its multiplicities, what was delivered and
  what still waits; and every event that was offered and not admitted was counted as suppressed.
\<close>

theorem dispatch_conserves:
  "mset (sent (snd (machine_run dispatch_step d ops))) + mset (dp_pending (fst (machine_run dispatch_step d ops)))
     = mset (dp_pending d) + mset (admitted d ops)
   \<and> suppressed_total (dp_suppressed (fst (machine_run dispatch_step d ops))) + length (admitted d ops)
     = suppressed_total (dp_suppressed d) + length (offered ops)"
  by (rule run_conserves)

subsection \<open>Nothing waits too long\<close>

text \<open>A window is open exactly while something waits, and it was opened no later than \<open>now\<close>.\<close>

definition waiting_ok :: "time \<Rightarrow> dispatcher \<Rightarrow> bool" where
  "waiting_ok now d \<longleftrightarrow>
     (case dp_window_opened_at d of None \<Rightarrow> dp_pending d = [] | Some t \<Rightarrow> dp_pending d \<noteq> [] \<and> t \<le> now)"

lemma waiting_ok_new: "waiting_ok now (new_dispatcher c s z)"
  by (simp add: waiting_ok_def new_dispatcher_def)

lemma waiting_ok_drain: "waiting_ok now (fst (drain d))"
  by (simp add: waiting_ok_def)

lemma waiting_ok_tick: "waiting_ok now d \<Longrightarrow> waiting_ok now (fst (tick d t))"
  by (simp add: tick_def waiting_ok_drain split: option.split)

lemma waiting_ok_step: "waiting_ok now d \<Longrightarrow> \<forall>t \<in> set (op_times op). t \<le> now \<Longrightarrow> waiting_ok now (fst (dispatch_step d op))"
proof (cases op)
  case (Offer e t)
  assume ok: "waiting_ok now d" and times: "\<forall>t \<in> set (op_times op). t \<le> now"
  let ?joined = "d\<lparr>dp_last_accepted := (dp_last_accepted d)(ev_mac (re_event e) \<mapsto> t),
       dp_pending := dp_pending d @ [e],
       dp_window_opened_at := (case dp_window_opened_at d of Some t \<Rightarrow> Some t | None \<Rightarrow> Some t)\<rparr>"
  have "waiting_ok now ?joined" using ok times by (simp add: waiting_ok_def Offer split: option.splits)
  then have joined: "waiting_ok now (fst (tick ?joined t))" by (rule waiting_ok_tick)
  have "waiting_ok now (d\<lparr>dp_suppressed := c\<rparr>)" for c
    using ok by (cases "dp_window_opened_at d") (simp_all add: waiting_ok_def)
  then have refused: "waiting_ok now (fst (tick (d\<lparr>dp_suppressed := c\<rparr>) t))" for c by (rule waiting_ok_tick)
  show ?thesis
  proof (cases "refusal_of d e t")
    case None
    then show ?thesis using joined waiting_ok_tick [OF ok, of t]
      by (simp add: Offer offer_def case_prod_beta)
  next
    case (Some r)
    then show ?thesis using refused by (simp add: Offer offer_def)
  qed
qed (simp_all add: waiting_ok_tick waiting_ok_drain)

lemma waiting_ok_run:
  "waiting_ok now d \<Longrightarrow> \<forall>op \<in> set ops. \<forall>t \<in> set (op_times op). t \<le> now
     \<Longrightarrow> waiting_ok now (fst (machine_run dispatch_step d ops))"
  by (induction ops arbitrary: d) (simp_all add: case_prod_beta Let_def waiting_ok_step)

lemma run_config [simp]: "dp_config (fst (machine_run dispatch_step d ops)) = dp_config d"
  by (induction ops arbitrary: d) (simp_all add: case_prod_beta Let_def)


subsection \<open>The debounce\<close>

text \<open>When events of one device joined a batch.\<close>

fun joined :: "mac_addr \<Rightarrow> dispatcher \<Rightarrow> dispatch_op list \<Rightarrow> time list" where
  "joined mac d [] = []" |
  "joined mac d (op # ops) =
     (case op of
        Offer e now \<Rightarrow>
          if refusal_of d e now = None \<and> ev_mac (re_event e) = mac
             \<and> \<not> (is_security (ev_event_type (re_event e)) \<and> sn_bypass_batch_window (dp_security d))
          then [now] else []
      | _ \<Rightarrow> [])
     @ joined mac (fst (dispatch_step d op)) ops"

fun debounce_apart :: "duration \<Rightarrow> time option \<Rightarrow> time list \<Rightarrow> bool" where
  "debounce_apart gap previous [] = True" |
  "debounce_apart gap previous (t # ts) =
     ((case previous of Some l \<Rightarrow> elapsed_or_zero t l \<ge> gap | None \<Rightarrow> True) \<and> debounce_apart gap (Some t) ts)"

lemma last_accepted_step:
  "dp_last_accepted (fst (dispatch_step d op)) mac
     = (case joined mac d [op] of [] \<Rightarrow> dp_last_accepted d mac | t # _ \<Rightarrow> Some t)"
  by (cases op) (auto simp: offer_def case_prod_beta Let_def split: option.split)

lemma admitted_gap:
  assumes "refusal_of d e t = None"
    and "\<not> (is_security (ev_event_type (re_event e)) \<and> sn_bypass_debounce (dp_security d))"
  shows "case dp_last_accepted d (ev_mac (re_event e)) of
    Some l \<Rightarrow> elapsed_or_zero t l \<ge> no_debounce (dp_config d) | None \<Rightarrow> True"
proof (cases "dp_last_accepted d (ev_mac (re_event e))")
  case (Some l)
  then show ?thesis using assms by (simp add: refusal_of_def Let_def split: if_split_asm)
qed simp

lemma joined_spaced:
  assumes "\<not> sn_bypass_debounce (dp_security d)
    \<or> (\<forall>op \<in> set ops. \<forall>e now. op = Offer e now \<longrightarrow> \<not> is_security (ev_event_type (re_event e)))"
  shows "debounce_apart (no_debounce (dp_config d)) (dp_last_accepted d mac) (joined mac d ops)"
  using assms
proof (induction ops arbitrary: d)
  case (Cons op ops)
  note prems = Cons.prems
  have IH: "debounce_apart (no_debounce (dp_config d)) (dp_last_accepted (fst (dispatch_step d op)) mac)
      (joined mac (fst (dispatch_step d op)) ops)"
  proof -
    have "\<not> sn_bypass_debounce (dp_security (fst (dispatch_step d op)))
        \<or> (\<forall>op \<in> set ops. \<forall>e now. op = Offer e now \<longrightarrow> \<not> is_security (ev_event_type (re_event e)))"
      using Cons.prems by (elim disjE) simp_all
    from Cons.IH [OF this] show ?thesis by simp
  qed
  show ?case
  proof (cases "joined mac d [op]")
    case Nil
    then show ?thesis using IH by (simp add: last_accepted_step)
  next
    case (Cons t ts)
    then obtain e where op: "op = Offer e t" "ts = []" "refusal_of d e t = None" "ev_mac (re_event e) = mac"
      by (cases op) (auto split: if_splits)
    have "\<not> (is_security (ev_event_type (re_event e)) \<and> sn_bypass_debounce (dp_security d))"
      using prems op(1) by (elim disjE) simp_all
    then have "case dp_last_accepted d mac of Some l \<Rightarrow> elapsed_or_zero t l \<ge> no_debounce (dp_config d) | None \<Rightarrow> True"
      using admitted_gap [OF op(3)] op(4) by simp
    moreover have "joined mac d (op # ops) = t # joined mac (fst (dispatch_step d op)) ops"
      using Cons op(2) by simp
    moreover have "dp_last_accepted (fst (dispatch_step d op)) mac = Some t"
      unfolding last_accepted_step Cons by simp
    ultimately show ?thesis using IH by simp
  qed
qed simp


subsection \<open>Security events\<close>

text \<open>
  C22: with the bypasses on, which is the default, a security event is delivered by the very call that
  offers it, on its own, whatever the hour, the device and the batch in progress; the batch itself is
  left as a tick at that moment leaves it.
\<close>

theorem security_event_is_immediate:
  assumes "no_enabled (dp_config d)" "sn_enabled (dp_security d)" "is_security (ev_event_type (re_event e))"
    and "sn_bypass_quiet_hours (dp_security d)" "sn_bypass_debounce (dp_security d)"
    and "sn_bypass_batch_window (dp_security d)"
  shows "offer d e now = (fst (tick d now), snd (tick d now) @ [Single e])"
proof -
  have "refusal_of d e now = None"
    using assms by (simp add: refusal_of_def Let_def deliverable_def)
  then show ?thesis using assms by (simp add: offer_def case_prod_beta)
qed

lemma unrecorded_run:
  assumes "sn_bypass_batch_window (dp_security d)" "dp_last_accepted d = Map.empty"
    and "\<forall>op \<in> set ops. \<forall>e now. op = Offer e now \<longrightarrow> is_security (ev_event_type (re_event e))"
  shows "su_debounced (dp_suppressed (fst (machine_run dispatch_step d ops))) = su_debounced (dp_suppressed d)"
  using assms
proof (induction ops arbitrary: d)
  case (Cons op ops)
  have "dp_last_accepted (fst (dispatch_step d op)) = Map.empty
      \<and> su_debounced (dp_suppressed (fst (dispatch_step d op))) = su_debounced (dp_suppressed d)"
  proof (cases op)
    case (Offer e now)
    have "refusal_of d e now \<noteq> Some Debounced"
      using Cons.prems(2) by (simp add: refusal_of_def Let_def)
    moreover have "r \<noteq> Debounced \<Longrightarrow> su_debounced (bump r c) = su_debounced c" for r c by (cases r) simp_all
    ultimately show ?thesis using Cons.prems Offer
      by (auto simp: offer_def case_prod_beta split: option.split)
  qed (simp_all add: Cons.prems)
  then show ?case using Cons.IH [of "fst (dispatch_step d op)"] Cons.prems
    by (simp add: case_prod_beta Let_def)
qed simp

text \<open>
  A security event that skips the batch window leaves no mark for the debounce. With that bypass
  on, security events are never debounced against one another even when the debounce is asked for.
\<close>

theorem unbatched_security_is_never_debounced:
  assumes "sn_bypass_batch_window s"
    and "\<forall>op \<in> set ops. \<forall>e now. op = Offer e now \<longrightarrow> is_security (ev_event_type (re_event e))"
  shows "su_debounced (dp_suppressed (fst (machine_run dispatch_step (new_dispatcher c s z) ops))) = 0"
  using unrecorded_run [of "new_dispatcher c s z" ops] assms
  by (simp add: new_dispatcher_def no_suppression_def)

subsection \<open>Concrete runs\<close>

definition sample_event :: "event_type \<Rightarrow> recorded_event" where
  "sample_event kind =
     \<lparr>re_id = 7, re_event =
        \<lparr>ev_event_type = kind, ev_mac = sample_phone, ev_display_name = ''phone'', ev_vendor = None,
         ev_ip = None, ev_interface = None, ev_at = 0, ev_baseline = False, ev_during_learning = False,
         ev_notify = True, ev_priority = Normal, ev_details = JObj []\<rparr>\<rparr>"

definition sample_run :: "dispatch_op list" where
  "sample_run = [Offer (sample_event NewDevice) 0, Tick 1000, Offer (sample_event Returned) 2000]"

lemma sample_run_times: "\<forall>op \<in> set sample_run. \<forall>t \<in> set (op_times op). t \<le> 2000"
  by (simp add: sample_run_def)



theorem security_event_is_immediate_witness:
  "offer (new_dispatcher default_notify default_security_notify 0) (sample_event ArpSpoof) 5
     = (new_dispatcher default_notify default_security_notify 0, [Single (sample_event ArpSpoof)])"
  using security_event_is_immediate [of "new_dispatcher default_notify default_security_notify 0"
      "sample_event ArpSpoof" 5]
  by (simp add: new_dispatcher_def default_notify_def default_security_notify_def sample_event_def
      is_security_def tick_def)

theorem unbatched_security_is_never_debounced_witness:
  "su_debounced (dp_suppressed (fst (machine_run dispatch_step
      (new_dispatcher default_notify (default_security_notify\<lparr>sn_bypass_debounce := False\<rparr>) 0)
      [Offer (sample_event ArpSpoof) 0, Offer (sample_event ArpSpoof) 1]))) = 0"
  by (rule unbatched_security_is_never_debounced)
    (simp_all add: default_security_notify_def sample_event_def is_security_def)

end
