(* ===== verification/Table_Invariant.thy ===== *)
theory Table_Invariant
  imports Maintenance
begin

text \<open>
  What the keys and indexes of the schema promise about the tables, and that every statement the
  program sends keeps it: identity columns are unique and behind their counter, a hardware address
  has one device, a device has a signal or an address once, and at most one session and one stay are
  open for it.
\<close>

definition numbered :: "('r \<Rightarrow> int) \<Rightarrow> int \<Rightarrow> 'r list \<Rightarrow> bool" where
  "numbered ident next rows \<longleftrightarrow> distinct (map ident rows) \<and> (\<forall>r \<in> set rows. ident r < next)"

lemma numbered_append:
  assumes "numbered ident n rows" "ident r = n"
  shows "numbered ident (n + 1) (rows @ [r])"
  using assms by (force simp: numbered_def)

lemma numbered_map [simp]:
  assumes "\<And>r. ident (f r) = ident r"
  shows "numbered ident n (map f rows) = numbered ident n rows"
proof -
  have "ident \<circ> f = ident" using assms by (simp add: fun_eq_iff)
  then show ?thesis using assms by (simp add: numbered_def)
qed

lemma numbered_mono: "numbered ident n rows \<Longrightarrow> n \<le> m \<Longrightarrow> numbered ident m rows"
  by (force simp: numbered_def)

lemma numbered_filter: "numbered ident n rows \<Longrightarrow> numbered ident n (filter P rows)"
  by (simp add: numbered_def distinct_map_filter)

lemma distinct_map_same:
  assumes "\<And>r. key (f r) = key r"
  shows "distinct (map key (map f rows)) = distinct (map key rows)"
proof -
  have "key \<circ> f = key" using assms by (simp add: fun_eq_iff)
  then show ?thesis by simp
qed

definition signal_key :: "signal_row \<Rightarrow> int \<times> string \<times> string" where
  "signal_key r = (sr_device_id r, sr_signal_type r, sr_value r)"

definition range_key :: "ip_row \<Rightarrow> int \<times> string" where
  "range_key r = (ip_device_id r, ip_ip r)"

definition tables_ok :: "tables \<Rightarrow> bool" where
  "tables_ok d \<longleftrightarrow>
     numbered rw_id (tb_device_seq d) (tb_devices d) \<and> distinct (map rw_mac (tb_devices d))
   \<and> numbered sr_id (tb_signal_seq d) (tb_signals d) \<and> distinct (map signal_key (tb_signals d))
   \<and> numbered ip_id (tb_ip_seq d) (tb_ips d) \<and> distinct (map range_key (tb_ips d))
   \<and> numbered pr_id (tb_presence_seq d) (tb_presence d)
   \<and> numbered lo_id (tb_location_seq d) (tb_locations d)
   \<and> numbered er_id (tb_event_seq d) (tb_events d)
   \<and> one_open d"

lemma tables_ok_empty: "tables_ok empty_tables"
  by (simp add: tables_ok_def empty_tables_def numbered_def one_open_def)

lemma tables_ok_device: "tables_ok d \<Longrightarrow> tables_ok (fst (insert_device d new))"
proof -
  assume ok: "tables_ok d"
  let ?n = "tb_device_seq d" and ?mac = "show_mac (nd_mac new)"
  have num: "numbered rw_id (?n + 1) (tb_devices d)" using ok by (auto simp: tables_ok_def intro: numbered_mono)
  show ?thesis
  proof (cases "List.find (\<lambda>r. rw_mac r = ?mac) (tb_devices d)")
    case None
    then have fresh: "?mac \<notin> rw_mac ` set (tb_devices d)" by (auto simp: find_None_iff)
    have "numbered rw_id (?n + 1) (tb_devices d @ [new_row ?n new])"
      using ok by (intro numbered_append) (simp_all add: tables_ok_def new_row_def)
    moreover have "rw_mac (new_row ?n new) = ?mac" by (simp add: new_row_def)
    ultimately show ?thesis using ok None fresh
      by (simp add: insert_device_def row_of_mac_def Let_def tables_ok_def one_open_def)
  next
    case (Some r)
    let ?f = "\<lambda>r. if rw_mac r = ?mac then r\<lparr>rw_last_seen_at := nd_seen_at new, rw_sync_state := ''dirty''\<rparr> else r"
    have "numbered rw_id (?n + 1) (map ?f (tb_devices d))" using num by simp
    moreover have "distinct (map rw_mac (map ?f (tb_devices d)))"
      using ok by (subst distinct_map_same) (simp_all add: tables_ok_def)
    ultimately show ?thesis using ok Some
      by (simp add: insert_device_def row_of_mac_def Let_def tables_ok_def one_open_def)
  qed
qed

lemma tables_ok_update: "tables_ok d \<Longrightarrow> tables_ok (update_device d u)"
proof -
  assume ok: "tables_ok d"
  let ?f = "\<lambda>r. if rw_id r = du_id u then updated_row u r else r"
  have "distinct (map rw_mac (map ?f (tb_devices d)))"
    using ok by (subst distinct_map_same) (simp_all add: tables_ok_def updated_row_def)
  moreover have "numbered rw_id (tb_device_seq d) (map ?f (tb_devices d))"
    using ok by (subst numbered_map) (simp_all add: tables_ok_def updated_row_def)
  ultimately show ?thesis using ok by (simp add: update_device_def tables_ok_def one_open_def)
qed

lemma tables_ok_signal: "tables_ok d \<Longrightarrow> tables_ok (upsert_signal d i kind v now)"
proof -
  assume ok: "tables_ok d"
  let ?same = "\<lambda>r. sr_device_id r = i \<and> sr_signal_type r = signal_kind_str kind \<and> sr_value r = v"
  let ?new = "\<lparr>sr_id = tb_signal_seq d, sr_device_id = i, sr_signal_type = signal_kind_str kind,
               sr_value = v, sr_first_seen_at = now, sr_last_seen_at = now\<rparr>"
  have num: "numbered sr_id (tb_signal_seq d + 1) (tb_signals d)"
    using ok by (auto simp: tables_ok_def intro: numbered_mono)
  show ?thesis
  proof (cases "list_ex ?same (tb_signals d)")
    case True
    let ?f = "\<lambda>r. if ?same r then r\<lparr>sr_last_seen_at := now\<rparr> else r"
    have "distinct (map signal_key (map ?f (tb_signals d)))"
      using ok by (subst distinct_map_same) (simp_all add: tables_ok_def signal_key_def)
    moreover have "numbered sr_id (tb_signal_seq d + 1) (map ?f (tb_signals d))" using num by simp
    ultimately show ?thesis using ok True by (simp add: upsert_signal_def Let_def tables_ok_def one_open_def)
  next
    case False
    then have "signal_key ?new \<notin> signal_key ` set (tb_signals d)"
      by (auto simp: signal_key_def list_ex_iff)
    moreover have "numbered sr_id (tb_signal_seq d + 1) (tb_signals d @ [?new])"
      using ok by (intro numbered_append) (simp_all add: tables_ok_def)
    ultimately show ?thesis using ok False by (simp add: upsert_signal_def Let_def tables_ok_def one_open_def)
  qed
qed

lemma tables_ok_ip: "tables_ok d \<Longrightarrow> tables_ok (upsert_ip d i ip interface now)"
proof -
  assume ok: "tables_ok d"
  let ?same = "\<lambda>r. ip_device_id r = i \<and> ip_ip r = ip"
  let ?new = "\<lparr>ip_id = tb_ip_seq d, ip_device_id = i, ip_ip = ip, ip_interface = interface,
               ip_first_seen = now, ip_last_seen = now\<rparr>"
  have num: "numbered ip_id (tb_ip_seq d + 1) (tb_ips d)"
    using ok by (auto simp: tables_ok_def intro: numbered_mono)
  show ?thesis
  proof (cases "list_ex ?same (tb_ips d)")
    case True
    let ?f = "\<lambda>r. if ?same r then r\<lparr>ip_last_seen := now,
        ip_interface := (case interface of Some i \<Rightarrow> Some i | None \<Rightarrow> ip_interface r)\<rparr> else r"
    have "distinct (map range_key (map ?f (tb_ips d)))"
      using ok by (subst distinct_map_same) (simp_all add: tables_ok_def range_key_def)
    moreover have "numbered ip_id (tb_ip_seq d + 1) (map ?f (tb_ips d))" using num by simp
    ultimately show ?thesis using ok True by (simp add: upsert_ip_def Let_def tables_ok_def one_open_def)
  next
    case False
    then have "range_key ?new \<notin> range_key ` set (tb_ips d)"
      by (auto simp: range_key_def list_ex_iff)
    moreover have "numbered ip_id (tb_ip_seq d + 1) (tb_ips d @ [?new])"
      using ok by (intro numbered_append) (simp_all add: tables_ok_def)
    ultimately show ?thesis using ok False by (simp add: upsert_ip_def Let_def tables_ok_def one_open_def)
  qed
qed

lemma tables_ok_presence:
  "tables_ok d \<Longrightarrow> tables_ok (open_presence d i interface ip now)"
  "tables_ok d \<Longrightarrow> tables_ok (close_presence d i now)"
  "tables_ok d \<Longrightarrow> tables_ok (bump_presence d i n)"
proof -
  assume ok: "tables_ok d"
  have one: "one_open (open_presence d i interface ip now)" "one_open (close_presence d i now)"
    using ok by (simp_all add: tables_ok_def one_open_presence one_open_close)
  have "filter (session_open j) (map (\<lambda>r. if session_open i r
      then r\<lparr>pr_observation_count := pr_observation_count r + n\<rparr> else r) rs)
    = map (\<lambda>r. if session_open i r then r\<lparr>pr_observation_count := pr_observation_count r + n\<rparr> else r)
        (filter (session_open j) rs)" for j rs
    by (induction rs) auto
  then have bump: "one_open (bump_presence d i n)" using ok by (simp add: tables_ok_def one_open_def bump_presence_def)
  show "tables_ok (open_presence d i interface ip now)"
    using ok one(1) numbered_append [of pr_id "tb_presence_seq d" "tb_presence d"]
    by (simp add: tables_ok_def open_presence_def)
  show "tables_ok (close_presence d i now)" using ok one(2) by (simp add: tables_ok_def close_presence_def)
  show "tables_ok (bump_presence d i n)" using ok bump by (simp add: tables_ok_def bump_presence_def)
qed

lemma tables_ok_location:
  "tables_ok d \<Longrightarrow> tables_ok (close_location d i now)"
  "tables_ok d \<Longrightarrow> tables_ok (change_location d i ap l now)"
proof -
  assume ok: "tables_ok d"
  then have one: "one_open (close_location d i now)" "one_open (change_location d i ap l now)"
    by (simp_all add: tables_ok_def one_open_location)
  show closed: "tables_ok (close_location d i now)" using ok one(1) by (simp add: tables_ok_def close_location_def)
  show "tables_ok (change_location d i ap l now)"
    using closed one(2) numbered_append [of lo_id "tb_location_seq d" "tb_locations (close_location d i now)"]
    by (simp add: tables_ok_def change_location_def Let_def) (simp add: close_location_def)
qed

lemma tables_ok_event: "tables_ok d \<Longrightarrow> tables_ok (fst (insert_event d ev))"
  using numbered_append [of er_id "tb_event_seq d" "tb_events d"]
  by (simp add: tables_ok_def insert_event_def one_open_def)

lemma tables_ok_notified: "tables_ok d \<Longrightarrow> tables_ok (mark_event_notified d i)"
  by (simp add: tables_ok_def mark_event_notified_def one_open_def)

lemmas tables_ok_statements =
  tables_ok_device tables_ok_update tables_ok_signal tables_ok_ip tables_ok_presence tables_ok_location
  tables_ok_event tables_ok_notified

lemma tables_ok_effect:
  assumes "tables_ok d"
  shows "tables_ok (snd (fst (apply_effect (ids, d) x)))" "tables_ok (half_applied ids d x n)"
  using assms
  by (cases x; simp add: case_prod_beta with_row_def tables_ok_statements split: option.split)+

lemma tables_ok_effects: "tables_ok (snd st) \<Longrightarrow> tables_ok (snd (fst (apply_effects fault st es)))"
proof (induction es arbitrary: st)
  case (Cons x xs)
  have "tables_ok (snd (fst (apply_effect st x)))" "tables_ok (half_applied (fst st) (snd st) x n)" for n
    using tables_ok_effect [OF Cons.prems] by (cases st; simp)+
  then show ?case using Cons.IH [of "fst (apply_effect st x)"]
    by (simp add: case_prod_beta split: option.split)
qed simp

lemma tables_ok_flush: "tables_ok d \<Longrightarrow> tables_ok (fst (flush fault ids d snapshots))"
proof (induction snapshots arbitrary: d)
  case (Cons s ss)
  have "tables_ok (fst (flush_snapshot ids f s d))" for f
    using Cons.prems by (simp add: flush_snapshot_def Let_def tables_ok_statements split: option.split)
  then show ?case using Cons.IH by (simp split: prod.split bool.split) (metis fst_conv)
qed simp

end
