(* ===== verification/Compaction.thy ===== *)
theory Compaction
  imports Table_Invariant
begin

text \<open>
  What the nightly jobs keep. Presence and location roll up the same way, so the laws are proved once
  in the locale \<open>rollup\<close>: what one statement selects, deletes and inserts. Its two interpretations
  are the two jobs.
\<close>

subsection \<open>Sums, bounds and groups\<close>

lemma sum_list_groups:
  fixes f :: "'r \<Rightarrow> int"
  assumes "finite K" "key ` set vs \<subseteq> K"
  shows "(\<Sum>k\<in>K. sum_list (map f (filter (\<lambda>r. key r = k) vs))) = sum_list (map f vs)"
  using assms(2)
proof (induction vs)
  case (Cons v vs)
  have "(\<Sum>k\<in>K. sum_list (map f (filter (\<lambda>r. key r = k) (v # vs))))
      = (\<Sum>k\<in>K. (if key v = k then f v else 0) + sum_list (map f (filter (\<lambda>r. key r = k) vs)))"
    by (rule sum.cong) simp_all
  also have "\<dots> = f v + sum_list (map f vs)"
    using Cons assms(1) by (simp add: sum.distrib sum.delta)
  finally show ?case by simp
qed simp

lemma map_enumerate:
  "map (\<lambda>(i, k). g i) (enumerate n ks) = map g [n..<n + length ks]"
  "map (\<lambda>(i, k). h k) (enumerate n ks) = map h ks"
  by (induction ks arbitrary: n) (simp_all add: upt_conv_Cons del: upt_Suc)

lemma foldl_min_le: "foldl min a ts \<le> (a::int) \<and> (\<forall>t \<in> set ts. foldl min a ts \<le> t)"
proof (induction ts arbitrary: a)
  case (Cons t ts)
  have "foldl min (min a t) ts \<le> min a t" "\<forall>u \<in> set ts. foldl min (min a t) ts \<le> u"
    using Cons.IH [of "min a t"] by simp_all
  then show ?case by (simp only: foldl_Cons list.set ball_simps) linarith
qed simp

lemma foldl_max_ge: "foldl max a ts \<ge> (a::int) \<and> (\<forall>t \<in> set ts. foldl max a ts \<ge> t)"
proof (induction ts arbitrary: a)
  case (Cons t ts)
  have "foldl max (max a t) ts \<ge> max a t" "\<forall>u \<in> set ts. foldl max (max a t) ts \<ge> u"
    using Cons.IH [of "max a t"] by simp_all
  then show ?case by (simp only: foldl_Cons list.set ball_simps) linarith
qed simp

lemma foldl_min_in: "foldl min a ts \<in> insert (a::int) (set ts)"
proof (induction ts arbitrary: a)
  case (Cons t ts)
  have "foldl min (min a t) ts \<in> insert (min a t) (set ts)" by (rule Cons.IH)
  then show ?case by (cases "a \<le> t") (auto simp: min.absorb1 min.absorb2)
qed simp

lemma least_props: "ts \<noteq> [] \<Longrightarrow> least ts \<in> set ts" "t \<in> set ts \<Longrightarrow> least ts \<le> t"
proof -
  show "ts \<noteq> [] \<Longrightarrow> least ts \<in> set ts"
    using foldl_min_in [of "hd ts" "tl ts"] by (cases ts) (simp_all add: least_def)
  show "t \<in> set ts \<Longrightarrow> least ts \<le> t"
    using foldl_min_le [of "hd ts" "tl ts"] by (cases ts) (auto simp: least_def)
qed

lemma greatest_props: "t \<in> set ts \<Longrightarrow> t \<le> greatest ts"
  using foldl_max_ge [of "hd ts" "tl ts"] by (cases ts) (auto simp: greatest_def)

lemma last_end_props:
  assumes "r \<in> set rows" "ended r = Some t"
  shows "\<exists>e. last_end ended rows = Some e \<and> t \<le> e"
proof -
  have "t \<in> set (List.map_filter ended rows)" using assms by (force simp: List.map_filter_def)
  then show ?thesis using greatest_props by (cases "List.map_filter ended rows") (auto simp: last_end_def)
qed

subsection \<open>One compacting statement\<close>

locale rollup =
  fixes victim :: "'r \<Rightarrow> bool"
    and key :: "'r \<Rightarrow> 'k"
    and ident :: "'r \<Rightarrow> int"
    and summary :: "int \<Rightarrow> 'k \<Rightarrow> 'r list \<Rightarrow> 'r"
  assumes ident_summary: "ident (summary n k rows) = n"
    and victim_summary: "\<not> victim (summary n k rows)"
    and key_summary: "\<forall>r \<in> set rows. key r = k \<Longrightarrow> rows \<noteq> [] \<Longrightarrow> key (summary n k rows) = k"
begin

definition inserted :: "int \<Rightarrow> 'r list \<Rightarrow> 'r list" where
  "inserted next rows = summaries next key summary (filter victim rows)"

definition kept :: "'r list \<Rightarrow> 'r list" where
  "kept rows = filter (\<lambda>r. ident r \<notin> ident ` set (filter victim rows)) rows"

lemma kept_iff: "distinct (map ident rows) \<Longrightarrow> kept rows = filter (\<lambda>r. \<not> victim r) rows"
proof -
  assume "distinct (map ident rows)"
  then have inj: "inj_on ident (set rows)" by (simp add: distinct_map)
  have "ident r \<notin> ident ` set (filter victim rows) \<longleftrightarrow> \<not> victim r" if "r \<in> set rows" for r
    using inj that unfolding inj_on_def by auto
  then show ?thesis unfolding kept_def by (rule filter_cong [OF refl])
qed

lemma inserted_mem:
  assumes "s \<in> set (inserted next rows)"
  obtains n k where "s = summary n k (filter (\<lambda>r. key r = k) (filter victim rows))"
    and "k \<in> key ` set (filter victim rows)" "next \<le> n" "n < next + int (length (inserted next rows))"
proof -
  obtain i k where "(i, k) \<in> set (enumerate 0 (remdups (map key (filter victim rows))))"
    and s: "s = summary (next + int i) k (filter (\<lambda>r. key r = k) (filter victim rows))"
    using assms by (auto simp: inserted_def summaries_def)
  then have "i < length (remdups (map key (filter victim rows)))"
    and "k = remdups (map key (filter victim rows)) ! i"
    by (auto simp: in_set_enumerate_eq)
  moreover from this have "k \<in> key ` set (filter victim rows)" by (metis nth_mem set_map set_remdups)
  ultimately show ?thesis using that [OF s] by (simp add: inserted_def summaries_def)
qed

lemma victims_inserted: "filter victim (inserted next rows) = []"
  unfolding filter_empty_conv by (auto elim!: inserted_mem simp: victim_summary)

lemma nothing_left:
  assumes "distinct (map ident rows)"
  shows "filter victim (kept rows @ inserted next rows) = []"
  using assms by (simp add: kept_iff victims_inserted)

lemma again:
  assumes "filter victim rows = []"
  shows "inserted next rows = []" "kept rows = rows"
  using assms by (simp_all add: inserted_def summaries_def kept_def enumerate_eq_zip)

lemma fewer: "length (inserted next rows) \<le> length (filter victim rows)"
  by (simp add: inserted_def summaries_def) (metis length_map length_remdups_leq)

lemma ident_inserted: "map ident (inserted next rows)
    = map (\<lambda>i. next + int i) [0..<length (remdups (map key (filter victim rows)))]"
proof -
  let ?ks = "remdups (map key (filter victim rows))"
  have "map ident (inserted next rows) = map (\<lambda>(i, k). next + int i) (enumerate 0 ?ks)"
    by (auto simp: inserted_def summaries_def ident_summary)
  then show ?thesis by (simp add: map_enumerate)
qed

text \<open>The group of a key that was selected is not empty.\<close>

lemma group_nonempty:
  "(n, k) \<in> set (enumerate 0 (remdups (map key (filter victim rows))))
     \<Longrightarrow> filter (\<lambda>r. key r = k) (filter victim rows) \<noteq> []"
proof -
  assume "(n, k) \<in> set (enumerate 0 (remdups (map key (filter victim rows))))"
  then have "k \<in> set (remdups (map key (filter victim rows)))"
    by (simp only: enumerate_eq_zip) (rule set_zip_rightD)
  then show ?thesis by (auto simp: filter_empty_conv)
qed

lemma keys_inserted: "map key (inserted next rows) = remdups (map key (filter victim rows))"
proof -
  let ?ks = "remdups (map key (filter victim rows))"
  have "map key (inserted next rows) = map (\<lambda>(i, k). k) (enumerate 0 ?ks)"
    unfolding inserted_def summaries_def map_map
  proof (rule map_cong [OF refl], clarify)
    fix n k assume "(n, k) \<in> set (enumerate 0 ?ks)"
    from group_nonempty [OF this] show "(key \<circ> (\<lambda>(n, k). summary (next + int n) k
        (filter (\<lambda>r. key r = k) (filter victim rows)))) (n, k) = k"
      by (simp del: filter_filter) (rule key_summary, auto)
  qed
  then show ?thesis using map_enumerate(2) [of "\<lambda>k. k" 0 ?ks] by simp
qed

lemma numbered_rollup:
  assumes "numbered ident next rows"
  shows "numbered ident (next + int (length (inserted next rows))) (kept rows @ inserted next rows)"
proof -
  have below: "\<forall>r \<in> set (kept rows). ident r < next" and "distinct (map ident (kept rows))"
    using assms by (auto simp: numbered_def kept_def distinct_map_filter)
  moreover have "\<forall>r \<in> set (inserted next rows). next \<le> ident r \<and> ident r < next + int (length (inserted next rows))"
    by (auto elim!: inserted_mem simp: ident_summary)
  moreover have "distinct (map ident (inserted next rows))"
    by (simp add: ident_inserted distinct_map inj_on_def)
  ultimately show ?thesis unfolding numbered_def by fastforce
qed

lemma totals:
  fixes f :: "'r \<Rightarrow> int"
  assumes "distinct (map ident rows)"
    and additive: "\<And>n k rs. \<forall>r \<in> set rs. key r = k \<Longrightarrow> rs \<noteq> [] \<Longrightarrow> f (summary n k rs) = sum_list (map f rs)"
  shows "sum_list (map f (kept rows @ inserted next rows)) = sum_list (map f rows)"
proof -
  let ?vs = "filter victim rows"
  let ?ks = "remdups (map key ?vs)"
  have "map f (inserted next rows)
      = map (\<lambda>(n, k). f (summary (next + int n) k (filter (\<lambda>r. key r = k) ?vs))) (enumerate 0 ?ks)"
    by (simp add: inserted_def summaries_def case_prod_beta)
  also have "\<dots> = map (\<lambda>(n, k). sum_list (map f (filter (\<lambda>r. key r = k) ?vs))) (enumerate 0 ?ks)"
  proof (rule map_cong [OF refl], clarify)
    fix n k assume "(n, k) \<in> set (enumerate 0 ?ks)"
    then have "filter (\<lambda>r. key r = k) ?vs \<noteq> []" by (rule group_nonempty)
    then show "f (summary (next + int n) k (filter (\<lambda>r. key r = k) ?vs)) = sum_list (map f (filter (\<lambda>r. key r = k) ?vs))"
      by (intro additive) auto
  qed
  also have "\<dots> = map (\<lambda>k. sum_list (map f (filter (\<lambda>r. key r = k) ?vs))) ?ks"
    by (rule map_enumerate)
  finally have "sum_list (map f (inserted next rows)) = (\<Sum>k\<in>set ?ks. sum_list (map f (filter (\<lambda>r. key r = k) ?vs)))"
    by (simp add: sum_list_distinct_conv_sum_set)
  also have "\<dots> = sum_list (map f ?vs)" by (rule sum_list_groups) auto
  finally have new: "sum_list (map f (inserted next rows)) = sum_list (map f ?vs)" .
  have "sum_list (map f (filter (\<lambda>r. \<not> victim r) rows)) + sum_list (map f ?vs) = sum_list (map f rows)"
    by (induction rows) auto
  then show ?thesis using new by (simp add: kept_iff [OF assms(1)])
qed

lemma covered:
  assumes "r \<in> set rows" "victim r"
  shows "\<exists>s \<in> set (inserted next rows). \<exists>n. s = summary n (key r) (filter (\<lambda>r'. key r' = key r) (filter victim rows))"
proof -
  have "key r \<in> set (remdups (map key (filter victim rows)))" using assms by auto
  then obtain i where "i < length (remdups (map key (filter victim rows)))"
    "remdups (map key (filter victim rows)) ! i = key r" by (metis in_set_conv_nth)
  then have "(i, key r) \<in> set (enumerate 0 (remdups (map key (filter victim rows))))"
    by (auto simp: in_set_enumerate_eq)
  then show ?thesis unfolding inserted_def summaries_def by force
qed

end

subsection \<open>The two jobs\<close>

interpretation sessions: rollup "presence_victim before" presence_key pr_id presence_summary for before
proof unfold_locales
  show "pr_id (presence_summary n k rows) = n" for n k rows by (simp add: presence_summary_def)
  show "\<not> presence_victim before (presence_summary n k rows)" for n k rows
    by (simp add: presence_victim_def presence_summary_def)
  show "presence_key (presence_summary n k rows) = k"
    if same: "\<forall>r \<in> set rows. presence_key r = k" and some: "rows \<noteq> []" for rows k n
  proof -
    obtain r where r: "r \<in> set rows" "least (map pr_started_at rows) = pr_started_at r"
      using least_props(1) [of "map pr_started_at rows"] some by auto
    then have "presence_key r = k" using same by simp
    then show ?thesis using r(2) by (auto simp: presence_key_def presence_summary_def)
  qed
qed

interpretation stays: rollup "location_victim before" location_key lo_id location_summary for before
proof unfold_locales
  show "lo_id (location_summary n k rows) = n" for n k rows by (simp add: location_summary_def)
  show "\<not> location_victim before (location_summary n k rows)" for n k rows
    by (simp add: location_victim_def location_summary_def)
  show "location_key (location_summary n k rows) = k"
    if same: "\<forall>r \<in> set rows. location_key r = k" and some: "rows \<noteq> []" for rows k n
  proof -
    obtain r where r: "r \<in> set rows" "least (map lo_started_at rows) = lo_started_at r"
      using least_props(1) [of "map lo_started_at rows"] some by auto
    then have "location_key r = k" using same by simp
    then show ?thesis using r(2) by (auto simp: location_key_def location_summary_def)
  qed
qed

lemma length_removed: "length rows - length (filter (\<lambda>r. \<not> P r) rows) = length (filter P rows)"
  using sum_length_filter_compl [of P rows] by simp

lemma roll_up_presence_eq:
  assumes "numbered pr_id (tb_presence_seq d) (tb_presence d)"
  shows "roll_up_presence d before =
    (let new = sessions.inserted before (tb_presence_seq d) (tb_presence d) in
     (d\<lparr>tb_presence := filter (\<lambda>r. \<not> presence_victim before r) (tb_presence d) @ new,
        tb_presence_seq := tb_presence_seq d + int (length new)\<rparr>,
      length (filter (presence_victim before) (tb_presence d)), length new))"
proof -
  have "distinct (map pr_id (tb_presence d))" using assms by (simp add: numbered_def)
  note kept = sessions.kept_iff [OF this, of before]
  show ?thesis
    unfolding roll_up_presence_def Let_def
    by (simp only: sessions.inserted_def kept [unfolded sessions.kept_def] length_removed)
qed

lemma roll_up_location_eq:
  assumes "numbered lo_id (tb_location_seq d) (tb_locations d)"
  shows "roll_up_location_history d before =
    (let new = stays.inserted before (tb_location_seq d) (tb_locations d) in
     (d\<lparr>tb_locations := filter (\<lambda>r. \<not> location_victim before r) (tb_locations d) @ new,
        tb_location_seq := tb_location_seq d + int (length new)\<rparr>,
      length (filter (location_victim before) (tb_locations d)), length new))"
proof -
  have "distinct (map lo_id (tb_locations d))" using assms by (simp add: numbered_def)
  note kept = stays.kept_iff [OF this, of before]
  show ?thesis
    unfolding roll_up_location_history_def Let_def
    by (simp only: stays.inserted_def kept [unfolded stays.kept_def] length_removed)
qed

subsection \<open>What a roll-up keeps\<close>

definition presence_count :: "int \<Rightarrow> int \<Rightarrow> tables \<Rightarrow> int" where
  "presence_count device_id day d =
     sum_list (map pr_observation_count (filter (\<lambda>r. presence_key r = (device_id, day)) (tb_presence d)))"

lemma presence_count_eq:
  "presence_count i day d
     = sum_list (map (\<lambda>r. if presence_key r = (i, day) then pr_observation_count r else 0) (tb_presence d))"
  unfolding presence_count_def by (induction "tb_presence d") (simp_all add: sum_list_map_filter')

lemma presence_new:
  assumes "s \<in> set (sessions.inserted before n rows)"
  shows "pr_is_summary s \<and> (\<exists>r \<in> set rows. presence_victim before r \<and> presence_key r = presence_key s)"
proof -
  have "presence_key s \<in> set (map presence_key (sessions.inserted before n rows))" using assms by simp
  then have "presence_key s \<in> presence_key ` set (filter (presence_victim before) rows)"
    unfolding sessions.keys_inserted by simp
  moreover have "pr_is_summary s" using assms by (elim sessions.inserted_mem) (simp add: presence_summary_def)
  ultimately show ?thesis by force
qed

lemma presence_span:
  assumes r: "r \<in> set rows" "presence_victim before r"
  shows "\<exists>s \<in> set (sessions.inserted before n rows). presence_key s = presence_key r
    \<and> pr_started_at s \<le> pr_started_at r \<and> the (pr_ended_at r) \<le> the (pr_ended_at s)"
proof -
  let ?group = "filter (\<lambda>r'. presence_key r' = presence_key r) (filter (presence_victim before) rows)"
  obtain s i where s: "s \<in> set (sessions.inserted before n rows)" "s = presence_summary i (presence_key r) ?group"
    using sessions.covered [OF r] by blast
  have group: "r \<in> set ?group" using r by simp
  then have some: "?group \<noteq> []" by (metis empty_iff empty_set)
  have "presence_key s = presence_key r"
    unfolding s(2) by (rule sessions.key_summary [OF _ some]) simp
  moreover have "least (map pr_started_at ?group) \<le> pr_started_at r"
    using group by (intro least_props(2)) (auto simp del: filter_filter)
  moreover obtain e where "pr_ended_at r = Some e" using r(2) by (auto simp: presence_victim_def)
  moreover from last_end_props [OF group, of pr_ended_at, OF this] obtain e' where
    "last_end pr_ended_at ?group = Some e'" "e \<le> e'" by blast
  ultimately show ?thesis using s(1) by (intro bexI [OF _ s(1)]) (simp add: s(2) presence_summary_def)
qed

lemma presence_totals:
  assumes "distinct (map pr_id rows)"
  shows "sum_list (map (\<lambda>r. if presence_key r = k then pr_observation_count r else 0)
      (sessions.kept before rows @ sessions.inserted before n rows))
    = sum_list (map (\<lambda>r. if presence_key r = k then pr_observation_count r else 0) rows)"
proof (rule sessions.totals [OF assms])
  fix i k' rs
  assume same: "\<forall>r \<in> set rs. presence_key r = k'" and some: "rs \<noteq> ([] :: presence_row list)"
  have sum: "sum_list (map (\<lambda>r. if presence_key r = k then pr_observation_count r else 0) rs)
      = (if k' = k then sum_list (map pr_observation_count rs) else 0)"
    using same by (induction rs) auto
  have count: "pr_observation_count (presence_summary i k' rs) = sum_list (map pr_observation_count rs)"
    by (simp add: presence_summary_def)
  show "(if presence_key (presence_summary i k' rs) = k then pr_observation_count (presence_summary i k' rs) else 0)
      = sum_list (map (\<lambda>r. if presence_key r = k then pr_observation_count r else 0) rs)"
    unfolding sum count sessions.key_summary [OF same some] ..
qed

text \<open>
  C19: the presence roll-up loses no observation. It takes the closed sessions that began before the
  cutoff and nothing else, and leaves every other row as it is; there is one summary for each device
  and day it took from, which counts what its sessions counted, so the observations of every device
  on every day are as many as before, and which spans each of them; and compacting again finds
  nothing.
\<close>

theorem presence_rollup_conserves:
  assumes "numbered pr_id (tb_presence_seq d) (tb_presence d)"
    and d': "roll_up_presence d before = (d', compacted, summarised)"
  shows "(\<exists>new. tb_presence d' = filter (\<lambda>r. \<not> presence_victim before r) (tb_presence d) @ new
      \<and> distinct (map presence_key new)
      \<and> (\<forall>s \<in> set new. pr_is_summary s
           \<and> (\<exists>r \<in> set (tb_presence d). presence_victim before r \<and> presence_key r = presence_key s))
      \<and> (\<forall>r \<in> set (tb_presence d). presence_victim before r \<longrightarrow>
           (\<exists>s \<in> set new. presence_key s = presence_key r \<and> pr_started_at s \<le> pr_started_at r
              \<and> the (pr_ended_at r) \<le> the (pr_ended_at s)))
      \<and> compacted = length (filter (presence_victim before) (tb_presence d))
      \<and> summarised = length new \<and> summarised \<le> compacted)
    \<and> presence_count device_id day d' = presence_count device_id day d
    \<and> roll_up_presence d' before = (d', 0, 0)"
proof -
  let ?rows = "tb_presence d" and ?new = "sessions.inserted before (tb_presence_seq d) (tb_presence d)"
  have ids: "distinct (map pr_id ?rows)" using assms(1) by (simp add: numbered_def)
  have eq: "d' = d\<lparr>tb_presence := sessions.kept before ?rows @ ?new,
      tb_presence_seq := tb_presence_seq d + int (length ?new)\<rparr>"
    "compacted = length (filter (presence_victim before) ?rows)" "summarised = length ?new"
    using d' unfolding roll_up_presence_eq [OF assms(1)] Let_def sessions.kept_iff [OF ids] by auto
  have "numbered pr_id (tb_presence_seq d') (tb_presence d')"
    using sessions.numbered_rollup [OF assms(1), of before] by (simp add: eq(1))
  moreover have none: "filter (presence_victim before) (tb_presence d') = []"
    using sessions.nothing_left [OF ids, of before] by (simp add: eq(1))
  moreover have "filter (\<lambda>r. \<not> presence_victim before r) (tb_presence d') = tb_presence d'"
    using none by (simp add: filter_empty_conv filter_id_conv)
  ultimately have again: "roll_up_presence d' before = (d', 0, 0)"
    using sessions.again(1) [OF none] by (simp add: roll_up_presence_eq Let_def)
  have "presence_count device_id day d' = presence_count device_id day d"
    using presence_totals [OF ids] by (simp add: presence_count_eq eq(1))
  moreover have "distinct (map presence_key ?new)" unfolding sessions.keys_inserted by simp
  ultimately show ?thesis
    using again presence_new [of _ before "tb_presence_seq d" ?rows] presence_span [of _ ?rows before "tb_presence_seq d"]
      sessions.fewer [of before "tb_presence_seq d" ?rows]
    by (intro conjI exI [of _ ?new]) (simp_all add: eq sessions.kept_iff [OF ids])
qed

definition sample_session :: "int \<Rightarrow> time \<Rightarrow> time option \<Rightarrow> int \<Rightarrow> presence_row" where
  "sample_session id_value started ended n =
     \<lparr>pr_id = id_value, pr_device_id = 1, pr_interface = None, pr_ip = None, pr_started_at = started,
      pr_ended_at = ended, pr_is_summary = False, pr_observation_count = n\<rparr>"

definition sample_tables :: tables where
  "sample_tables = empty_tables\<lparr>tb_presence :=
     [sample_session 1 0 (Some 5) 2, sample_session 2 7 (Some 9) 3, sample_session 3 11 None 4], tb_presence_seq := 4\<rparr>"

theorem presence_rollup_conserves_witness:
  "presence_count 1 0 (fst (roll_up_presence sample_tables 10)) = 9"
proof -
  have "numbered pr_id (tb_presence_seq sample_tables) (tb_presence sample_tables)"
    by (simp add: numbered_def sample_tables_def sample_session_def)
  note kept = presence_rollup_conserves [OF this, of 10 "fst (roll_up_presence sample_tables 10)"
    "fst (snd (roll_up_presence sample_tables 10))" "snd (snd (roll_up_presence sample_tables 10))" 1 0]
  have "presence_count 1 0 (fst (roll_up_presence sample_tables 10)) = presence_count 1 0 sample_tables"
    using kept by simp
  also have "\<dots> = 9"
    by (simp add: presence_count_def sample_tables_def sample_session_def presence_key_def day_of_def)
  finally show ?thesis .
qed

subsection \<open>A run of all jobs\<close>

lemma tables_ok_roll_up_presence:
  assumes "tables_ok d"
  shows "tables_ok (fst (roll_up_presence d before))"
    and "filter (session_open i) (tb_presence (fst (roll_up_presence d before))) = filter (session_open i) (tb_presence d)"
proof -
  let ?new = "sessions.inserted before (tb_presence_seq d) (tb_presence d)"
  have num: "numbered pr_id (tb_presence_seq d) (tb_presence d)" using assms by (simp add: tables_ok_def)
  then have ids: "distinct (map pr_id (tb_presence d))" by (simp add: numbered_def)
  have eq: "fst (roll_up_presence d before)
      = d\<lparr>tb_presence := sessions.kept before (tb_presence d) @ ?new, tb_presence_seq := tb_presence_seq d + int (length ?new)\<rparr>"
    unfolding roll_up_presence_eq [OF num] Let_def sessions.kept_iff [OF ids] by simp
  have closed: "filter (session_open j) ?new = []" for j
    using presence_new [of _ before "tb_presence_seq d" "tb_presence d"]
    by (auto simp: filter_empty_conv session_open_def)
  have "filter (session_open j) (sessions.kept before (tb_presence d)) = filter (session_open j) (tb_presence d)" for j
    unfolding sessions.kept_iff [OF ids] filter_filter
    by (rule filter_cong [OF refl]) (auto simp: session_open_def presence_victim_def)
  then have same: "filter (session_open j) (tb_presence (fst (roll_up_presence d before))) = filter (session_open j) (tb_presence d)" for j
    using closed by (simp add: eq)
  then show "filter (session_open i) (tb_presence (fst (roll_up_presence d before))) = filter (session_open i) (tb_presence d)" .
  have "one_open (fst (roll_up_presence d before))"
    unfolding one_open_def same using assms by (simp add: tables_ok_def one_open_def eq)
  then show "tables_ok (fst (roll_up_presence d before))"
    using assms sessions.numbered_rollup [OF num, of before] by (simp add: eq tables_ok_def)
qed

lemma location_new: "s \<in> set (stays.inserted before n rows) \<Longrightarrow> lo_is_summary s"
  by (elim stays.inserted_mem) (simp add: location_summary_def)

lemma tables_ok_roll_up_location:
  assumes "tables_ok d"
  shows "tables_ok (fst (roll_up_location_history d before))"
    and "filter (stay_open i) (tb_locations (fst (roll_up_location_history d before))) = filter (stay_open i) (tb_locations d)"
proof -
  let ?new = "stays.inserted before (tb_location_seq d) (tb_locations d)"
  have num: "numbered lo_id (tb_location_seq d) (tb_locations d)" using assms by (simp add: tables_ok_def)
  then have ids: "distinct (map lo_id (tb_locations d))" by (simp add: numbered_def)
  have eq: "fst (roll_up_location_history d before)
      = d\<lparr>tb_locations := stays.kept before (tb_locations d) @ ?new, tb_location_seq := tb_location_seq d + int (length ?new)\<rparr>"
    unfolding roll_up_location_eq [OF num] Let_def stays.kept_iff [OF ids] by simp
  have closed: "filter (stay_open j) ?new = []" for j
    using location_new [of _ before "tb_location_seq d" "tb_locations d"]
    by (auto simp: filter_empty_conv stay_open_def)
  have "filter (stay_open j) (stays.kept before (tb_locations d)) = filter (stay_open j) (tb_locations d)" for j
    unfolding stays.kept_iff [OF ids] filter_filter
    by (rule filter_cong [OF refl]) (auto simp: stay_open_def location_victim_def)
  then have same: "filter (stay_open j) (tb_locations (fst (roll_up_location_history d before))) = filter (stay_open j) (tb_locations d)" for j
    using closed by (simp add: eq)
  then show "filter (stay_open i) (tb_locations (fst (roll_up_location_history d before))) = filter (stay_open i) (tb_locations d)" .
  have "one_open (fst (roll_up_location_history d before))"
    unfolding one_open_def same using assms by (simp add: tables_ok_def one_open_def eq)
  then show "tables_ok (fst (roll_up_location_history d before))"
    using assms stays.numbered_rollup [OF num, of before] by (simp add: eq tables_ok_def)
qed

lemma tables_ok_prune: "tables_ok d \<Longrightarrow> tables_ok (fst (prune_events d before))"
  by (simp add: tables_ok_def prune_events_def Let_def numbered_filter one_open_def)

lemma filter_only: "distinct xs \<Longrightarrow> x \<in> set xs \<Longrightarrow> filter ((=) x) xs = [x]"
  by (induction xs) (auto simp: filter_empty_conv)

lemma merge_idle:
  assumes "distinct (map range_key (tb_ips d))"
  shows "merge_ip_history d = (d, 0)"
proof -
  have only: "same_range r r' \<longleftrightarrow> r' = r" if "r \<in> set (tb_ips d)" "r' \<in> set (tb_ips d)" for r r'
    using assms that by (auto simp: same_range_def range_key_def distinct_map inj_on_def)
  have "first_of_range (tb_ips d) r" if "r \<in> set (tb_ips d)" for r
    using only [OF that] by (auto simp: first_of_range_def list_all_iff)
  then have all: "filter (first_of_range (tb_ips d)) (tb_ips d) = tb_ips d" by (simp add: filter_id_conv)
  have "widened (tb_ips d) r = r" if r: "r \<in> set (tb_ips d)" for r
  proof -
    have "filter (same_range r) (tb_ips d) = filter (\<lambda>r'. r = r') (tb_ips d)"
      using only [OF r] by (intro filter_cong [OF refl]) auto
    moreover have "distinct (tb_ips d)" using assms by (simp add: distinct_map)
    ultimately have "filter (same_range r) (tb_ips d) = [r]" using r by (simp add: filter_only)
    then show ?thesis by (simp add: widened_def least_def greatest_def)
  qed
  then have "map (widened (tb_ips d)) (tb_ips d) = tb_ips d" by (simp add: map_idI)
  then show ?thesis by (simp add: merge_ip_history_def Let_def all)
qed

lemma run_preserves:
  assumes "P d" "\<And>d b. P d \<Longrightarrow> P (fst (roll_up_presence d b))"
    and "\<And>d b. P d \<Longrightarrow> P (fst (roll_up_location_history d b))" "\<And>d b. P d \<Longrightarrow> P (fst (prune_events d b))"
    and "\<And>d. P d \<Longrightarrow> P (fst (merge_ip_history d))"
  shows "P (fst (run fault d config now))"
  using assms by (simp add: run_def Let_def case_prod_beta)

lemma tables_ok_merge: "tables_ok d \<Longrightarrow> fst (merge_ip_history d) = d"
  by (simp add: tables_ok_def merge_idle)

text \<open>What the ledger reads from the tables.\<close>

definition ledger_columns :: "tables \<Rightarrow> device_row list \<times> int \<times> (int \<Rightarrow> presence_row list) \<times> (int \<Rightarrow> location_row list)" where
  "ledger_columns d =
     (tb_devices d, tb_device_seq d, \<lambda>i. filter (session_open i) (tb_presence d), \<lambda>i. filter (stay_open i) (tb_locations d))"

lemma find_filter: "List.find P xs = (case filter P xs of [] \<Rightarrow> None | x # _ \<Rightarrow> Some x)"
  by (induction xs) auto

lemma shows_ledger_columns:
  assumes "ledger_columns d' = ledger_columns d"
  shows "shows_ledger (ids, d') L = shows_ledger (ids, d) L"
proof -
  have eq: "tb_devices d' = tb_devices d" "tb_device_seq d' = tb_device_seq d"
    and sessions: "\<And>i. filter (session_open i) (tb_presence d') = filter (session_open i) (tb_presence d)"
    and stays: "\<And>i. filter (stay_open i) (tb_locations d') = filter (stay_open i) (tb_locations d)"
    using assms by (auto simp: ledger_columns_def fun_eq_iff)
  have "i \<in> open_ids d' \<longleftrightarrow> i \<in> open_ids d" for i
    using arg_cong [OF sessions [of i], of "\<lambda>rs. rs = []"] by (auto simp: open_ids_def filter_empty_conv)
  then have o': "open_ids d' = open_ids d" by blast
  have s': "stay_at d' = stay_at d" by (simp add: stay_at_def find_filter stays fun_eq_iff)
  show ?thesis by (simp add: shows_ledger_def db_ok_def ledger_of_db_def one_open_def eq o' s' sessions stays)
qed

lemma run_keeps_columns:
  assumes "tables_ok d"
  shows "tables_ok (fst (run fault d config now)) \<and> ledger_columns (fst (run fault d config now)) = ledger_columns d"
proof (rule run_preserves [of "\<lambda>d'. tables_ok d' \<and> ledger_columns d' = ledger_columns d"])
  fix d' b assume P: "tables_ok d' \<and> ledger_columns d' = ledger_columns d"
  show "tables_ok (fst (roll_up_presence d' b)) \<and> ledger_columns (fst (roll_up_presence d' b)) = ledger_columns d"
    using tables_ok_roll_up_presence [where d = d' and before = b] P
    by (simp add: ledger_columns_def) (simp add: roll_up_presence_def Let_def)
  show "tables_ok (fst (roll_up_location_history d' b))
      \<and> ledger_columns (fst (roll_up_location_history d' b)) = ledger_columns d"
    using tables_ok_roll_up_location [where d = d' and before = b] P
    by (simp add: ledger_columns_def) (simp add: roll_up_location_history_def Let_def)
  show "tables_ok (fst (prune_events d' b)) \<and> ledger_columns (fst (prune_events d' b)) = ledger_columns d"
    using tables_ok_prune [of d' b] P by (simp add: ledger_columns_def prune_events_def Let_def)
  show "tables_ok (fst (merge_ip_history d')) \<and> ledger_columns (fst (merge_ip_history d')) = ledger_columns d"
    using tables_ok_merge [of d'] P by simp
qed (simp add: assms)

text \<open>
  C18: what the schema promises holds of the tables whatever the daemon sends. The effects of any
  batch, the flush of any snapshots and the nightly jobs keep the identity columns unique and behind
  their counters, one row for each hardware address, one row for each signal and address of a
  device, and at most one open session and one open stay, whichever statement fails.
\<close>

theorem statements_keep_tables_ok:
  assumes "tables_ok d"
  shows "tables_ok (snd (fst (apply_effects fault (ids, d) es)))
    \<and> tables_ok (fst (flush fault' ids d snapshots)) \<and> tables_ok (fst (run fault'' d config now))"
  using tables_ok_effects [of "(ids, d)" fault es] tables_ok_flush [OF assms] run_keeps_columns [OF assms]
  by (simp add: assms)

theorem statements_keep_tables_ok_witness: "tables_ok (fst (run None empty_tables default_maintenance 0))"
  using statements_keep_tables_ok [OF tables_ok_empty] by blast

text \<open>
  The nightly jobs leave the present alone. Whatever job fails, and whenever they run, the
  database shows the same known devices, open sessions and open stays afterwards as before.
\<close>

theorem maintenance_keeps_the_ledger:
  assumes "tables_ok d"
  shows "shows_ledger (ids, fst (run fault d config now)) L = shows_ledger (ids, d) L"
  using run_keeps_columns [OF assms] by (intro shows_ledger_columns) blast

lemma sample_tables_ok: "tables_ok sample_tables"
  by (simp add: tables_ok_def sample_tables_def sample_session_def empty_tables_def numbered_def one_open_def session_open_def)

theorem maintenance_keeps_the_ledger_witness:
  "shows_ledger (Map.empty, fst (run (Some 3) empty_tables default_maintenance 99999999999999999))
     (ledger_of (new_manager default_state False))"
  using maintenance_keeps_the_ledger [OF tables_ok_empty] empty_shows by blast

lemma cutoff_day: "t < cutoff now n \<Longrightarrow> day_of t < day_of now - int n"
  by (simp add: cutoff_def day_of_def)

text \<open>
  C28: a run never touches what is recent. An open session or stay, a summary, and every row that
  began on one of the last \<open>rollup_after_days\<close> days or today is there afterwards exactly as it was,
  every event of the retention window too, and no address at all is changed.
\<close>

theorem recent_rows_untouched:
  assumes "tables_ok d"
  shows "(\<forall>r \<in> set (tb_presence d). pr_ended_at r = None \<or> pr_is_summary r
        \<or> day_of (pr_started_at r) \<ge> day_of now - int (ma_rollup_after_days config)
        \<longrightarrow> r \<in> set (tb_presence (fst (run fault d config now))))
    \<and> (\<forall>r \<in> set (tb_locations d). lo_ended_at r = None \<or> lo_is_summary r
        \<or> day_of (lo_started_at r) \<ge> day_of now - int (ma_rollup_after_days config)
        \<longrightarrow> r \<in> set (tb_locations (fst (run fault d config now))))
    \<and> (\<forall>r \<in> set (tb_events d). day_of (er_timestamp r) \<ge> day_of now - int (ma_event_retention_days config)
        \<longrightarrow> r \<in> set (tb_events (fst (run fault d config now))))
    \<and> tb_ips (fst (run fault d config now)) = tb_ips d"
proof -
  let ?b = "cutoff now (ma_rollup_after_days config)" and ?e = "cutoff now (ma_event_retention_days config)"
  let ?d1 = "fst (roll_up_presence d ?b)"
  let ?d2 = "fst (roll_up_location_history ?d1 ?b)"
  let ?d3 = "fst (prune_events ?d2 ?e)"
  have ok1: "tables_ok ?d1" using assms by (rule tables_ok_roll_up_presence)
  have ok2: "tables_ok ?d2" using ok1 by (rule tables_ok_roll_up_location)
  have ok3: "tables_ok ?d3" using ok2 by (rule tables_ok_prune)
  have num: "numbered pr_id (tb_presence_seq d) (tb_presence d)" "numbered lo_id (tb_location_seq ?d1) (tb_locations ?d1)"
    using assms ok1 by (simp_all add: tables_ok_def)
  have p: "set (filter (\<lambda>r. \<not> presence_victim ?b r) (tb_presence d)) \<subseteq> set (tb_presence ?d1)"
    unfolding roll_up_presence_eq [OF num(1)] Let_def by simp
  have l: "set (filter (\<lambda>r. \<not> location_victim ?b r) (tb_locations ?d1)) \<subseteq> set (tb_locations ?d2)"
    unfolding roll_up_location_eq [OF num(2)] Let_def by simp
  have same: "tb_locations ?d1 = tb_locations d" "tb_events ?d1 = tb_events d" "tb_ips ?d1 = tb_ips d"
    "tb_presence ?d2 = tb_presence ?d1" "tb_events ?d2 = tb_events ?d1" "tb_ips ?d2 = tb_ips ?d1"
    "tb_presence ?d3 = tb_presence ?d2" "tb_locations ?d3 = tb_locations ?d2" "tb_ips ?d3 = tb_ips ?d2"
    by (simp_all add: roll_up_presence_def roll_up_location_history_def prune_events_def Let_def)
  have e: "set (filter (\<lambda>r. \<not> er_timestamp r < ?e) (tb_events d)) \<subseteq> set (tb_events ?d3)"
    by (simp add: prune_events_def Let_def same)
  have "fst (run fault d config now) \<in> {d, ?d1, ?d2, ?d3}"
    by (simp add: run_def Let_def case_prod_beta tables_ok_merge ok3)
  moreover have "pr_ended_at r = None \<or> pr_is_summary r
      \<or> day_of (pr_started_at r) \<ge> day_of now - int (ma_rollup_after_days config) \<Longrightarrow> \<not> presence_victim ?b r" for r
    using cutoff_day [of "pr_started_at r" now "ma_rollup_after_days config"] by (auto simp: presence_victim_def)
  moreover have "lo_ended_at r = None \<or> lo_is_summary r
      \<or> day_of (lo_started_at r) \<ge> day_of now - int (ma_rollup_after_days config) \<Longrightarrow> \<not> location_victim ?b r" for r
    using cutoff_day [of "lo_started_at r" now "ma_rollup_after_days config"] by (auto simp: location_victim_def)
  moreover have "day_of (er_timestamp r) \<ge> day_of now - int (ma_event_retention_days config) \<Longrightarrow> \<not> er_timestamp r < ?e" for r
    using cutoff_day [of "er_timestamp r" now "ma_event_retention_days config"] by auto
  ultimately show ?thesis using p l e by (simp only: insert_iff empty_iff) (elim disjE; force simp: same)
qed

theorem recent_rows_untouched_witness:
  "sample_session 3 11 None 4 \<in> set (tb_presence (fst (run None sample_tables default_maintenance 99999999999999999)))"
proof -
  have "sample_session 3 11 None 4 \<in> set (tb_presence sample_tables)" "pr_ended_at (sample_session 3 11 None 4) = None"
    by (simp_all add: sample_tables_def sample_session_def)
  then show ?thesis using recent_rows_untouched [OF sample_tables_ok] by blast
qed

subsection \<open>The schedule\<close>

text \<open>The daemon looks at the clock now and then, and runs the jobs when they are due.\<close>

fun run_times :: "maintenance_config \<Rightarrow> int \<Rightarrow> time option \<Rightarrow> time list \<Rightarrow> time list" where
  "run_times config offset previous [] = []" |
  "run_times config offset previous (t # ts) =
     (if is_due config t previous offset then t # run_times config offset (Some t) ts
      else run_times config offset previous ts)"

lemma local_day_mono: "t \<le> u \<Longrightarrow> local_day offset t \<le> local_day offset u"
  by (simp add: local_day_def zdiv_mono1)

lemma scheduled_props:
  assumes "sorted ts" "\<forall>p t. previous = Some p \<longrightarrow> t \<in> set ts \<longrightarrow> p \<le> t"
  shows "distinct (map (local_day offset) (run_times config offset previous ts))
    \<and> set (run_times config offset previous ts) \<subseteq> set ts
    \<and> (\<forall>p. previous = Some p \<longrightarrow> local_day offset p \<notin> local_day offset ` set (run_times config offset previous ts))
    \<and> (\<forall>t \<in> set (run_times config offset previous ts). ma_enabled config \<and> local_minute offset t \<ge> minutes (ma_run_at config))
    \<and> (\<forall>t \<in> set ts. ma_enabled config \<and> local_minute offset t \<ge> minutes (ma_run_at config) \<longrightarrow>
         local_day offset t \<in> local_day offset ` (set_option previous \<union> set (run_times config offset previous ts)))"
  using assms
proof (induction ts arbitrary: previous)
  case (Cons t ts)
  note sorted = Cons.prems(1) and after = Cons.prems(2)
  show ?case
  proof (cases "is_due config t previous offset")
    case True
    have "\<forall>p u. Some t = Some p \<longrightarrow> u \<in> set ts \<longrightarrow> p \<le> u" using sorted by simp
    note IH = Cons.IH [OF _ this]
    have days: "local_day offset p < local_day offset t" if "previous = Some p" for p
      using True that after local_day_mono [of p t offset] by (auto simp: is_due_def split: if_splits)
    have later: "local_day offset t \<le> local_day offset u" if "u \<in> set ts" for u
      using sorted that by (simp add: local_day_mono)
    from IH sorted have "set (run_times config offset (Some t) ts) \<subseteq> set ts" by simp
    then have "local_day offset p \<notin> local_day offset ` set (run_times config offset (Some t) ts)"
      if "previous = Some p" for p
      using days [OF that] later by fastforce
    moreover have "ma_enabled config \<and> local_minute offset t \<ge> minutes (ma_run_at config)"
      using True by (simp add: is_due_def split: if_splits)
    ultimately show ?thesis using IH sorted True days by auto
  next
    case False
    note IH = Cons.IH [of previous]
    have "ma_enabled config \<and> local_minute offset t \<ge> minutes (ma_run_at config)
        \<Longrightarrow> local_day offset t \<in> local_day offset ` set_option previous"
      using False by (auto simp: is_due_def split: if_splits option.splits)
    then show ?thesis using IH sorted after False by auto
  qed
qed simp



end
