(* ===== verification/Dedup.thy ===== *)
theory Dedup
  imports Types Machine
begin

text \<open>
  \<^verbatim>\<open>src/capture/dedup.rs\<close>: the bounded set of recent observation keys. The hash of the standard
  library is a parameter \<open>h\<close>, a function of the hardware address, the kind and the time bucket; the
  capacity hints of the two containers are left out. The set and the queue together are a window
  over the keys last admitted.
\<close>

record dedup =
  dd_seen :: "u64 set"
  dd_order :: "u64 list"
  dd_capacity :: nat
  dd_resolution_secs :: int
  dd_duplicates :: u64

definition new_dedup :: "nat \<Rightarrow> u64 \<Rightarrow> dedup" where
  "new_dedup capacity resolution_secs =
     \<lparr>dd_seen = {}, dd_order = [], dd_capacity = max capacity 1,
      dd_resolution_secs =
        (let secs = max (unat resolution_secs) 1 in if secs < 2 ^ 63 then int secs else 1),
      dd_duplicates = 0\<rparr>"

definition dedup_key :: "(mac_addr \<Rightarrow> string \<Rightarrow> int \<Rightarrow> u64) \<Rightarrow> dedup \<Rightarrow> observation \<Rightarrow> u64" where
  "dedup_key h d obs =
     h (obs_mac obs) (observation_kind_str (obs_kind obs)) (obs_at obs div 1000000000 div dd_resolution_secs d)"

text \<open>The loop that pops the oldest keys while there are too many.\<close>

fun evict :: "nat \<Rightarrow> u64 set \<Rightarrow> u64 list \<Rightarrow> u64 set \<times> u64 list" where
  "evict capacity seen [] = (seen, [])" |
  "evict capacity seen (k # ks) =
     (if length (k # ks) > capacity then evict capacity (seen - {k}) ks else (seen, k # ks))"

definition admit :: "(mac_addr \<Rightarrow> string \<Rightarrow> int \<Rightarrow> u64) \<Rightarrow> dedup \<Rightarrow> observation \<Rightarrow> dedup \<times> bool" where
  "admit h d obs =
     (let k = dedup_key h d obs in
      if k \<in> dd_seen d then (d\<lparr>dd_duplicates := dd_duplicates d + 1\<rparr>, False)
      else (let (seen, order) = evict (dd_capacity d) (insert k (dd_seen d)) (dd_order d @ [k]) in
            (d\<lparr>dd_seen := seen, dd_order := order\<rparr>, True)))"

definition dedup_len :: "dedup \<Rightarrow> nat" where
  "dedup_len d = card (dd_seen d)"

definition dedup_is_empty :: "dedup \<Rightarrow> bool" where
  "dedup_is_empty d \<longleftrightarrow> dd_seen d = {}"

definition duplicates_suppressed :: "dedup \<Rightarrow> u64" where
  "duplicates_suppressed d = dd_duplicates d"

subsection \<open>A window over the admitted keys\<close>

definition suffix_of :: "nat \<Rightarrow> 'a list \<Rightarrow> 'a list" where
  "suffix_of n xs = drop (length xs - n) xs"

lemma evict_suffix:
  "distinct ks \<Longrightarrow> seen = set ks \<Longrightarrow> evict n seen ks = (set (suffix_of n ks), suffix_of n ks)"
  by (induction n seen ks rule: evict.induct) (auto simp: suffix_of_def Suc_diff_le not_less_eq_eq)

fun admissions :: "(mac_addr \<Rightarrow> string \<Rightarrow> int \<Rightarrow> u64) \<Rightarrow> dedup \<Rightarrow> observation list \<Rightarrow> dedup \<times> bool list" where
  "admissions h d [] = (d, [])" |
  "admissions h d (obs # rest) =
     (let (d1, b) = admit h d obs; (d2, bs) = admissions h d1 rest in (d2, b # bs))"

text \<open>The reference: a history of admitted keys, of which the last \<open>n\<close> are remembered.\<close>

fun window_admissions :: "nat \<Rightarrow> 'k list \<Rightarrow> 'k list \<Rightarrow> bool list" where
  "window_admissions n history [] = []" |
  "window_admissions n history (k # ks) =
     (if k \<in> set (suffix_of n history) then False # window_admissions n history ks
      else True # window_admissions n (history @ [k]) ks)"

definition remembers :: "dedup \<Rightarrow> u64 list \<Rightarrow> bool" where
  "remembers d history \<longleftrightarrow> dd_order d = suffix_of (dd_capacity d) history \<and> dd_seen d = set (dd_order d)
     \<and> distinct (dd_order d)"

lemma suffix_of_snoc:
  "n > 0 \<Longrightarrow> suffix_of n (suffix_of n xs @ [x]) = suffix_of n (xs @ [x])"
  by (cases "length xs \<ge> n") (simp_all add: suffix_of_def Suc_diff_le)

lemma admit_remembers:
  assumes "remembers d history" "dd_capacity d > 0"
  shows "snd (admit h d obs) \<longleftrightarrow> dedup_key h d obs \<notin> set (suffix_of (dd_capacity d) history)"
    and "remembers (fst (admit h d obs)) (if snd (admit h d obs) then history @ [dedup_key h d obs] else history)"
    and "dd_capacity (fst (admit h d obs)) = dd_capacity d"
    and "dd_resolution_secs (fst (admit h d obs)) = dd_resolution_secs d"
proof -
  let ?k = "dedup_key h d obs"
  have r: "dd_seen d = set (suffix_of (dd_capacity d) history)" "dd_order d = suffix_of (dd_capacity d) history"
    "distinct (dd_order d)"
    using assms(1) unfolding remembers_def by metis+
  have ev: "evict (dd_capacity d) (insert ?k (dd_seen d)) (dd_order d @ [?k])
      = (set (suffix_of (dd_capacity d) (history @ [?k])), suffix_of (dd_capacity d) (history @ [?k]))"
    if "?k \<notin> dd_seen d"
  proof -
    have "distinct (dd_order d @ [?k])" using that r by simp
    from evict_suffix [OF this, of "insert ?k (dd_seen d)" "dd_capacity d"] show ?thesis
      using assms(2) by (simp add: r(1,2) suffix_of_snoc)
  qed
  show "snd (admit h d obs) \<longleftrightarrow> ?k \<notin> set (suffix_of (dd_capacity d) history)"
    "dd_capacity (fst (admit h d obs)) = dd_capacity d"
    "dd_resolution_secs (fst (admit h d obs)) = dd_resolution_secs d"
    by (simp_all add: admit_def Let_def case_prod_beta r(1))
  have "distinct (suffix_of (dd_capacity d) (history @ [?k]))" if "?k \<notin> dd_seen d"
  proof -
    have "distinct (dd_order d @ [?k])" using that r by simp
    then have "distinct (suffix_of (dd_capacity d) (dd_order d @ [?k]))"
      unfolding suffix_of_def by (rule distinct_drop)
    then show ?thesis using assms(2) by (simp only: r(2) suffix_of_snoc)
  qed
  then show "remembers (fst (admit h d obs)) (if snd (admit h d obs) then history @ [?k] else history)"
    using assms(1) ev r(3) [unfolded r(2)] by (cases "?k \<in> dd_seen d") (simp_all add: admit_def Let_def remembers_def)
qed

lemma admissions_window:
  "remembers d history \<Longrightarrow> dd_capacity d > 0
     \<Longrightarrow> snd (admissions h d obs) = window_admissions (dd_capacity d) history (map (dedup_key h d) obs)
       \<and> card (dd_seen (fst (admissions h d obs))) \<le> dd_capacity d"
proof (induction obs arbitrary: d history)
  case Nil
  have "card (dd_seen d) \<le> length (dd_order d)" using Nil.prems by (simp add: remembers_def card_length)
  also have "\<dots> \<le> dd_capacity d" using Nil.prems by (simp add: remembers_def suffix_of_def)
  finally show ?case by simp
next
  case (Cons x xs)
  let ?d = "fst (admit h d x)"
  note step = admit_remembers [OF Cons.prems, of h x]
  have "dedup_key h ?d = dedup_key h d" by (simp add: dedup_key_def step(4) fun_eq_iff)
  then show ?case using Cons.IH [OF step(2)] step(1,3) Cons.prems(2)
    by (simp add: case_prod_beta Let_def)
qed

text \<open>
  C25: the deduper is a window over what it let through. An observation is suppressed exactly when
  its key is among the last \<open>capacity\<close> keys that were admitted, whatever came between, and no more
  keys than that are ever held; a capacity of zero counts as one.
\<close>

theorem dedup_is_a_window:
  "snd (admissions h (new_dedup capacity res) obs)
     = window_admissions (max capacity 1) [] (map (dedup_key h (new_dedup capacity res)) obs)
   \<and> dedup_len (fst (admissions h (new_dedup capacity res) obs)) \<le> max capacity 1"
proof -
  have "remembers (new_dedup capacity res) []" "dd_capacity (new_dedup capacity res) > 0"
    "dd_capacity (new_dedup capacity res) = max capacity 1"
    by (simp_all add: new_dedup_def remembers_def suffix_of_def)
  from admissions_window [OF this(1,2)] this(3) show ?thesis by (simp add: dedup_len_def)
qed

end
