(* ===== verification/Enrich.thy ===== *)
theory Enrich
  imports Device_Entry Config
begin

text \<open>
  \<^verbatim>\<open>src/enrich/mod.rs\<close>: what an enricher reports and when each is asked. An enricher's answer is a
  parameter: what it found or that it failed, and how long it took. Instants and durations are
  nanoseconds.
\<close>

record enrichment =
  en_mac :: mac_addr
  en_ap_name :: "string option"
  en_ap_location :: "string option"
  en_vlan :: "int option"
  en_bandwidth_rx :: "int option"
  en_bandwidth_tx :: "int option"
  en_extra :: json

definition new_enrichment :: "mac_addr \<Rightarrow> enrichment" where
  "new_enrichment mac =
     \<lparr>en_mac = mac, en_ap_name = None, en_ap_location = None, en_vlan = None, en_bandwidth_rx = None,
      en_bandwidth_tx = None, en_extra = JNull\<rparr>"

definition enrichment_is_empty :: "enrichment \<Rightarrow> bool" where
  "enrichment_is_empty e \<longleftrightarrow> en_ap_name e = None \<and> en_ap_location e = None \<and> en_vlan e = None
     \<and> en_bandwidth_rx e = None \<and> en_bandwidth_tx e = None \<and> en_extra e = JNull"

definition telemetry_field :: "string \<Rightarrow> ('a \<Rightarrow> json) \<Rightarrow> 'a option \<Rightarrow> (string \<times> json) list" where
  "telemetry_field name f v = (case v of Some x \<Rightarrow> [(name, f x)] | None \<Rightarrow> [])"

definition telemetry :: "enrichment \<Rightarrow> json option" where
  "telemetry e =
     (let m = telemetry_field ''vlan'' JNum (en_vlan e) @ telemetry_field ''bandwidth_rx'' JNum (en_bandwidth_rx e)
            @ telemetry_field ''bandwidth_tx'' JNum (en_bandwidth_tx e)
            @ (if en_extra e \<noteq> JNull then [(''extra'', en_extra e)] else []) in
      if m = [] then None else Some (JObj m))"

subsection \<open>The orchestrator\<close>

record scheduled =
  sd_name :: string
  sd_interval :: duration
  sd_next_due :: nat
  sd_polls :: u64
  sd_failures :: u64

record orchestrator =
  oc_enrichers :: "scheduled list"
  oc_enabled :: bool

text \<open>The longest interval stands in for a source that gives none.\<close>

definition with_enrichers :: "bool \<Rightarrow> nat \<Rightarrow> (string \<times> duration option) list \<Rightarrow> orchestrator" where
  "with_enrichers enabled now sources =
     \<lparr>oc_enrichers = map (\<lambda>(name, interval).
        \<lparr>sd_name = name,
         sd_interval = (case interval of Some d \<Rightarrow> d | None \<Rightarrow> secs (2 ^ 32 - 1)),
         sd_next_due = now, sd_polls = 0, sd_failures = 0\<rparr>) sources,
      oc_enabled = enabled\<rparr>"

definition orchestrator_is_active :: "orchestrator \<Rightarrow> bool" where
  "orchestrator_is_active o' \<longleftrightarrow> oc_enabled o' \<and> oc_enrichers o' \<noteq> []"

definition orchestrator_names :: "orchestrator \<Rightarrow> string list" where
  "orchestrator_names o' = map sd_name (oc_enrichers o')"

definition counters :: "orchestrator \<Rightarrow> (string \<times> u64 \<times> u64) list" where
  "counters o' = map (\<lambda>s. (sd_name s, sd_polls s, sd_failures s)) (oc_enrichers o')"

type_synonym answer = "enrichment list option \<times> duration"

definition poll_one :: "(string \<Rightarrow> answer) \<Rightarrow> nat \<Rightarrow> scheduled \<Rightarrow> scheduled \<times> enrichment list" where
  "poll_one answer now s =
     (if now < sd_next_due s then (s, [])
      else
        (let (result, took) = answer (sd_name s);
             s1 = s\<lparr>sd_polls := sd_polls s + 1, sd_next_due := now + took + sd_interval s\<rparr> in
         case result of
           Some found \<Rightarrow> (s1, filter (\<lambda>e. \<not> enrichment_is_empty e) found)
         | None \<Rightarrow> (s1\<lparr>sd_failures := sd_failures s1 + 1\<rparr>, [])))"

definition poll_due :: "(string \<Rightarrow> answer) \<Rightarrow> nat \<Rightarrow> orchestrator \<Rightarrow> orchestrator \<times> enrichment list" where
  "poll_due answer now o' =
     (if \<not> oc_enabled o' then (o', [])
      else
        (let results = map (poll_one answer now) (oc_enrichers o') in
         (o'\<lparr>oc_enrichers := map fst results\<rparr>, concat (map snd results))))"

text \<open>One source through a sequence of looks at the clock: when it was polled, and how long that took.\<close>

fun polls :: "(nat \<Rightarrow> string \<Rightarrow> answer) \<Rightarrow> scheduled \<Rightarrow> nat list \<Rightarrow> (nat \<times> duration) list" where
  "polls answers s [] = []" |
  "polls answers s (now # later) =
     (if now < sd_next_due s then polls answers s later
      else (now, snd (answers now (sd_name s))) # polls answers (fst (poll_one (answers now) now s)) later)"

fun rested :: "duration \<Rightarrow> (nat \<times> duration) list \<Rightarrow> bool" where
  "rested interval [] = True" |
  "rested interval [p] = True" |
  "rested interval ((t, took) # (t', took') # ps) =
     (t + took + interval \<le> t' \<and> rested interval ((t', took') # ps))"

lemma poll_one_fields:
  "sd_interval (fst (poll_one answer now s)) = sd_interval s"
  "sd_name (fst (poll_one answer now s)) = sd_name s"
  "\<not> now < sd_next_due s
     \<Longrightarrow> sd_next_due (fst (poll_one answer now s)) = now + snd (answer (sd_name s)) + sd_interval s"
  by (simp_all add: poll_one_def case_prod_beta Let_def split: option.split)

lemma first_poll: "p \<in> set (take 1 (polls answers s clock)) \<Longrightarrow> sd_next_due s \<le> fst p"
  by (induction clock) (auto split: if_splits)

text \<open>
  A source is left alone between polls. However often the schedule is looked at and however a
  poll ends, the next poll of the same source begins no earlier than one full interval after the
  last one finished, however long that took; a controller that times out is not asked again at once.
\<close>

theorem polls_are_rested: "rested (sd_interval s) (polls answers s clock)"
proof (induction clock arbitrary: s)
  case (Cons now later)
  show ?case
  proof (cases "now < sd_next_due s")
    case False
    let ?s = "fst (poll_one (answers now) now s)"
    have rest: "rested (sd_interval s) (polls answers ?s later)"
      using Cons.IH [of ?s] by (simp add: poll_one_fields)
    show ?thesis
    proof (cases "polls answers ?s later")
      case Nil
      then show ?thesis using False by simp
    next
      case (Cons p ps)
      then have "sd_next_due ?s \<le> fst p" using first_poll [of p answers ?s later] by simp
      then show ?thesis using False rest Cons
        by (cases p) (simp add: poll_one_fields)
    qed
  qed (simp add: Cons)
qed simp

text \<open>
  A source that says it is event driven is polled all the same. It is due at once like every
  other, so the first look at the schedule asks it, though not again for 136 years.
\<close>

theorem event_driven_source_is_polled:
  "sd_polls (hd (oc_enrichers (fst (poll_due answer now (with_enrichers True now [(name, None)]))))) = 1"
  by (simp add: poll_due_def with_enrichers_def poll_one_def case_prod_beta Let_def split: option.split)

end
