(* ===== verification/Daemon.thy ===== *)
theory Daemon
  imports Compaction Chain Dedup Enrich Location People Dispatch
begin

text \<open>
  \<^verbatim>\<open>src/daemon.rs\<close>: the handlers of the main loop, composed of the parts. \<open>world\<close> is everything
  the loop owns and the tables behind it; a handler is a function on it. What the connection does
  is a parameter of each handler: whether one can be had, and which statement fails. Logging, the
  terminal and the scheduling of the timers are left out; a handler's clock reading is an argument.
\<close>

record run_summary =
  rs_observations :: u64
  rs_events :: u64
  rs_security_events :: u64
  rs_person_events :: u64
  rs_location_changes :: u64
  rs_sources :: "(string \<times> u64) list"
  rs_learned :: bool

record world =
  wd_manager :: manager
  wd_persister :: persister
  wd_tables :: tables
  wd_registry :: registry
  wd_chain :: chain
  wd_dedup :: dedup
  wd_bus :: "recorded_event list"
  wd_summary :: run_summary
  wd_last_maintenance :: "time option"
  wd_asked :: "string set"
  wd_lookups :: "(mac_addr \<times> ip_addr) list"

text \<open>The connection as one handler finds it.\<close>

record link =
  lk_up :: "effect list \<Rightarrow> bool"
  lk_fault :: "effect \<Rightarrow> nat option"
  lk_people_up :: bool
  lk_person_ok :: "string \<Rightarrow> bool"
  lk_flush_up :: bool
  lk_flush_fault :: "mac_addr \<Rightarrow> nat option"
  lk_settings_ok :: bool
  lk_people_ok :: bool
  lk_maintenance_up :: bool
  lk_maintenance_fault :: "nat option"

definition healthy :: link where
  "healthy =
     \<lparr>lk_up = (\<lambda>_. True), lk_fault = (\<lambda>_. None), lk_people_up = True, lk_person_ok = (\<lambda>_. True),
      lk_flush_up = True, lk_flush_fault = (\<lambda>_. None), lk_settings_ok = True, lk_people_ok = True,
      lk_maintenance_up = True, lk_maintenance_fault = None\<rparr>"

subsection \<open>Applying effects\<close>

definition apply_db :: "link \<Rightarrow> effect list \<Rightarrow> world \<Rightarrow> world \<times> u64" where
  "apply_db l effects w =
     (if effects = [] then (w, 0)
      else if \<not> lk_up l effects then (w, 0)
      else
        (let (st, result) = apply_effects (lk_fault l) (wd_persister w, wd_tables w) effects;
             w1 = w\<lparr>wd_persister := fst st, wd_tables := snd st\<rparr> in
         case result of
           Inr recorded \<Rightarrow> (w1\<lparr>wd_bus := wd_bus w1 @ recorded\<rparr>, of_nat (length recorded))
         | Inl _ \<Rightarrow> (w1, 0)))"

fun apply_each :: "link \<Rightarrow> effect list list \<Rightarrow> world \<Rightarrow> world \<times> u64" where
  "apply_each l [] w = (w, 0)" |
  "apply_each l (es # rest) w =
     (let (w1, n) = apply_db l es w; (w2, m) = apply_each l rest w1 in (w2, n + m))"

definition write_people :: "link \<Rightarrow> person_update list \<Rightarrow> tables \<Rightarrow> tables" where
  "write_people l updates d =
     (if lk_people_up l then foldl (\<lambda>d u. if lk_person_ok l (pu_item_id u) then update_person d u else d) d updates
      else d)"

definition record_people :: "link \<Rightarrow> outcome \<Rightarrow> world \<Rightarrow> world \<times> u64" where
  "record_people l oc w =
     (if outcome_is_empty oc then (w, 0)
      else
        (let w1 = w\<lparr>wd_tables := write_people l (oc_updates oc) (wd_tables w)\<rparr> in
         apply_each l (map (person_event_effects (wd_manager w1)) (oc_events oc)) w1))"

definition track_presence :: "registry \<times> outcome \<Rightarrow> effect \<Rightarrow> registry \<times> outcome" where
  "track_presence = (\<lambda>(r, oc) x.
     (case x of
        PresenceOpened mac _ _ now \<Rightarrow> (let (r1, other) = device_online r mac now in (r1, merge oc other))
      | PresenceClosed mac now \<Rightarrow> (let (r1, other) = device_offline r mac now in (r1, merge oc other))
      | _ \<Rightarrow> (r, oc)))"

definition apply_and_track :: "link \<Rightarrow> effect list \<Rightarrow> world \<Rightarrow> world \<times> u64 \<times> u64" where
  "apply_and_track l effects w =
     (let (w1, events) = apply_db l effects w in
      if \<not> registry_is_active (wd_registry w1) then (w1, events, 0)
      else
        (let (r, oc) = foldl track_presence (wd_registry w1, no_outcome) effects;
             (w2, people) = record_people l oc (w1\<lparr>wd_registry := r\<rparr>) in
         (w2, events, people)))"

subsection \<open>Enrichment\<close>

record applied =
  ad_locations :: u64
  ad_events :: u64
  ad_outcome :: outcome

definition place_override :: "enrichment \<Rightarrow> place \<Rightarrow> place" where
  "place_override e p =
     (case en_ap_location e of
        Some l \<Rightarrow> if trim l \<noteq> [] then p\<lparr>pl_location := trim l\<rparr> else p
      | None \<Rightarrow> p)"

definition apply_enrichment ::
  "link \<Rightarrow> (string \<Rightarrow> string) \<Rightarrow> location_map \<Rightarrow> time \<Rightarrow> enrichment \<Rightarrow> world \<times> applied \<Rightarrow> world \<times> applied"
where
  "apply_enrichment l lc aps now e = (\<lambda>(w, ad).
     (case en_ap_name e of
        None \<Rightarrow> (w, ad)
      | Some ap \<Rightarrow>
          (let place = place_override e (place_of lc aps ap);
               movement = movement_of lc aps (current_ap (wd_manager w) (en_mac e)) (pl_ap_name place);
               (m, effects) = set_location (wd_manager w) (en_mac e) place movement (telemetry e) now;
               w1 = w\<lparr>wd_manager := m\<rparr> in
           if effects = [] then (w1, ad)
           else
             (let (w2, events) = apply_db l effects w1;
                  ad1 = ad\<lparr>ad_locations := ad_locations ad + 1, ad_events := ad_events ad + events\<rparr> in
              if registry_is_active (wd_registry w2)
              then (let (r, other) = device_moved (wd_registry w2) (en_mac e) place movement now in
                    (w2\<lparr>wd_registry := r\<rparr>, ad1\<lparr>ad_outcome := merge (ad_outcome ad1) other\<rparr>))
              else (w2, ad1)))))"

definition apply_enrichments ::
  "link \<Rightarrow> (string \<Rightarrow> string) \<Rightarrow> location_map \<Rightarrow> enrichment list \<Rightarrow> time \<Rightarrow> world \<Rightarrow> world \<times> applied \<times> u64"
where
  "apply_enrichments l lc aps enrichments now w =
     (let (w1, ad) = fold (apply_enrichment l lc aps now) enrichments
                       (w, \<lparr>ad_locations = 0, ad_events = 0, ad_outcome = no_outcome\<rparr>);
          (w2, people) = record_people l (ad_outcome ad) w1 in
      (w2, ad, people))"

subsection \<open>Analysis\<close>

definition record_alerts :: "link \<Rightarrow> (string \<rightharpoonup> string) \<Rightarrow> security_alert list \<Rightarrow> world \<Rightarrow> world \<times> u64" where
  "record_alerts l t alerts w = apply_each l (map (security_event t (wd_manager w)) alerts) w"

fun feed_reclassifications ::
  "link \<Rightarrow> (string \<rightharpoonup> string) \<Rightarrow> reclassification list \<Rightarrow> world \<Rightarrow> world \<times> u64"
where
  "feed_reclassifications l t [] w = (w, 0)" |
  "feed_reclassifications l t (change # rest) w =
     (let (alerts, ch) = chain_reclassified (wd_chain w) change;
          (w1, n) = record_alerts l t alerts (w\<lparr>wd_chain := ch\<rparr>);
          (w2, m) = feed_reclassifications l t rest w1 in
      (w2, n + m))"

definition drain_reclassifications :: "link \<Rightarrow> (string \<rightharpoonup> string) \<Rightarrow> world \<Rightarrow> world \<times> u64" where
  "drain_reclassifications l t w =
     (let (m, changes) = take_reclassifications (wd_manager w) in
      feed_reclassifications l t changes (w\<lparr>wd_manager := m\<rparr>))"

definition analyze :: "link \<Rightarrow> (string \<rightharpoonup> string) \<Rightarrow> observation \<Rightarrow> world \<Rightarrow> world \<times> u64" where
  "analyze l t obs w =
     (let (alerts, ch) = chain_observe (wd_chain w) obs;
          (w1, recorded) = record_alerts l t alerts (w\<lparr>wd_chain := ch\<rparr>);
          (w2, more) = drain_reclassifications l t w1 in
      (w2, recorded + more))"

subsection \<open>People and devices\<close>

definition person_from_record :: "person_row \<Rightarrow> person" where
  "person_from_record row =
     \<lparr>pn_item_id = pw_item_id row, pn_name = pw_name row, pn_notify_arrive = pw_notify_arrive row,
      pn_notify_depart = pw_notify_depart row, pn_state = person_state_from_db (pw_state row),
      pn_current_location = pw_current_location row, pn_last_arrived_at = pw_last_arrived_at row,
      pn_last_departed_at = pw_last_departed_at row\<rparr>"

definition seed_owner :: "manager \<Rightarrow> registry \<Rightarrow> registry_change \<Rightarrow> registry" where
  "seed_owner m r change =
     (case change of
        OwnerChanged mac _ (Some _) \<Rightarrow>
          (case state_of m mac of
             Some (state, last_seen_at) \<Rightarrow> restore_device r mac (state \<noteq> Offline) last_seen_at
           | None \<Rightarrow> r)
      | _ \<Rightarrow> r)"

text \<open>\<open>dbg\<close> and \<open>before\<close>: the debug quoting of a string, and the collation of the database.\<close>

definition reconcile_user_state ::
  "link \<Rightarrow> (string \<Rightarrow> string) \<Rightarrow> (string \<Rightarrow> string \<Rightarrow> bool) \<Rightarrow> world \<Rightarrow> world"
where
  "reconcile_user_state l dbg before w =
     (if \<not> lk_settings_ok l then w
      else
        (case load_user_settings (wd_tables w) of
           None \<Rightarrow> w
         | Some settings \<Rightarrow>
             if \<not> lk_people_ok l then w
             else
               (let people = map person_from_record (load_people before (wd_tables w));
                    (m, _) = apply_user_settings (wd_manager w) settings;
                    owners = map (\<lambda>s. (us_mac s, us_owner_item_id s)) settings;
                    (r, changes) = reconcile dbg (wd_registry w) people owners in
                w\<lparr>wd_manager := m, wd_registry := foldl (seed_owner m) r changes\<rparr>)))"

definition flush_devices :: "link \<Rightarrow> world \<Rightarrow> world" where
  "flush_devices l w =
     (let (m, dirty) = take_dirty (wd_manager w); w1 = w\<lparr>wd_manager := m\<rparr> in
      if dirty = [] then w1
      else if \<not> lk_flush_up l then w1
      else w1\<lparr>wd_tables := fst (flush (lk_flush_fault l) (wd_persister w1) (wd_tables w1) dirty)\<rparr>)"

definition run_maintenance :: "link \<Rightarrow> maintenance_config \<Rightarrow> time \<Rightarrow> world \<Rightarrow> world" where
  "run_maintenance l config now w =
     (if \<not> lk_maintenance_up l then w
      else w\<lparr>wd_tables := fst (run (lk_maintenance_fault l) (wd_tables w) config now)\<rparr>)"

subsection \<open>Starting\<close>

text \<open>
  \<open>fold_case\<close> is \<^verbatim>\<open>lower()\<close> of the database, \<open>uuid\<close> the values its generator gives, and \<open>ok\<close> says for which
  names the statement succeeds.
\<close>

fun adopt_people ::
  "(string \<Rightarrow> string) \<Rightarrow> (nat \<Rightarrow> string) \<Rightarrow> (string \<Rightarrow> bool) \<Rightarrow> nat \<Rightarrow> person_config list \<Rightarrow> tables
     \<Rightarrow> tables \<times> (mac_addr \<times> string) list"
where
  "adopt_people fold_case uuid ok n [] d = (d, [])" |
  "adopt_people fold_case uuid ok n (p # ps) d =
     (let name = trim (pc_name p) in
      if ok name
      then (let (d1, item_id) = ensure_person fold_case (uuid n) d name (pc_notify_arrive p) (pc_notify_depart p);
                (d2, owners) = adopt_people fold_case uuid ok (n + 1) ps d1 in
            (d2, map (\<lambda>mac. (mac, item_id)) (person_macs p) @ owners))
      else adopt_people fold_case uuid ok (n + 1) ps d)"

definition stored_owners :: "device_record list \<Rightarrow> (mac_addr \<times> string) list" where
  "stored_owners records = List.map_filter (\<lambda>rec. map_option (Pair (dr_mac rec)) (dr_owner_item_id rec)) records"

definition build_registry ::
  "(string \<Rightarrow> string) \<Rightarrow> (nat \<Rightarrow> string) \<Rightarrow> (string \<Rightarrow> bool) \<Rightarrow> (string \<Rightarrow> string \<Rightarrow> bool) \<Rightarrow> bool
     \<Rightarrow> person_config list \<Rightarrow> device_record list \<Rightarrow> tables \<Rightarrow> tables \<times> registry"
where
  "build_registry fold_case uuid ok before people_ok configured records d =
     (let (d1, config_owners) = adopt_people fold_case uuid ok 0 configured d;
          people = (if people_ok then map person_from_record (load_people before d1) else []);
          r = into_registry \<lparr>ro_people = people, ro_owners = config_owners @ stored_owners records,
                ro_config_owners = config_owners\<rparr> in
      (d1, foldl (\<lambda>r rec. restore_device r (dr_mac rec) (dr_state rec \<noteq> Offline) (dr_last_seen_at rec)) r records))"

definition no_summary :: run_summary where
  "no_summary =
     \<lparr>rs_observations = 0, rs_events = 0, rs_security_events = 0, rs_person_events = 0,
      rs_location_changes = 0, rs_sources = [], rs_learned = False\<rparr>"

text \<open>
  What \<open>run\<close> does before its loop: \<open>closing\<close> says whether the statement that ends stale stays
  succeeded. A stored hardware address that does not parse ends the program.
\<close>

definition startup ::
  "(string \<Rightarrow> string) \<Rightarrow> (nat \<Rightarrow> string) \<Rightarrow> (string \<Rightarrow> bool) \<Rightarrow> (string \<Rightarrow> string \<Rightarrow> bool) \<Rightarrow> bool \<Rightarrow> bool
     \<Rightarrow> config \<Rightarrow> bool \<Rightarrow> time \<Rightarrow> tables \<Rightarrow> world option"
where
  "startup fold_case uuid ok before people_ok closing cfg learn now d =
     (case load_devices d of
        None \<Rightarrow> None
      | Some records \<Rightarrow>
          (let signals = load_all_signals d;
               d1 = (if closing then close_stale_location_stays d now else d);
               (d2, registry) = build_registry fold_case uuid ok before people_ok (c_people cfg) records d1;
               learning = (learn \<or> ln_on_first_run (c_learning cfg) \<and> length records = 0) in
           Some \<lparr>wd_manager = restore (new_manager (c_state cfg) learning) records signals,
                 wd_persister = seed_persister Map.empty records, wd_tables = d2, wd_registry = registry,
                 wd_chain = chain_new (c_security cfg),
                 wd_dedup = new_dedup (cap_dedup_capacity (c_capture cfg)) (of_nat (cap_dedup_resolution_secs (c_capture cfg))),
                 wd_bus = [], wd_summary = no_summary\<lparr>rs_learned := learning\<rparr>, wd_last_maintenance = None,
                 wd_asked = {}, wd_lookups = []\<rparr>))"

subsection \<open>The loop\<close>

datatype input =
    InObservation observation
  | InSignal mac_addr signal time
  | InSweep time
  | InFlush
  | InReconcile
  | InEnriched "enrichment list" time
  | InMaintenance time
  | InLearningOver

text \<open>
  What the handlers read and the loop never changes: the vendor registry, the fingerprint table, the
  hash of the deduper, the case folding of the location map, the debug quoting, the collation, the
  places of the access points, the configuration, the offset of the local zone, and whether there is a
  resolver. \<open>wd_lookups\<close> of the state collects the reverse lookups the loop has spawned.
\<close>

record setting =
  se_vendors :: "string \<rightharpoonup> string"
  se_fingerprints :: fingerprint_db
  se_hash :: "mac_addr \<Rightarrow> string \<Rightarrow> int \<Rightarrow> u64"
  se_lowercase :: "string \<Rightarrow> string"
  se_debug :: "string \<Rightarrow> string"
  se_collation :: "string \<Rightarrow> string \<Rightarrow> bool"
  se_places :: location_map
  se_maintenance :: maintenance_config
  se_offset :: int
  se_resolver :: bool

definition count_source :: "string \<Rightarrow> run_summary \<Rightarrow> run_summary" where
  "count_source source s =
     s\<lparr>rs_sources := bt_insert source
        ((case map_of (rs_sources s) source of Some n \<Rightarrow> n | None \<Rightarrow> 0) + 1) (rs_sources s)\<rparr>"

definition count_events :: "u64 \<Rightarrow> u64 \<Rightarrow> run_summary \<Rightarrow> run_summary" where
  "count_events events people s =
     s\<lparr>rs_events := rs_events s + events, rs_person_events := rs_person_events s + people\<rparr>"

definition count_security :: "u64 \<Rightarrow> run_summary \<Rightarrow> run_summary" where
  "count_security n s = s\<lparr>rs_security_events := rs_security_events s + n\<rparr>"

definition summarise :: "(run_summary \<Rightarrow> run_summary) \<Rightarrow> world \<Rightarrow> world" where
  "summarise f w = w\<lparr>wd_summary := f (wd_summary w)\<rparr>"

definition ask_reverse :: "setting \<Rightarrow> observation \<Rightarrow> world \<Rightarrow> world" where
  "ask_reverse se obs w =
     (case obs_ip obs of
        Some (V4 a) \<Rightarrow>
          if se_resolver se \<and> show_ip (V4 a) \<notin> wd_asked w
          then w\<lparr>wd_asked := insert (show_ip (V4 a)) (wd_asked w),
                 wd_lookups := wd_lookups w @ [(obs_mac obs, V4 a)]\<rparr>
          else w
      | _ \<Rightarrow> w)"

definition on_admitted :: "setting \<Rightarrow> link \<Rightarrow> observation \<Rightarrow> world \<Rightarrow> world" where
  "on_admitted se l obs w =
     (let w1 = ask_reverse se obs (summarise (\<lambda>s. s\<lparr>rs_observations := rs_observations s + 1\<rparr>) w);
          w2 = w1\<lparr>wd_registry := device_seen (wd_registry w1) (obs_mac obs) (obs_at obs)\<rparr>;
          (m, effects) = observe (se_vendors se) (se_fingerprints se) (wd_manager w2) obs;
          (w3, events, people) = apply_and_track l effects (w2\<lparr>wd_manager := m\<rparr>) in
      summarise (count_events events people) w3)"

definition on_observation :: "setting \<Rightarrow> link \<Rightarrow> observation \<Rightarrow> world \<Rightarrow> world" where
  "on_observation se l obs w =
     (let w1 = summarise (count_source (obs_source obs)) w;
          (dd, fresh) = admit (se_hash se) (wd_dedup w1) obs;
          w2 = w1\<lparr>wd_dedup := dd\<rparr>;
          w3 = (if fresh then on_admitted se l obs w2 else w2);
          (w4, n) = analyze l (se_vendors se) obs w3 in
      summarise (count_security n) w4)"

definition on_signal :: "setting \<Rightarrow> link \<Rightarrow> mac_addr \<Rightarrow> signal \<Rightarrow> time \<Rightarrow> world \<Rightarrow> world" where
  "on_signal se l mac s now w =
     (let (m, effects) = add_signal (se_fingerprints se) (wd_manager w) mac s now;
          (w1, events) = apply_db l effects (w\<lparr>wd_manager := m\<rparr>);
          w2 = summarise (count_events events 0) w1;
          (w3, n) = drain_reclassifications l (se_vendors se) w2 in
      summarise (count_security n) w3)"

definition on_sweep :: "link \<Rightarrow> time \<Rightarrow> world \<Rightarrow> world" where
  "on_sweep l now w =
     (let (m, effects) = Manager.sweep (wd_manager w) now;
          (w1, events, people) = apply_and_track l effects (w\<lparr>wd_manager := m\<rparr>) in
      summarise (count_events events people) w1)"

definition on_enriched :: "setting \<Rightarrow> link \<Rightarrow> enrichment list \<Rightarrow> time \<Rightarrow> world \<Rightarrow> world" where
  "on_enriched se l enrichments now w =
     (if enrichments = [] then w
      else
        (let (w1, ad, people) = apply_enrichments l (se_lowercase se) (se_places se) enrichments now w in
         summarise (\<lambda>s. count_events (ad_events ad) people
           (s\<lparr>rs_location_changes := rs_location_changes s + ad_locations ad\<rparr>)) w1))"

definition on_maintenance :: "setting \<Rightarrow> link \<Rightarrow> time \<Rightarrow> world \<Rightarrow> world" where
  "on_maintenance se l now w =
     (if is_due (se_maintenance se) now (wd_last_maintenance w) (se_offset se)
      then run_maintenance l (se_maintenance se) now (w\<lparr>wd_last_maintenance := Some now\<rparr>)
      else w)"

fun daemon_step :: "setting \<Rightarrow> world \<Rightarrow> link \<times> input \<Rightarrow> world" where
  "daemon_step se w (l, InObservation obs) = on_observation se l obs w" |
  "daemon_step se w (l, InSignal mac s now) = on_signal se l mac s now w" |
  "daemon_step se w (l, InSweep now) = on_sweep l now w" |
  "daemon_step se w (l, InFlush) = flush_devices l w" |
  "daemon_step se w (l, InReconcile) = reconcile_user_state l (se_debug se) (se_collation se) w" |
  "daemon_step se w (l, InEnriched enrichments now) = on_enriched se l enrichments now w" |
  "daemon_step se w (l, InMaintenance now) = on_maintenance se l now w" |
  "daemon_step se w (l, InLearningOver) =
     (if mg_learning (wd_manager w) then w\<lparr>wd_manager := end_learning (wd_manager w)\<rparr> else w)"

text \<open>Shutting down flushes once more.\<close>

definition daemon_run :: "setting \<Rightarrow> world \<Rightarrow> (link \<times> input) list \<Rightarrow> world" where
  "daemon_run se w inputs = foldl (daemon_step se) w inputs"

definition shut_down :: "link \<Rightarrow> world \<Rightarrow> world" where
  "shut_down l w = flush_devices l w"

subsection \<open>Delivery\<close>

text \<open>
  Each notifier is a pair of functions that send an event and a summary; \<open>up\<close> and \<open>mark_ok\<close> say whether a
  connection can be had to mark a delivery and which marks succeed.
\<close>

type_synonym notifier = "(device_event \<Rightarrow> bool) \<times> (device_event list \<Rightarrow> bool)"

definition send_one :: "notifier list \<Rightarrow> (delivery \<Rightarrow> bool) \<Rightarrow> (int \<Rightarrow> bool) \<Rightarrow> tables \<Rightarrow> delivery \<Rightarrow> tables" where
  "send_one notifiers up mark_ok d delivery =
     (let delivered = foldl (\<lambda>acc n. acc \<or> deliver (fst n) (snd n) delivery) False notifiers in
      if \<not> delivered then d
      else if \<not> up delivery then d
      else foldl (\<lambda>d e. if mark_ok (re_id e) then mark_event_notified d (re_id e) else d) d (delivery_events delivery))"

definition send_all :: "notifier list \<Rightarrow> (delivery \<Rightarrow> bool) \<Rightarrow> (int \<Rightarrow> bool) \<Rightarrow> delivery list \<Rightarrow> tables \<Rightarrow> tables" where
  "send_all notifiers up mark_ok deliveries d = foldl (send_one notifiers up mark_ok) d deliveries"

end
