(* ===== verification/Daemon_Invariant.thy ===== *)
theory Daemon_Invariant
  imports Daemon Sightings
begin

text \<open>
  What the main loop keeps. With a connection that answers, the database shows the sessions and
  stays of the device table after every input, the alerts of the analyzers, the events of people,
  flushes, reconciles and the nightly jobs included; and the registry of people follows the table.
\<close>

subsection \<open>The database follows the loop\<close>

definition world_ok :: "world \<Rightarrow> bool" where
  "world_ok w \<longleftrightarrow> manager_ok (wd_manager w) \<and> tables_ok (wd_tables w)
     \<and> shows_ledger (wd_persister w, wd_tables w) (ledger_of (wd_manager w))"

text \<open>No effect is dropped; everything else may still fail.\<close>

definition records_effects :: "link \<Rightarrow> bool" where
  "records_effects l \<longleftrightarrow> lk_up l = (\<lambda>_. True) \<and> lk_fault l = (\<lambda>_. None)"

lemma healthy_records: "records_effects healthy"
  by (simp add: records_effects_def healthy_def)

lemma apply_db_fields [simp]:
  "wd_manager (fst (apply_db l es w)) = wd_manager w" "wd_registry (fst (apply_db l es w)) = wd_registry w"
  "wd_chain (fst (apply_db l es w)) = wd_chain w" "wd_dedup (fst (apply_db l es w)) = wd_dedup w"
  "wd_last_maintenance (fst (apply_db l es w)) = wd_last_maintenance w"
  by (simp_all add: apply_db_def Let_def case_prod_beta split: sum.split)

lemma apply_db_shows:
  assumes "records_effects l" "tables_ok (wd_tables w)" "shows_ledger (wd_persister w, wd_tables w) L"
    and "spec_run ledger_step L es = Some L'"
  shows "tables_ok (wd_tables (fst (apply_db l es w)))
    \<and> shows_ledger (wd_persister (fst (apply_db l es w)), wd_tables (fst (apply_db l es w))) L'"
proof (cases "es = []")
  case False
  let ?r = "apply_effects (\<lambda>_. None) (wd_persister w, wd_tables w) es"
  have "shows_ledger (fst ?r) L' \<and> (\<exists>rs. snd ?r = Inr rs)"
    using apply_effects_show [OF assms(3,4)] by blast
  moreover have "tables_ok (snd (fst ?r))" using assms(2) by (simp add: tables_ok_effects)
  ultimately show ?thesis using False assms(1)
    by (auto simp: apply_db_def records_effects_def Let_def case_prod_beta split: sum.split)
qed (use assms in \<open>simp add: apply_db_def\<close>)

definition only_events :: "effect list \<Rightarrow> bool" where
  "only_events es \<longleftrightarrow> (\<forall>x \<in> set es. \<exists>ev. x = EventEffect ev)"

lemma event_effect_columns:
  "fst (fst (apply_effect (ids, d) (EventEffect ev))) = ids"
  "ledger_columns (snd (fst (apply_effect (ids, d) (EventEffect ev)))) = ledger_columns d"
  by (simp_all add: case_prod_beta ledger_columns_def insert_event_def)

lemma only_events_columns:
  "only_events es \<Longrightarrow> fst (fst (apply_effects fault st es)) = fst st
     \<and> ledger_columns (snd (fst (apply_effects fault st es))) = ledger_columns (snd st)"
proof (induction es arbitrary: st)
  case (Cons x xs)
  obtain ev where x: "x = EventEffect ev" using Cons.prems by (auto simp: only_events_def)
  have half: "half_applied ids d x n = d" for ids d n by (simp add: x)
  have rest: "only_events xs" using Cons.prems by (simp add: only_events_def)
  note IH = Cons.IH [OF rest, of "fst (apply_effect st x)"]
  show ?case using IH event_effect_columns [of "fst st" "snd st" ev] half
    by (simp add: x case_prod_beta del: apply_effect.simps split: option.split)
qed simp

text \<open>Whatever the connection does, events alone leave what the ledger reads as it is.\<close>

definition same_shown :: "world \<Rightarrow> world \<Rightarrow> bool" where
  "same_shown w w' \<longleftrightarrow> wd_persister w' = wd_persister w \<and> ledger_columns (wd_tables w') = ledger_columns (wd_tables w)
     \<and> (tables_ok (wd_tables w) \<longrightarrow> tables_ok (wd_tables w'))"

lemma same_shown_refl: "same_shown w w"
  by (simp add: same_shown_def)

lemma same_shown_trans: "same_shown u v \<Longrightarrow> same_shown v w \<Longrightarrow> same_shown u w"
  by (simp add: same_shown_def)

lemma same_shown_ledger:
  "same_shown w w' \<Longrightarrow> shows_ledger (wd_persister w', wd_tables w') L = shows_ledger (wd_persister w, wd_tables w) L"
  using shows_ledger_columns [of "wd_tables w'" "wd_tables w"] by (simp add: same_shown_def)

lemma apply_db_events: "only_events es \<Longrightarrow> same_shown w (fst (apply_db l es w))"
  using only_events_columns [of es "lk_fault l" "(wd_persister w, wd_tables w)"]
    tables_ok_effects [of "(wd_persister w, wd_tables w)" "lk_fault l" es]
  by (simp add: apply_db_def same_shown_def Let_def case_prod_beta split: sum.split)

lemma apply_each_events:
  "\<forall>es \<in> set ess. only_events es
     \<Longrightarrow> same_shown w (fst (apply_each l ess w)) \<and> wd_manager (fst (apply_each l ess w)) = wd_manager w
       \<and> wd_registry (fst (apply_each l ess w)) = wd_registry w \<and> wd_dedup (fst (apply_each l ess w)) = wd_dedup w
       \<and> wd_chain (fst (apply_each l ess w)) = wd_chain w"
proof (induction ess arbitrary: w)
  case (Cons es ess)
  have "same_shown w (fst (apply_db l es w))" using Cons.prems by (simp add: apply_db_events)
  moreover have "\<forall>es \<in> set ess. only_events es" using Cons.prems by simp
  note IH = Cons.IH [OF this, of "fst (apply_db l es w)"]
  ultimately show ?case using same_shown_trans by (simp add: case_prod_beta Let_def)
qed (simp add: same_shown_refl)

lemma write_people_columns:
  "ledger_columns (write_people l us d) = ledger_columns d \<and> (tables_ok d \<longrightarrow> tables_ok (write_people l us d))"
proof -
  have step: "ledger_columns (update_person d u) = ledger_columns d \<and> (tables_ok d \<longrightarrow> tables_ok (update_person d u))" for d u
    by (simp add: ledger_columns_def update_person_def tables_ok_def one_open_def)
  have "ledger_columns (foldl (\<lambda>d u. if ok u then update_person d u else d) d us) = ledger_columns d
      \<and> (tables_ok d \<longrightarrow> tables_ok (foldl (\<lambda>d u. if ok u then update_person d u else d) d us))" for ok
    using step by (induction us arbitrary: d) auto
  from this [of "\<lambda>u. lk_person_ok l (pu_item_id u)"] show ?thesis by (simp add: write_people_def)
qed

lemma record_people_shown:
  "same_shown w (fst (record_people l oc w)) \<and> wd_manager (fst (record_people l oc w)) = wd_manager w
     \<and> wd_registry (fst (record_people l oc w)) = wd_registry w"
proof -
  let ?w = "w\<lparr>wd_tables := write_people l (oc_updates oc) (wd_tables w)\<rparr>"
  have "\<forall>es \<in> set (map (person_event_effects (wd_manager ?w)) (oc_events oc)). only_events es"
    by (auto simp: person_event_effects_def only_events_def Let_def)
  note events = apply_each_events [OF this, of ?w l]
  have "same_shown w ?w" using write_people_columns by (simp add: same_shown_def)
  then show ?thesis using events same_shown_refl same_shown_trans
    by (auto simp: record_people_def Let_def)
qed

lemma apply_and_track_shows:
  assumes "records_effects l" "tables_ok (wd_tables w)" "shows_ledger (wd_persister w, wd_tables w) L"
    and "spec_run ledger_step L es = Some L'"
  shows "tables_ok (wd_tables (fst (apply_and_track l es w)))
    \<and> shows_ledger (wd_persister (fst (apply_and_track l es w)), wd_tables (fst (apply_and_track l es w))) L'
    \<and> wd_manager (fst (apply_and_track l es w)) = wd_manager w"
proof -
  let ?w1 = "fst (apply_db l es w)"
  let ?t = "foldl track_presence (wd_registry ?w1, no_outcome) es"
  let ?w2 = "?w1\<lparr>wd_registry := fst ?t\<rparr>"
  note one = apply_db_shows [OF assms]
  note two = record_people_shown [of ?w2 l "snd ?t"]
  have "tables_ok (wd_tables (fst (record_people l (snd ?t) ?w2)))"
    "shows_ledger (wd_persister (fst (record_people l (snd ?t) ?w2)), wd_tables (fst (record_people l (snd ?t) ?w2))) L'"
    using one two same_shown_ledger [of ?w2 "fst (record_people l (snd ?t) ?w2)" L'] by (simp_all add: same_shown_def)
  then show ?thesis using one two by (simp add: apply_and_track_def Let_def case_prod_beta)
qed

text \<open>One operation of the table, as the handlers use it.\<close>

lemma table_op:
  assumes "manager_ok m"
  shows "manager_ok (fst (observe t db m obs))" "manager_ok (fst (add_signal db m mac s now))"
    "manager_ok (fst (set_location m mac place movement tel now))" "manager_ok (fst (Manager.sweep m now))"
    "spec_run ledger_step (ledger_of m) (snd (observe t db m obs)) = Some (ledger_of (fst (observe t db m obs)))"
    "spec_run ledger_step (ledger_of m) (snd (add_signal db m mac s now))
       = Some (ledger_of (fst (add_signal db m mac s now)))"
    "spec_run ledger_step (ledger_of m) (snd (set_location m mac place movement tel now))
       = Some (ledger_of (fst (set_location m mac place movement tel now)))"
    "spec_run ledger_step (ledger_of m) (snd (Manager.sweep m now)) = Some (ledger_of (fst (Manager.sweep m now)))"
  using table.step_ok [OF assms, of t db "Observe obs"] table.step_ok [OF assms, of t db "AddSignal mac s now"]
    table.step_ok [OF assms, of t db "SetLocation mac place movement tel now"]
    table.step_ok [OF assms, of t db "Sweep now"]
    table.step_accepted [OF assms, of t db "Observe obs"] table.step_accepted [OF assms, of t db "AddSignal mac s now"]
    table.step_accepted [OF assms, of t db "SetLocation mac place movement tel now"]
    table.step_accepted [OF assms, of t db "Sweep now"]
  by simp_all

lemma silent_op:
  assumes "manager_ok m"
  shows "manager_ok (fst (apply_user_settings m ss)) \<and> ledger_of (fst (apply_user_settings m ss)) = ledger_of m"
    "manager_ok (fst (take_dirty m)) \<and> ledger_of (fst (take_dirty m)) = ledger_of m"
    "manager_ok (fst (take_reclassifications m)) \<and> ledger_of (fst (take_reclassifications m)) = ledger_of m"
    "manager_ok (end_learning m) \<and> ledger_of (end_learning m) = ledger_of m"
  using table.step_ok [OF assms, of Map.empty sample_db "ApplySettings ss"]
    table.step_ok [OF assms, of Map.empty sample_db TakeDirty]
    table.step_ok [OF assms, of Map.empty sample_db TakeReclassifications]
    table.step_ok [OF assms, of Map.empty sample_db EndLearning]
    table.step_accepted [OF assms, of Map.empty sample_db "ApplySettings ss"]
    table.step_accepted [OF assms, of Map.empty sample_db TakeDirty]
    table.step_accepted [OF assms, of Map.empty sample_db TakeReclassifications]
    table.step_accepted [OF assms, of Map.empty sample_db EndLearning]
  by simp_all

lemma summarise_fields [simp]:
  "wd_manager (summarise f w) = wd_manager w" "wd_registry (summarise f w) = wd_registry w"
  "wd_dedup (summarise f w) = wd_dedup w" "wd_chain (summarise f w) = wd_chain w"
  "world_ok (summarise f w) = world_ok w"
  by (simp_all add: world_ok_def summarise_def)

lemma world_ok_asked [simp]:
  "wd_manager (ask_reverse se obs w) = wd_manager w" "wd_registry (ask_reverse se obs w) = wd_registry w"
  "world_ok (ask_reverse se obs w) = world_ok w"
  by (simp_all add: ask_reverse_def world_ok_def split: option.split ip_addr.split)

lemma world_ok_parts [simp]:
  "world_ok (w\<lparr>wd_summary := su\<rparr>) = world_ok w"
  "world_ok (w\<lparr>wd_registry := r\<rparr>) = world_ok w" "world_ok (w\<lparr>wd_chain := ch\<rparr>) = world_ok w"
  "world_ok (w\<lparr>wd_dedup := dd\<rparr>) = world_ok w" "world_ok (w\<lparr>wd_last_maintenance := lm\<rparr>) = world_ok w"
  by (simp_all add: world_ok_def)

lemma world_ok_shown:
  "world_ok w \<Longrightarrow> same_shown w w' \<Longrightarrow> wd_manager w' = wd_manager w \<Longrightarrow> world_ok w'"
  using same_shown_ledger [of w w'] by (simp add: world_ok_def same_shown_def)

lemma alerts_events: "only_events (security_event t m al)"
  by (simp add: security_event_def only_events_def Let_def)

lemma record_alerts_shown:
  "same_shown w (fst (record_alerts l t alerts w)) \<and> wd_manager (fst (record_alerts l t alerts w)) = wd_manager w
     \<and> wd_registry (fst (record_alerts l t alerts w)) = wd_registry w"
  using apply_each_events [of "map (security_event t (wd_manager w)) alerts" w l] alerts_events
  by (simp add: record_alerts_def)

lemma record_alerts_ok:
  assumes "world_ok w"
  shows "world_ok (fst (record_alerts l t alerts (w\<lparr>wd_chain := ch\<rparr>)))"
proof -
  note shown = record_alerts_shown [of "w\<lparr>wd_chain := ch\<rparr>" l t alerts]
  have "world_ok (w\<lparr>wd_chain := ch\<rparr>)" using assms by simp
  from world_ok_shown [OF this conjunct1 [OF shown] conjunct1 [OF conjunct2 [OF shown]]] show ?thesis .
qed

lemma feed_reclassifications_ok:
  "world_ok w \<Longrightarrow> world_ok (fst (feed_reclassifications l t cs w))
     \<and> wd_manager (fst (feed_reclassifications l t cs w)) = wd_manager w
     \<and> wd_registry (fst (feed_reclassifications l t cs w)) = wd_registry w"
proof (induction cs arbitrary: w)
  case (Cons c cs)
  let ?r = "chain_reclassified (wd_chain w) c"
  let ?w1 = "fst (record_alerts l t (fst ?r) (w\<lparr>wd_chain := snd ?r\<rparr>))"
  note shown = record_alerts_shown [of "w\<lparr>wd_chain := snd ?r\<rparr>" l t "fst ?r"]
  have "world_ok ?w1" using Cons.prems by (rule record_alerts_ok)
  from Cons.IH [OF this] shown show ?case by (simp add: case_prod_beta Let_def)
qed simp

lemma drain_reclassifications_ok:
  assumes "world_ok w"
  shows "world_ok (fst (drain_reclassifications l t w))
    \<and> ledger_of (wd_manager (fst (drain_reclassifications l t w))) = ledger_of (wd_manager w)
    \<and> wd_registry (fst (drain_reclassifications l t w)) = wd_registry w"
proof -
  have "manager_ok (wd_manager w)" using assms by (simp add: world_ok_def)
  note m = silent_op(3) [OF this]
  have "world_ok (w\<lparr>wd_manager := fst (take_reclassifications (wd_manager w))\<rparr>)"
    using assms m by (simp add: world_ok_def)
  from feed_reclassifications_ok [OF this] m show ?thesis
    by (simp add: drain_reclassifications_def case_prod_beta)
qed

lemma analyze_ok:
  assumes "world_ok w"
  shows "world_ok (fst (analyze l t obs w))
    \<and> ledger_of (wd_manager (fst (analyze l t obs w))) = ledger_of (wd_manager w)
    \<and> wd_registry (fst (analyze l t obs w)) = wd_registry w"
proof -
  let ?c = "chain_observe (wd_chain w) obs"
  let ?w1 = "fst (record_alerts l t (fst ?c) (w\<lparr>wd_chain := snd ?c\<rparr>))"
  note shown = record_alerts_shown [of "w\<lparr>wd_chain := snd ?c\<rparr>" l t "fst ?c"]
  have "world_ok ?w1" using assms by (rule record_alerts_ok)
  from drain_reclassifications_ok [OF this, of l t] shown show ?thesis
    by (simp add: analyze_def case_prod_beta Let_def)
qed

lemma track_op_ok:
  assumes ok: "world_ok w" "records_effects l"
    and "manager_ok m" "spec_run ledger_step (ledger_of (wd_manager w)) es = Some (ledger_of m)"
  shows "world_ok (fst (apply_and_track l es (w\<lparr>wd_manager := m\<rparr>)))"
  using apply_and_track_shows [OF ok(2), of "w\<lparr>wd_manager := m\<rparr>" "ledger_of (wd_manager w)" es "ledger_of m"] assms
  by (simp add: world_ok_def)

lemma apply_op_ok:
  assumes ok: "world_ok w" "records_effects l"
    and "manager_ok m" "spec_run ledger_step (ledger_of (wd_manager w)) es = Some (ledger_of m)"
  shows "world_ok (fst (apply_db l es (w\<lparr>wd_manager := m\<rparr>)))"
  using apply_db_shows [OF ok(2), of "w\<lparr>wd_manager := m\<rparr>" "ledger_of (wd_manager w)" es "ledger_of m"] assms
  by (simp add: world_ok_def)

lemma on_admitted_ok: "world_ok w \<Longrightarrow> records_effects l \<Longrightarrow> world_ok (on_admitted se l obs w)"
proof -
  assume ok: "world_ok w" "records_effects l"
  define w1 where "w1 = ask_reverse se obs (summarise (\<lambda>s. s\<lparr>rs_observations := rs_observations s + 1\<rparr>) w)"
  have w1: "world_ok w1" "wd_manager w1 = wd_manager w" "wd_registry w1 = wd_registry w"
    using ok(1) by (simp_all add: w1_def)
  have w2: "world_ok (w1\<lparr>wd_registry := device_seen (wd_registry w) (obs_mac obs) (obs_at obs)\<rparr>)" (is "world_ok ?w2")
    using w1(1) by simp
  have "manager_ok (wd_manager ?w2)" using w2 by (simp add: world_ok_def)
  note table = table_op(1,5) [OF this, of "se_vendors se" "se_fingerprints se" obs]
  from track_op_ok [OF w2 ok(2) table] show ?thesis
    by (simp add: on_admitted_def Let_def case_prod_beta w1_def [symmetric] w1)
qed

lemma on_observation_ok: "world_ok w \<Longrightarrow> records_effects l \<Longrightarrow> world_ok (on_observation se l obs w)"
proof -
  assume ok: "world_ok w" "records_effects l"
  let ?w = "summarise (count_source (obs_source obs)) w"
  let ?w2 = "?w\<lparr>wd_dedup := fst (admit (se_hash se) (wd_dedup ?w) obs)\<rparr>"
  let ?w3 = "if snd (admit (se_hash se) (wd_dedup ?w) obs) then on_admitted se l obs ?w2 else ?w2"
  have "world_ok ?w2" using ok(1) by simp
  then have "world_ok ?w3" using on_admitted_ok ok(2) by simp
  from analyze_ok [OF this] show ?thesis
    by (simp add: on_observation_def Let_def case_prod_beta)
qed

lemma on_signal_ok: "world_ok w \<Longrightarrow> records_effects l \<Longrightarrow> world_ok (on_signal se l mac s now w)"
proof -
  assume ok: "world_ok w" "records_effects l"
  have m: "manager_ok (wd_manager w)" using ok(1) by (simp add: world_ok_def)
  note w1 = apply_op_ok [OF ok table_op(2,6) [OF m]]
  show ?thesis
    using drain_reclassifications_ok [of "summarise f (fst (apply_db l es w'))" for f es w'] w1
    by (simp add: on_signal_def Let_def case_prod_beta)
qed

lemma on_sweep_ok: "world_ok w \<Longrightarrow> records_effects l \<Longrightarrow> world_ok (on_sweep l now w)"
proof -
  assume ok: "world_ok w" "records_effects l"
  have m: "manager_ok (wd_manager w)" using ok(1) by (simp add: world_ok_def)
  show ?thesis using track_op_ok [OF ok table_op(4,8) [OF m]]
    by (simp add: on_sweep_def Let_def case_prod_beta)
qed

lemma apply_enrichment_ok:
  "world_ok (fst acc) \<Longrightarrow> records_effects l \<Longrightarrow> world_ok (fst (apply_enrichment l lc aps now e acc))"
proof (cases acc)
  case (Pair w ad)
  assume ok: "world_ok (fst acc)" "records_effects l"
  show ?thesis
  proof (cases "en_ap_name e")
    case None
    then show ?thesis using ok Pair by (simp add: apply_enrichment_def)
  next
    case (Some ap)
    have w: "world_ok w" using ok(1) Pair by simp
    then have m: "manager_ok (wd_manager w)" by (simp add: world_ok_def)
    define place where "place = place_override e (place_of lc aps ap)"
    define movement where "movement = movement_of lc aps (current_ap (wd_manager w) (en_mac e)) (pl_ap_name place)"
    obtain m' es where set: "set_location (wd_manager w) (en_mac e) place movement (telemetry e) now = (m', es)"
      by fastforce
    have m': "manager_ok m'" "spec_run ledger_step (ledger_of (wd_manager w)) es = Some (ledger_of m')"
      using table_op(3,7) [OF m, of "en_mac e" place movement "telemetry e" now] by (simp_all add: set)
    note w2 = apply_op_ok [OF w ok(2) m']
    show ?thesis
    proof (cases "es = []")
      case True
      then show ?thesis using w2 by (simp add: apply_enrichment_def Pair Some place_def [symmetric]
            movement_def [symmetric] set apply_db_def)
    next
      case False
      then show ?thesis using w2 by (simp add: apply_enrichment_def Pair Some place_def [symmetric]
            movement_def [symmetric] set Let_def case_prod_beta)
    qed
  qed
qed

lemma apply_enrichments_ok:
  "world_ok w \<Longrightarrow> records_effects l \<Longrightarrow> world_ok (fst (apply_enrichments l lc aps es now w))"
proof -
  assume ok: "world_ok w" "records_effects l"
  have "world_ok (fst acc) \<Longrightarrow> world_ok (fst (fold (apply_enrichment l lc aps now) es acc))" for acc
    by (induction es arbitrary: acc) (simp_all add: apply_enrichment_ok ok(2))
  from this [of "(w, \<lparr>ad_locations = 0, ad_events = 0, ad_outcome = no_outcome\<rparr>)"] ok(1)
  have fold: "world_ok (fst (fold (apply_enrichment l lc aps now) es
      (w, \<lparr>ad_locations = 0, ad_events = 0, ad_outcome = no_outcome\<rparr>)))" by simp
  show ?thesis
    using world_ok_shown [OF fold, of "fst (record_people l oc _)" for oc] record_people_shown
    by (simp add: apply_enrichments_def Let_def case_prod_beta)
qed

text \<open>A flush rewrites columns the ledger does not read, and adds to counts.\<close>

definition row_keys :: "tables \<Rightarrow> (int \<times> string) list" where
  "row_keys d = map (\<lambda>r. (rw_id r, rw_mac r)) (tb_devices d)"

lemma db_ok_row_keys:
  "db_ok ids d \<longleftrightarrow> distinct (map fst (row_keys d)) \<and> distinct (map snd (row_keys d))
     \<and> (\<forall>k \<in> set (row_keys d). fst k < tb_device_seq d \<and> (\<exists>mac. snd k = show_mac mac \<and> ids mac = Some (fst k)))
     \<and> (\<forall>mac i. ids mac = Some i \<longrightarrow> (i, show_mac mac) \<in> set (row_keys d))
     \<and> (\<forall>i \<in> open_ids d. i < tb_device_seq d) \<and> (\<forall>i ap. stay_at d i = Some ap \<longrightarrow> i < tb_device_seq d)
     \<and> one_open d"
proof -
  have ids: "map fst (row_keys d) = map rw_id (tb_devices d)" "map snd (row_keys d) = map rw_mac (tb_devices d)"
    by (simp_all add: row_keys_def)
  have mem: "(i, m) \<in> set (row_keys d) \<longleftrightarrow> (\<exists>r \<in> set (tb_devices d). rw_id r = i \<and> rw_mac r = m)" for i m
    by (auto simp: row_keys_def)
  have all: "(\<forall>k \<in> set (row_keys d). P (fst k) (snd k)) \<longleftrightarrow> (\<forall>r \<in> set (tb_devices d). P (rw_id r) (rw_mac r))" for P
    by (simp add: row_keys_def)
  show ?thesis
    unfolding db_ok_def ids mem
      all [of "\<lambda>a b. a < tb_device_seq d \<and> (\<exists>mac. b = show_mac mac \<and> ids mac = Some a)"] ..
qed

lemma shows_ledger_keys:
  assumes "row_keys d' = row_keys d" "tb_device_seq d' = tb_device_seq d" "open_ids d' = open_ids d"
    and "stay_at d' = stay_at d" "one_open d' = one_open d"
  shows "shows_ledger (ids, d') L = shows_ledger (ids, d) L"
  by (simp add: shows_ledger_def db_ok_row_keys ledger_of_db_def assms)

lemma update_device_shows: "shows_ledger (ids, update_device d u) L = shows_ledger (ids, d) L"
proof (rule shows_ledger_keys)
  show "row_keys (update_device d u) = row_keys d"
    by (auto simp: row_keys_def update_device_def updated_row_def)
qed (simp_all add: update_device_def open_ids_def stay_at_def one_open_def fun_eq_iff)

lemma bump_presence_shows: "shows_ledger (ids, bump_presence d i n) L = shows_ledger (ids, d) L"
proof (rule shows_ledger_keys)
  have sub: "filter (session_open j) (map (\<lambda>r. if session_open i r
      then r\<lparr>pr_observation_count := pr_observation_count r + n\<rparr> else r) rs)
    = map (\<lambda>r. if session_open i r then r\<lparr>pr_observation_count := pr_observation_count r + n\<rparr> else r)
        (filter (session_open j) rs)" for j rs
    by (induction rs) auto
  show "one_open (bump_presence d i n) = one_open d" by (simp add: one_open_def bump_presence_def sub)
  have "j \<in> open_ids d \<longleftrightarrow> filter (session_open j) (tb_presence d) \<noteq> []" for j d
    by (auto simp: open_ids_def filter_empty_conv)
  then show "open_ids (bump_presence d i n) = open_ids d"
    using sub by (simp add: set_eq_iff bump_presence_def)
qed (simp_all add: bump_presence_def row_keys_def stay_at_def fun_eq_iff)

lemma flush_shows: "shows_ledger (ids, fst (flush fault ids d snapshots)) L = shows_ledger (ids, d) L"
proof (induction snapshots arbitrary: d)
  case (Cons s ss)
  have "shows_ledger (ids, fst (flush_snapshot ids f s d)) L = shows_ledger (ids, d) L" for f
    by (simp add: flush_snapshot_def Let_def update_device_shows bump_presence_shows split: option.split)
  then show ?case using Cons.IH by (simp split: prod.split bool.split) (metis fst_conv)
qed simp

lemma flush_devices_ok: "world_ok w \<Longrightarrow> world_ok (flush_devices l w)"
proof -
  assume ok: "world_ok w"
  let ?w = "w\<lparr>wd_manager := fst (take_dirty (wd_manager w))\<rparr>"
  have w: "world_ok ?w" using ok silent_op(2) [of "wd_manager w"] by (simp add: world_ok_def)
  have "world_ok (?w\<lparr>wd_tables := fst (flush f (wd_persister w) (wd_tables w) ss)\<rparr>)" for f ss
    using w tables_ok_flush [of "wd_tables w" f "wd_persister w" ss] flush_shows [of "wd_persister w" f "wd_tables w" ss]
    by (simp add: world_ok_def)
  then show ?thesis using w by (simp add: flush_devices_def Let_def case_prod_beta)
qed

lemma reconcile_user_state_ok: "world_ok w \<Longrightarrow> world_ok (reconcile_user_state l dbg before w)"
proof -
  assume ok: "world_ok w"
  have "world_ok (w\<lparr>wd_manager := fst (apply_user_settings (wd_manager w) ss)\<rparr>)" for ss
    using ok silent_op(1) [of "wd_manager w" ss] by (simp add: world_ok_def)
  then have "world_ok (w\<lparr>wd_manager := fst (apply_user_settings (wd_manager w) ss), wd_registry := r\<rparr>)" for ss r
    using world_ok_parts(2) by blast
  then show ?thesis using ok
    by (simp add: reconcile_user_state_def Let_def case_prod_beta split: option.split)
qed

lemma on_maintenance_ok: "world_ok w \<Longrightarrow> world_ok (on_maintenance se l now w)"
proof -
  assume ok: "world_ok w"
  let ?w = "w\<lparr>wd_last_maintenance := Some now\<rparr>"
  have tables: "tables_ok (wd_tables w)" using ok by (simp add: world_ok_def)
  note run = run_keeps_columns [OF tables, of "lk_maintenance_fault l" "se_maintenance se" now]
  have "world_ok (?w\<lparr>wd_tables := fst (run (lk_maintenance_fault l) (wd_tables w) (se_maintenance se) now)\<rparr>)"
    using ok run shows_ledger_columns [OF conjunct2 [OF run]] by (simp add: world_ok_def)
  then show ?thesis using ok by (simp add: on_maintenance_def run_maintenance_def)
qed

lemma on_enriched_ok: "world_ok w \<Longrightarrow> records_effects l \<Longrightarrow> world_ok (on_enriched se l es now w)"
  by (simp add: on_enriched_def case_prod_beta apply_enrichments_ok)

lemma daemon_step_ok:
  assumes "world_ok w" "records_effects l"
  shows "world_ok (daemon_step se w (l, i))"
  using assms silent_op(4) [of "wd_manager w"]
  by (cases i)
    (simp_all add: on_observation_ok on_signal_ok on_sweep_ok flush_devices_ok reconcile_user_state_ok
      on_enriched_ok on_maintenance_ok world_ok_def [of "w\<lparr>wd_manager := _\<rparr>"] world_ok_def [of w])

lemma daemon_run_ok:
  "world_ok w \<Longrightarrow> \<forall>x \<in> set inputs. records_effects (fst x) \<Longrightarrow> world_ok (daemon_run se w inputs)"
proof (induction inputs arbitrary: w)
  case (Cons x xs)
  obtain l i where x: "x = (l, i)" by fastforce
  have "world_ok (daemon_step se w x)" using Cons.prems by (simp add: x daemon_step_ok)
  from Cons.IH [OF this] Cons.prems show ?case by (simp add: daemon_run_def)
qed (simp add: daemon_run_def)

text \<open>
  C4: the database follows the daemon. Start from any state in which the tables show the sessions
  and stays of the device table, and feed the loop any inputs at all: observations, names, sweeps,
  flushes, reconciles, enrichments, nightly jobs, the end of learning. As long as no effect is
  dropped, the tables show those of the device table afterwards: the rows known, the sessions open
  and the stays open are exactly the devices, the devices not offline and the access points the
  daemon believes in, and no device has two open sessions. The writing of people, the flushes, the
  reading of settings and the jobs may fail in any way on the road.
\<close>

theorem database_follows_daemon:
  assumes "manager_ok (wd_manager w)" "tables_ok (wd_tables w)"
    and "shows_ledger (wd_persister w, wd_tables w) (ledger_of (wd_manager w))"
    and "\<forall>(l, i) \<in> set inputs. records_effects l"
  shows "manager_ok (wd_manager (daemon_run se w inputs)) \<and> tables_ok (wd_tables (daemon_run se w inputs))
    \<and> shows_ledger (wd_persister (daemon_run se w inputs), wd_tables (daemon_run se w inputs))
        (ledger_of (wd_manager (daemon_run se w inputs)))"
proof -
  have "\<forall>x \<in> set inputs. records_effects (fst x)" using assms(4) by auto
  from daemon_run_ok [OF _ this] assms(1-3) show ?thesis by (simp add: world_ok_def)
qed

text \<open>The first start, on an empty database.\<close>

definition fresh_world :: world where
  "fresh_world =
     the (startup (\<lambda>s. s) (\<lambda>_. []) (\<lambda>_. True) (\<lambda>_ _. False) True True default_config False 0 empty_tables)"

lemma fresh_world_fields:
  "wd_manager fresh_world = new_manager default_state True" "wd_persister fresh_world = Map.empty"
  "wd_tables fresh_world = empty_tables"
  by (simp_all add: fresh_world_def startup_def load_devices_def empty_tables_def default_config_def
      build_registry_def close_stale_location_stays_def default_learning_def restore_def seed_persister_def Let_def)

lemma fresh_world_ok: "world_ok fresh_world"
  using empty_shows [of default_state True]
  by (simp add: world_ok_def fresh_world_fields new_manager_ok tables_ok_empty)

definition no_setting :: setting where
  "no_setting =
     \<lparr>se_vendors = Map.empty, se_fingerprints = sample_db, se_hash = (\<lambda>_ _ _. 0), se_lowercase = (\<lambda>s. s),
      se_debug = (\<lambda>s. s), se_collation = (\<lambda>_ _. False),
      se_places = \<lparr>lm_locations = [], lm_edge_aps = {}\<rparr>, se_maintenance = default_maintenance,
      se_offset = 0, se_resolver = False\<rparr>"

theorem database_follows_daemon_witness:
  "shows_ledger
     (wd_persister (daemon_run no_setting fresh_world
        [(healthy, InObservation sample_sighting), (healthy\<lparr>lk_flush_up := False\<rparr>, InFlush),
         (healthy\<lparr>lk_people_up := False\<rparr>, InSweep 99)]),
      wd_tables (daemon_run no_setting fresh_world
        [(healthy, InObservation sample_sighting), (healthy\<lparr>lk_flush_up := False\<rparr>, InFlush),
         (healthy\<lparr>lk_people_up := False\<rparr>, InSweep 99)]))
     (ledger_of (wd_manager (daemon_run no_setting fresh_world
        [(healthy, InObservation sample_sighting), (healthy\<lparr>lk_flush_up := False\<rparr>, InFlush),
         (healthy\<lparr>lk_people_up := False\<rparr>, InSweep 99)])))"
  using database_follows_daemon [of fresh_world "[(healthy, InObservation sample_sighting),
      (healthy\<lparr>lk_flush_up := False\<rparr>, InFlush), (healthy\<lparr>lk_people_up := False\<rparr>, InSweep 99)]" no_setting]
    fresh_world_ok
  by (simp add: world_ok_def records_effects_def healthy_def)

subsection \<open>A flush that fails\<close>

text \<open>
  What a flush without a connection was to write is forgotten. The devices are marked clean
  before the connection is asked for, so the next flush, however healthy, writes nothing of them:
  their rows keep the old state, addresses and names until something about the device changes again.
\<close>

theorem failed_flush_is_lost:
  assumes "\<not> lk_flush_up l"
  shows "wd_tables (flush_devices l' (flush_devices l w)) = wd_tables w"
proof -
  have clean: "snd (take_dirty (fst (take_dirty m))) = []" for m
    by (auto simp: take_dirty_def filter_empty_conv split: if_splits)
  show ?thesis using assms clean [of "wd_manager w"]
    by (simp add: flush_devices_def Let_def case_prod_beta)
qed

theorem failed_flush_is_lost_witness:
  "wd_tables (flush_devices healthy (flush_devices (healthy\<lparr>lk_flush_up := False\<rparr>) (on_observation no_setting healthy sample_sighting fresh_world)))
     = wd_tables (on_observation no_setting healthy sample_sighting fresh_world)"
  by (rule failed_flush_is_lost) (simp add: healthy_def)

end
