(* ===== verification/Udp_Frames.thy ===== *)
theory Udp_Frames
  imports ArpFrames Names
begin

text \<open>
  Frames for the examples of the sources that read UDP: an Ethernet frame with an IPv4 header and a
  datagram in it, and what the framing layer makes of one.
\<close>

definition ipv4_udp :: "u16 \<Rightarrow> byte list \<Rightarrow> byte list" where
  "ipv4_udp port payload =
     [0x45, 0, 0xFF, 0xFF, 0, 0, 0, 0, 64, 17, 0, 0, 10, 0, 0, 9, 10, 0, 0, 1]
     @ [0, 1, word_of_nat (unat port div 256), word_of_nat (unat port mod 256), 0xFF, 0xFF, 0, 0] @ payload"

definition udp_frame :: "mac_addr \<Rightarrow> u16 \<Rightarrow> byte list \<Rightarrow> byte list" where
  "udp_frame src port payload = octets BROADCAST @ octets src @ [8, 0] @ ipv4_udp port payload"

lemma be16_of_port: "be16 (word_of_nat (unat port div 256)) (word_of_nat (unat port mod 256)) = port"
proof -
  have "unat port < 65536" using unsigned_less [where 'a = nat, of port] by simp
  then have "unat (word_of_nat (unat port div 256) :: byte) = unat port div 256"
    "unat (word_of_nat (unat port mod 256) :: byte) = unat port mod 256"
    by (simp_all add: unat_of_nat)
  then show ?thesis by (simp add: be16_def)
qed

lemma udp_frame_ethernet:
  "parse_ethernet (udp_frame src port payload)
     = Some \<lparr>eth_dst = BROADCAST, eth_src = src, eth_type = ETHERTYPE_IPV4, eth_payload = ipv4_udp port payload\<rparr>"
proof -
  have "\<not> is_tag (be16 8 0)" by (simp add: is_tag_def be16_def ETHERTYPE_VLAN_def ETHERTYPE_QINQ_def)
  then show ?thesis using parse_ethernet_plain [of 8 0 BROADCAST src "ipv4_udp port payload"]
    by (simp add: udp_frame_def be16_def ETHERTYPE_IPV4_def)
qed

lemma udp_frame_ip:
  assumes "length payload \<le> 65000"
  shows "\<exists>ip. parse_ipv4 (ipv4_udp port payload) = Some ip \<and> ip_protocol ip = IPPROTO_UDP
    \<and> ip_src ip = V4 (Ipv4Addr 10 0 0 9)
    \<and> parse_udp (ip_payload ip) = Some \<lparr>udp_src_port = 1, udp_dst_port = port, udp_payload = payload\<rparr>"
proof -
  have "drop_bit 4 (0x45 :: byte) = 4" "unat ((0x45 :: byte) AND 0x0f) = 5" by code_simp+
  moreover have "unat (be16 0xFF 0xFF) = 65535" "be16 0 0 = 0" "be16 0 1 = 1" by (simp_all add: unat_be16 be16_def)
  ultimately show ?thesis using assms be16_of_port [of port]
    by (simp add: parse_ipv4_def parse_udp_def ipv4_udp_def read_u16_Some slice_def clamp_def byte_at_def read_u16_def
        IPPROTO_UDP_def Let_def)
qed

end
