(* ===== verification/Nbns.thy ===== *)
theory Nbns
  imports Udp_Frames
begin

text \<open>
  \<^verbatim>\<open>src/capture/nbns.rs\<close>: NetBIOS names off the wire. A Name Service message names the sender only
  when it claims or answers; a datagram names its sender and the workgroup it is addressed to.
\<close>

definition NBNS_SOURCE :: string where "NBNS_SOURCE = ''nbns''"
definition NAME_PORT :: u16 where "NAME_PORT = 137"
definition DATAGRAM_PORT :: u16 where "DATAGRAM_PORT = 138"
definition ENCODED_NAME_LEN :: nat where "ENCODED_NAME_LEN = 34"
definition ENCODED_LABEL_LEN :: byte where "ENCODED_LABEL_LEN = 32"
definition DGM_SOURCE_NAME :: nat where "DGM_SOURCE_NAME = 14"
definition DGM_DEST_NAME :: nat where "DGM_DEST_NAME = DGM_SOURCE_NAME + ENCODED_NAME_LEN"
definition OP_QUERY :: u16 where "OP_QUERY = 0"
definition OP_REGISTRATION :: u16 where "OP_REGISTRATION = 5"
definition OP_REFRESH :: u16 where "OP_REFRESH = 8"
definition OP_REFRESH_ALT :: u16 where "OP_REFRESH_ALT = 9"

definition MSBROWSE :: string where
  "MSBROWSE = [chr 1, chr 2] @ ''__MSBROWSE__'' @ [chr 2]"

datatype name_scope = ScopeMachine | ScopeWorkgroup | ScopeOther

record netbios_name =
  nb_name :: string
  nb_suffix :: byte

definition scope :: "netbios_name \<Rightarrow> name_scope" where
  "scope n =
     (if nb_suffix n \<in> {0x00, 0x03, 0x20} then ScopeMachine
      else if 0x1b \<le> nb_suffix n \<and> nb_suffix n \<le> 0x1e then ScopeWorkgroup
      else ScopeOther)"

subsection \<open>The encoding\<close>

definition nibble :: "byte \<Rightarrow> byte option" where
  "nibble c = (if 65 \<le> c \<and> c \<le> 90 \<and> c \<le> 80 then Some (c - 65) else None)"

text \<open>The loop over the pairs of encoded characters.\<close>

fun decode_pairs :: "byte list \<Rightarrow> byte list option" where
  "decode_pairs (hi # lo # rest) =
     do { h \<leftarrow> nibble hi; l \<leftarrow> nibble lo; decoded \<leftarrow> decode_pairs rest;
          Some ((push_bit 4 h OR l) # decoded) }" |
  "decode_pairs _ = Some []"

definition decode_name_at :: "byte list \<Rightarrow> nat \<Rightarrow> netbios_name option" where
  "decode_name_at buf offset =
     do {
       len \<leftarrow> byte_at buf offset;
       if len \<noteq> ENCODED_LABEL_LEN then None
       else do {
         encoded \<leftarrow> slice buf (offset + 1) (offset + 1 + 32);
         decoded \<leftarrow> decode_pairs encoded;
         let name = trim_end (from_utf8_lossy (take 15 decoded)) in
         if name = [] then None else Some \<lparr>nb_name = name, nb_suffix = decoded ! 15\<rparr>
       }
     }"

definition byte_of :: "char \<Rightarrow> byte" where
  "byte_of c = word_of_nat (ordc c)"

definition encode_name :: "string \<Rightarrow> byte \<Rightarrow> byte list" where
  "encode_name name suf =
     (let raw = take 15 (map byte_of name @ replicate 15 32) @ [suf] in
      ENCODED_LABEL_LEN # concat (map (\<lambda>b. [65 + drop_bit 4 b, 65 + (b AND 0x0f)]) raw) @ [0])"

subsection \<open>Messages\<close>

definition claims_the_name :: "u16 \<Rightarrow> bool \<Rightarrow> bool" where
  "claims_the_name opcode is_response \<longleftrightarrow>
     (if opcode \<in> {OP_REGISTRATION, OP_REFRESH, OP_REFRESH_ALT} then True
      else if opcode = OP_QUERY then is_response else False)"

definition parse_name_service :: "byte list \<Rightarrow> (observation_kind \<times> netbios_name list) option" where
  "parse_name_service buf =
     (if length buf < 12 then None
      else
        (let flags = be16 (buf ! 2) (buf ! 3);
             is_response = (flags AND 0x8000 \<noteq> 0);
             opcode = drop_bit 11 flags AND 0x0f;
             qdcount = be16 (buf ! 4) (buf ! 5);
             ancount = be16 (buf ! 6) (buf ! 7) in
         if qdcount = 0 \<and> ancount = 0 then None
         else do {
           name \<leftarrow> decode_name_at buf 12;
           Some (if is_response then ObsReply else if opcode = OP_QUERY then ObsQuery else ObsAnnouncement,
                 if claims_the_name opcode is_response \<and> nb_name name \<noteq> MSBROWSE then [name] else [])
         }))"

definition datagram_names :: "byte list \<Rightarrow> netbios_name list" where
  "datagram_names buf =
     (case decode_name_at buf DGM_SOURCE_NAME of
        Some source \<Rightarrow> if nb_name source \<noteq> MSBROWSE then [source] else [] | None \<Rightarrow> [])
     @ (case decode_name_at buf DGM_DEST_NAME of
          Some dest \<Rightarrow> if scope dest = ScopeWorkgroup \<and> nb_name dest \<noteq> MSBROWSE then [dest] else []
        | None \<Rightarrow> [])"

definition parse_datagram_service :: "byte list \<Rightarrow> (observation_kind \<times> netbios_name list) option" where
  "parse_datagram_service buf =
     do {
       msg_type \<leftarrow> byte_at buf 0;
       if msg_type \<notin> {0x10, 0x11, 0x12} then None
       else if length buf < DGM_DEST_NAME + ENCODED_NAME_LEN then None
       else (let names = datagram_names buf in
             if names = [] then None else Some (ObsAnnouncement, names))
     }"

definition names_of :: "udp_datagram \<Rightarrow> (observation_kind \<times> netbios_name list) option" where
  "names_of udp =
     (if udp_src_port udp = NAME_PORT \<or> udp_dst_port udp = NAME_PORT
      then parse_name_service (udp_payload udp)
      else if udp_src_port udp = DATAGRAM_PORT \<or> udp_dst_port udp = DATAGRAM_PORT
      then parse_datagram_service (udp_payload udp)
      else None)"

definition add_name :: "netbios_name \<Rightarrow> observation \<Rightarrow> observation" where
  "add_name name obs =
     (case (case scope name of ScopeMachine \<Rightarrow> Some NetbiosName | ScopeWorkgroup \<Rightarrow> Some NetbiosWorkgroup
            | ScopeOther \<Rightarrow> None) of
        None \<Rightarrow> obs
      | Some kind \<Rightarrow>
          (case clean_name (nb_name name) of
             Some clean \<Rightarrow> with_signal obs (Signal kind clean) | None \<Rightarrow> obs))"

definition parse_nbns :: "byte list \<Rightarrow> string \<Rightarrow> time \<Rightarrow> observation option" where
  "parse_nbns bytes interface ts =
     do {
       frame \<leftarrow> parse_ethernet bytes;
       if eth_type frame \<noteq> ETHERTYPE_IPV4 then None
       else do {
         ip \<leftarrow> parse_ipv4 (eth_payload frame);
         if ip_protocol ip \<noteq> IPPROTO_UDP then None
         else do {
           udp \<leftarrow> parse_udp (ip_payload ip);
           if is_group (eth_src frame) \<or> is_zero (eth_src frame) then None
           else do {
             (kind, names) \<leftarrow> names_of udp;
             Some (fold add_name names
               (new_observation (eth_src frame) (Some (ip_src ip)) interface NBNS_SOURCE kind ts))
           } } } }"

subsection \<open>Only a claim is a sighting of a name\<close>

lemma fold_add_name [simp]:
  "obs_mac (fold add_name names obs) = obs_mac obs" "obs_interface (fold add_name names obs) = obs_interface obs"
  "obs_at (fold add_name names obs) = obs_at obs" "obs_source (fold add_name names obs) = obs_source obs"
  "obs_kind (fold add_name names obs) = obs_kind obs" "obs_ip (fold add_name names obs) = obs_ip obs"
  by (induction names arbitrary: obs)
    (simp_all add: add_name_def with_signal_def split: option.split name_scope.split)

definition netbios_signal :: "signal \<Rightarrow> bool" where
  "netbios_signal s \<longleftrightarrow> sig_kind s \<in> {NetbiosName, NetbiosWorkgroup} \<and> showable (sig_value s)
     \<and> \<not> list_all is_address_char (sig_value s)"

lemma fold_add_name_signals:
  "\<forall>s \<in> set (obs_signals obs). netbios_signal s \<Longrightarrow> \<forall>s \<in> set (obs_signals (fold add_name names obs)). netbios_signal s"
proof (induction names arbitrary: obs)
  case (Cons n names)
  have "\<forall>s \<in> set (obs_signals (add_name n obs)). netbios_signal s"
    using Cons.prems clean_name_Some
    by (auto simp: add_name_def with_signal_def netbios_signal_def Signal_def split: option.split name_scope.split)
  then show ?case using Cons.IH by simp
qed simp

lemma parse_nbns_Some:
  assumes "parse_nbns bytes interface ts = Some obs"
  shows "\<exists>(frame :: ethernet_frame) (ip :: ip_header) (udp :: udp_datagram) kind names. usable (eth_src frame)
    \<and> (parse_name_service (udp_payload udp) = Some (kind, names)
       \<or> parse_datagram_service (udp_payload udp) = Some (kind, names))
    \<and> obs = fold add_name names
       (new_observation (eth_src frame) (Some (ip_src ip)) interface NBNS_SOURCE kind ts)"
proof -
  obtain frame where frame: "parse_ethernet bytes = Some frame" "eth_type frame = ETHERTYPE_IPV4"
    using assms by (auto simp: parse_nbns_def bind_eq_Some_conv split: if_splits)
  then obtain ip where ip: "parse_ipv4 (eth_payload frame) = Some ip" "ip_protocol ip = IPPROTO_UDP"
    using assms by (auto simp: parse_nbns_def bind_eq_Some_conv split: if_splits)
  from frame ip obtain udp where udp: "parse_udp (ip_payload ip) = Some udp" "usable (eth_src frame)"
    using assms by (auto simp: parse_nbns_def bind_eq_Some_conv usable_def split: if_splits)
  from frame ip udp obtain kind names where parts: "names_of udp = Some (kind, names)"
    "obs = fold add_name names
       (new_observation (eth_src frame) (Some (ip_src ip)) interface NBNS_SOURCE kind ts)"
    using assms by (auto simp: parse_nbns_def bind_eq_Some_conv usable_def)
  have "parse_name_service (udp_payload udp) = Some (kind, names)
      \<or> parse_datagram_service (udp_payload udp) = Some (kind, names)"
    using parts(1) by (auto simp: names_of_def split: if_splits)
  with udp(2) parts(2) show ?thesis by blast
qed

interpretation nbns: frame_parser parse_nbns NBNS_SOURCE
  by unfold_locales (auto simp: new_observation_def dest!: parse_nbns_Some)

text \<open>
  A NetBIOS query names nobody. An observation of a query carries no signal at all, and every
  signal of any other is a machine or workgroup name that has been cleaned: not blank, of bounded
  length, without control characters and not an address in disguise.
\<close>

theorem netbios_queries_name_nobody:
  assumes "parse_nbns bytes interface ts = Some obs"
  shows "(obs_kind obs = ObsQuery \<longrightarrow> obs_signals obs = []) \<and> (\<forall>s \<in> set (obs_signals obs). netbios_signal s)"
proof -
  obtain frame :: ethernet_frame and ip :: ip_header and udp :: udp_datagram and kind names where parts:
    "parse_name_service (udp_payload udp) = Some (kind, names)
       \<or> parse_datagram_service (udp_payload udp) = Some (kind, names)"
    "obs = fold add_name names
       (new_observation (eth_src frame) (Some (ip_src ip)) interface NBNS_SOURCE kind ts)"
    using parse_nbns_Some [OF assms] by blast
  have "kind = ObsQuery \<Longrightarrow> names = []"
    using parts(1)
    by (auto simp: parse_name_service_def parse_datagram_service_def Let_def bind_eq_Some_conv claims_the_name_def
        OP_QUERY_def OP_REGISTRATION_def OP_REFRESH_def OP_REFRESH_ALT_def split: if_splits)
  then have "obs_kind obs = ObsQuery \<longrightarrow> obs_signals obs = []"
    by (auto simp: parts(2)) (simp_all add: new_observation_def)
  moreover have "\<forall>s \<in> set (obs_signals obs). netbios_signal s"
    unfolding parts(2) by (rule fold_add_name_signals) (simp add: new_observation_def)
  ultimately show ?thesis ..
qed

subsection \<open>Round trip\<close>

lemma encoded_byte:
  "nibble (65 + drop_bit 4 b) = Some (drop_bit 4 b) \<and> nibble (65 + (b AND 0x0f)) = Some (b AND 0x0f)
     \<and> push_bit 4 (drop_bit 4 b) OR (b AND 0x0f) = b"
proof -
  have "list_all (\<lambda>n. nibble (65 + word_of_nat n) = Some (word_of_nat n)) [0..<16]" by code_simp
  then have small: "nibble (65 + v) = Some v" if "unat v < 16" for v
    using that by (auto simp: list_all_iff dest: bspec [of _ _ "unat v"])
  have "unat (drop_bit 4 b) < 16"
    using unsigned_less [where 'a = nat, of b] by (simp add: drop_bit_eq_div unat_div)
  moreover have low: "(b AND 0x0f) = take_bit 4 b" by (simp add: take_bit_eq_mask mask_eq_exp_minus_1)
  moreover have "unat (take_bit 4 b) < 16" by (simp add: take_bit_eq_mod unat_mod)
  moreover have "push_bit 4 (drop_bit 4 b) OR take_bit 4 b = b"
    by (rule bit_eqI) (auto simp: bit_simps)
  ultimately show ?thesis using small by simp
qed

lemma decode_pairs_encoded:
  "decode_pairs (concat (map (\<lambda>b. [65 + drop_bit 4 b, 65 + (b AND 0x0f)]) raw)) = Some raw"
  by (induction raw) (simp_all add: encoded_byte)

lemma strip_all_char:
  assumes "[c] \<in> set ps" "\<forall>p \<in> set ps. p \<noteq> [] \<longrightarrow> hd p = c \<longrightarrow> p = [c]"
  shows "strip_all ps (replicate n c @ s) = strip_all ps s"
proof (induction n)
  case (Suc n)
  have "List.find (\<lambda>p. p \<noteq> [] \<and> prefix p (c # t)) ps = Some [c]" for t
  proof -
    have "\<forall>p \<in> set ps. p \<noteq> [] \<and> prefix p (c # t) \<longleftrightarrow> p = [c]"
      using assms(2) by (auto simp: prefix_Cons)
    then have "List.find (\<lambda>p. p \<noteq> [] \<and> prefix p (c # t)) ps = List.find (\<lambda>p. p = [c]) ps"
      by (intro find_cong) auto
    also have "\<dots> = Some [c]" using assms(1) by (induction ps) auto
    finally show ?thesis .
  qed
  then show ?case using Suc by (simp add: strip_all.simps [of ps "c # replicate n c @ s"])
qed simp

lemma trim_end_padding: "trim_end (s @ replicate n (CHR '' '')) = trim_end s"
proof -
  have "strip_all (map rev white_space) (replicate n (CHR '' '') @ rev s) = strip_all (map rev white_space) (rev s)"
  proof (rule strip_all_char)
    show "[CHR '' ''] \<in> set (map rev white_space)" by code_simp
    have "list_all (\<lambda>p. p = [] \<or> hd p \<noteq> CHR '' '' \<or> p = [CHR '' '']) (map rev white_space)" by code_simp
    then show "\<forall>p \<in> set (map rev white_space). p \<noteq> [] \<longrightarrow> hd p = CHR '' '' \<longrightarrow> p = [CHR '' '']"
      by (auto simp: list_all_iff)
  qed
  then show ?thesis by (simp add: trim_end_def)
qed

lemma from_utf8_lossy_bytes:
  "\<forall>c \<in> set s. ordc c < 0x80 \<Longrightarrow> from_utf8_lossy (map byte_of s @ replicate n 32) = s @ replicate n (CHR '' '')"
proof -
  assume ascii: "\<forall>c \<in> set s. ordc c < 0x80"
  have "unat (byte_of c) = ordc c" for c by (simp add: byte_of_def unat_of_nat take_bit_eq_mod)
  then have bytes: "map unat (map byte_of s @ replicate n 32) = map ordc s @ replicate n 32" by simp
  have "chr 32 = CHR '' ''" by code_simp
  moreover have "utf8_lossy (map ordc s @ replicate n 32) = map chr (map ordc s @ replicate n 32)"
    using ascii by (intro utf8_lossy_ascii) auto
  ultimately show ?thesis unfolding from_utf8_lossy_def bytes by (simp add: comp_def)
qed

lemma netbios_name_decodes:
  assumes "name \<noteq> []" "length name \<le> 15" "\<forall>c \<in> set name. ordc c < 0x80" "trim_end name = name"
  shows "decode_name_at (before @ encode_name name suf @ after) (length before)
    = Some \<lparr>nb_name = name, nb_suffix = suf\<rparr>"
proof -
  let ?pad = "replicate (15 - length name) 32"
  let ?raw = "map byte_of name @ ?pad @ [suf]"
  let ?enc = "concat (map (\<lambda>b. [65 + drop_bit 4 b, 65 + (b AND 0x0f)]) ?raw)"
  have raw: "take 15 (map byte_of name @ replicate 15 32) = map byte_of name @ ?pad"
    using assms(2) by (simp add: min_def)
  have "length (concat (map (\<lambda>b. [65 + drop_bit 4 b, 65 + (b AND 0x0f)]) bs)) = 2 * length bs" for bs :: "byte list"
    by (induction bs) simp_all
  then have "length ?enc = 2 * length ?raw" by blast
  then have len: "length ?enc = 32" using assms(2) by simp
  define E where "E = ?enc"
  have enc: "encode_name name suf = ENCODED_LABEL_LEN # E @ [0]"
    unfolding encode_name_def Let_def raw E_def by simp
  have "decode_pairs E = Some ?raw" unfolding E_def by (rule decode_pairs_encoded)
  moreover have "slice (before @ encode_name name suf @ after) (length before + 1) (length before + 1 + 32) = Some E"
    using len unfolding E_def [symmetric] by (simp add: slice_def enc)
  moreover have "byte_at (before @ encode_name name suf @ after) (length before) = Some ENCODED_LABEL_LEN"
    by (simp add: byte_at_def enc)
  moreover have "take 15 ?raw = map byte_of name @ ?pad" using assms(2) by simp
  moreover have "?raw ! 15 = suf" using assms(2) by (simp add: nth_append)
  ultimately show ?thesis
    using assms trim_end_padding [of name] from_utf8_lossy_bytes [OF assms(3)]
    by (simp add: decode_name_at_def Let_def)
qed

text \<open>
  A NetBIOS name survives the wire. Any name of one to fifteen ASCII characters that does not end
  in white space, encoded with its suffix and put anywhere in a buffer, is decoded there as the same
  name and suffix, whatever surrounds it.
\<close>

theorem netbios_name_round_trip:
  assumes "name \<noteq> []" "length name \<le> 15" "\<forall>c \<in> set name. ordc c < 0x80" "trim_end name = name"
  shows "decode_name_at (before @ encode_name name suf @ after) (length before)
    = Some \<lparr>nb_name = name, nb_suffix = suf\<rparr>"
  using assms by (rule netbios_name_decodes)

theorem netbios_name_round_trip_witness:
  "decode_name_at ([7, 7] @ encode_name ''DESK-1'' 0x20 @ [0]) 2 = Some \<lparr>nb_name = ''DESK-1'', nb_suffix = 0x20\<rparr>"
proof -
  have "list_all plain ''DESK-1''" "list_all (\<lambda>c. ordc c < 0x80) ''DESK-1''" by code_simp+
  then show ?thesis
    using netbios_name_round_trip [of "''DESK-1''" "[7, 7]" "0x20" "[0]"] trim_end_plain
    by (simp add: list_all_iff numeral_2_eq_2)
qed

definition sample_registration :: "byte list" where
  "sample_registration =
     udp_frame (MacAddr 2 0 0 0 0 1) 137 ([0, 0, 0x28, 0, 0, 1, 0, 0, 0, 0, 0, 0] @ encode_name ''DESK-1'' 0x20)"

lemma sample_registration_parses: "\<exists>obs. parse_nbns sample_registration interface ts = Some obs"
proof -
  let ?payload = "[0, 0, 0x28, 0, 0, 1, 0, 0, 0, 0, 0, 0] @ encode_name ''DESK-1'' 0x20"
  have plain: "list_all plain ''DESK-1''" "list_all (\<lambda>c. ordc c < 0x80) ''DESK-1''" by code_simp+
  have "length ?payload \<le> 65000" by (simp add: encode_name_def Let_def length_concat sum_list_replicate)
  then obtain ip where ip: "parse_ipv4 (ipv4_udp 137 ?payload) = Some ip" "ip_protocol ip = IPPROTO_UDP"
    "parse_udp (ip_payload ip) = Some \<lparr>udp_src_port = 1, udp_dst_port = 137, udp_payload = ?payload\<rparr>"
    using udp_frame_ip by blast
  have "decode_name_at (([0, 0, 0x28, 0, 0, 1, 0, 0, 0, 0, 0, 0] :: byte list) @ encode_name ''DESK-1'' 0x20 @ [])
      (length ([0, 0, 0x28, 0, 0, 1, 0, 0, 0, 0, 0, 0] :: byte list)) = Some \<lparr>nb_name = ''DESK-1'', nb_suffix = 0x20\<rparr>"
    by (rule netbios_name_decodes) (use plain trim_end_plain [of "''DESK-1''"] in \<open>simp_all add: list_all_iff\<close>)
  moreover have "length ([0, 0, 0x28, 0, 0, 1, 0, 0, 0, 0, 0, 0] :: byte list) = 12" by simp
  ultimately have "decode_name_at ?payload 12 = Some \<lparr>nb_name = ''DESK-1'', nb_suffix = 0x20\<rparr>" by (metis append_Nil2)
  then have "\<exists>r. names_of \<lparr>udp_src_port = 1, udp_dst_port = 137, udp_payload = ?payload\<rparr> = Some r"
    by (simp add: names_of_def NAME_PORT_def parse_name_service_def Let_def be16_def)
  then show ?thesis
    using ip by (auto simp: parse_nbns_def sample_registration_def udp_frame_ethernet)
qed

theorem netbios_queries_name_nobody_witness:
  "\<exists>obs. parse_nbns sample_registration ''eth0'' 5 = Some obs
    \<and> (obs_kind obs = ObsQuery \<longrightarrow> obs_signals obs = []) \<and> (\<forall>s \<in> set (obs_signals obs). netbios_signal s)"
  using sample_registration_parses netbios_queries_name_nobody by blast

text \<open>
  The result code of a response is never read: a negative answer, or a server's answer to somebody
  else's registration, gives the responder the name it was asked about.
\<close>

lemma result_code_is_never_read: "parse_name_service (buf[3 := x]) = parse_name_service buf"
proof (cases "12 \<le> length buf")
  case True
  have shift: "(m * 256 + n) div 32768 = m div 128" "(m * 256 + n) div 2048 = m div 8" if "n < 256" for m n :: nat
    using that div_mult2_eq [of "m * 256 + n" 256 128] div_mult2_eq [of "m * 256 + n" 256 8] by simp_all
  have response: "be16 a b AND 0x8000 = 0 \<longleftrightarrow> be16 a c AND 0x8000 = 0" for a b c
  proof -
    have "be16 a b AND 2 ^ 15 = 0 \<longleftrightarrow> even (unat (be16 a b) div 2 ^ 15)" for b
      using and_exp_eq_0_iff_not_bit [of "be16 a b" 15] bit_iff_odd [of "unat (be16 a b)" 15]
      by (simp add: bit_unsigned_iff)
    moreover have "unat (be16 a b) div 2 ^ 15 = unat a div 2 ^ 7" for b
      using unsigned_less [where 'a = nat, of b] shift(1) by (simp add: unat_be16)
    ultimately show ?thesis by simp
  qed
  have opcode: "drop_bit 11 (be16 a b) = drop_bit 11 (be16 a c)" for a b c
  proof -
    have "unat (drop_bit 11 (be16 a b)) = drop_bit 11 (unat (be16 a b))" for b by (rule unat_drop_bit_eq)
    then have "unat (drop_bit 11 (be16 a b)) = unat a div 8" for b
      using unsigned_less [where 'a = nat, of b] shift(2) by (simp add: drop_bit_eq_div unat_be16)
    then show ?thesis by (metis unsigned_word_eqI)
  qed
  have "decode_name_at (buf[3 := x]) 12 = decode_name_at buf 12"
    by (simp add: decode_name_at_def byte_at_def slice_def)
  then show ?thesis
    using response [of "buf ! 2" x "buf ! 3"] opcode [of "buf ! 2" x "buf ! 3"] True
    by (simp add: parse_name_service_def Let_def)
qed (simp add: parse_name_service_def)

end
