(* ===== verification/Ssdp.thy ===== *)
theory Ssdp
  imports Udp_Frames
begin

text \<open>
  \<^verbatim>\<open>src/capture/ssdp.rs\<close>: SSDP announcements, searches and answers, the headers a device volunteers
  in them, and the base64 decoder for the one header that is encoded.
\<close>

definition SSDP_SOURCE :: string where "SSDP_SOURCE = ''ssdp''"
definition SSDP_PORT :: u16 where "SSDP_PORT = 1900"
definition DIAL_URN :: string where "DIAL_URN = ''urn:dial-multiscreen-org:service:dial''"

datatype ssdp_kind = SsdpNotify | SsdpSearch | SsdpResponse

record ssdp_message =
  sm_device_type :: "string option"
  sm_server :: "string option"
  sm_friendly_name :: "string option"

definition empty_ssdp :: ssdp_message where
  "empty_ssdp = \<lparr>sm_device_type = None, sm_server = None, sm_friendly_name = None\<rparr>"

definition upper :: "char \<Rightarrow> char" where
  "upper c = (if 97 \<le> ordc c \<and> ordc c \<le> 122 then chr (ordc c - 32) else c)"

definition classify_start_line :: "string \<Rightarrow> ssdp_kind option" where
  "classify_start_line start =
     (let up = map upper start in
      if starts_with up ''NOTIFY '' then Some SsdpNotify
      else if starts_with up ''M-SEARCH '' then Some SsdpSearch
      else if starts_with up ''HTTP/1.'' then Some SsdpResponse
      else None)"

definition set_device_type :: "string \<Rightarrow> ssdp_message \<Rightarrow> ssdp_message" where
  "set_device_type v m =
     (if sm_device_type m \<noteq> None then m
      else
        (let low = to_ascii_lowercase v in
         if low = ''upnp:rootdevice'' \<or> starts_with low DIAL_URN
            \<or> starts_with low ''urn:'' \<and> contains low '':device:''
         then m\<lparr>sm_device_type := clean_value v\<rparr> else m))"

subsection \<open>Base64\<close>

definition sextet :: "char \<Rightarrow> byte option" where
  "sextet c =
     (let n = ordc c in
      if 65 \<le> n \<and> n \<le> 90 then Some (word_of_nat (n - 65))
      else if 97 \<le> n \<and> n \<le> 122 then Some (word_of_nat (n - 97 + 26))
      else if 48 \<le> n \<and> n \<le> 57 then Some (word_of_nat (n - 48 + 52))
      else if n = 43 then Some 62 else if n = 47 then Some 63 else None)"

text \<open>The loop over the characters: the accumulator keeps its width, so its top bits fall off.\<close>

fun base64_loop :: "string \<Rightarrow> u32 \<Rightarrow> nat \<Rightarrow> byte list \<Rightarrow> byte list option" where
  "base64_loop [] acc bits out = Some out" |
  "base64_loop (c # cs) acc bits out =
     do {
       v \<leftarrow> sextet c;
       let acc1 = push_bit 6 acc OR ucast v in
       if bits + 6 \<ge> 8
       then base64_loop cs acc1 (bits - 2) (out @ [ucast (drop_bit (bits - 2) acc1 AND 0xff)])
       else base64_loop cs acc1 (bits + 6) out
     }"

text \<open>\<^verbatim>\<open>String::from_utf8\<close>: the bytes as they are, when they are an encoding throughout.\<close>

function utf8_valid :: "nat list \<Rightarrow> bool" where
  "utf8_valid bs =
     (if bs = [] then True else snd (utf8_step bs) \<and> utf8_valid (drop (fst (utf8_step bs)) bs))"
  by auto
termination
proof (relation "measure length", goal_cases)
  case (2 bs)
  then show ?case using utf8_step_pos [of bs] by (cases bs) auto
qed simp

declare utf8_valid.simps [simp del]

definition from_utf8 :: "byte list \<Rightarrow> string option" where
  "from_utf8 bs = (if utf8_valid (map unat bs) then Some (map (\<lambda>b. chr (unat b)) bs) else None)"

definition base64_text :: "string \<Rightarrow> string option" where
  "base64_text input =
     (let trimmed = trim_end_matches (CHR ''='') (trim input) in
      if trimmed = [] \<or> length trimmed mod 4 = 1 then None
      else do { out \<leftarrow> base64_loop trimmed 0 0 []; from_utf8 out })"

subsection \<open>Messages\<close>

definition first_of :: "'a option \<Rightarrow> 'a option \<Rightarrow> 'a option" where
  "first_of old new = (case old of Some x \<Rightarrow> Some x | None \<Rightarrow> new)"

definition read_header :: "ssdp_kind \<Rightarrow> string \<Rightarrow> ssdp_message \<Rightarrow> ssdp_message" where
  "read_header kind line m =
     (case split_once (CHR '':'') line of
        None \<Rightarrow> m
      | Some (raw_name, raw_value) \<Rightarrow>
          (let name = trim raw_name; v = trim raw_value in
           if v = [] then m
           else if eq_ignore_ascii_case name ''NT'' \<and> kind = SsdpNotify then set_device_type v m
           else if eq_ignore_ascii_case name ''ST'' \<and> kind = SsdpResponse then set_device_type v m
           else if eq_ignore_ascii_case name ''SERVER''
           then m\<lparr>sm_server := first_of (sm_server m) (clean_value v)\<rparr>
           else if eq_ignore_ascii_case name ''USER-AGENT'' \<and> kind = SsdpSearch
           then m\<lparr>sm_server := first_of (sm_server m) (clean_value v)\<rparr>
           else if eq_ignore_ascii_case name ''X-FRIENDLY-NAME''
           then m\<lparr>sm_friendly_name := first_of (sm_friendly_name m)
                  (clean_name (case base64_text v of Some d \<Rightarrow> d | None \<Rightarrow> v))\<rparr>
           else if eq_ignore_ascii_case name ''FRIENDLYNAME.DLNA.ORG''
           then m\<lparr>sm_friendly_name := first_of (sm_friendly_name m) (clean_name v)\<rparr>
           else m))"

definition parse_ssdp_message :: "string \<Rightarrow> (ssdp_kind \<times> ssdp_message) option" where
  "parse_ssdp_message payload =
     (let ls = map (trim_end_matches (chr 13)) (split_on (chr 10) payload) in
      do { kind \<leftarrow> classify_start_line (trim (hd ls));
           Some (kind, fold (read_header kind) (tl ls) empty_ssdp) })"

definition ssdp_kind_of :: "ssdp_kind \<Rightarrow> observation_kind" where
  "ssdp_kind_of kind =
     (case kind of SsdpNotify \<Rightarrow> ObsAnnouncement | SsdpSearch \<Rightarrow> ObsQuery | SsdpResponse \<Rightarrow> ObsReply)"

definition ssdp_signals :: "ssdp_message \<Rightarrow> signal list" where
  "ssdp_signals m =
     (case sm_friendly_name m of Some v \<Rightarrow> [Signal SsdpFriendlyName v] | None \<Rightarrow> [])
     @ (case sm_device_type m of Some v \<Rightarrow> [Signal SsdpDeviceType v] | None \<Rightarrow> [])
     @ (case sm_server m of Some v \<Rightarrow> [Signal SsdpServer v] | None \<Rightarrow> [])"

definition ssdp_header :: "ethernet_frame \<Rightarrow> ip_header option" where
  "ssdp_header frame =
     (if eth_type frame = ETHERTYPE_IPV4 then parse_ipv4 (eth_payload frame)
      else if eth_type frame = ETHERTYPE_IPV6 then parse_ipv6 (eth_payload frame) else None)"

definition parse_ssdp :: "byte list \<Rightarrow> string \<Rightarrow> time \<Rightarrow> observation option" where
  "parse_ssdp bytes interface ts =
     do {
       frame \<leftarrow> parse_ethernet bytes;
       ip \<leftarrow> ssdp_header frame;
       if ip_protocol ip \<noteq> IPPROTO_UDP then None
       else do {
         udp \<leftarrow> parse_udp (ip_payload ip);
         if udp_dst_port udp \<noteq> SSDP_PORT \<and> udp_src_port udp \<noteq> SSDP_PORT then None
         else if is_group (eth_src frame) \<or> is_zero (eth_src frame) then None
         else do {
           (kind, message) \<leftarrow> parse_ssdp_message (from_utf8_lossy (udp_payload udp));
           Some (fold (\<lambda>s obs. with_signal obs s) (ssdp_signals message)
             (new_observation (eth_src frame) (Some (ip_src ip)) interface SSDP_SOURCE (ssdp_kind_of kind) ts))
         } } }"

subsection \<open>What a message says of its sender\<close>

lemma fold_with_signal:
  "fold (\<lambda>s obs. with_signal obs s) ss obs = obs\<lparr>obs_signals := obs_signals obs @ ss\<rparr>"
  by (induction ss arbitrary: obs) (simp_all add: with_signal_def)

lemma parse_ssdp_Some:
  assumes "parse_ssdp bytes interface ts = Some obs"
  shows "\<exists>(frame :: ethernet_frame) (ip :: ip_header) payload kind m. usable (eth_src frame)
    \<and> parse_ssdp_message payload = Some (kind, m)
    \<and> obs = (new_observation (eth_src frame) (Some (ip_src ip)) interface SSDP_SOURCE (ssdp_kind_of kind) ts)
        \<lparr>obs_signals := ssdp_signals m\<rparr>"
  using assms unfolding parse_ssdp_def usable_def fold_with_signal
  by (fastforce simp: bind_eq_Some_conv new_observation_def split: if_splits)

interpretation ssdp: frame_parser parse_ssdp SSDP_SOURCE
  by unfold_locales (auto simp: new_observation_def dest!: parse_ssdp_Some)

text \<open>What holds of the headers read so far.\<close>

definition message_ok :: "ssdp_kind \<Rightarrow> ssdp_message \<Rightarrow> bool" where
  "message_ok kind m \<longleftrightarrow> (kind = SsdpSearch \<longrightarrow> sm_device_type m = None)
     \<and> (\<forall>v. sm_device_type m = Some v \<longrightarrow> showable v) \<and> (\<forall>v. sm_server m = Some v \<longrightarrow> showable v)
     \<and> (\<forall>v. sm_friendly_name m = Some v \<longrightarrow> showable v \<and> \<not> list_all is_address_char v)"

lemma read_header_ok:
  assumes "message_ok kind m"
  shows "message_ok kind (read_header kind line m)"
proof -
  have vals: "\<forall>v. clean_value x = Some v \<longrightarrow> showable v" for x using clean_value_Some by blast
  have name: "\<forall>v. clean_name x = Some v \<longrightarrow> showable v \<and> \<not> list_all is_address_char v" for x
    using clean_name_Some by blast
  have typed: "kind \<noteq> SsdpSearch \<Longrightarrow> message_ok kind (set_device_type x m)" for x
    using assms vals by (simp add: message_ok_def set_device_type_def Let_def)
  show ?thesis using assms vals name typed
    by (simp add: read_header_def message_ok_def first_of_def Let_def split: option.split prod.split)
qed

lemma parse_ssdp_message_ok:
  assumes "parse_ssdp_message payload = Some (kind, m)"
  shows "message_ok kind m"
proof -
  have run: "message_ok kind m \<Longrightarrow> message_ok kind (fold (read_header kind) ls m)" for ls m
    by (induction ls arbitrary: m) (simp_all add: read_header_ok)
  obtain ls where "m = fold (read_header kind) ls empty_ssdp"
    using assms by (auto simp: parse_ssdp_message_def Let_def bind_eq_Some_conv)
  then show ?thesis using run [of empty_ssdp ls] by (simp add: message_ok_def empty_ssdp_def)
qed

text \<open>
  An SSDP message says of its sender only what it may. Each of the three signals occurs at most
  once and is worth showing; a friendly name is no address in disguise; and a search gives its sender
  no device type, since what it searches for is not what it is.
\<close>

theorem ssdp_says_what_it_may:
  assumes "parse_ssdp bytes interface ts = Some obs"
  shows "distinct (map sig_kind (obs_signals obs)) \<and> (\<forall>s \<in> set (obs_signals obs). showable (sig_value s))
    \<and> (\<forall>s \<in> set (obs_signals obs). sig_kind s = SsdpFriendlyName \<longrightarrow> \<not> list_all is_address_char (sig_value s))
    \<and> (obs_kind obs = ObsQuery \<longrightarrow> SsdpDeviceType \<notin> sig_kind ` set (obs_signals obs))"
proof -
  obtain frame :: ethernet_frame and ip :: ip_header and payload kind m where
    m: "parse_ssdp_message payload = Some (kind, m)" and
    obs: "obs = (new_observation (eth_src frame) (Some (ip_src ip)) interface SSDP_SOURCE (ssdp_kind_of kind) ts)
        \<lparr>obs_signals := ssdp_signals m\<rparr>"
    using parse_ssdp_Some [OF assms] by blast
  note ok = parse_ssdp_message_ok [OF m]
  have "kind = SsdpSearch" if "obs_kind obs = ObsQuery"
    using that by (cases kind) (simp_all add: obs new_observation_def ssdp_kind_of_def)
  then have "SsdpDeviceType \<notin> sig_kind ` set (obs_signals obs)" if "obs_kind obs = ObsQuery"
    using that ok by (auto simp: obs message_ok_def ssdp_signals_def Signal_def split: option.splits)
  moreover have "distinct (map sig_kind (obs_signals obs)) \<and> (\<forall>s \<in> set (obs_signals obs). showable (sig_value s))
    \<and> (\<forall>s \<in> set (obs_signals obs). sig_kind s = SsdpFriendlyName \<longrightarrow> \<not> list_all is_address_char (sig_value s))"
    using ok by (auto simp: obs message_ok_def ssdp_signals_def Signal_def split: option.splits)
  ultimately show ?thesis by blast
qed

lemma parse_ssdp_message_start:
  "classify_start_line (trim (hd (map (trim_end_matches (chr 13)) (split_on (chr 10) payload)))) = Some kind
     \<Longrightarrow> \<exists>m. parse_ssdp_message payload = Some (kind, m)"
  by (simp add: parse_ssdp_message_def Let_def)

definition sample_answer :: "byte list" where
  "sample_answer =
     udp_frame (MacAddr 2 0 0 0 0 1) 1900
       [72, 84, 84, 80, 47, 49, 46, 49, 10, 83, 84, 58, 117, 112, 110, 112, 58, 114, 111, 111, 116, 100, 101, 118, 105, 99, 101]"

lemma sample_answer_parses: "\<exists>obs. parse_ssdp sample_answer interface ts = Some obs"
proof -
  let ?payload = "[72, 84, 84, 80, 47, 49, 46, 49, 10, 83, 84, 58, 117, 112, 110, 112, 58, 114, 111, 111, 116, 100,
      101, 118, 105, 99, 101] :: byte list"
  obtain ip where ip: "parse_ipv4 (ipv4_udp 1900 ?payload) = Some ip" "ip_protocol ip = IPPROTO_UDP"
    "parse_udp (ip_payload ip) = Some \<lparr>udp_src_port = 1, udp_dst_port = 1900, udp_payload = ?payload\<rparr>"
    using udp_frame_ip [of ?payload 1900] by auto
  have "from_utf8_lossy ?payload = map chr (map unat ?payload)"
    unfolding from_utf8_lossy_def by (rule utf8_lossy_ascii) (simp; elim disjE; simp)
  also have "\<dots> = ''HTTP/1.1'' @ chr 10 # ''ST:upnp:rootdevice''" by code_simp
  finally have read: "from_utf8_lossy ?payload = ''HTTP/1.1'' @ chr 10 # ''ST:upnp:rootdevice''" .
  have "list_all (\<lambda>c. c \<noteq> chr 10 \<and> c \<noteq> chr 13) ''HTTP/1.1''" by code_simp
  then have first: "hd (map (trim_end_matches (chr 13)) (split_on (chr 10) (''HTTP/1.1'' @ chr 10 # rest))) = ''HTTP/1.1''" for rest
    by (subst split_on_append) (auto simp: trim_end_matches_def list_all_iff)
  have "list_all plain ''HTTP/1.1''" by code_simp
  then have "trim ''HTTP/1.1'' = ''HTTP/1.1''" by (rule trim_plain)
  moreover have "classify_start_line ''HTTP/1.1'' = Some SsdpResponse" by code_simp
  ultimately have "classify_start_line (trim (hd (map (trim_end_matches (chr 13))
      (split_on (chr 10) (from_utf8_lossy ?payload))))) = Some SsdpResponse"
    unfolding read first by simp
  from parse_ssdp_message_start [OF this] obtain m where
    "parse_ssdp_message (from_utf8_lossy ?payload) = Some (SsdpResponse, m)" ..
  then show ?thesis
    using ip by (auto simp: parse_ssdp_def sample_answer_def udp_frame_ethernet ssdp_header_def SSDP_PORT_def)
qed

theorem ssdp_says_what_it_may_witness:
  "\<exists>obs. parse_ssdp sample_answer ''eth0'' 5 = Some obs
    \<and> distinct (map sig_kind (obs_signals obs)) \<and> (\<forall>s \<in> set (obs_signals obs). showable (sig_value s))"
  using sample_answer_parses ssdp_says_what_it_may by blast

subsection \<open>The decoder inverts the encoder\<close>

definition b64 :: "byte \<Rightarrow> char" where
  "b64 v =
     (let n = unat v in
      if n < 26 then chr (65 + n) else if n < 52 then chr (71 + n) else if n < 62 then chr (n - 4)
      else if n = 62 then CHR ''+'' else CHR ''/'')"

text \<open>The standard encoding without its padding, and with it.\<close>

fun base64_body :: "byte list \<Rightarrow> string" where
  "base64_body [] = []" |
  "base64_body [a] = [b64 (drop_bit 2 a), b64 (push_bit 4 (take_bit 2 a))]" |
  "base64_body [a, b] =
     [b64 (drop_bit 2 a), b64 (push_bit 4 (take_bit 2 a) OR drop_bit 4 b), b64 (push_bit 2 (take_bit 4 b))]" |
  "base64_body (a # b # c # rest) =
     [b64 (drop_bit 2 a), b64 (push_bit 4 (take_bit 2 a) OR drop_bit 4 b),
      b64 (push_bit 2 (take_bit 4 b) OR drop_bit 6 c), b64 (take_bit 6 c)] @ base64_body rest"

definition base64_encode :: "byte list \<Rightarrow> string" where
  "base64_encode bs = base64_body bs @ replicate ((3 - length bs mod 3) mod 3) (CHR ''='')"

lemma b64_facts:
  assumes "take_bit 6 v = v"
  shows "sextet (b64 v) = Some v \<and> plain (b64 v) \<and> b64 v \<noteq> CHR ''=''"
proof -
  have "unat (take_bit 6 v) = take_bit 6 (unat v)" by (rule unsigned_take_bit_eq)
  then have "unat v = unat v mod 64" unfolding assms by (simp add: take_bit_eq_mod)
  then have n: "unat v < 64" by (metis mod_less_divisor zero_less_numeral)
  have v: "word_of_nat (unat v) = v" by simp
  have c: "ordc (CHR ''='') = 61" "ordc (CHR ''+'') = 43" "ordc (CHR ''/'') = 47" by code_simp+
  have eq: "ordc d \<noteq> 61 \<Longrightarrow> d \<noteq> CHR ''=''" for d using c(1) by auto
  consider "unat v < 26" | "26 \<le> unat v" "unat v < 52" | "52 \<le> unat v" "unat v < 62" | "unat v = 62" | "unat v = 63"
    using n by linarith
  then show ?thesis
  proof cases
    case 3
    then have "48 \<le> unat v - 4" "unat v - 4 \<le> 57" "\<not> 65 \<le> unat v - 4" "\<not> 97 \<le> unat v - 4"
      "unat v - 4 - 48 + 52 = unat v" "32 < unat v - 4" "unat v - 4 < 128"
      "\<not> unat v < 26" "\<not> unat v < 52" "unat v < 62"
      by simp_all
    then show ?thesis by (simp add: b64_def sextet_def plain_def Let_def v eq del: diff_diff_left)
  next
    case 4
    then have "v = 62" using v by simp
    then show ?thesis by (simp add: b64_def sextet_def plain_def c)
  next
    case 5
    then have "v = 63" using v by simp
    then show ?thesis by (simp add: b64_def sextet_def plain_def c)
  qed (simp_all add: b64_def sextet_def plain_def v eq)
qed

lemma sextets:
  "take_bit 6 (drop_bit 2 a) = drop_bit 2 a" "take_bit 6 (push_bit 4 (take_bit 2 a)) = push_bit 4 (take_bit 2 a)"
  "take_bit 6 (push_bit 4 (take_bit 2 a) OR drop_bit 4 b) = push_bit 4 (take_bit 2 a) OR drop_bit 4 b"
  "take_bit 6 (push_bit 2 (take_bit 4 b)) = push_bit 2 (take_bit 4 b)"
  "take_bit 6 (push_bit 2 (take_bit 4 b) OR drop_bit 6 c) = push_bit 2 (take_bit 4 b) OR drop_bit 6 c"
  "take_bit 6 (take_bit 6 c) = take_bit 6 c" for a b c :: byte
  by (rule bit_word_eqI; auto simp: bit_simps dest: bit_imp_le_length)+

lemma low_byte: "w AND 0xff = take_bit 8 w" for w :: u32
  by (simp add: take_bit_eq_mask mask_eq_exp_minus_1)

lemma no_high_bit: "8 \<le> n \<Longrightarrow> \<not> bit b n" for b :: byte
  using bit_imp_le_length [of b n] by auto

lemma below_8: "n < LENGTH(8) \<Longrightarrow> n = 0 \<or> n = 1 \<or> n = 2 \<or> n = 3 \<or> n = 4 \<or> n = 5 \<or> n = 6 \<or> n = 7"
  by auto

definition shift_in :: "u32 \<Rightarrow> byte \<Rightarrow> u32" where
  "shift_in acc v = push_bit 6 acc OR ucast v"

definition out_of :: "nat \<Rightarrow> u32 \<Rightarrow> byte" where
  "out_of k w = ucast (take_bit 8 (drop_bit k w))"

lemma octets_back:
  "out_of 4 (shift_in (shift_in acc (drop_bit 2 a)) (push_bit 4 (take_bit 2 a))) = a"
  "out_of 4 (shift_in (shift_in acc (drop_bit 2 a)) (push_bit 4 (take_bit 2 a) OR drop_bit 4 b)) = a"
  "out_of 2 (shift_in (shift_in acc (push_bit 4 (take_bit 2 a) OR drop_bit 4 b)) (push_bit 2 (take_bit 4 b))) = b"
  "out_of 2 (shift_in (shift_in acc (push_bit 4 (take_bit 2 a) OR drop_bit 4 b))
      (push_bit 2 (take_bit 4 b) OR drop_bit 6 c)) = b"
  "out_of 0 (shift_in (shift_in acc (push_bit 2 (take_bit 4 b) OR drop_bit 6 c)) (take_bit 6 c)) = c"
  unfolding out_of_def shift_in_def
  by (rule bit_word_eqI, drule below_8, elim disjE; simp add: bit_simps no_high_bit)+

lemma base64_loop_step:
  assumes "take_bit 6 v = v"
  shows "base64_loop (b64 v # cs) acc bits out =
    (if bits + 6 \<ge> 8
     then base64_loop cs (shift_in acc v) (bits - 2) (out @ [out_of (bits - 2) (shift_in acc v)])
     else base64_loop cs (shift_in acc v) (bits + 6) out)"
  using b64_facts [OF assms] by (simp add: low_byte Let_def shift_in_def out_of_def)

lemmas base64_steps = sextets [THEN base64_loop_step]

lemmas base64_chars = sextets [THEN b64_facts]

lemma base64_loop_body: "base64_loop (base64_body bs) acc 0 out = Some (out @ bs)"
proof (induction bs arbitrary: acc out rule: base64_body.induct)
  case (2 a)
  show ?case by (simp add: base64_steps octets_back del: base64_loop.simps(2))
next
  case (3 a b)
  show ?case by (simp add: base64_steps octets_back del: base64_loop.simps(2))
next
  case (4 a b c rest)
  then show ?case by (simp add: base64_steps octets_back del: base64_loop.simps(2))
qed simp

lemma base64_body_chars: "list_all (\<lambda>c. plain c \<and> c \<noteq> CHR ''='') (base64_body bs)"
  by (induction bs rule: base64_body.induct) (simp_all add: base64_chars)

lemma base64_body_length: "length (base64_body bs) mod 4 \<noteq> 1"
  by (induction bs rule: base64_body.induct) simp_all

lemma base64_body_empty: "base64_body bs = [] \<longleftrightarrow> bs = []"
  by (cases bs rule: base64_body.cases) simp_all

lemma base64_decodes:
  assumes "bs \<noteq> []"
  shows "base64_text (base64_encode bs) = from_utf8 bs"
proof -
  have "list_all plain (base64_encode bs)"
  proof -
    have "plain (CHR ''='')" by code_simp
    then have "list_all plain (replicate n (CHR ''=''))" for n by (simp add: list_all_iff)
    moreover have "list_all plain (base64_body bs)" using base64_body_chars [of bs] by (simp add: list_all_iff)
    ultimately show ?thesis by (simp add: base64_encode_def)
  qed
  moreover have "trim_end_matches (CHR ''='') (base64_encode bs) = base64_body bs"
  proof -
    have "dropWhile (\<lambda>c. c = CHR ''='') (replicate n (CHR ''='') @ rev (base64_body bs)) = rev (base64_body bs)" for n
    proof (induction n)
      case 0
      have "last (base64_body bs) \<noteq> CHR ''=''"
        using base64_body_chars [of bs] base64_body_empty [of bs] assms unfolding list_all_iff by auto
      then show ?case using base64_body_empty [of bs] assms by (simp add: dropWhile_eq_self_iff hd_rev)
    qed simp
    then show ?thesis by (simp add: trim_end_matches_def base64_encode_def)
  qed
  ultimately show ?thesis
    using assms base64_body_empty [of bs] base64_body_length [of bs] base64_loop_body [of bs 0 "[]"]
    by (simp add: base64_text_def trim_plain Let_def)
qed

text \<open>
  The decoder inverts the encoder. The standard encoding of any bytes, with its padding, decodes
  to those bytes read as text, and to nothing exactly when they are no text.
\<close>

theorem base64_round_trip:
  assumes "bs \<noteq> []"
  shows "base64_text (base64_encode bs) = from_utf8 bs"
  using assms by (rule base64_decodes)

theorem base64_round_trip_witness: "base64_text (base64_encode [75, 105, 116]) = Some ''Kit''"
proof -
  have "from_utf8 [75, 105, 116] = Some ''Kit''" by code_simp
  then show ?thesis using base64_round_trip [of "[75, 105, 116]"] by simp
qed

end
