(* ===== verification/Mdns.thy ===== *)
theory Mdns
  imports DnsWire Udp_Frames
begin

text \<open>
  \<^verbatim>\<open>src/capture/mdns.rs\<close>: what an mDNS message says, and about whom. Nothing is attributed to the
  sender: every name, service and model is a claim with the addresses the message itself gives for
  its owner, a host directly and a service instance through the target of its SRV record.
\<close>

definition MDNS_SOURCE :: string where "MDNS_SOURCE = ''mdns''"
definition MDNS_PORT :: u16 where "MDNS_PORT = 5353"
definition MODEL_KEYS :: "string list" where "MODEL_KEYS = [''model'', ''am'', ''ty'', ''usb_MDL'']"

datatype owner = OwnerInstance string | OwnerHost string | OwnerSender

type_synonym owned = "string \<times> owner"

definition mdns_key :: "string list \<Rightarrow> string" where
  "mdns_key labels = to_ascii_lowercase (join ''.'' labels)"

definition push_owned :: "owned list \<Rightarrow> string \<Rightarrow> owner \<Rightarrow> owned list" where
  "push_owned out v own = (if v \<in> fst ` set out then out else out @ [(v, own)])"

definition instance_owner :: "string list \<Rightarrow> owner" where
  "instance_owner labels =
     (if length labels \<ge> 4 \<and> \<not> starts_with (labels ! 0) ''_'' \<and> starts_with (labels ! 1) ''_''
      then OwnerInstance (mdns_key labels) else OwnerSender)"

definition collect_service :: "string list \<Rightarrow> owner \<Rightarrow> owned list \<Rightarrow> owned list" where
  "collect_service labels own services =
     (case labels of
        svc # proto # _ \<Rightarrow>
          if \<not> starts_with svc ''_'' \<or> \<not> starts_with proto ''_'' then services
          else if svc = ''_services'' then services
          else push_owned services (svc @ ''.'' @ proto) own
      | _ \<Rightarrow> services)"

definition collect_instance :: "string list \<Rightarrow> owned list \<times> owned list \<Rightarrow> owned list \<times> owned list" where
  "collect_instance labels = (\<lambda>(instances, services).
     if length labels < 4 then (instances, collect_service labels OwnerSender services)
     else if starts_with (labels ! 0) ''_'' then (instances, collect_service labels OwnerSender services)
     else if \<not> starts_with (labels ! 1) ''_'' then (instances, services)
     else
       (case clean_name (labels ! 0) of
          Some name \<Rightarrow> push_owned instances name (OwnerInstance (mdns_key labels))
        | None \<Rightarrow> instances,
        collect_service (tl labels) (OwnerInstance (mdns_key labels)) services))"

definition collect_models :: "dns_record \<Rightarrow> owner \<Rightarrow> owned list \<Rightarrow> owned list" where
  "collect_models r own models =
     fold (\<lambda>entry models.
       (case split_once (CHR ''='') entry of
          None \<Rightarrow> models
        | Some (k, v) \<Rightarrow>
            if \<not> list_ex (\<lambda>m. eq_ignore_ascii_case m (trim k)) MODEL_KEYS then models
            else (case clean_value v of Some model \<Rightarrow> push_owned models model own | None \<Rightarrow> models)))
       (txt_strings r) models"

definition host_label :: "string list \<Rightarrow> string option" where
  "host_label labels =
     (case labels of
        [first, domain] \<Rightarrow>
          if \<not> eq_ignore_ascii_case domain ''local'' then None
          else if starts_with first ''_'' then None else clean_name first
      | _ \<Rightarrow> None)"

definition record_address :: "dns_record \<Rightarrow> ip_addr option" where
  "record_address r =
     (if rr_type r = TYPE_A then map_option V4 (ipv4_of (rr_rdata r))
      else if rr_type r = TYPE_AAAA then map_option V6 (ipv6_of (rr_rdata r))
      else None)"

definition addresses_of :: "(string \<times> ip_addr) list \<Rightarrow> string \<Rightarrow> ip_addr list" where
  "addresses_of addresses host = map snd (filter (\<lambda>(named, _). named = host) addresses)"

subsection \<open>Collecting the evidence\<close>

record evidence =
  ed_instances :: "owned list"
  ed_hosts :: "owned list"
  ed_services :: "owned list"
  ed_models :: "owned list"
  ed_addresses :: "(string \<times> ip_addr) list"
  ed_targets :: "(string \<times> string) list"

definition no_evidence :: evidence where
  "no_evidence =
     \<lparr>ed_instances = [], ed_hosts = [], ed_services = [], ed_models = [], ed_addresses = [], ed_targets = []\<rparr>"

definition add_instance :: "string list \<Rightarrow> evidence \<Rightarrow> evidence" where
  "add_instance labels e =
     (let (instances, services) = collect_instance labels (ed_instances e, ed_services e) in
      e\<lparr>ed_instances := instances, ed_services := services\<rparr>)"

definition add_host :: "string list \<Rightarrow> owner \<Rightarrow> evidence \<Rightarrow> evidence" where
  "add_host labels own e =
     (case host_label labels of
        Some host \<Rightarrow> e\<lparr>ed_hosts := push_owned (ed_hosts e) host own\<rparr> | None \<Rightarrow> e)"

definition read_mdns_record :: "byte list \<Rightarrow> dns_record \<Rightarrow> evidence \<Rightarrow> evidence" where
  "read_mdns_record buf r e =
     (if rr_type r = TYPE_PTR then
        (let target = ptr_target buf r;
             e1 = (case target of Some t \<Rightarrow> add_instance t e | None \<Rightarrow> e);
             own = (case target of Some t \<Rightarrow> instance_owner t | None \<Rightarrow> OwnerSender) in
         e1\<lparr>ed_services := collect_service (rr_name r) own (ed_services e1)\<rparr>)
      else if rr_type r = TYPE_SRV then
        (let e1 = add_instance (rr_name r) e in
         (case srv_target buf r of
            Some t \<Rightarrow> e1\<lparr>ed_targets := ed_targets e1 @ [(mdns_key (rr_name r), mdns_key t)]\<rparr>
          | None \<Rightarrow> e1))
      else if rr_type r = TYPE_TXT then
        (let e1 = add_instance (rr_name r) e in
         e1\<lparr>ed_models := collect_models r (instance_owner (rr_name r)) (ed_models e1)\<rparr>)
      else if rr_type r = TYPE_A \<or> rr_type r = TYPE_AAAA then
        (let e1 = (case record_address r of
                     Some a \<Rightarrow> e\<lparr>ed_addresses := ed_addresses e @ [(mdns_key (rr_name r), a)]\<rparr> | None \<Rightarrow> e) in
         add_host (rr_name r) (OwnerHost (mdns_key (rr_name r))) e1)
      else e)"

definition read_question :: "string list \<Rightarrow> evidence \<Rightarrow> evidence" where
  "read_question question e = add_host question OwnerSender (add_instance question e)"

definition gather :: "byte list \<Rightarrow> dns_message \<Rightarrow> evidence" where
  "gather buf msg =
     (let e = fold (read_mdns_record buf) (msg_records msg) no_evidence in
      if \<not> msg_is_response msg then fold read_question (msg_questions msg) e else e)"

definition resolve_owner :: "evidence \<Rightarrow> owner \<Rightarrow> ip_addr list" where
  "resolve_owner e own =
     (case own of
        OwnerSender \<Rightarrow> []
      | OwnerHost host \<Rightarrow> addresses_of (ed_addresses e) host
      | OwnerInstance i \<Rightarrow>
          (case List.find (\<lambda>(named, _). named = i) (ed_targets e) of
             None \<Rightarrow> [] | Some (_, host) \<Rightarrow> addresses_of (ed_addresses e) host))"

definition claims_of :: "evidence \<Rightarrow> signal_kind \<Rightarrow> owned list \<Rightarrow> name_claim list" where
  "claims_of e kind vs =
     map (\<lambda>(v, own). \<lparr>claim_signal = Signal kind v, claim_addresses = resolve_owner e own\<rparr>) vs"

definition extract_claims :: "byte list \<Rightarrow> dns_message \<Rightarrow> name_claim list" where
  "extract_claims buf msg =
     (let e = gather buf msg in
      claims_of e MdnsName (ed_instances e) @ claims_of e MdnsName (ed_hosts e)
      @ claims_of e MdnsService (ed_services e) @ claims_of e MdnsModel (ed_models e))"

definition mdns_header :: "ethernet_frame \<Rightarrow> ip_header option" where
  "mdns_header frame =
     (if eth_type frame = ETHERTYPE_IPV4 then parse_ipv4 (eth_payload frame)
      else if eth_type frame = ETHERTYPE_IPV6 then parse_ipv6 (eth_payload frame) else None)"

definition parse_mdns :: "byte list \<Rightarrow> string \<Rightarrow> time \<Rightarrow> observation option" where
  "parse_mdns bytes interface ts =
     do {
       frame \<leftarrow> parse_ethernet bytes;
       ip \<leftarrow> mdns_header frame;
       if ip_protocol ip \<noteq> IPPROTO_UDP then None
       else do {
         udp \<leftarrow> parse_udp (ip_payload ip);
         if udp_dst_port udp \<noteq> MDNS_PORT \<and> udp_src_port udp \<noteq> MDNS_PORT then None
         else if is_group (eth_src frame) \<or> is_zero (eth_src frame) then None
         else do {
           msg \<leftarrow> parse_dns_message (udp_payload udp);
           Some ((new_observation (eth_src frame) (Some (ip_src ip)) interface MDNS_SOURCE
               (if msg_is_response msg then ObsAnnouncement else ObsQuery) ts)
             \<lparr>obs_claims := extract_claims (udp_payload udp) msg\<rparr>)
         } } }"

definition is_device_address :: "ip_addr \<Rightarrow> bool" where
  "is_device_address ip \<longleftrightarrow>
     (case ip of
        V4 a \<Rightarrow> \<not> is_multicast4 a \<and> \<not> is_unspecified ip \<and> a \<noteq> Ipv4Addr 255 255 255 255
      | V6 a \<Rightarrow> \<not> is_multicast6 a \<and> \<not> is_unspecified ip)"

subsection \<open>What the values are\<close>

lemmas record_types = TYPE_A_def TYPE_PTR_def TYPE_TXT_def TYPE_AAAA_def TYPE_SRV_def

definition name_ok :: "string \<Rightarrow> bool" where
  "name_ok v \<longleftrightarrow> showable v \<and> \<not> list_all is_address_char v"

definition evidence_ok :: "evidence \<Rightarrow> bool" where
  "evidence_ok e \<longleftrightarrow> (\<forall>v \<in> fst ` set (ed_instances e) \<union> fst ` set (ed_hosts e). name_ok v)
     \<and> (\<forall>v \<in> fst ` set (ed_models e). showable v)
     \<and> distinct (map fst (ed_instances e)) \<and> distinct (map fst (ed_hosts e))
     \<and> distinct (map fst (ed_services e)) \<and> distinct (map fst (ed_models e))"

lemma push_owned_values [simp]: "fst ` set (push_owned out v own) = insert v (fst ` set out)"
  by (auto simp: push_owned_def)

lemma push_owned_all [simp]:
  "(\<forall>x \<in> set (push_owned out v own). P (fst x)) \<longleftrightarrow> P v \<and> (\<forall>x \<in> set out. P (fst x))"
  by (force simp: push_owned_def)

lemma push_owned_distinct [simp]: "distinct (map fst (push_owned out v own)) = distinct (map fst out)"
  by (auto simp: push_owned_def)

lemma collect_service_distinct [simp]:
  "distinct (map fst (collect_service labels own services)) = distinct (map fst services)"
  by (auto simp: collect_service_def split: list.split)

lemma clean_name_ok: "clean_name raw = Some v \<Longrightarrow> name_ok v"
  using clean_name_Some by (auto simp: name_ok_def)

lemma host_label_ok: "host_label labels = Some v \<Longrightarrow> name_ok v"
  by (auto simp: host_label_def intro: clean_name_ok split: list.splits if_splits)

lemma add_instance_ok: "evidence_ok e \<Longrightarrow> evidence_ok (add_instance labels e)"
  using clean_name_ok
  by (auto simp: evidence_ok_def add_instance_def collect_instance_def split: option.split)

lemma add_host_ok: "evidence_ok e \<Longrightarrow> evidence_ok (add_host labels own e)"
  using host_label_ok by (auto simp: evidence_ok_def add_host_def split: option.split)

lemma collect_models_ok:
  assumes "\<forall>v \<in> fst ` set models. showable v" "distinct (map fst models)"
  shows "(\<forall>v \<in> fst ` set (collect_models r own models). showable v) \<and> distinct (map fst (collect_models r own models))"
proof -
  let ?step = "\<lambda>entry models.
       (case split_once (CHR ''='') entry of
          None \<Rightarrow> models
        | Some (k, v) \<Rightarrow>
            if \<not> list_ex (\<lambda>m. eq_ignore_ascii_case m (trim k)) MODEL_KEYS then models
            else (case clean_value v of Some model \<Rightarrow> push_owned models model own | None \<Rightarrow> models))"
  have one: "(\<forall>v \<in> fst ` set (?step entry ms). showable v) \<and> distinct (map fst (?step entry ms))"
    if "\<forall>v \<in> fst ` set ms. showable v" "distinct (map fst ms)" for entry ms
  proof (cases "split_once (CHR ''='') entry")
    case (Some kv)
    obtain k v where kv: "kv = (k, v)" by (cases kv)
    have "(\<forall>x \<in> fst ` set (push_owned ms m own). showable x) \<and> distinct (map fst (push_owned ms m own))"
      if "clean_value v = Some m" for m
      unfolding push_owned_values push_owned_distinct
      using clean_value_Some [OF that] \<open>\<forall>v \<in> fst ` set ms. showable v\<close> \<open>distinct (map fst ms)\<close> by blast
    then show ?thesis using that by (simp add: Some kv split: option.split)
  qed (use that in simp)
  have "(\<forall>v \<in> fst ` set (fold ?step entries ms). showable v) \<and> distinct (map fst (fold ?step entries ms))"
    if "\<forall>v \<in> fst ` set ms. showable v" "distinct (map fst ms)" for entries ms
    using that
  proof (induction entries arbitrary: ms)
    case (Cons entry entries)
    note first = one [OF Cons.prems, of entry]
    show ?case using Cons.IH [OF conjunct1 [OF first] conjunct2 [OF first]] by simp
  qed simp
  then show ?thesis using assms by (simp add: collect_models_def)
qed

lemma evidence_ok_update:
  "evidence_ok e \<Longrightarrow> distinct (map fst svs) \<Longrightarrow> evidence_ok (e\<lparr>ed_services := svs\<rparr>)"
  "evidence_ok e \<Longrightarrow> evidence_ok (e\<lparr>ed_addresses := as\<rparr>)" "evidence_ok e \<Longrightarrow> evidence_ok (e\<lparr>ed_targets := ts\<rparr>)"
  by (simp_all add: evidence_ok_def)

lemma read_mdns_record_ok:
  assumes "evidence_ok e"
  shows "evidence_ok (read_mdns_record buf r e)"
proof -
  have services: "evidence_ok (e'\<lparr>ed_services := collect_service labels own (ed_services e')\<rparr>)"
    if "evidence_ok e'" for e' labels own
    using that by (simp add: evidence_ok_def)
  have models: "evidence_ok (e'\<lparr>ed_models := collect_models r own (ed_models e')\<rparr>)" if "evidence_ok e'" for e' own
  proof -
    have "\<forall>v \<in> fst ` set (ed_models e'). showable v" "distinct (map fst (ed_models e'))"
      using that by (auto simp: evidence_ok_def)
    from collect_models_ok [OF this, of r own] that show ?thesis unfolding evidence_ok_def by simp
  qed
  note named = add_instance_ok [OF assms, of "rr_name r"]
  consider (ptr) "rr_type r = TYPE_PTR" | (srv) "rr_type r = TYPE_SRV" | (strings) "rr_type r = TYPE_TXT"
    | (address) "rr_type r = TYPE_A \<or> rr_type r = TYPE_AAAA"
    | (other) "rr_type r \<notin> {TYPE_PTR, TYPE_SRV, TYPE_TXT, TYPE_A, TYPE_AAAA}" by blast
  then show ?thesis
  proof cases
    case ptr
    then show ?thesis
      by (cases "ptr_target buf r") (simp_all add: read_mdns_record_def Let_def services assms add_instance_ok)
  next
    case srv
    then show ?thesis using evidence_ok_update(3) [OF named]
      by (cases "srv_target buf r") (simp_all add: read_mdns_record_def record_types Let_def named)
  next
    case strings
    then show ?thesis using models [OF named] by (simp add: read_mdns_record_def record_types Let_def)
  next
    case address
    then have "read_mdns_record buf r e = add_host (rr_name r) (OwnerHost (mdns_key (rr_name r)))
        (case record_address r of
           Some a \<Rightarrow> e\<lparr>ed_addresses := ed_addresses e @ [(mdns_key (rr_name r), a)]\<rparr> | None \<Rightarrow> e)"
      by (auto simp: read_mdns_record_def record_types)
    then show ?thesis using evidence_ok_update(2) [OF assms] assms
      by (cases "record_address r") (simp_all add: add_host_ok)
  next
    case other
    then show ?thesis using assms by (simp add: read_mdns_record_def)
  qed
qed

lemma gather_ok: "evidence_ok (gather buf msg)"
proof -
  have records: "evidence_ok e \<Longrightarrow> evidence_ok (fold (read_mdns_record buf) rs e)" for rs e
    by (induction rs arbitrary: e) (simp_all add: read_mdns_record_ok)
  have questions: "evidence_ok e \<Longrightarrow> evidence_ok (fold read_question qs e)" for qs e
    by (induction qs arbitrary: e) (simp_all add: read_question_def add_host_ok add_instance_ok)
  have "evidence_ok no_evidence" by (simp add: evidence_ok_def no_evidence_def)
  then show ?thesis using records questions by (simp add: gather_def Let_def)
qed

subsection \<open>What the addresses are\<close>

definition published :: "dns_message \<Rightarrow> string \<Rightarrow> ip_addr list" where
  "published msg host = List.map_filter record_address (filter (\<lambda>r. mdns_key (rr_name r) = host) (msg_records msg))"

lemma add_fields [simp]:
  "ed_addresses (add_instance labels e) = ed_addresses e" "ed_targets (add_instance labels e) = ed_targets e"
  "ed_addresses (add_host labels own e) = ed_addresses e" "ed_targets (add_host labels own e) = ed_targets e"
  by (simp_all add: add_instance_def add_host_def case_prod_beta split: option.split)

definition address_entry :: "dns_record \<Rightarrow> (string \<times> ip_addr) list" where
  "address_entry r = (case record_address r of Some a \<Rightarrow> [(mdns_key (rr_name r), a)] | None \<Rightarrow> [])"

definition target_entry :: "byte list \<Rightarrow> dns_record \<Rightarrow> (string \<times> string) list" where
  "target_entry buf r =
     (if rr_type r = TYPE_SRV
      then (case srv_target buf r of Some t \<Rightarrow> [(mdns_key (rr_name r), mdns_key t)] | None \<Rightarrow> []) else [])"

lemma read_mdns_record_tables:
  "ed_addresses (read_mdns_record buf r e) = ed_addresses e @ address_entry r"
  "ed_targets (read_mdns_record buf r e) = ed_targets e @ target_entry buf r"
  by (simp_all add: read_mdns_record_def address_entry_def target_entry_def record_address_def record_types Let_def
      split: option.split)

lemma gather_tables:
  "ed_addresses (gather buf msg) = concat (map address_entry (msg_records msg))"
  "ed_targets (gather buf msg) = concat (map (target_entry buf) (msg_records msg))"
proof -
  have "ed_addresses (fold (read_mdns_record buf) rs e) = ed_addresses e @ concat (map address_entry rs)"
    "ed_targets (fold (read_mdns_record buf) rs e) = ed_targets e @ concat (map (target_entry buf) rs)" for rs e
    by (induction rs arbitrary: e) (simp_all add: read_mdns_record_tables)
  moreover have "ed_addresses (fold read_question qs e) = ed_addresses e"
    "ed_targets (fold read_question qs e) = ed_targets e" for qs e
    by (induction qs arbitrary: e) (simp_all add: read_question_def)
  ultimately show "ed_addresses (gather buf msg) = concat (map address_entry (msg_records msg))"
    "ed_targets (gather buf msg) = concat (map (target_entry buf) (msg_records msg))"
    by (simp_all add: gather_def no_evidence_def Let_def)
qed

lemma addresses_of_published: "addresses_of (ed_addresses (gather buf msg)) host = published msg host"
proof -
  have "addresses_of (concat (map address_entry rs)) host
      = List.map_filter record_address (filter (\<lambda>r. mdns_key (rr_name r) = host) rs)" for rs
    by (induction rs) (auto simp: addresses_of_def address_entry_def map_filter_def split: option.split)
  then show ?thesis by (simp add: gather_tables published_def)
qed

lemma target_entry_resolves:
  "resolve_owner (gather buf msg) own = [] \<or> (\<exists>host. resolve_owner (gather buf msg) own = published msg host)"
proof (cases own)
  case (OwnerInstance i)
  then show ?thesis
    by (cases "List.find (\<lambda>(named, _). named = i) (ed_targets (gather buf msg))")
      (auto simp: resolve_owner_def addresses_of_published)
qed (auto simp: resolve_owner_def addresses_of_published)

definition claim_ok :: "dns_message \<Rightarrow> name_claim \<Rightarrow> bool" where
  "claim_ok msg c \<longleftrightarrow> sig_kind (claim_signal c) \<in> {MdnsName, MdnsService, MdnsModel}
     \<and> (sig_kind (claim_signal c) = MdnsName \<longrightarrow> name_ok (sig_value (claim_signal c)))
     \<and> (sig_kind (claim_signal c) = MdnsModel \<longrightarrow> showable (sig_value (claim_signal c)))
     \<and> (claim_addresses c = [] \<or> (\<exists>host. claim_addresses c = published msg host))"

lemma claims_of_ok:
  assumes "kind \<in> {MdnsName, MdnsService, MdnsModel}"
    and "\<forall>v \<in> fst ` set vs. (kind = MdnsName \<longrightarrow> name_ok v) \<and> (kind = MdnsModel \<longrightarrow> showable v)"
  shows "\<forall>c \<in> set (claims_of (gather buf msg) kind vs). claim_ok msg c"
proof -
  have "resolve_owner (gather buf msg) own = [] \<or> (\<exists>host. resolve_owner (gather buf msg) own = published msg host)"
    for own by (rule target_entry_resolves)
  then show ?thesis using assms unfolding claims_of_def claim_ok_def Signal_def by fastforce
qed

lemma parse_mdns_Some:
  assumes "parse_mdns bytes interface ts = Some obs"
  shows "\<exists>(frame :: ethernet_frame) (ip :: ip_header) buf msg. usable (eth_src frame)
    \<and> parse_dns_message buf = Some msg
    \<and> obs = (new_observation (eth_src frame) (Some (ip_src ip)) interface MDNS_SOURCE
               (if msg_is_response msg then ObsAnnouncement else ObsQuery) ts)
             \<lparr>obs_claims := extract_claims buf msg\<rparr>"
  using assms unfolding parse_mdns_def usable_def
  by (fastforce simp: bind_eq_Some_conv new_observation_def split: if_splits)

interpretation mdns: frame_parser parse_mdns MDNS_SOURCE
  by unfold_locales (auto simp: new_observation_def dest!: parse_mdns_Some)


subsection \<open>A service two devices share\<close>

text \<open>
  A service is credited to one device of a message only. When two instances of one service are in
  a message, as in any answer to a browse, the second adds no service: its owner is never credited with
  it, whatever addresses the message gives it.
\<close>

theorem shared_service_is_credited_once:
  assumes "labels = [first, service, protocol, domain]" "labels' = [other, service, protocol, domain]"
    and "\<not> starts_with first ''_''" "\<not> starts_with other ''_''"
  shows "snd (collect_instance labels' (collect_instance labels found)) = snd (collect_instance labels found)"
  using assms
  by (auto simp: collect_instance_def collect_service_def push_owned_def split: prod.split option.split)

text \<open>An answer that gives the address of \<^verbatim>\<open>tv.local\<close>.\<close>

definition sample_mdns :: "byte list" where
  "sample_mdns =
     [0, 0, 0x84, 0, 0, 0, 0, 1, 0, 0, 0, 0, 2, 0x74, 0x76, 5, 0x6c, 0x6f, 0x63, 0x61, 0x6c, 0,
      0, 1, 0x80, 1, 0, 0, 0, 120, 0, 4, 10, 0, 0, 7]"

lemma sample_mdns_parses: "\<exists>obs. parse_mdns (udp_frame (MacAddr 2 0 0 0 0 1) 5353 sample_mdns) interface ts = Some obs"
proof -
  have "length sample_mdns \<le> 65000" by (simp add: sample_mdns_def)
  then obtain ip where ip: "parse_ipv4 (ipv4_udp 5353 sample_mdns) = Some ip" "ip_protocol ip = IPPROTO_UDP"
    "parse_udp (ip_payload ip) = Some \<lparr>udp_src_port = 1, udp_dst_port = 5353, udp_payload = sample_mdns\<rparr>"
    using udp_frame_ip by blast
  have "\<exists>msg. parse_dns_message sample_mdns = Some msg"
    by (simp add: parse_dns_message_def sample_mdns_def Let_def be16_def)
  then show ?thesis using ip by (auto simp: parse_mdns_def udp_frame_ethernet mdns_header_def MDNS_PORT_def)
qed


theorem shared_service_is_credited_once_witness:
  "snd (collect_instance [''Den'', ''_airplay'', ''_tcp'', ''local'']
      (collect_instance [''Attic'', ''_airplay'', ''_tcp'', ''local''] ([], [])))
   = snd (collect_instance [''Attic'', ''_airplay'', ''_tcp'', ''local''] ([], []))"
proof (rule shared_service_is_credited_once [OF refl refl])
  show "\<not> starts_with ''Attic'' ''_''" "\<not> starts_with ''Den'' ''_''" by code_simp+
qed

end
