(* ===== verification/Unifi.thy ===== *)
theory Unifi
  imports Enrich Config
begin

text \<open>
  \<^verbatim>\<open>src/enrich/unifi.rs\<close>: the enricher that reads associations from a UniFi controller. The controller
  is a parameter: an answer for each request, which may depend on every request made before. The
  requests are kept in the order they are made; timeouts and TLS belong to the HTTP client.
\<close>

definition UNIFI_OS_PREFIX :: string where "UNIFI_OS_PREFIX = ''/proxy/network''"

datatype auth = ApiKey string | Credentials string string

record session =
  ss_prefix :: "string option"
  ss_logged_in :: bool

definition new_session :: session where
  "new_session = \<lparr>ss_prefix = None, ss_logged_in = False\<rparr>"

record unifi_enricher =
  ue_base :: string
  ue_site :: string
  ue_auth :: auth
  ue_poll_interval :: duration

definition new_unifi_enricher :: "unifi_config \<Rightarrow> unifi_enricher" where
  "new_unifi_enricher cfg =
     \<lparr>ue_base = trim_end_matches (CHR ''/'') (trim (un_controller_url cfg)), ue_site = trim (un_site cfg),
      ue_auth = (if trim (un_api_key cfg) = [] then Credentials (trim (un_username cfg)) (un_password cfg)
                 else ApiKey (trim (un_api_key cfg))),
      ue_poll_interval = un_poll_interval cfg\<rparr>"

text \<open>A login sends the credentials; a read carries the API key when there is one.\<close>

datatype request = PostLogin string auth | GetPath string "string option"

text \<open>An answer has a status and, when its body is JSON, that.\<close>

datatype response = Unreachable | Answer nat "json option"

type_synonym controller = "request list \<Rightarrow> request \<Rightarrow> response"

type_synonym conversation = "session \<times> request list"

definition is_success :: "nat \<Rightarrow> bool" where "is_success s \<longleftrightarrow> 200 \<le> s \<and> s < 300"

definition is_refusal :: "nat \<Rightarrow> bool" where "is_refusal s \<longleftrightarrow> s = 401 \<or> s = 403"

definition api_key :: "unifi_enricher \<Rightarrow> string option" where
  "api_key u = (case ue_auth u of ApiKey key \<Rightarrow> Some key | Credentials _ _ \<Rightarrow> None)"

definition sta_path :: "unifi_enricher \<Rightarrow> string" where
  "sta_path u = ''/api/s/'' @ ue_site u @ ''/stat/sta''"

definition device_path :: "unifi_enricher \<Rightarrow> string" where
  "device_path u = ''/api/s/'' @ ue_site u @ ''/stat/device''"

subsection \<open>Sessions\<close>

fun try_logins :: "controller \<Rightarrow> unifi_enricher \<Rightarrow> string list \<Rightarrow> request list \<Rightarrow> string option \<times> request list" where
  "try_logins c u [] tr = (None, tr)" |
  "try_logins c u (path # paths) tr =
     (let rq = PostLogin (ue_base u @ path) (ue_auth u) in
      case c tr rq of
        Unreachable \<Rightarrow> try_logins c u paths (tr @ [rq])
      | Answer s _ \<Rightarrow>
          if is_success s
          then (Some (if path = ''/api/auth/login'' then UNIFI_OS_PREFIX else []), tr @ [rq])
          else if is_refusal s then (None, tr @ [rq])
          else try_logins c u paths (tr @ [rq]))"

fun discover_prefix :: "controller \<Rightarrow> unifi_enricher \<Rightarrow> string list \<Rightarrow> request list \<Rightarrow> string option \<times> request list" where
  "discover_prefix c u [] tr = (None, tr)" |
  "discover_prefix c u (p # ps) tr =
     (let rq = GetPath (ue_base u @ p @ sta_path u) (api_key u) in
      case c tr rq of
        Answer s _ \<Rightarrow> if is_success s then (Some p, tr @ [rq]) else discover_prefix c u ps (tr @ [rq])
      | Unreachable \<Rightarrow> discover_prefix c u ps (tr @ [rq]))"

definition login :: "controller \<Rightarrow> unifi_enricher \<Rightarrow> request list \<Rightarrow> string option \<times> request list" where
  "login c u tr =
     (case ue_auth u of
        ApiKey _ \<Rightarrow> discover_prefix c u [[], UNIFI_OS_PREFIX] tr
      | Credentials _ _ \<Rightarrow> try_logins c u [''/api/auth/login'', ''/api/login''] tr)"

definition ensure_session :: "controller \<Rightarrow> unifi_enricher \<Rightarrow> conversation \<Rightarrow> string option \<times> conversation" where
  "ensure_session c u = (\<lambda>(ss, tr).
     (let needs_login = (api_key u = None \<and> \<not> ss_logged_in ss) in
      if ss_prefix ss \<noteq> None \<and> \<not> needs_login then (ss_prefix ss, ss, tr)
      else
        (case login c u tr of
           (None, tr1) \<Rightarrow> (None, ss, tr1)
         | (Some p, tr1) \<Rightarrow> (Some p, ss\<lparr>ss_prefix := Some p, ss_logged_in := True\<rparr>, tr1))))"

definition invalidate_session :: "session \<Rightarrow> session" where
  "invalidate_session ss = ss\<lparr>ss_logged_in := False\<rparr>"

text \<open>The loop of \<open>get\<close>, with the attempts that are left after this one.\<close>

fun attempt_get :: "controller \<Rightarrow> unifi_enricher \<Rightarrow> string \<Rightarrow> nat \<Rightarrow> string \<Rightarrow> conversation \<Rightarrow> json option \<times> conversation"
where
  "attempt_get c u path 0 p (ss, tr) =
     (let rq = GetPath (ue_base u @ p @ path) (api_key u) in
      case c tr rq of
        Unreachable \<Rightarrow> (None, ss, tr @ [rq])
      | Answer s body \<Rightarrow> (if is_success s then body else None, ss, tr @ [rq]))" |
  "attempt_get c u path (Suc n) p (ss, tr) =
     (let rq = GetPath (ue_base u @ p @ path) (api_key u) in
      case c tr rq of
        Unreachable \<Rightarrow> (None, ss, tr @ [rq])
      | Answer s body \<Rightarrow>
          if is_success s then (body, ss, tr @ [rq])
          else if \<not> is_refusal s then (None, ss, tr @ [rq])
          else
            (case ensure_session c u (invalidate_session ss, tr @ [rq]) of
               (None, cv) \<Rightarrow> (None, cv)
             | (Some p1, cv) \<Rightarrow> attempt_get c u path n p1 cv))"

definition unifi_get :: "controller \<Rightarrow> unifi_enricher \<Rightarrow> string \<Rightarrow> conversation \<Rightarrow> json option \<times> conversation" where
  "unifi_get c u path cv =
     (case ensure_session c u cv of
        (None, cv1) \<Rightarrow> (None, cv1)
      | (Some p, cv1) \<Rightarrow> attempt_get c u path 1 p cv1)"

subsection \<open>The access points\<close>

fun as_str :: "json \<Rightarrow> string option" where
  "as_str (JStr s) = Some s" |
  "as_str _ = None"

fun as_array :: "json \<Rightarrow> json list option" where
  "as_array (JArr js) = Some js" |
  "as_array _ = None"

definition add_access_point :: "json \<Rightarrow> (string \<rightharpoonup> string) \<Rightarrow> (string \<rightharpoonup> string)" where
  "add_access_point dev out =
     (case (Option.bind (Alert.field dev ''mac'') as_str, Option.bind (Alert.field dev ''name'') as_str) of
        (Some mac, Some name) \<Rightarrow>
          if trim name = [] then out else out(to_ascii_lowercase mac \<mapsto> trim name)
      | _ \<Rightarrow> out)"

definition access_points :: "controller \<Rightarrow> unifi_enricher \<Rightarrow> conversation \<Rightarrow> (string \<rightharpoonup> string) \<times> conversation" where
  "access_points c u cv =
     (case unifi_get c u (device_path u) cv of
        (None, cv1) \<Rightarrow> (Map.empty, cv1)
      | (Some body, cv1) \<Rightarrow>
          (fold add_access_point
             (case Option.bind (Alert.field body ''data'') as_array of Some ds \<Rightarrow> ds | None \<Rightarrow> []) Map.empty, cv1))"

subsection \<open>The clients\<close>

record station =
  st_mac :: string
  st_ap_mac :: "string option"
  st_ap_name :: "string option"
  st_essid :: "string option"
  st_vlan :: "int option"
  st_rx_bytes :: "int option"
  st_tx_bytes :: "int option"
  st_is_wired :: "bool option"

text \<open>
  What \<^verbatim>\<open>serde\<close> makes of an optional field: missing or null is \<open>None\<close>, a value of another type an error,
  and an integer outside \<^verbatim>\<open>i64\<close> too. An entry written as an array of its fields, which \<^verbatim>\<open>serde\<close> also
  reads, is not modelled.
\<close>

definition opt_field :: "json \<Rightarrow> string \<Rightarrow> (json \<Rightarrow> 'a option) \<Rightarrow> 'a option option" where
  "opt_field j k get =
     (case Alert.field j k of
        None \<Rightarrow> Some None | Some JNull \<Rightarrow> Some None | Some v \<Rightarrow> map_option Some (get v))"

fun as_i64 :: "json \<Rightarrow> int option" where
  "as_i64 (JNum n) = (if - (2 ^ 63) \<le> n \<and> n < 2 ^ 63 then Some n else None)" |
  "as_i64 _ = None"

fun as_bool :: "json \<Rightarrow> bool option" where
  "as_bool (JBool b) = Some b" |
  "as_bool _ = None"

definition station_of :: "json \<Rightarrow> station option" where
  "station_of j =
     do {
       mac \<leftarrow> Option.bind (Alert.field j ''mac'') as_str;
       ap_mac \<leftarrow> opt_field j ''ap_mac'' as_str;
       ap_name \<leftarrow> opt_field j ''ap_name'' as_str;
       essid \<leftarrow> opt_field j ''essid'' as_str;
       vlan \<leftarrow> opt_field j ''vlan'' as_i64;
       rx \<leftarrow> opt_field j ''rx_bytes'' as_i64;
       tx \<leftarrow> opt_field j ''tx_bytes'' as_i64;
       wired \<leftarrow> opt_field j ''is_wired'' as_bool;
       Some \<lparr>st_mac = mac, st_ap_mac = ap_mac, st_ap_name = ap_name, st_essid = essid, st_vlan = vlan,
             st_rx_bytes = rx, st_tx_bytes = tx, st_is_wired = wired\<rparr>
     }"

fun stations_of :: "json list \<Rightarrow> station list option" where
  "stations_of [] = Some []" |
  "stations_of (j # js) = do { s \<leftarrow> station_of j; ss \<leftarrow> stations_of js; Some (s # ss) }"

definition station_ap_name :: "(string \<rightharpoonup> string) \<Rightarrow> station \<Rightarrow> string option" where
  "station_ap_name inventory s =
     (case st_ap_name s of
        Some n \<Rightarrow>
          if trim n \<noteq> [] then Some (trim n)
          else map_option (\<lambda>m. case inventory (to_ascii_lowercase m) of Some name \<Rightarrow> name | None \<Rightarrow> to_ascii_lowercase m)
                 (st_ap_mac s)
      | None \<Rightarrow>
          map_option (\<lambda>m. case inventory (to_ascii_lowercase m) of Some name \<Rightarrow> name | None \<Rightarrow> to_ascii_lowercase m)
            (st_ap_mac s))"

definition station_extra :: "station \<Rightarrow> json" where
  "station_extra s =
     (let extra = (case st_essid s of Some e \<Rightarrow> if trim e \<noteq> [] then [(''essid'', JStr e)] else [] | None \<Rightarrow> [])
            @ (case st_is_wired s of Some b \<Rightarrow> [(''wired'', JBool b)] | None \<Rightarrow> []) in
      if extra = [] then JNull else JObj extra)"

definition enrichment_of :: "mac_addr list \<Rightarrow> (string \<rightharpoonup> string) \<Rightarrow> station \<Rightarrow> enrichment option" where
  "enrichment_of known inventory s =
     do {
       mac \<leftarrow> parse_mac (st_mac s);
       if known \<noteq> [] \<and> mac \<notin> set known then None
       else Some \<lparr>en_mac = mac, en_ap_name = station_ap_name inventory s, en_ap_location = None,
                  en_vlan = st_vlan s, en_bandwidth_rx = st_rx_bytes s, en_bandwidth_tx = st_tx_bytes s,
                  en_extra = station_extra s\<rparr>
     }"

definition needs_inventory :: "station list \<Rightarrow> bool" where
  "needs_inventory stations \<longleftrightarrow> list_ex (\<lambda>s. st_ap_name s = None \<and> st_ap_mac s \<noteq> None) stations"

definition unifi_enrich ::
  "controller \<Rightarrow> unifi_enricher \<Rightarrow> mac_addr list \<Rightarrow> conversation \<Rightarrow> enrichment list option \<times> conversation"
where
  "unifi_enrich c u known cv =
     (case unifi_get c u (sta_path u) cv of
        (None, cv1) \<Rightarrow> (None, cv1)
      | (Some body, cv1) \<Rightarrow>
          (case Option.bind (Option.bind (Alert.field body ''data'') as_array) stations_of of
             None \<Rightarrow> (None, cv1)
           | Some stations \<Rightarrow>
               (let (inventory, cv2) = (if needs_inventory stations then access_points c u cv1 else (Map.empty, cv1)) in
                (Some (List.map_filter (enrichment_of known inventory) stations), cv2))))"

subsection \<open>How many requests a poll makes\<close>

definition is_login :: "request \<Rightarrow> bool" where
  "is_login rq \<longleftrightarrow> (case rq of PostLogin _ _ \<Rightarrow> True | GetPath _ _ \<Rightarrow> False)"

definition logins :: "request list \<Rightarrow> nat" where
  "logins tr = length (filter is_login tr)"

lemma logins_simps [simp]:
  "logins [] = 0" "logins (tr @ tr') = logins tr + logins tr'" "logins [PostLogin url a] = 1" "logins [GetPath url k] = 0"
  by (simp_all add: logins_def is_login_def)

text \<open>A controller that refuses every login.\<close>

definition refuses_logins :: "controller \<Rightarrow> bool" where
  "refuses_logins c \<longleftrightarrow> (\<forall>tr url a. \<exists>s body. c tr (PostLogin url a) = Answer s body \<and> is_refusal s)"

lemma refusal_not_success: "is_refusal s \<Longrightarrow> \<not> is_success s"
  by (auto simp: is_refusal_def is_success_def)

lemma try_logins_requests: "length (snd (try_logins c u paths tr)) \<le> length tr + length paths"
proof (induction paths arbitrary: tr)
  case (Cons path paths)
  show ?case using Cons.IH [of "tr @ [PostLogin (ue_base u @ path) (ue_auth u)]"]
    by (cases "c tr (PostLogin (ue_base u @ path) (ue_auth u))") (simp_all add: Let_def)
qed simp

lemma discover_prefix_requests:
  "length (snd (discover_prefix c u ps tr)) \<le> length tr + length ps \<and> logins (snd (discover_prefix c u ps tr)) = logins tr"
proof (induction ps arbitrary: tr)
  case (Cons p ps)
  show ?case using Cons.IH [of "tr @ [GetPath (ue_base u @ p @ sta_path u) (api_key u)]"]
    by (simp add: Let_def split: response.split)
qed simp

lemma login_requests: "length (snd (login c u tr)) \<le> length tr + 2"
  using try_logins_requests [of c u "[''/api/auth/login'', ''/api/login'']" tr]
    discover_prefix_requests [of c u "[[], UNIFI_OS_PREFIX]" tr]
  by (simp add: login_def split: auth.split del: try_logins.simps discover_prefix.simps)

text \<open>With every login refused, asking for one sends the credentials once and gives no session.\<close>

lemma try_logins_refused:
  assumes "refuses_logins c"
  shows "try_logins c u (path # paths) tr = (None, tr @ [PostLogin (ue_base u @ path) (ue_auth u)])"
proof -
  obtain s body where "c tr (PostLogin (ue_base u @ path) (ue_auth u)) = Answer s body" "is_refusal s"
    using assms unfolding refuses_logins_def by blast
  then show ?thesis using refusal_not_success [of s] by (simp add: Let_def)
qed

definition gently :: "nat \<Rightarrow> bool \<Rightarrow> nat \<Rightarrow> bool" where
  "gently before ok after \<longleftrightarrow> after \<le> before + 1 \<and> (ok \<longrightarrow> after = before)"

lemma login_refused:
  assumes "refuses_logins c"
  shows "gently (logins tr) (fst (login c u tr) \<noteq> None) (logins (snd (login c u tr)))"
  using discover_prefix_requests [of c u "[[], UNIFI_OS_PREFIX]" tr]
  by (simp add: gently_def login_def try_logins_refused [OF assms] split: auth.split del: try_logins.simps discover_prefix.simps)

lemma ensure_session_requests:
  "length (snd (snd (ensure_session c u cv))) \<le> length (snd cv) + 2"
  using login_requests [of c u "snd cv"]
  by (auto simp: ensure_session_def Let_def case_prod_beta split: option.split)

lemma ensure_session_refused:
  assumes "refuses_logins c"
  shows "gently (logins (snd cv)) (fst (ensure_session c u cv) \<noteq> None) (logins (snd (snd (ensure_session c u cv))))"
  using login_refused [OF assms, of "snd cv" u]
  by (auto simp: gently_def ensure_session_def Let_def case_prod_beta split: option.split)

text \<open>Both attempts at a path, with what happens between them.\<close>

lemma attempt_get_cases:
  obtains (once) rq where "snd (snd (attempt_get c u path n p (ss, tr))) = tr @ [rq]" "\<not> is_login rq"
  | (failed) cv m rq where "n = Suc m" "\<not> is_login rq" "attempt_get c u path n p (ss, tr) = (None, cv)"
      "ensure_session c u (invalidate_session ss, tr @ [rq]) = (None, cv)"
  | (again) cv m p1 rq where "n = Suc m" "\<not> is_login rq" "attempt_get c u path n p (ss, tr) = attempt_get c u path m p1 cv"
      "ensure_session c u (invalidate_session ss, tr @ [rq]) = (Some p1, cv)"
proof -
  let ?rq = "GetPath (ue_base u @ p @ path) (api_key u)"
  have l: "\<not> is_login ?rq" by (simp add: is_login_def)
  show ?thesis
  proof (cases n)
    case 0
    then show ?thesis by (intro once [OF _ l]) (simp add: Let_def split: response.split)
  next
    case (Suc m)
    obtain r cv where e: "ensure_session c u (invalidate_session ss, tr @ [?rq]) = (r, cv)" by (rule prod.exhaust)
    show ?thesis
    proof (cases "\<exists>s body. c tr ?rq = Answer s body \<and> \<not> is_success s \<and> is_refusal s")
      case True
      then obtain s body where a: "c tr ?rq = Answer s body" "\<not> is_success s" "is_refusal s" by blast
      show ?thesis
      proof (cases r)
        case None
        show ?thesis by (rule failed [OF Suc l _ e [unfolded None]]) (simp add: Suc a e None Let_def)
      next
        case (Some p1)
        show ?thesis by (rule again [OF Suc l _ e [unfolded Some]]) (simp add: Suc a e Some Let_def)
      qed
    next
      case False
      then show ?thesis by (intro once [OF _ l]) (auto simp: Suc Let_def split: response.split)
    qed
  qed
qed

lemma attempt_get_requests:
  "length (snd (snd (attempt_get c u path n p cv))) \<le> length (snd cv) + 3 * n + 1"
proof (induction n arbitrary: p cv)
  case 0
  then show ?case by (cases cv) (simp add: Let_def split: response.split)
next
  case (Suc n)
  obtain ss tr where cv: "cv = (ss, tr)" by fastforce
  show ?case
  proof (cases rule: attempt_get_cases [of c u path "Suc n" p ss tr])
    case (failed cv1 m rq)
    then show ?thesis using ensure_session_requests [of c u "(invalidate_session ss, tr @ [rq])"] by (simp add: cv)
  next
    case (again cv1 m p1 rq)
    then show ?thesis
      using ensure_session_requests [of c u "(invalidate_session ss, tr @ [rq])"] Suc.IH [of p1 cv1] by (simp add: cv)
  qed (simp add: cv)
qed

lemma attempt_get_refused:
  assumes "refuses_logins c"
  shows "gently (logins (snd cv)) (fst (attempt_get c u path n p cv) \<noteq> None) (logins (snd (snd (attempt_get c u path n p cv))))"
proof (induction n arbitrary: p cv)
  case 0
  then show ?case by (cases cv) (simp add: Let_def gently_def split: response.split)
next
  case (Suc n)
  obtain ss tr where cv: "cv = (ss, tr)" by fastforce
  have e: "gently (logins tr) (fst (ensure_session c u (invalidate_session ss, tr @ [rq])) \<noteq> None)
      (logins (snd (snd (ensure_session c u (invalidate_session ss, tr @ [rq])))))" if "\<not> is_login rq" for rq
    using ensure_session_refused [OF assms, of "(invalidate_session ss, tr @ [rq])" u] that
    by (cases rq) (simp_all add: is_login_def)
  show ?case
  proof (cases rule: attempt_get_cases [of c u path "Suc n" p ss tr])
    case (once rq)
    then show ?thesis by (cases rq) (simp_all add: cv gently_def is_login_def)
  next
    case (failed cv1 m rq)
    then show ?thesis using e [of rq] by (simp add: cv gently_def)
  next
    case (again cv1 m p1 rq)
    then show ?thesis using e [of rq] Suc.IH [of cv1 p1] by (simp add: cv gently_def)
  qed
qed

lemma unifi_get_requests: "length (snd (snd (unifi_get c u path cv))) \<le> length (snd cv) + 6"
proof -
  obtain r cv1 where e: "ensure_session c u cv = (r, cv1)" by (rule prod.exhaust)
  show ?thesis
    using ensure_session_requests [of c u cv] attempt_get_requests [of c u path 1 _ cv1]
    by (cases r) (auto simp: unifi_get_def e intro: order_trans [OF attempt_get_requests])
qed

lemma unifi_get_refused:
  assumes "refuses_logins c"
  shows "gently (logins (snd cv)) (fst (unifi_get c u path cv) \<noteq> None) (logins (snd (snd (unifi_get c u path cv))))"
proof -
  obtain r cv1 where e: "ensure_session c u cv = (r, cv1)" by (rule prod.exhaust)
  show ?thesis
    using ensure_session_refused [OF assms, of cv u] attempt_get_refused [OF assms, of cv1 u path 1]
    by (cases r) (simp_all add: unifi_get_def e gently_def)
qed

subsection \<open>Properties\<close>

lemma access_points_conversation: "snd (access_points c u cv) = snd (unifi_get c u (device_path u) cv)"
  by (simp add: access_points_def case_prod_beta split: option.split)

lemma unifi_enrich_conversation:
  "snd (snd (unifi_enrich c u known cv)) = snd (snd (unifi_get c u (sta_path u) cv))
    \<or> fst (unifi_get c u (sta_path u) cv) \<noteq> None
      \<and> snd (snd (unifi_enrich c u known cv))
        = snd (snd (unifi_get c u (device_path u) (snd (unifi_get c u (sta_path u) cv))))"
  by (auto simp: unifi_enrich_def Let_def case_prod_beta access_points_conversation split: option.split)

text \<open>
  A poll of the controller ends, and makes at most twelve requests, whatever the controller answers.
\<close>

lemma poll_is_bounded: "length (snd (snd (unifi_enrich c u known cv))) \<le> length (snd cv) + 12"
  using unifi_enrich_conversation [of c u known cv] unifi_get_requests [of c u "sta_path u" cv]
    unifi_get_requests [of c u "device_path u" "snd (unifi_get c u (sta_path u) cv)"]
  by auto


definition locked_out :: controller where
  "locked_out tr rq = (case rq of PostLogin _ _ \<Rightarrow> Answer 401 None | GetPath _ _ \<Rightarrow> Answer 403 None)"

lemma locked_out_refuses: "refuses_logins locked_out"
  by (simp add: refuses_logins_def locked_out_def is_refusal_def)

definition sample_enricher :: unifi_enricher where
  "sample_enricher = \<lparr>ue_base = ''https://u'', ue_site = ''default'',
     ue_auth = Credentials ''me'' ''guess'', ue_poll_interval = 0\<rparr>"


lemma enrichment_of_known:
  "enrichment_of known inventory s = Some en \<Longrightarrow>
     (known = [] \<or> en_mac en \<in> set known) \<and> en_ap_location en = None \<and> en_vlan en = st_vlan s
     \<and> parse_mac (st_mac s) = Some (en_mac en) \<and> en_ap_name en = station_ap_name inventory s"
  by (auto simp: enrichment_of_def bind_eq_Some_conv split: if_splits)

text \<open>
  What a poll reports is about devices the daemon has, once it has any: a client the controller
  knows and the network never showed is left out. A poll never names a place (only the location map
  does), and an access point without a name in the controller's inventory is named by its MAC.
\<close>

lemma poll_reports_known_devices:
  assumes "unifi_enrich c u known cv = (Some ens, cv1)" "en \<in> set ens" "known \<noteq> []"
  shows "en_mac en \<in> set known \<and> en_ap_location en = None"
proof -
  obtain inventory stations where "ens = List.map_filter (enrichment_of known inventory) stations"
    using assms(1) by (auto simp: unifi_enrich_def Let_def case_prod_beta split: option.splits prod.splits)
  then obtain s where "enrichment_of known inventory s = Some en"
    using assms(2) by (auto simp: List.map_filter_def)
  then show ?thesis using enrichment_of_known assms(3) by blast
qed

definition answers :: "json \<Rightarrow> controller" where
  "answers body tr rq = (case rq of PostLogin _ _ \<Rightarrow> Answer 200 None | GetPath _ _ \<Rightarrow> Answer 200 (Some body))"

definition two_clients :: json where
  "two_clients = JObj [(''data'', JArr
     [JObj [(''mac'', JStr ''00:00:00:00:00:01''), (''vlan'', JNum 7)],
      JObj [(''mac'', JStr ''00:00:00:00:00:02''), (''is_wired'', JBool True)]])]"

lemma poll_reports_known_devices_witness:
  "\<exists>ens cv1 en. unifi_enrich (answers two_clients) sample_enricher [the (parse_mac ''00:00:00:00:00:01'')] (new_session, []) = (Some ens, cv1)
     \<and> en \<in> set ens \<and> en_vlan en = Some 7 \<and> en_ap_location en = None"
proof -
  let ?known = "[the (parse_mac ''00:00:00:00:00:01'')]"
  let ?r = "unifi_enrich (answers two_clients) sample_enricher ?known (new_session, [])"
  have v: "map_option (map en_vlan) (fst ?r) = Some [Some 7]" by code_simp
  then obtain ens en where e: "fst ?r = Some ens" "ens = [en]" "en_vlan en = Some 7" by auto
  have r: "?r = (Some ens, snd ?r)" using e(1) by (metis prod.collapse)
  have loc: "en_ap_location en = None" using poll_reports_known_devices [OF r, of en] e(2) by simp
  show ?thesis
    by (rule exI [of _ ens], rule exI [of _ "snd ?r"], rule exI [of _ en]) (use r e loc in simp)
qed

text \<open>
  A client entry whose access point name is present and blank does not make the poll read the
  inventory, though it is then named from it: without another entry that does, the access point's MAC
  is reported where its name is known.
\<close>

lemma blank_name_hides_inventory:
  assumes "st_ap_name s = Some blank" "trim blank = []" "st_ap_mac s = Some ap"
  shows "\<not> needs_inventory [s]" "station_ap_name Map.empty s = Some (to_ascii_lowercase ap)"
    "station_ap_name [to_ascii_lowercase ap \<mapsto> name] s = Some name"
  using assms by (simp_all add: needs_inventory_def station_ap_name_def)

end
