(* ===== verification/Ntfy.thy ===== *)
theory Ntfy
  imports Ssdp Nbns Daemon Unifi "HOL-Library.While_Combinator"
begin

text \<open>
  \<^verbatim>\<open>src/notify/ntfy.rs\<close>: the notifier that publishes to an ntfy topic. What it posts is modelled to the
  byte: the encoding of header values, titles, bodies, tags and priorities. The server is a parameter
  that gives the status of a post, \<open>None\<close> when it cannot be reached, and \<open>fmt\<close> is the rendering of an
  instant, which the \<^verbatim>\<open>chrono\<close> library does.
\<close>

unbundle bit_operations_syntax

subsection \<open>Base64\<close>

definition ALPHABET :: string where
  "ALPHABET = ''ABCDEFGHIJKLMNOPQRSTUVWXYZabcdefghijklmnopqrstuvwxyz0123456789+/''"

definition group_bits :: "byte \<Rightarrow> byte \<Rightarrow> byte \<Rightarrow> u32" where
  "group_bits b0 b1 b2 = push_bit 16 (ucast b0) OR push_bit 8 (ucast b1) OR ucast b2"

definition letter :: "u32 \<Rightarrow> nat \<Rightarrow> char" where
  "letter bits shift = ALPHABET ! unat (drop_bit shift bits AND 0x3f)"

definition base64_group :: "byte list \<Rightarrow> string" where
  "base64_group grp =
     (let bits = group_bits (grp ! 0) (if 1 < length grp then grp ! 1 else 0)
                   (if 2 < length grp then grp ! 2 else 0) in
      [letter bits 18, letter bits 12,
       if 1 < length grp then letter bits 6 else CHR ''='',
       if 2 < length grp then letter bits 0 else CHR ''=''])"

fun base64 :: "byte list \<Rightarrow> string" where
  "base64 [] = []" |
  "base64 [a] = base64_group [a]" |
  "base64 [a, b] = base64_group [a, b]" |
  "base64 (a # b # c # rest) = base64_group [a, b, c] @ base64 rest"

subsection \<open>Header values\<close>

definition MAX_ENCODED_WORD :: nat where "MAX_ENCODED_WORD = 75"
definition ENCODED_WORD_OVERHEAD :: nat where "ENCODED_WORD_OVERHEAD = 12"

definition MAX_CHUNK :: nat where
  "MAX_CHUNK = (MAX_ENCODED_WORD - ENCODED_WORD_OVERHEAD) div 4 * 3"

definition needs_no_encoding :: "string \<Rightarrow> bool" where
  "needs_no_encoding s \<longleftrightarrow>
     list_all (\<lambda>c. ordc c < 128) s \<and> \<not> contains s ''=?'' \<and> \<not> list_ex (\<lambda>c. ordc c < 0x20 \<or> ordc c = 0x7f) s"

definition is_char_boundary :: "string \<Rightarrow> nat \<Rightarrow> bool" where
  "is_char_boundary s i \<longleftrightarrow> i = 0 \<or> (if i < length s then \<not> cont (ordc (s ! i)) else i = length s)"

text \<open>The inner loop: the chunk shrinks to the last character boundary.\<close>

fun step_back :: "string \<Rightarrow> nat \<Rightarrow> nat" where
  "step_back s 0 = 0" |
  "step_back s (Suc n) = (if is_char_boundary s (Suc n) then Suc n else step_back s n)"

definition second_char :: "string \<Rightarrow> nat" where
  "second_char s = (case List.find (is_char_boundary s) [1..<length s] of Some i \<Rightarrow> i | None \<Rightarrow> length s)"

definition chunk_len :: "string \<Rightarrow> nat" where
  "chunk_len rest =
     (let n = step_back rest (min MAX_CHUNK (length rest)) in if n = 0 then second_char rest else n)"

definition encoded_word :: "string \<Rightarrow> string" where
  "encoded_word chunk = ''=?UTF-8?B?'' @ base64 (map byte_of chunk) @ ''?=''"

definition encode_step :: "string list \<times> string \<Rightarrow> string list \<times> string" where
  "encode_step = (\<lambda>(words, rest). (words @ [encoded_word (take (chunk_len rest) rest)], drop (chunk_len rest) rest))"

definition encode_words :: "string \<Rightarrow> string list option" where
  "encode_words s = map_option fst (while_option (\<lambda>(words, rest). rest \<noteq> []) encode_step ([], s))"

definition encode_header :: "string \<Rightarrow> string option" where
  "encode_header s = (if needs_no_encoding s then Some s else map_option (join '' '') (encode_words s))"

subsection \<open>The loop ends\<close>

lemma second_char_pos: "s \<noteq> [] \<Longrightarrow> 0 < second_char s"
  by (auto simp: second_char_def find_Some_iff split: option.split)

lemma chunk_len_pos: "s \<noteq> [] \<Longrightarrow> 0 < chunk_len s"
  by (simp add: chunk_len_def Let_def second_char_pos)

text \<open>The words by recursion, for the proofs.\<close>

function words_of :: "string \<Rightarrow> string list" where
  "words_of s = (if s = [] then [] else take (chunk_len s) s # words_of (drop (chunk_len s) s))"
  by auto
termination
proof (relation "measure length", goal_cases)
  case (2 s)
  then show ?case using chunk_len_pos [of s] by (cases s) auto
qed simp

declare words_of.simps [simp del]

lemma words_of_Nil [simp]: "words_of [] = []"
  by (simp add: words_of.simps)

lemma encode_loop:
  "while_option (\<lambda>(words, rest). rest \<noteq> []) encode_step (words, s) = Some (words @ map encoded_word (words_of s), [])"
proof (induction s arbitrary: words rule: words_of.induct)
  case (1 s)
  show ?case
  proof (cases "s = []")
    case False
    then show ?thesis using 1 [OF False] words_of.simps [of s]
      by (subst while_option_unfold) (simp add: encode_step_def)
  qed (simp add: while_option_unfold)
qed

lemma encode_words_eq: "encode_words s = Some (map encoded_word (words_of s))"
  by (simp add: encode_words_def encode_loop)

lemma words_of_concat: "concat (words_of s) = s"
proof (induction s rule: words_of.induct)
  case (1 s)
  then show ?case by (cases "s = []") (simp_all add: words_of.simps [of s])
qed

subsection \<open>The encoder agrees with the standard one\<close>

lemma alphabet_letter: "take_bit 6 v = v \<Longrightarrow> ALPHABET ! unat v = b64 v" for v :: byte
proof -
  assume v: "take_bit 6 v = v"
  have "unat (take_bit 6 v) = take_bit 6 (unat v)" by (rule unsigned_take_bit_eq)
  then have "unat v = unat v mod 64" unfolding v by (simp add: take_bit_eq_mod)
  then have n: "unat v < 64" by (metis mod_less_divisor zero_less_numeral)
  have "list_all (\<lambda>n. ALPHABET ! n = b64 (word_of_nat n)) [0..<64]" by code_simp
  then have "\<forall>n < 64. ALPHABET ! n = b64 (word_of_nat n)" unfolding list_all_iff by simp
  then have "ALPHABET ! unat v = b64 (word_of_nat (unat v))" using n by blast
  then show ?thesis by simp
qed

lemma group_letters:
  "drop_bit 18 (group_bits a b c) AND 0x3f = ucast (drop_bit 2 a)"
  "drop_bit 12 (group_bits a b c) AND 0x3f = ucast (push_bit 4 (take_bit 2 a) OR drop_bit 4 b)"
  "drop_bit 6 (group_bits a b c) AND 0x3f = ucast (push_bit 2 (take_bit 4 b) OR drop_bit 6 c)"
  "drop_bit 0 (group_bits a b c) AND 0x3f = ucast (take_bit 6 c)"
proof -
  have m: "w AND 0x3f = take_bit 6 w" for w :: u32
    by (simp add: take_bit_eq_mask mask_eq_exp_minus_1)
  have cases: "n < LENGTH(32) \<Longrightarrow> 6 \<le> n \<or> n = 0 \<or> n = 1 \<or> n = 2 \<or> n = 3 \<or> n = 4 \<or> n = 5" for n :: nat
    by auto
  show "drop_bit 18 (group_bits a b c) AND 0x3f = ucast (drop_bit 2 a)"
    unfolding m group_bits_def
    by (rule bit_word_eqI, drule cases, elim disjE; auto simp: bit_simps no_high_bit)
  show "drop_bit 12 (group_bits a b c) AND 0x3f = ucast (push_bit 4 (take_bit 2 a) OR drop_bit 4 b)"
    unfolding m group_bits_def
    by (rule bit_word_eqI, drule cases, elim disjE; auto simp: bit_simps no_high_bit)
  show "drop_bit 6 (group_bits a b c) AND 0x3f = ucast (push_bit 2 (take_bit 4 b) OR drop_bit 6 c)"
    unfolding m group_bits_def
    by (rule bit_word_eqI, drule cases, elim disjE; auto simp: bit_simps no_high_bit)
  show "drop_bit 0 (group_bits a b c) AND 0x3f = ucast (take_bit 6 c)"
    unfolding m group_bits_def
    by (rule bit_word_eqI, drule cases, elim disjE; auto simp: bit_simps no_high_bit)
qed

lemma unat_letter: "unat (ucast v :: u32) = unat v" for v :: byte
proof -
  have "unat v < 2 ^ 32" by (rule order.strict_trans [OF unat_byte_less]) simp
  then show ?thesis by (simp add: unsigned_ucast_eq take_bit_nat_eq_self)
qed

lemma letters:
  "letter (group_bits a b c) 18 = b64 (drop_bit 2 a)"
  "letter (group_bits a b c) 12 = b64 (push_bit 4 (take_bit 2 a) OR drop_bit 4 b)"
  "letter (group_bits a b c) 6 = b64 (push_bit 2 (take_bit 4 b) OR drop_bit 6 c)"
  "letter (group_bits a b c) 0 = b64 (take_bit 6 c)"
  unfolding letter_def group_letters unat_letter by (rule alphabet_letter, rule sextets)+

lemma base64_groups:
  "base64_group [a] = [b64 (drop_bit 2 a), b64 (push_bit 4 (take_bit 2 a)), CHR ''='', CHR ''='']"
  "base64_group [a, b] = [b64 (drop_bit 2 a), b64 (push_bit 4 (take_bit 2 a) OR drop_bit 4 b), b64 (push_bit 2 (take_bit 4 b)), CHR ''='']"
  "base64_group [a, b, c] = [b64 (drop_bit 2 a), b64 (push_bit 4 (take_bit 2 a) OR drop_bit 4 b),
      b64 (push_bit 2 (take_bit 4 b) OR drop_bit 6 c), b64 (take_bit 6 c)]"
  using letters [of a 0 0] letters [of a b 0] letters [of a b c] by (simp_all add: base64_group_def Let_def)

lemma padding_length: "(3 - Suc (Suc (Suc n)) mod 3) mod 3 = (3 - n mod 3) mod (3::nat)"
proof -
  have "Suc (Suc (Suc n)) mod 3 = n mod 3" by presburger
  then show ?thesis by (simp only:)
qed

lemma base64_eq: "base64 bs = base64_encode bs"
proof (induction bs rule: base64.induct)
  case (2 a)
  have "replicate 2 x = [x, x]" for x :: char by (simp add: numeral_2_eq_2)
  then show ?case by (simp add: base64_groups base64_encode_def)
next
  case (4 a b c rest)
  then show ?case by (simp add: base64_groups base64_encode_def padding_length)
qed (simp_all add: base64_groups base64_encode_def)

subsection \<open>A header read back\<close>

text \<open>
  The reader of RFC 2047: a value that holds an encoded word is a list of them, each of which is text
  on its own, and the blanks between two words are dropped.
\<close>

definition decode_word :: "string \<Rightarrow> string option" where
  "decode_word w =
     (if prefix ''=?UTF-8?B?'' w \<and> suffix ''?='' w then base64_text (drop 10 (take (length w - 2) w)) else None)"

fun all_some :: "'a option list \<Rightarrow> 'a list option" where
  "all_some [] = Some []" |
  "all_some (x # xs) = do { y \<leftarrow> x; ys \<leftarrow> all_some xs; Some (y # ys) }"

definition decode_header :: "string \<Rightarrow> string option" where
  "decode_header h =
     (if contains h ''=?'' then map_option concat (all_some (map decode_word (split_on (CHR '' '') h))) else Some h)"

text \<open>A string of the source holds whole characters.\<close>

definition utf8 :: "string \<Rightarrow> bool" where
  "utf8 s \<longleftrightarrow> utf8_valid (map ordc s)"

lemma cont_peek: "cont (peek bs i) \<Longrightarrow> i < length bs \<and> cont (bs ! i)"
  by (auto simp: peek_def cont_def split: if_splits)

lemma second_peek: "utf8_second b (peek bs 0) \<Longrightarrow> cont (peek bs 0)"
  by (auto simp: utf8_second_def cont_def split: if_splits)

lemma peek_take: "i < n \<Longrightarrow> peek (take n bs) i = peek bs i"
  by (auto simp: peek_def)

lemma utf8_step_whole:
  assumes "snd (utf8_step (b # bs))"
  shows "fst (utf8_step (b # bs)) \<le> 4" "fst (utf8_step (b # bs)) \<le> length (b # bs)" "\<not> cont b"
    "0 < i \<Longrightarrow> i < fst (utf8_step (b # bs)) \<Longrightarrow> cont ((b # bs) ! i)"
    "fst (utf8_step (b # bs)) \<le> n \<Longrightarrow> utf8_step (take n (b # bs)) = utf8_step (b # bs)"
proof -
  consider (one) "b < 0x80"
    | (two) "0xC2 \<le> b" "b \<le> 0xDF" "cont (peek bs 0)"
    | (three) "0xE0 \<le> b" "b \<le> 0xEF" "utf8_second b (peek bs 0)" "cont (peek bs 1)"
    | (four) "0xF0 \<le> b" "b \<le> 0xF4" "utf8_second b (peek bs 0)" "cont (peek bs 1)" "cont (peek bs 2)"
    using assms by (auto split: if_splits)
  note parts = this
  show "fst (utf8_step (b # bs)) \<le> 4" by simp
  show "fst (utf8_step (b # bs)) \<le> length (b # bs)"
    using parts by cases (auto simp: Suc_le_eq dest: cont_peek second_peek)
  show "\<not> cont b" using parts by cases (auto simp: cont_def)
  show "cont ((b # bs) ! i)" if "0 < i" "i < fst (utf8_step (b # bs))"
  proof -
    have "cont (peek bs (i - 1))" using parts
    proof cases
      case three
      then have "i - 1 = 0 \<or> i - 1 = 1" using that(2) by auto
      then show ?thesis using three second_peek [of b bs] by auto
    next
      case four
      then have "i - 1 = 0 \<or> i - 1 = 1 \<or> i - 1 = 2" using that(2) by auto
      then show ?thesis using four second_peek [of b bs] by auto
    qed (use that in auto)
    then have "cont (bs ! (i - 1))" using cont_peek [of bs "i - 1"] by blast
    then show ?thesis using that(1) by simp
  qed
  show "utf8_step (take n (b # bs)) = utf8_step (b # bs)" if "fst (utf8_step (b # bs)) \<le> n"
  proof (cases n)
    case 0
    then show ?thesis using that utf8_step_pos [of "b # bs"] by simp
  next
    case (Suc m)
    show ?thesis using parts
    proof cases
      case two
      then have "0 < m" using that Suc by simp
      then show ?thesis using two Suc by (simp add: peek_take)
    next
      case three
      then have "1 < m" using that Suc by simp
      then show ?thesis using three Suc by (simp add: peek_take)
    next
      case four
      then have "2 < m" using that Suc by simp
      then show ?thesis using four Suc by (simp add: peek_take)
    qed (use Suc in simp)
  qed
qed

lemma utf8_valid_Cons:
  "utf8_valid (b # bs) \<longleftrightarrow> snd (utf8_step (b # bs)) \<and> utf8_valid (drop (fst (utf8_step (b # bs))) (b # bs))"
  by (subst utf8_valid.simps) (rule trans [OF if_not_P], simp_all del: utf8_step.simps)

lemma utf8_valid_Nil [simp]: "utf8_valid []"
  by (simp add: utf8_valid.simps)

lemma utf8_valid_split:
  "utf8_valid bs \<Longrightarrow> n \<le> length bs \<Longrightarrow> (n < length bs \<longrightarrow> \<not> cont (bs ! n)) \<or> n = 0
    \<Longrightarrow> utf8_valid (take n bs) \<and> utf8_valid (drop n bs)"
proof (induction "length bs" arbitrary: bs n rule: less_induct)
  case less
  show ?case
  proof (cases "n = 0 \<or> n = length bs")
    case False
    then obtain b cs where bs: "bs = b # cs" using less.prems(2) by (cases bs) auto
    define k where "k = fst (utf8_step bs)"
    have v: "snd (utf8_step bs)" "utf8_valid (drop k bs)" using less.prems(1) unfolding k_def bs utf8_valid_Cons by auto
    note w = utf8_step_whole [of b cs, folded bs, folded k_def, OF v(1)]
    have k: "0 < k" using utf8_step_pos [of bs] by (simp add: k_def bs)
    have "k \<le> n" using w(4) [of n] less.prems False by (meson le_neq_implies_less not_le not_gr0)
    from \<open>k \<le> n\<close> have "(n - k < length (drop k bs) \<longrightarrow> \<not> cont (drop k bs ! (n - k))) \<or> n - k = 0"
      using less.prems(3) False by auto
    moreover have "length (drop k bs) < length bs" using k bs by simp
    moreover have "n - k \<le> length (drop k bs)" using less.prems(2) by simp
    ultimately have rec: "utf8_valid (take (n - k) (drop k bs)) \<and> utf8_valid (drop (n - k) (drop k bs))"
      using less.hyps v(2) by blast
    moreover have "utf8_valid (take n bs)" if "utf8_valid (take (n - k) (drop k bs))"
    proof -
      have t: "take n bs = b # take (n - 1) cs" using k \<open>k \<le> n\<close> by (cases n) (simp_all add: bs)
      have step: "utf8_step (b # take (n - 1) cs) = utf8_step bs" unfolding t [symmetric] by (rule w(5) [OF \<open>k \<le> n\<close>])
      have "drop k (take n bs) = take (n - k) (drop k bs)" by (simp add: drop_take)
      then have "utf8_valid (drop k (b # take (n - 1) cs))" using that unfolding t [symmetric] by (simp only:)
      then show ?thesis unfolding t utf8_valid_Cons step k_def using v(1) by blast
    qed
    ultimately show ?thesis using \<open>k \<le> n\<close> rec by simp
  qed (use less.prems in auto)
qed

text \<open>A chunk of text ends where a character does, and is never longer than the budget.\<close>

lemma boundary_cont: "is_char_boundary s i \<Longrightarrow> (i < length s \<longrightarrow> \<not> cont (map ordc s ! i)) \<or> i = 0"
  by (auto simp: is_char_boundary_def)

lemma step_back_props: "step_back s n \<le> n \<and> is_char_boundary s (step_back s n)
    \<and> (\<forall>i \<le> n. is_char_boundary s i \<longrightarrow> i \<le> step_back s n)"
  by (induction n) (auto simp: is_char_boundary_def le_Suc_eq)

lemma first_boundary:
  assumes "utf8 s" "s \<noteq> []"
  obtains k where "0 < k" "k \<le> 4" "k \<le> length s" "is_char_boundary s k"
proof -
  obtain b bs where m: "map ordc s = b # bs" using assms(2) by (cases s) auto
  define k where "k = fst (utf8_step (b # bs))"
  have v: "snd (utf8_step (b # bs))" "utf8_valid (drop k (b # bs))"
    using assms(1) utf8_valid_Cons [of b bs] by (simp_all add: utf8_def m k_def del: utf8_step.simps)
  note w = utf8_step_whole [OF v(1), folded k_def]
  have l: "length s = length (b # bs)" using m by (metis length_map)
  have "\<not> cont (ordc (s ! k))" if "k < length s"
  proof -
    have "drop k (b # bs) = (b # bs) ! k # drop (Suc k) (b # bs)" using that l Cons_nth_drop_Suc [of k "b # bs"] by (simp del: drop_Suc_Cons)
    moreover have "(b # bs) ! k = ordc (s ! k)" using that m by (metis nth_map)
    ultimately have "utf8_valid (ordc (s ! k) # drop (Suc k) (b # bs))" using v(2) by simp
    then show ?thesis using utf8_valid_Cons utf8_step_whole(3) by blast
  qed
  then have "is_char_boundary s k" using w(2) l by (auto simp: is_char_boundary_def)
  then show ?thesis using that w(1,2) l utf8_step_pos [of "b # bs"] by (simp add: k_def)
qed

lemma MAX_CHUNK_eq: "MAX_CHUNK = 45"
  by (simp add: MAX_CHUNK_def MAX_ENCODED_WORD_def ENCODED_WORD_OVERHEAD_def)

lemma chunk_len_props:
  assumes "utf8 s" "s \<noteq> []"
  shows "chunk_len s \<le> 45" "chunk_len s \<le> length s" "is_char_boundary s (chunk_len s)"
proof -
  obtain k where k: "0 < k" "k \<le> 4" "k \<le> length s" "is_char_boundary s k" using first_boundary [OF assms] .
  then have "k \<le> step_back s (min MAX_CHUNK (length s))"
    using step_back_props [of s "min MAX_CHUNK (length s)"] by (auto simp: MAX_CHUNK_eq)
  then have "chunk_len s = step_back s (min MAX_CHUNK (length s))" using k(1) by (simp add: chunk_len_def Let_def)
  then show "chunk_len s \<le> 45" "chunk_len s \<le> length s" "is_char_boundary s (chunk_len s)"
    using step_back_props [of s "min MAX_CHUNK (length s)"] by (auto simp: MAX_CHUNK_eq)
qed

lemma words_of_text:
  "utf8 s \<Longrightarrow> w \<in> set (words_of s) \<Longrightarrow> utf8 w \<and> w \<noteq> [] \<and> length w \<le> 45"
proof (induction s rule: words_of.induct)
  case (1 s)
  show ?case
  proof (cases "s = []")
    case True
    then show ?thesis using "1.prems" by (simp add: words_of.simps)
  next
    case False
    let ?k = "chunk_len s"
    note k = chunk_len_props [OF "1.prems"(1) False]
    have "utf8_valid (take ?k (map ordc s)) \<and> utf8_valid (drop ?k (map ordc s))"
      using utf8_valid_split [of "map ordc s" ?k] boundary_cont [OF k(3)] k(2) "1.prems"(1) by (simp add: utf8_def)
    then have "utf8 (take ?k s)" "utf8 (drop ?k s)" by (simp_all add: utf8_def take_map drop_map)
    moreover have "w = take ?k s \<or> w \<in> set (words_of (drop ?k s))"
      using "1.prems"(2) False words_of.simps [of s] by simp
    ultimately show ?thesis using "1.IH" [OF False] k chunk_len_pos [OF False] False by auto
  qed
qed

text \<open>One encoded word.\<close>

lemma unat_byte_of [simp]: "unat (byte_of c) = ordc c"
  by (simp add: byte_of_def unsigned_of_nat take_bit_eq_mod)

lemma chr_byte_of [simp]: "chr (unat (byte_of c)) = c"
  by simp

lemma base64_nonempty: "bs \<noteq> [] \<Longrightarrow> base64 bs \<noteq> []"
  by (simp add: base64_eq base64_encode_def base64_body_empty)

lemma decode_encoded_word:
  assumes "utf8 w" "w \<noteq> []"
  shows "decode_word (encoded_word w) = Some w"
proof -
  let ?b = "base64 (map byte_of w)"
  have "drop 10 (take (length (encoded_word w) - 2) (encoded_word w)) = ?b"
    by (simp add: encoded_word_def)
  moreover have "prefix ''=?UTF-8?B?'' (encoded_word w)" "suffix ''?='' (encoded_word w)"
    by (simp_all add: encoded_word_def suffix_def)
  moreover have "base64_text ?b = Some w"
    using assms base64_decodes [of "map byte_of w"]
    by (simp add: base64_eq from_utf8_def utf8_def comp_def)
  ultimately show ?thesis by (simp add: decode_word_def)
qed

lemma b64_printable:
  assumes "take_bit 6 v = v"
  shows "32 < ordc (b64 v) \<and> ordc (b64 v) < 127"
  using b64_facts [OF assms] by (auto simp: sextet_def Let_def split: if_splits)

lemmas b64_printables = sextets [THEN b64_printable]

lemma base64_body_printable: "c \<in> set (base64_body bs) \<Longrightarrow> 32 < ordc c \<and> ordc c < 127"
proof (induction bs rule: base64_body.induct)
  case (4 a b c rest)
  then show ?case using b64_printables by auto
qed (use b64_printables in auto)

lemma encoded_word_printable: "c \<in> set (encoded_word w) \<Longrightarrow> 32 < ordc c \<and> ordc c < 127"
proof -
  have "list_all (\<lambda>c. 32 < ordc c \<and> ordc c < 127) (''=?UTF-8?B?'' @ ''?='' @ ''='')" by code_simp
  then show "c \<in> set (encoded_word w) \<Longrightarrow> 32 < ordc c \<and> ordc c < 127"
    unfolding encoded_word_def base64_eq base64_encode_def list_all_iff using base64_body_printable by auto
qed

lemma length_base64_body: "length (base64_body bs) \<le> 4 * ((length bs + 2) div 3) \<and>
    length (base64_body bs) + (3 - length bs mod 3) mod 3 = 4 * ((length bs + 2) div 3)"
proof (induction bs rule: base64_body.induct)
  case (4 a b c rest)
  have "(5 + length rest) div 3 = Suc (Suc (Suc (length rest)) div 3)" by presburger
  then show ?case using 4 by (simp add: padding_length)
qed simp_all

lemma length_encoded_word: "length w \<le> 45 \<Longrightarrow> length (encoded_word w) \<le> 75"
proof -
  assume "length w \<le> 45"
  then have "(length w + 2) div 3 \<le> 15" by linarith
  then show ?thesis using length_base64_body [of "map byte_of w"]
    by (simp add: encoded_word_def base64_eq base64_encode_def)
qed

text \<open>The whole header.\<close>

lemma words_of_nonempty: "s \<noteq> [] \<Longrightarrow> words_of s \<noteq> []"
  by (simp add: words_of.simps [of s])

lemma all_some_map: "(\<And>x. x \<in> set xs \<Longrightarrow> f x = Some (g x)) \<Longrightarrow> all_some (map f xs) = Some (map g xs)"
  by (induction xs) auto

lemma set_join: "set (join sep ps) \<subseteq> set sep \<union> (\<Union>p \<in> set ps. set p)"
  by (induction sep ps rule: join.induct) auto

lemma encode_header_cases:
  obtains (as_is) "needs_no_encoding v" "encode_header v = Some v"
  | (encoded) "\<not> needs_no_encoding v" "v \<noteq> []" "words_of v \<noteq> []"
      "encode_header v = Some (join '' '' (map encoded_word (words_of v)))"
proof (cases "needs_no_encoding v")
  case True
  then show ?thesis using as_is by (simp add: encode_header_def)
next
  case False
  moreover have "v \<noteq> []" using False by (auto simp: needs_no_encoding_def contains_def)
  ultimately show ?thesis using encoded words_of_nonempty by (simp add: encode_header_def encode_words_eq)
qed

lemma encode_header_total: "\<exists>h. encode_header v = Some h"
  by (cases rule: encode_header_cases [of v]) auto

text \<open>
  C16: The encoding of a header value always ends: the loop that cuts the value into words makes progress
  on any bytes, also where no chunk of the budget ends at a character.
\<close>

theorem header_encoding_ends: "\<exists>h. encode_header v = Some h"
  by (rule encode_header_total)

lemma header_chars:
  assumes "encode_header v = Some h" "c \<in> set h"
  shows "32 \<le> ordc c \<and> ordc c < 127"
proof (cases rule: encode_header_cases [of v])
  case as_is
  then have "ordc c < 128" "\<not> (ordc c < 32 \<or> ordc c = 127)"
    using assms by (auto simp: needs_no_encoding_def list_all_iff list_ex_iff)
  then show ?thesis by linarith
next
  case encoded
  have "ordc (CHR '' '') = 32" by code_simp
  then show ?thesis
    using assms encoded set_join [of "'' ''" "map encoded_word (words_of v)"] encoded_word_printable
    by (auto dest!: subsetD less_imp_le)
qed

text \<open>
  C14: What goes on the wire as a header is printable ASCII whatever the value, so a name read from the
  network, line breaks included, cannot add a header or end the request.
\<close>

theorem header_cannot_be_split:
  assumes "encode_header v = Some h" "c \<in> set h"
  shows "32 \<le> ordc c \<and> ordc c < 127"
  using assms by (rule header_chars)

theorem header_cannot_be_split_witness:
  "\<exists>h. encode_header (''Kit'' @ [chr 10]) = Some h \<and> (\<forall>c \<in> set h. 32 \<le> ordc c \<and> ordc c < 127)"
  using encode_header_total [of "''Kit'' @ [chr 10]"] header_cannot_be_split by blast

text \<open>
  C15: The reader gets the value back: for any text, the header decodes to it, each encoded word on its
  own is text and no longer than the standard allows, and a value that looks encoded is not mistaken.
\<close>

theorem header_round_trip:
  assumes "utf8 v" "encode_header v = Some h"
  shows "decode_header h = Some v
    \<and> (needs_no_encoding v \<or> (\<forall>w \<in> set (split_on (CHR '' '') h). length w \<le> MAX_ENCODED_WORD \<and> decode_word w \<noteq> None))"
proof (cases rule: encode_header_cases [of v])
  case as_is
  then show ?thesis using assms by (simp add: decode_header_def needs_no_encoding_def)
next
  case encoded
  let ?ws = "map encoded_word (words_of v)"
  have h: "h = join '' '' ?ws" using assms encoded by simp
  have blank: "CHR '' '' \<notin> set (encoded_word w)" for w
  proof
    assume "CHR '' '' \<in> set (encoded_word w)"
    moreover have "ordc (CHR '' '') = 32" by code_simp
    ultimately show False using encoded_word_printable by fastforce
  qed
  then have split: "split_on (CHR '' '') h = ?ws" unfolding h using encoded by (intro split_on_join) auto
  have ok: "decode_word (encoded_word w) = Some w" "length (encoded_word w) \<le> 75" if "w \<in> set (words_of v)" for w
    using words_of_text [OF assms(1) that] decode_encoded_word length_encoded_word by auto
  have "contains h ''=?''"
  proof -
    obtain w ws where "words_of v = w # ws" using encoded by (cases "words_of v") auto
    then have "h = [] @ ''=?'' @ drop 2 h"
      unfolding h by (cases ws) (simp_all add: encoded_word_def)
    then show ?thesis unfolding contains_def sublist_def by blast
  qed
  moreover have "all_some (map decode_word ?ws) = Some (words_of v)"
    using all_some_map [of "words_of v" "decode_word \<circ> encoded_word" "\<lambda>w. w"] ok by simp
  ultimately have "decode_header h = Some v" by (simp add: decode_header_def split words_of_concat)
  then show ?thesis using ok by (auto simp: split MAX_ENCODED_WORD_def)
qed

definition accented :: string where "accented = ''Ren'' @ [chr 0xC3, chr 0xA9]"

theorem header_round_trip_witness:
  "\<exists>h. encode_header accented = Some h \<and> decode_header h = Some accented \<and> h \<noteq> accented"
proof -
  obtain h where h: "encode_header accented = Some h" using encode_header_total by blast
  have "utf8 accented" by code_simp
  note r = header_round_trip [OF this h]
  have "\<not> needs_no_encoding accented" by code_simp
  have "h \<noteq> accented"
  proof
    assume "h = accented"
    moreover have "chr 0xC3 \<in> set accented" by (simp add: accented_def)
    moreover have "ordc (chr 0xC3) = 195" by code_simp
    moreover have "\<forall>c \<in> set h. ordc c < 127"
      using header_chars [OF h] by auto
    ultimately show False by fastforce
  qed
  then show ?thesis using h r by blast
qed

subsection \<open>Messages\<close>

record ntfy_notifier =
  nn_url :: string
  nn_token :: "string option"
  nn_priority :: byte
  nn_urgent_priority :: byte

definition new_ntfy_notifier :: "ntfy_config \<Rightarrow> ntfy_notifier option" where
  "new_ntfy_notifier cfg =
     (let topic = trim (nt_topic cfg) in
      if topic = [] then None
      else Some \<lparr>nn_url = trim_end_matches (CHR ''/'') (nt_server cfg) @ ''/'' @ topic, nn_token = nt_token cfg,
                 nn_priority = nt_priority cfg, nn_urgent_priority = nt_urgent_priority cfg\<rparr>)"

fun header_priority :: "ntfy_notifier \<Rightarrow> event_priority \<Rightarrow> byte" where
  "header_priority n Normal = nn_priority n" |
  "header_priority n High = min (max (nn_priority n) 4) (max (nn_urgent_priority n) 4)" |
  "header_priority n Urgent = nn_urgent_priority n"

fun title_for_type :: "event_type \<Rightarrow> string \<Rightarrow> string" where
  "title_for_type NewDevice name = ''New device: '' @ name" |
  "title_for_type Returned name = ''Back online: '' @ name" |
  "title_for_type WentOffline name = ''Offline: '' @ name" |
  "title_for_type IpChanged name = ''Address changed: '' @ name" |
  "title_for_type NameUpdated name = ''Identified: '' @ name" |
  "title_for_type ArpScan name = ''ARP scan from '' @ name" |
  "title_for_type ArpSpoof name = ''ARP spoof by '' @ name" |
  "title_for_type RogueDhcp name = ''Rogue DHCP server: '' @ name" |
  "title_for_type IpConflict name = ''Address conflict: '' @ name" |
  "title_for_type GratuitousArp name = ''Gratuitous ARP flood from '' @ name" |
  "title_for_type IdentityChange name = ''Device changed identity: '' @ name" |
  "title_for_type DeviceLocationChanged name = ''Moved: '' @ name" |
  "title_for_type PersonArrived name = name @ '' arrived''" |
  "title_for_type PersonDeparted name = name @ '' left''" |
  "title_for_type PersonLocationChanged name = name @ '' moved''"

definition title_for :: "device_event \<Rightarrow> string" where
  "title_for e = title_for_type (ev_event_type e) (ev_display_name e)"

fun tags_for :: "event_type \<Rightarrow> string" where
  "tags_for NewDevice = ''bell''" |
  "tags_for Returned = ''arrow_right''" |
  "tags_for WentOffline = ''zzz''" |
  "tags_for IpChanged = ''arrows_counterclockwise''" |
  "tags_for NameUpdated = ''label''" |
  "tags_for ArpScan = ''mag''" |
  "tags_for ArpSpoof = ''rotating_light''" |
  "tags_for RogueDhcp = ''no_entry''" |
  "tags_for IpConflict = ''warning''" |
  "tags_for GratuitousArp = ''loudspeaker''" |
  "tags_for IdentityChange = ''twisted_rightwards_arrows''" |
  "tags_for DeviceLocationChanged = ''round_pushpin''" |
  "tags_for PersonArrived = ''house''" |
  "tags_for PersonDeparted = ''door''" |
  "tags_for PersonLocationChanged = ''walking''"

definition opt_line :: "string \<Rightarrow> string option \<Rightarrow> string list" where
  "opt_line label v = (case v of Some s \<Rightarrow> [label @ s] | None \<Rightarrow> [])"

definition person_body :: "(time \<Rightarrow> string) \<Rightarrow> device_event \<Rightarrow> string" where
  "person_body fmt e =
     (let get = (\<lambda>key. Option.bind (Alert.field (ev_details e) key) as_str);
          place = (case (get ''location'', get ''via'') of
              (Some location, Some via) \<Rightarrow> [''In the '' @ location @ '', via the '' @ via]
            | (Some location, None) \<Rightarrow> [''In the '' @ location]
            | (None, Some via) \<Rightarrow> [''Via the '' @ via]
            | (None, None) \<Rightarrow> []);
          previous = (if ev_event_type e = PersonLocationChanged then opt_line ''Was in the '' (get ''previous_location'') else [])
      in join [chr 10] (place @ previous @ [''At: '' @ fmt (ev_at e)]))"

definition seen_label :: "event_type \<Rightarrow> string" where
  "seen_label t = (if t = NewDevice then ''First seen'' else if t = WentOffline then ''Last seen'' else ''Seen'')"

definition body_for :: "(time \<Rightarrow> string) \<Rightarrow> device_event \<Rightarrow> string" where
  "body_for fmt e =
     (if is_person (ev_event_type e) then person_body fmt e
      else join [chr 10]
        ([ev_display_name e] @ opt_line ''Vendor: '' (ev_vendor e) @ opt_line ''IP: '' (ev_ip e)
         @ [''MAC: '' @ show_mac (ev_mac e)] @ opt_line ''Interface: '' (ev_interface e)
         @ [seen_label (ev_event_type e) @ '': '' @ fmt (ev_at e)]))"

definition SUMMARY_LIST_LIMIT :: nat where "SUMMARY_LIST_LIMIT = 15"

definition summary_line :: "device_event \<Rightarrow> string" where
  "summary_line e =
     ev_display_name e @ '' ('' @ (case ev_ip e of Some ip \<Rightarrow> ip | None \<Rightarrow> ''no address'') @ '') '' @ show_mac (ev_mac e)"

definition summary_lines :: "device_event list \<Rightarrow> string list" where
  "summary_lines es =
     map summary_line (take SUMMARY_LIST_LIMIT es)
     @ (if length es > SUMMARY_LIST_LIMIT then [''...and '' @ show_nat (length es - SUMMARY_LIST_LIMIT) @ '' more''] else [])"

definition summary_body :: "device_event list \<Rightarrow> string" where
  "summary_body es = join [chr 10] (summary_lines es)"

subsection \<open>Posts\<close>

record post =
  po_url :: string
  po_title :: string
  po_priority :: string
  po_tags :: string
  po_token :: "string option"
  po_body :: string

definition post_of :: "ntfy_notifier \<Rightarrow> string \<Rightarrow> string \<Rightarrow> string \<Rightarrow> byte \<Rightarrow> post option" where
  "post_of n title body tags priority =
     do {
       t \<leftarrow> encode_header title;
       g \<leftarrow> encode_header tags;
       Some \<lparr>po_url = nn_url n, po_title = t, po_priority = show_nat (unat priority), po_tags = g,
             po_token = nn_token n, po_body = body\<rparr>
     }"

definition event_post :: "(time \<Rightarrow> string) \<Rightarrow> ntfy_notifier \<Rightarrow> device_event \<Rightarrow> post option" where
  "event_post fmt n e =
     post_of n (title_for e) (body_for fmt e) (tags_for (ev_event_type e)) (header_priority n (ev_priority e))"

definition batch_post :: "ntfy_notifier \<Rightarrow> device_event list \<Rightarrow> post option" where
  "batch_post n es =
     post_of n (show_nat (length es) @ '' devices appeared'') (summary_body es) ''satellite''
       (header_priority n (foldr max (map ev_priority es) Normal))"

type_synonym ntfy_server = "post \<Rightarrow> nat option"

definition accepted_post :: "ntfy_server \<Rightarrow> post option \<Rightarrow> bool" where
  "accepted_post srv p =
     (case p of None \<Rightarrow> False | Some po \<Rightarrow> (case srv po of None \<Rightarrow> False | Some s \<Rightarrow> is_success s))"

definition ntfy_send :: "(time \<Rightarrow> string) \<Rightarrow> ntfy_notifier \<Rightarrow> ntfy_server \<Rightarrow> device_event \<Rightarrow> bool" where
  "ntfy_send fmt n srv e = accepted_post srv (event_post fmt n e)"

fun ntfy_send_batch :: "(time \<Rightarrow> string) \<Rightarrow> ntfy_notifier \<Rightarrow> ntfy_server \<Rightarrow> device_event list \<Rightarrow> bool" where
  "ntfy_send_batch fmt n srv [] = True" |
  "ntfy_send_batch fmt n srv [e] = ntfy_send fmt n srv e" |
  "ntfy_send_batch fmt n srv (e # f # es) = accepted_post srv (batch_post n (e # f # es))"

subsection \<open>Properties of the messages\<close>

lemma event_post_exists: "\<exists>po. event_post fmt n e = Some po \<and> po_priority po = show_nat (unat (header_priority n (ev_priority e)))"
  using encode_header_total [of "title_for e"] encode_header_total [of "tags_for (ev_event_type e)"]
  by (auto simp: event_post_def post_of_def)

lemma batch_post_exists: "\<exists>po. batch_post n es = Some po"
  using encode_header_total [of "show_nat (length es) @ '' devices appeared''"] encode_header_total [of "''satellite''"]
  by (auto simp: batch_post_def post_of_def)

lemma header_priority_mono:
  assumes "nn_priority n \<le> nn_urgent_priority n" "4 \<le> nn_urgent_priority n" "p \<le> q"
  shows "header_priority n p \<le> header_priority n q"
  using assms by (cases p; cases q) (auto simp: less_eq_event_priority_def max_def)

lemma foldr_max_in: "ps \<noteq> [] \<Longrightarrow> foldr max ps Normal \<in> set ps"
proof (induction ps)
  case (Cons p ps)
  have "max p Normal = p" by (cases p) (simp_all add: max_def less_eq_event_priority_def)
  then show ?case using Cons by (cases "ps = []") (auto simp: max_def)
qed simp

lemma foldr_max_ge: "p \<in> set ps \<Longrightarrow> p \<le> foldr max ps (Normal :: event_priority)"
  by (induction ps) (auto simp: le_max_iff_disj)

text \<open>
  A summary is as loud as its loudest event: when the urgent level is at least 4 and not below the
  ordinary one, the summary carries the priority one of its events has on its own, and none is louder.
\<close>

theorem summary_is_as_loud_as_its_loudest:
  assumes "nn_priority n \<le> nn_urgent_priority n" "4 \<le> nn_urgent_priority n" "es \<noteq> []" "batch_post n es = Some po"
  shows "\<exists>m \<in> set es. po_priority po = show_nat (unat (header_priority n (ev_priority m)))
    \<and> (\<forall>e \<in> set es. header_priority n (ev_priority e) \<le> header_priority n (ev_priority m))"
proof -
  let ?m = "foldr max (map ev_priority es) Normal"
  have "?m \<in> ev_priority ` set es" using foldr_max_in [of "map ev_priority es"] assms(3) by simp
  then obtain m where m: "m \<in> set es" "ev_priority m = ?m" by fastforce
  have "header_priority n (ev_priority e) \<le> header_priority n ?m" if "e \<in> set es" for e
    using header_priority_mono [OF assms(1,2) foldr_max_ge [of "ev_priority e" "map ev_priority es"]] that by simp
  moreover have "po_priority po = show_nat (unat (header_priority n ?m))"
    using assms(4) by (auto simp: batch_post_def post_of_def bind_eq_Some_conv)
  ultimately show ?thesis using m by (metis (no_types))
qed

definition sample_ntfy :: ntfy_notifier where
  "sample_ntfy = \<lparr>nn_url = ''https://ntfy.sh/home'', nn_token = None, nn_priority = 3, nn_urgent_priority = 5\<rparr>"

definition sample_news :: "event_type \<Rightarrow> event_priority \<Rightarrow> device_event" where
  "sample_news t p =
     \<lparr>ev_event_type = t, ev_mac = MacAddr 0 0 0 0 0 1, ev_display_name = ''Kit'', ev_vendor = None, ev_ip = None,
      ev_interface = None, ev_at = 0, ev_baseline = False, ev_during_learning = False, ev_notify = True,
      ev_priority = p, ev_details = JNull\<rparr>"

theorem summary_is_as_loud_as_its_loudest_witness:
  "\<exists>po. batch_post sample_ntfy [sample_news NewDevice Normal, sample_news ArpSpoof Urgent] = Some po \<and> po_priority po = ''5''"
proof -
  let ?es = "[sample_news NewDevice Normal, sample_news ArpSpoof Urgent]"
  obtain po where po: "batch_post sample_ntfy ?es = Some po" using batch_post_exists by blast
  have five: "show_nat (unat (5 :: byte)) = ''5''" by code_simp
  show ?thesis
    using summary_is_as_loud_as_its_loudest [of sample_ntfy ?es po] po five
    by (auto simp: sample_ntfy_def sample_news_def)
qed

text \<open>
  Levels that pass the validation of the configuration can leave \<^verbatim>\<open>High\<close> outside of the two they
  configure: above a low urgent level, and below an ordinary level of 5.
\<close>

lemma high_outside_the_levels:
  "header_priority (sample_ntfy\<lparr>nn_priority := 1, nn_urgent_priority := 2\<rparr>) High = 4"
  "header_priority (sample_ntfy\<lparr>nn_priority := 5, nn_urgent_priority := 4\<rparr>) High = 4"
  by (simp_all add: max_def min_def sample_ntfy_def)

text \<open>The title of a summary says that devices appeared, whatever its events are.\<close>

lemma departures_are_announced_as_arrivals:
  assumes "batch_post n es = Some po" "\<forall>e \<in> set es. ev_event_type e = WentOffline"
  shows "encode_header (show_nat (length es) @ '' devices appeared'') = Some (po_title po)"
  using assms(1) by (auto simp: batch_post_def post_of_def bind_eq_Some_conv)

text \<open>
  C17: An event is recorded as notified only when a server took it: if every post is refused or lost,
  no delivery changes the database, whatever the connection to it does.
\<close>

theorem refused_posts_mark_nothing:
  assumes "\<forall>po. case srv po of None \<Rightarrow> True | Some s \<Rightarrow> \<not> is_success s"
  shows "send_all [(ntfy_send fmt n srv, ntfy_send_batch fmt n srv)] up mark_ok deliveries d = d"
proof -
  have no: "\<not> accepted_post srv p" for p
    using assms by (auto simp: accepted_post_def split: option.splits)
  have one: "send_one [(ntfy_send fmt n srv, ntfy_send_batch fmt n srv)] up mark_ok d delivery = d" for d delivery
  proof (cases delivery)
    case (Single e)
    then show ?thesis by (simp add: send_one_def ntfy_send_def no)
  next
    case (Summary es)
    have "es = [] \<or> \<not> ntfy_send_batch fmt n srv (map re_event es)"
      by (cases es rule: remdups_adj.cases) (auto simp: ntfy_send_def no)
    then show ?thesis using Summary by (auto simp: send_one_def)
  qed
  show ?thesis by (induction deliveries arbitrary: d) (simp_all add: send_all_def one)
qed

definition unnotified :: tables where
  "unnotified = empty_tables\<lparr>tb_events := [\<lparr>er_id = 1, er_device_id = None, er_event_type = ''arp_spoof'',
     er_timestamp = 0, er_details = JNull, er_notified = False, er_sync_state = ''clean''\<rparr>]\<rparr>"

theorem refused_posts_mark_nothing_witness:
  "send_all [(ntfy_send (\<lambda>t. []) sample_ntfy (\<lambda>po. Some 429), ntfy_send_batch (\<lambda>t. []) sample_ntfy (\<lambda>po. Some 429))]
     (\<lambda>dl. True) (\<lambda>i. True) [Single \<lparr>re_id = 1, re_event = sample_news ArpSpoof Urgent\<rparr>] unnotified = unnotified
   \<and> map er_notified (tb_events unnotified) = [False]
   \<and> map er_notified (tb_events (mark_event_notified unnotified 1)) = [True]"
proof -
  have "\<not> is_success 429" by (simp add: is_success_def)
  then show ?thesis
    using refused_posts_mark_nothing [of "\<lambda>po. Some 429"] by (simp add: mark_event_notified_def unnotified_def)
qed

end
