(* ===== verification/Capture.thy ===== *)
theory Capture
  imports Config ArpFrames Ndp DhcpFrames Nbns Ssdp Mdns
begin

text \<open>
  \<^verbatim>\<open>src/capture/mod.rs\<close>: the table of capture sources, the choice of interfaces, and the loop that reads
  one interface. A pcap handle is a parameter: the list of what its reads answer, each with whether the
  daemon was stopping when the loop looked. The channel is a parameter too: whether it takes one more
  observation after those it took. Threads, sleeping and the BPF filter belong to the operating system.
\<close>

type_synonym parser = "byte list \<Rightarrow> string \<Rightarrow> time \<Rightarrow> observation option"

record pcap_source =
  ps_name :: string
  ps_filter :: string
  ps_parser :: parser
  ps_interfaces :: "string list"
  ps_snaplen :: int
  ps_buffer_size :: int

definition SOURCES :: "(string \<times> string \<times> parser) list" where
  "SOURCES =
     [(ARP_SOURCE, ''arp'', parse_arp),
      (MDNS_SOURCE, ''udp port 5353'', parse_mdns),
      (DHCP_SOURCE, ''udp port 67 or udp port 68'', parse_dhcp),
      (SSDP_SOURCE, ''udp port 1900'', parse_ssdp),
      (NDP_SOURCE, ''icmp6 and ip6[40] >= 133 and ip6[40] <= 137'', parse_ndp),
      (NBNS_SOURCE, ''udp port 137 or udp port 138'', parse_nbns)]"

definition new_pcap_source :: "string \<Rightarrow> string \<Rightarrow> parser \<Rightarrow> string list \<Rightarrow> capture_config \<Rightarrow> pcap_source" where
  "new_pcap_source name bpf parser interfaces cfg =
     \<lparr>ps_name = name, ps_filter = bpf, ps_parser = parser, ps_interfaces = interfaces,
      ps_snaplen = cap_snaplen cfg, ps_buffer_size = cap_buffer_size cfg\<rparr>"

text \<open>The loop over the configured names; the error is the name that is not in the table.\<close>

fun build_from :: "capture_config \<Rightarrow> string list \<Rightarrow> string list \<Rightarrow> string + pcap_source list" where
  "build_from cfg interfaces [] = Inr []" |
  "build_from cfg interfaces (name # names) =
     (case List.find (\<lambda>(source, _, _). source = name) SOURCES of
        None \<Rightarrow> Inl name
      | Some (source, bpf, parser) \<Rightarrow>
          (case build_from cfg interfaces names of
             Inl e \<Rightarrow> Inl e
           | Inr sources \<Rightarrow> Inr (new_pcap_source source bpf parser interfaces cfg # sources)))"

definition build_sources :: "capture_config \<Rightarrow> string list \<Rightarrow> string + pcap_source list" where
  "build_sources cfg interfaces = build_from cfg interfaces (cap_sources cfg)"

subsection \<open>Interfaces\<close>

record pcap_device =
  pd_name :: string
  pd_loopback :: bool
  pd_up :: bool
  pd_addressed :: bool

datatype interface_error = DevicesUnreadable | InterfaceNotFound string | NoUsableInterface

definition resolve_interfaces :: "pcap_device list option \<Rightarrow> string list \<Rightarrow> interface_error + string list" where
  "resolve_interfaces devices requested =
     (case devices of
        None \<Rightarrow> Inl DevicesUnreadable
      | Some ds \<Rightarrow>
          if requested \<noteq> [] then
            (case List.find (\<lambda>name. name \<notin> set (map pd_name ds)) requested of
               Some name \<Rightarrow> Inl (InterfaceNotFound name) | None \<Rightarrow> Inr requested)
          else
            (let usable = map pd_name (filter (\<lambda>d. \<not> pd_loopback d \<and> pd_up d \<and> pd_addressed d) ds) in
             if usable = [] then Inl NoUsableInterface else Inr usable))"

definition looks_like_permission_denied :: "string \<Rightarrow> bool" where
  "looks_like_permission_denied message =
     (let m = to_ascii_lowercase message in
      contains m ''permission denied'' \<or> contains m (''you don'' @ [chr 39] @ ''t have permission'')
      \<or> contains m ''operation not permitted'' \<or> contains m ''socket: operation not permitted'')"

subsection \<open>The capture loop\<close>

text \<open>
  A packet's stamp in seconds and microseconds. \<open>representable\<close> says which seconds the clock library
  can represent, \<open>now\<close> is what is used for the others.
\<close>

definition packet_time :: "(int \<Rightarrow> bool) \<Rightarrow> time \<Rightarrow> int \<Rightarrow> int \<Rightarrow> time" where
  "packet_time representable now s us =
     (let nanos = max 0 (min us 999999) * 1000 in
      if representable s then s * 1000000000 + nanos else now)"

datatype read = Packet "byte list" int int | TimeoutExpired | NoMorePackets | ReadFailed string

datatype capture_end = Stopped | ChannelClosed | EndOfPackets | CaptureFailed string | StillRunning

fun capture_loop ::
  "parser \<Rightarrow> string \<Rightarrow> (int \<Rightarrow> int \<Rightarrow> time) \<Rightarrow> (observation list \<Rightarrow> bool) \<Rightarrow> (bool \<times> read) list \<Rightarrow> observation list
     \<Rightarrow> observation list \<times> capture_end"
where
  "capture_loop parser interface stamp takes [] sent = (sent, StillRunning)" |
  "capture_loop parser interface stamp takes ((stopping, r) # rs) sent =
     (if stopping then (sent, Stopped)
      else case r of
        Packet bytes s us \<Rightarrow>
          (case parser bytes interface (stamp s us) of
             None \<Rightarrow> capture_loop parser interface stamp takes rs sent
           | Some obs \<Rightarrow>
               if takes sent then capture_loop parser interface stamp takes rs (sent @ [obs]) else (sent, ChannelClosed))
      | TimeoutExpired \<Rightarrow> capture_loop parser interface stamp takes rs sent
      | NoMorePackets \<Rightarrow> (sent, EndOfPackets)
      | ReadFailed e \<Rightarrow> (sent, CaptureFailed e))"

text \<open>How the threads of a source ended; the first failure is the source's.\<close>

datatype thread_result = ThreadOk | ThreadFailed string | ThreadPanicked string

fun first_error :: "thread_result list \<Rightarrow> string option" where
  "first_error [] = None" |
  "first_error (ThreadOk # rs) = first_error rs" |
  "first_error (ThreadFailed e # rs) = Some e" |
  "first_error (ThreadPanicked e # rs) = Some (''capture thread panicked: '' @ e)"

subsection \<open>What a source sends\<close>

definition parsed_packets :: "parser \<Rightarrow> string \<Rightarrow> (int \<Rightarrow> int \<Rightarrow> time) \<Rightarrow> (bool \<times> read) list \<Rightarrow> observation list" where
  "parsed_packets parser interface stamp script =
     List.map_filter (\<lambda>(_, r). case r of Packet bytes s us \<Rightarrow> parser bytes interface (stamp s us) | _ \<Rightarrow> None) script"

lemma parsed_packets_simps [simp]:
  "parsed_packets parser interface stamp [] = []"
  "parsed_packets parser interface stamp ((b, Packet bytes s us) # rs) =
     (case parser bytes interface (stamp s us) of Some obs \<Rightarrow> [obs] | None \<Rightarrow> []) @ parsed_packets parser interface stamp rs"
  "parsed_packets parser interface stamp ((b, TimeoutExpired) # rs) = parsed_packets parser interface stamp rs"
  "parsed_packets parser interface stamp ((b, NoMorePackets) # rs) = parsed_packets parser interface stamp rs"
  "parsed_packets parser interface stamp ((b, ReadFailed e) # rs) = parsed_packets parser interface stamp rs"
  by (simp_all add: parsed_packets_def map_filter_simps split: option.split)

lemma capture_loop_prefix:
  "\<exists>out. fst (capture_loop parser interface stamp takes script sent) = sent @ out
    \<and> prefix out (parsed_packets parser interface stamp script)
    \<and> (snd (capture_loop parser interface stamp takes script sent) = StillRunning \<longrightarrow>
         out = parsed_packets parser interface stamp script)"
proof (induction script arbitrary: sent)
  case (Cons sr script)
  obtain stopping r where sr: "sr = (stopping, r)" by fastforce
  show ?case
  proof (cases "stopping \<or> (\<forall>bytes s us. r \<noteq> Packet bytes s us)")
    case True
    then show ?thesis using Cons.IH [of sent] by (cases r) (auto simp: sr)
  next
    case False
    then obtain bytes s us where r: "r = Packet bytes s us" "\<not> stopping" by blast
    show ?thesis
    proof (cases "parser bytes interface (stamp s us)")
      case None
      then show ?thesis using Cons.IH [of sent] r by (simp add: sr)
    next
      case (Some obs)
      then show ?thesis using Cons.IH [of "sent @ [obs]"] r by (auto simp: sr)
    qed
  qed
qed simp

text \<open>Each entry of the table meets the contract of a frame parser, under the name it is listed with.\<close>

lemma sources_meet_the_contract:
  assumes "(name, bpf, parser) \<in> set SOURCES" "parser bytes interface ts = Some obs"
  shows "usable (obs_mac obs) \<and> obs_interface obs = interface \<and> obs_at obs = ts \<and> obs_source obs = name"
proof -
  have "(name, parser) \<in> {(ARP_SOURCE, parse_arp), (MDNS_SOURCE, parse_mdns), (DHCP_SOURCE, parse_dhcp),
      (SSDP_SOURCE, parse_ssdp), (NDP_SOURCE, parse_ndp), (NBNS_SOURCE, parse_nbns)}"
    using assms(1) unfolding SOURCES_def by auto
  then consider "name = ARP_SOURCE" "parser = parse_arp" | "name = MDNS_SOURCE" "parser = parse_mdns"
    | "name = DHCP_SOURCE" "parser = parse_dhcp" | "name = SSDP_SOURCE" "parser = parse_ssdp"
    | "name = NDP_SOURCE" "parser = parse_ndp" | "name = NBNS_SOURCE" "parser = parse_nbns" by blast
  then show ?thesis
    by cases (use assms(2) arp.origin mdns.origin dhcp.origin ssdp.origin ndp.origin nbns.origin in simp_all)
qed

lemma find_source:
  "(case List.find (\<lambda>(source, _, _). source = name) SOURCES of
      None \<Rightarrow> name \<notin> fst ` set SOURCES
    | Some (source, bpf, parser) \<Rightarrow> source = name \<and> (name, bpf, parser) \<in> set SOURCES)"
proof (cases "List.find (\<lambda>(source, _, _). source = name) SOURCES")
  case None
  then have "name \<notin> fst ` set SOURCES" by (force simp: find_None_iff)
  then show ?thesis by (simp add: None)
next
  case (Some e)
  obtain source bpf parser where e: "e = (source, bpf, parser)" by (rule prod_cases3)
  have "e \<in> set SOURCES" "source = name" using Some by (auto simp: find_Some_iff e) (metis nth_mem)
  then show ?thesis using Some by (simp add: e)
qed

lemma build_from_cases:
  "case build_from cfg interfaces names of
     Inl name \<Rightarrow> name \<in> set names \<and> name \<notin> fst ` set SOURCES
   | Inr sources \<Rightarrow> map ps_name sources = names
       \<and> (\<forall>src \<in> set sources. (ps_name src, ps_filter src, ps_parser src) \<in> set SOURCES \<and> ps_interfaces src = interfaces)"
proof (induction names)
  case (Cons name names)
  show ?case
  proof (cases "List.find (\<lambda>(source, _, _). source = name) SOURCES")
    case None
    then show ?thesis using find_source [of name] by simp
  next
    case (Some e)
    obtain source bpf parser where e: "e = (source, bpf, parser)" by (rule prod_cases3)
    then have "source = name" "(name, bpf, parser) \<in> set SOURCES" using find_source [of name] Some by simp_all
    then show ?thesis using Cons.IH Some
      by (cases "build_from cfg interfaces names") (simp_all add: e new_pcap_source_def)
  qed
qed simp

text \<open>
  The sources are built exactly when every configured name is one the program knows; otherwise the
  error is a configured name that is not, and no source is built.
\<close>

theorem sources_are_built_iff_known:
  "case build_sources cfg interfaces of
     Inl name \<Rightarrow> name \<in> set (cap_sources cfg) \<and> name \<notin> fst ` set SOURCES
   | Inr sources \<Rightarrow> map ps_name sources = cap_sources cfg \<and> set (cap_sources cfg) \<subseteq> fst ` set SOURCES"
proof (cases "build_sources cfg interfaces")
  case (Inl name)
  then show ?thesis
    using build_from_cases [where cfg = cfg and interfaces = interfaces and names = "cap_sources cfg"]
    by (simp add: build_sources_def)
next
  case (Inr sources)
  then have "map ps_name sources = cap_sources cfg"
    "\<forall>src \<in> set sources. (ps_name src, ps_filter src, ps_parser src) \<in> set SOURCES"
    using build_from_cases [where cfg = cfg and interfaces = interfaces and names = "cap_sources cfg"]
    by (simp_all add: build_sources_def)
  then have "ps_name ` set sources = set (cap_sources cfg)" "\<forall>src \<in> set sources. ps_name src \<in> fst ` set SOURCES"
    by (metis list.set_map, force)
  then have "set (cap_sources cfg) \<subseteq> fst ` set SOURCES" by (metis image_subsetI)
  then show ?thesis using Inr \<open>map ps_name sources = cap_sources cfg\<close> by simp
qed

lemma parsed_packets_origin:
  assumes "obs \<in> set (parsed_packets parser interface stamp script)"
  shows "\<exists>b bytes s us. (b, Packet bytes s us) \<in> set script \<and> parser bytes interface (stamp s us) = Some obs"
  using assms by (fastforce simp: parsed_packets_def List.map_filter_def split: read.splits)

text \<open>
  C26: A capture thread of any configured source sends what its parser makes of the packets it read, in
  the order they came, without an omission as long as it runs; each observation is about a usable
  sender and carries the source's configured name, the interface and the time of its packet.
\<close>

theorem capture_is_faithful:
  assumes "build_sources cfg interfaces = Inr sources" "src \<in> set sources"
    and "capture_loop (ps_parser src) interface stamp takes script [] = (sent, out)"
  shows "prefix sent (parsed_packets (ps_parser src) interface stamp script)
    \<and> (out = StillRunning \<longrightarrow> sent = parsed_packets (ps_parser src) interface stamp script)
    \<and> (\<forall>obs \<in> set sent. usable (obs_mac obs) \<and> obs_source obs = ps_name src \<and> obs_interface obs = interface
           \<and> (\<exists>b bytes s us. (b, Packet bytes s us) \<in> set script \<and> obs_at obs = stamp s us))"
proof (intro conjI)
  show p: "prefix sent (parsed_packets (ps_parser src) interface stamp script)"
    and "out = StillRunning \<longrightarrow> sent = parsed_packets (ps_parser src) interface stamp script"
    using capture_loop_prefix [of "ps_parser src" interface stamp takes script "[]"] assms(3) by auto
  have entry: "(ps_name src, ps_filter src, ps_parser src) \<in> set SOURCES"
    using build_from_cases [where cfg = cfg and interfaces = interfaces and names = "cap_sources cfg"] assms(1,2) by (simp add: build_sources_def)
  show "\<forall>obs \<in> set sent. usable (obs_mac obs) \<and> obs_source obs = ps_name src \<and> obs_interface obs = interface
           \<and> (\<exists>b bytes s us. (b, Packet bytes s us) \<in> set script \<and> obs_at obs = stamp s us)"
  proof
    fix obs assume "obs \<in> set sent"
    then have "obs \<in> set (parsed_packets (ps_parser src) interface stamp script)"
      using set_mono_prefix [OF p] by blast
    then obtain b bytes s us where "(b, Packet bytes s us) \<in> set script" "ps_parser src bytes interface (stamp s us) = Some obs"
      using parsed_packets_origin by blast
    then show "usable (obs_mac obs) \<and> obs_source obs = ps_name src \<and> obs_interface obs = interface
           \<and> (\<exists>b bytes s us. (b, Packet bytes s us) \<in> set script \<and> obs_at obs = stamp s us)"
      using sources_meet_the_contract [OF entry] by blast
  qed
qed

text \<open>A thread that looks at the stop flag reads no packet after it.\<close>

lemma capture_stops_when_told:
  "capture_loop parser interface stamp takes (script @ (True, r) # rest) sent =
     (case capture_loop parser interface stamp takes script sent of
        (out, StillRunning) \<Rightarrow> (out, Stopped) | result \<Rightarrow> result)"
proof (induction script arbitrary: sent)
  case (Cons sr script)
  then show ?case by (cases sr; cases "snd sr") (simp_all split: option.split)
qed simp

text \<open>A stamp is never more than a second off the second it names.\<close>

lemma packet_time_bounds:
  "representable s \<Longrightarrow> s * 1000000000 \<le> packet_time representable now s us \<and> packet_time representable now s us < (s + 1) * 1000000000"
  by (simp add: packet_time_def Let_def)

text \<open>The parsers differ; one frame, read by the source for ARP.\<close>

definition arp_frame :: "byte list" where
  "arp_frame = octets BROADCAST @ octets (MacAddr 2 0 0 0 0 1) @ [8, 6]
     @ [0, 1, 8, 0, 6, 4, 0, 1, 2, 0, 0, 0, 0, 1, 10, 0, 0, 9, 0, 0, 0, 0, 0, 0, 10, 0, 0, 1]"

definition arp_source :: pcap_source where
  "arp_source = new_pcap_source ARP_SOURCE ''arp'' parse_arp [''eth0''] (default_capture\<lparr>cap_sources := [''arp'']\<rparr>)"

lemma arp_source_built:
  "build_sources (default_capture\<lparr>cap_sources := [''arp'']\<rparr>) [''eth0''] = Inr [arp_source]"
  by (simp add: build_sources_def arp_source_def SOURCES_def ARP_SOURCE_def default_capture_def)

theorem capture_is_faithful_witness:
  "\<exists>obs. fst (capture_loop (ps_parser arp_source) ''eth0'' (packet_time (\<lambda>_. True) 0) (\<lambda>_. True)
        [(False, TimeoutExpired), (False, Packet arp_frame 7 0)] []) = [obs]
     \<and> usable (obs_mac obs) \<and> obs_source obs = ''arp'' \<and> obs_at obs = 7000000000"
proof -
  let ?script = "[(False, TimeoutExpired), (False, Packet arp_frame 7 0)]"
  let ?run = "capture_loop (ps_parser arp_source) ''eth0'' (packet_time (\<lambda>_. True) 0) (\<lambda>_. True) ?script []"
  have run: "?run = (fst ?run, snd ?run)" by simp
  have n: "length (fst ?run) = 1" by code_simp
  then obtain obs where o: "fst ?run = [obs]" by (auto simp: length_Suc_conv)
  note f = capture_is_faithful [OF arp_source_built _ run, THEN conjunct2, THEN conjunct2]
  have "usable (obs_mac obs) \<and> obs_source obs = ''arp'' \<and> obs_at obs = 7000000000"
    using f o by (simp add: arp_source_def new_pcap_source_def ARP_SOURCE_def packet_time_def)
  then show ?thesis using o by blast
qed

end
