(* ===== verification/Schema.thy ===== *)
theory Schema
  imports Text
begin

text \<open>
  \<^verbatim>\<open>src/db/schema.rs\<close> and the migrations of \<^verbatim>\<open>src/db/mod.rs\<close>: what this build expects of the tables it
  shares with another program, the checks before and after migrating, and the migrations themselves
  from their SQL. The catalogue of the server is the state: its tables in the order of their names, with
  their columns, and the versions the migration library recorded. The library is a parameter.
\<close>

subsection \<open>What is expected\<close>

record expected_column =
  xc_name :: string
  xc_data_type :: string
  xc_nullable :: bool

definition nullable_column :: "string \<Rightarrow> string \<Rightarrow> expected_column" where
  "nullable_column name data_type = \<lparr>xc_name = name, xc_data_type = data_type, xc_nullable = True\<rparr>"

definition not_null :: "string \<Rightarrow> string \<Rightarrow> expected_column" where
  "not_null name data_type = \<lparr>xc_name = name, xc_data_type = data_type, xc_nullable = False\<rparr>"

definition TS :: string where "TS = ''timestamp with time zone''"

definition EXPECTED :: "(string \<times> expected_column list) list" where
  "EXPECTED =
   [(''ng_devices'',
     [not_null ''id'' ''bigint'',
      not_null ''mac'' ''text'',
      nullable_column ''display_name'' ''text'',
      nullable_column ''notes'' ''text'',
      not_null ''hidden'' ''boolean'',
      not_null ''notify'' ''boolean'',
      nullable_column ''resolved_name'' ''text'',
      nullable_column ''identity_source'' ''text'',
      nullable_column ''identity_confidence'' ''real'',
      nullable_column ''hostname'' ''text'',
      nullable_column ''mdns_name'' ''text'',
      nullable_column ''vendor'' ''text'',
      nullable_column ''device_type'' ''text'',
      nullable_column ''device_type_confidence'' ''real'',
      nullable_column ''os_family'' ''text'',
      not_null ''state'' ''text'',
      nullable_column ''last_ip'' ''text'',
      nullable_column ''last_ipv6'' ''text'',
      nullable_column ''last_interface'' ''text'',
      not_null ''first_seen_at'' TS,
      not_null ''last_seen_at'' TS,
      not_null ''baseline'' ''boolean'',
      nullable_column ''current_ap'' ''text'',
      nullable_column ''current_location'' ''text'',
      not_null ''sync_state'' ''text'',
      nullable_column ''trovato_item_id'' ''uuid'',
      nullable_column ''owner_item_id'' ''uuid'',
      nullable_column ''first_seen_at_epoch'' ''bigint'',
      nullable_column ''last_seen_at_epoch'' ''bigint'']),
    (''ng_device_signals'',
     [not_null ''id'' ''bigint'',
      not_null ''device_id'' ''bigint'',
      not_null ''signal_type'' ''text'',
      not_null ''value'' ''text'',
      not_null ''first_seen_at'' TS,
      not_null ''last_seen_at'' TS]),
    (''ng_presence'',
     [not_null ''id'' ''bigint'',
      not_null ''device_id'' ''bigint'',
      nullable_column ''interface'' ''text'',
      nullable_column ''ip'' ''text'',
      not_null ''started_at'' TS,
      nullable_column ''ended_at'' TS,
      not_null ''is_summary'' ''boolean'',
      not_null ''observation_count'' ''bigint'',
      nullable_column ''started_at_epoch'' ''bigint'',
      nullable_column ''ended_at_epoch'' ''bigint'']),
    (''ng_events'',
     [not_null ''id'' ''bigint'',
      nullable_column ''device_id'' ''bigint'',
      not_null ''event_type'' ''text'',
      not_null ''timestamp'' TS,
      not_null ''details'' ''jsonb'',
      not_null ''notified'' ''boolean'',
      not_null ''sync_state'' ''text'',
      nullable_column ''timestamp_epoch'' ''bigint'']),
    (''ng_ip_history'',
     [not_null ''id'' ''bigint'',
      not_null ''device_id'' ''bigint'',
      not_null ''ip'' ''text'',
      nullable_column ''interface'' ''text'',
      not_null ''first_seen'' TS,
      not_null ''last_seen'' TS,
      nullable_column ''first_seen_epoch'' ''bigint'',
      nullable_column ''last_seen_epoch'' ''bigint'']),
    (''ng_location_history'',
     [not_null ''id'' ''bigint'',
      not_null ''device_id'' ''bigint'',
      nullable_column ''ap_name'' ''text'',
      not_null ''location'' ''text'',
      not_null ''started_at'' TS,
      nullable_column ''ended_at'' TS,
      not_null ''is_summary'' ''boolean'',
      nullable_column ''started_at_epoch'' ''bigint'',
      nullable_column ''ended_at_epoch'' ''bigint'']),
    (''ng_people'',
     [not_null ''item_id'' ''uuid'',
      not_null ''name'' ''text'',
      nullable_column ''notes'' ''text'',
      not_null ''notify_arrive'' ''boolean'',
      not_null ''notify_depart'' ''boolean'',
      not_null ''state'' ''text'',
      nullable_column ''current_location'' ''text'',
      nullable_column ''last_arrived_at'' TS,
      nullable_column ''last_departed_at'' TS])]"

definition MIGRATION_TABLE :: string where "MIGRATION_TABLE = ''refinery_schema_history''"

subsection \<open>The catalogue\<close>

text \<open>A column has a name, a type in the catalogue's spelling, and may be null or not.\<close>

type_synonym actual_column = "string \<times> string \<times> bool"

type_synonym live_tables = "(string \<times> actual_column list) list"

text \<open>\<open>cg_history\<close> is \<open>None\<close> without the history table; \<open>cg_readable\<close> says whether the role may read it.\<close>

record catalog =
  cg_tables :: live_tables
  cg_history :: "int list option"
  cg_readable :: bool

definition table_exists :: "catalog \<Rightarrow> string \<Rightarrow> bool" where
  "table_exists d table \<longleftrightarrow>
     (if table = MIGRATION_TABLE then cg_history d \<noteq> None else table \<in> fst ` set (cg_tables d))"

definition columns_of :: "catalog \<Rightarrow> string \<Rightarrow> string \<rightharpoonup> string \<times> bool" where
  "columns_of d table = (case map_of (cg_tables d) table of None \<Rightarrow> Map.empty | Some cols \<Rightarrow> map_of cols)"

definition present_ng_tables :: "catalog \<Rightarrow> string list" where
  "present_ng_tables d =
     (let found = filter (prefix ''ng_'') (map fst (cg_tables d)) in
      filter (\<lambda>t. t \<in> set found) (rev (map fst EXPECTED)) @ filter (\<lambda>t. t \<notin> set (map fst EXPECTED)) found)"

datatype schema_error =
    HistoryUnreadable
  | ForeignSchema "string list"
  | MigrationFailed
  | DevicesUnreadable
  | NoSchema
  | Behind int int
  | Diverges "string list"

definition applied_migration_versions :: "catalog \<Rightarrow> schema_error + int list" where
  "applied_migration_versions d =
     (case cg_history d of
        None \<Rightarrow> Inr []
      | Some versions \<Rightarrow> if cg_readable d then Inr (sort (filter (\<lambda>v. v \<ge> 1) versions)) else Inl HistoryUnreadable)"

subsection \<open>The checks\<close>

definition check_daemon_migrated_first :: "catalog \<Rightarrow> schema_error + unit" where
  "check_daemon_migrated_first d =
     (if \<not> table_exists d ''ng_devices'' then Inr ()
      else case applied_migration_versions d of
        Inl e \<Rightarrow> Inl e
      | Inr applied \<Rightarrow> if applied \<noteq> [] then Inr () else Inl (ForeignSchema (present_ng_tables d)))"

definition nullability :: "bool \<Rightarrow> string" where
  "nullability b = (if b then ''a nullable column'' else ''NOT NULL'')"

definition column_problems :: "string \<Rightarrow> (string \<rightharpoonup> string \<times> bool) \<Rightarrow> expected_column \<Rightarrow> string list" where
  "column_problems table actual c =
     (case actual (xc_name c) of
        None \<Rightarrow> [table @ ''.'' @ xc_name c @ '': the column is missing'']
      | Some (data_type, nullable) \<Rightarrow>
          (if data_type \<noteq> xc_data_type c
           then [table @ ''.'' @ xc_name c @ '': expected type '' @ xc_data_type c @ '', found '' @ data_type] else [])
          @ (if nullable \<noteq> xc_nullable c
             then [table @ ''.'' @ xc_name c @ '': expected '' @ nullability (xc_nullable c) @ '', found '' @ nullability nullable]
             else []))"

definition table_problems :: "catalog \<Rightarrow> string \<times> expected_column list \<Rightarrow> string list" where
  "table_problems d = (\<lambda>(table, expected).
     if \<not> table_exists d table then [table @ '': the table is missing'']
     else concat (map (column_problems table (columns_of d table)) expected))"

definition schema_problems :: "catalog \<Rightarrow> string list" where
  "schema_problems d = concat (map (table_problems d) EXPECTED)"

definition preflight :: "catalog \<Rightarrow> schema_error + unit" where
  "preflight d = (if schema_problems d = [] then Inr () else Inl (Diverges (schema_problems d)))"

definition check_readable :: "catalog \<Rightarrow> int \<Rightarrow> schema_error + unit" where
  "check_readable d expected_version =
     (case applied_migration_versions d of
        Inl e \<Rightarrow> Inl e
      | Inr applied \<Rightarrow>
          if applied = [] then
            (case check_daemon_migrated_first d of Inl e \<Rightarrow> Inl e | Inr _ \<Rightarrow> Inl NoSchema)
          else
            (let highest = foldr max (tl applied) (hd applied) in
             if highest < expected_version then Inl (Behind highest expected_version)
             else if schema_problems d = [] then Inr () else Inl (Diverges (schema_problems d))))"

subsection \<open>Migrations\<close>

datatype ddl =
    CreateTable string "actual_column list"
  | AddColumns string "actual_column list"
  | DropColumn string string

text \<open>A statement fails on a table or column that is there already, or is not there to change.\<close>

fun run_ddl :: "ddl \<Rightarrow> live_tables \<Rightarrow> live_tables option" where
  "run_ddl (CreateTable t cols) ts = (if t \<in> fst ` set ts then None else Some (insort_key fst (t, cols) ts))" |
  "run_ddl (AddColumns t cols) ts =
     (case map_of ts t of
        None \<Rightarrow> None
      | Some old \<Rightarrow>
          if set (map fst cols) \<inter> set (map fst old) \<noteq> {} then None
          else Some (map (\<lambda>(n, cs). if n = t then (n, cs @ cols) else (n, cs)) ts))" |
  "run_ddl (DropColumn t c) ts =
     (case map_of ts t of
        None \<Rightarrow> None
      | Some old \<Rightarrow>
          if c \<notin> set (map fst old) then None
          else Some (map (\<lambda>(n, cs). if n = t then (n, filter (\<lambda>col. fst col \<noteq> c) cs) else (n, cs)) ts))"

fun run_ddls :: "ddl list \<Rightarrow> live_tables \<Rightarrow> live_tables option" where
  "run_ddls [] ts = Some ts" |
  "run_ddls (s # ss) ts = Option.bind (run_ddl s ts) (run_ddls ss)"

definition V1 :: "ddl list" where
  "V1 =
   [CreateTable ''ng_devices''
      [(''id'', ''bigint'', False),
       (''mac'', ''text'', False),
       (''display_name'', ''text'', True),
       (''notes'', ''text'', True),
       (''hidden'', ''boolean'', False),
       (''notify'', ''boolean'', False),
       (''resolved_name'', ''text'', True),
       (''identity_source'', ''text'', True),
       (''identity_confidence'', ''real'', True),
       (''hostname'', ''text'', True),
       (''mdns_name'', ''text'', True),
       (''vendor'', ''text'', True),
       (''device_type'', ''text'', True),
       (''os_family'', ''text'', True),
       (''state'', ''text'', False),
       (''last_ip'', ''text'', True),
       (''last_interface'', ''text'', True),
       (''first_seen_at'', TS, False),
       (''last_seen_at'', TS, False),
       (''baseline'', ''boolean'', False),
       (''current_ap'', ''text'', True),
       (''current_location'', ''text'', True),
       (''sync_state'', ''text'', False),
       (''trovato_item_id'', ''bigint'', True)],
    CreateTable ''ng_device_signals''
      [(''id'', ''bigint'', False),
       (''device_id'', ''bigint'', False),
       (''signal_type'', ''text'', False),
       (''value'', ''text'', False),
       (''first_seen_at'', TS, False),
       (''last_seen_at'', TS, False)],
    CreateTable ''ng_presence''
      [(''id'', ''bigint'', False),
       (''device_id'', ''bigint'', False),
       (''interface'', ''text'', True),
       (''ip'', ''text'', True),
       (''started_at'', TS, False),
       (''ended_at'', TS, True),
       (''is_summary'', ''boolean'', False),
       (''observation_count'', ''bigint'', False)],
    CreateTable ''ng_events''
      [(''id'', ''bigint'', False),
       (''device_id'', ''bigint'', True),
       (''event_type'', ''text'', False),
       (''timestamp'', TS, False),
       (''details'', ''jsonb'', False),
       (''notified'', ''boolean'', False),
       (''sync_state'', ''text'', False)],
    CreateTable ''ng_ip_history''
      [(''id'', ''bigint'', False),
       (''device_id'', ''bigint'', False),
       (''ip'', ''text'', False),
       (''interface'', ''text'', True),
       (''first_seen'', TS, False),
       (''last_seen'', TS, False)]]"

definition V2 :: "ddl list" where
  "V2 =
   [AddColumns ''ng_devices'' [(''device_type_confidence'', ''real'', True)],
    AddColumns ''ng_devices'' [(''last_ipv6'', ''text'', True)]]"

definition V3 :: "ddl list" where
  "V3 =
   [DropColumn ''ng_devices'' ''trovato_item_id'',
    AddColumns ''ng_devices'' [(''trovato_item_id'', ''uuid'', True)],
    AddColumns ''ng_devices'' [(''owner_item_id'', ''uuid'', True)],
    AddColumns ''ng_devices'' [(''first_seen_at_epoch'', ''bigint'', True), (''last_seen_at_epoch'', ''bigint'', True)],
    AddColumns ''ng_presence'' [(''started_at_epoch'', ''bigint'', True), (''ended_at_epoch'', ''bigint'', True)],
    AddColumns ''ng_events'' [(''timestamp_epoch'', ''bigint'', True)],
    AddColumns ''ng_ip_history'' [(''first_seen_epoch'', ''bigint'', True), (''last_seen_epoch'', ''bigint'', True)],
    CreateTable ''ng_location_history''
      [(''id'', ''bigint'', False),
       (''device_id'', ''bigint'', False),
       (''ap_name'', ''text'', True),
       (''location'', ''text'', False),
       (''started_at'', TS, False),
       (''ended_at'', TS, True),
       (''is_summary'', ''boolean'', False),
       (''started_at_epoch'', ''bigint'', True),
       (''ended_at_epoch'', ''bigint'', True)],
    CreateTable ''ng_people''
      [(''item_id'', ''uuid'', False),
       (''name'', ''text'', False),
       (''notes'', ''text'', True),
       (''notify_arrive'', ''boolean'', False),
       (''notify_depart'', ''boolean'', False),
       (''state'', ''text'', False),
       (''current_location'', ''text'', True),
       (''last_arrived_at'', TS, True),
       (''last_departed_at'', TS, True)]]"

definition MIGRATIONS :: "(int \<times> ddl list) list" where
  "MIGRATIONS = [(1, V1), (2, V2), (3, V3)]"

definition embedded_max_version :: int where
  "embedded_max_version = foldr max (map fst MIGRATIONS) 0"

text \<open>The migration library: the catalogue afterwards, and whether it succeeded.\<close>

type_synonym runner = "catalog \<Rightarrow> catalog \<times> bool"

definition migrate :: "runner \<Rightarrow> catalog \<Rightarrow> catalog \<times> (schema_error + unit)" where
  "migrate runner d =
     (case check_daemon_migrated_first d of
        Inl e \<Rightarrow> (d, Inl e)
      | Inr _ \<Rightarrow> (case runner d of (d1, ok) \<Rightarrow> (d1, if ok then Inr () else Inl MigrationFailed)))"

definition health_check :: "catalog \<Rightarrow> schema_error + unit" where
  "health_check d = (if table_exists d ''ng_devices'' then Inr () else Inl DevicesUnreadable)"

definition require_schema :: "catalog \<Rightarrow> schema_error + unit" where
  "require_schema d = check_readable d embedded_max_version"

definition migrate_command :: "runner \<Rightarrow> catalog \<Rightarrow> catalog \<times> (schema_error + unit)" where
  "migrate_command runner d =
     (case migrate runner d of
        (d1, Inl e) \<Rightarrow> (d1, Inl e)
      | (d1, Inr _) \<Rightarrow>
          (d1, case health_check d1 of Inl e \<Rightarrow> Inl e | Inr _ \<Rightarrow> preflight d1))"

subsection \<open>What the checks decide\<close>

text \<open>The tables conform when every expected column is there as expected; other columns do not matter.\<close>

definition conforms :: "catalog \<Rightarrow> bool" where
  "conforms d \<longleftrightarrow>
     list_all (\<lambda>(table, expected). table_exists d table
       \<and> list_all (\<lambda>c. columns_of d table (xc_name c) = Some (xc_data_type c, xc_nullable c)) expected) EXPECTED"

lemma column_problems_iff:
  "column_problems table actual c = [] \<longleftrightarrow> actual (xc_name c) = Some (xc_data_type c, xc_nullable c)"
  by (auto simp: column_problems_def split: option.split if_splits)

lemma table_problems_iff:
  "table_problems d te = [] \<longleftrightarrow> table_exists d (fst te)
     \<and> list_all (\<lambda>c. columns_of d (fst te) (xc_name c) = Some (xc_data_type c, xc_nullable c)) (snd te)"
  by (auto simp: table_problems_def case_prod_beta column_problems_iff list_all_iff)

lemma schema_problems_iff: "schema_problems d = [] \<longleftrightarrow> conforms d"
proof -
  have "schema_problems d = [] \<longleftrightarrow> (\<forall>te \<in> set EXPECTED. table_problems d te = [])"
    unfolding schema_problems_def concat_eq_Nil_conv by simp
  then show ?thesis unfolding conforms_def list_all_iff table_problems_iff by (simp add: case_prod_beta list_all_iff)
qed

lemma preflight_iff: "preflight d = Inr () \<longleftrightarrow> conforms d"
  by (simp add: preflight_def schema_problems_iff)

lemma fold_max_ge: "(x :: int) \<in> set xs \<Longrightarrow> x \<le> foldr max (tl xs) (hd xs)"
proof -
  have "y \<le> foldr max ys z" if "y = z \<or> y \<in> set ys" for y z :: int and ys
    using that by (induction ys) auto
  then show "x \<in> set xs \<Longrightarrow> x \<le> foldr max (tl xs) (hd xs)" by (cases xs) auto
qed

lemma fold_max_in: "xs \<noteq> [] \<Longrightarrow> foldr max (tl xs) (hd xs) \<in> set xs" for xs :: "int list"
proof -
  have "foldr max ys z \<in> insert z (set ys)" for z :: int and ys by (induction ys) (auto simp: max_def)
  then show "xs \<noteq> [] \<Longrightarrow> foldr max (tl xs) (hd xs) \<in> set xs" by (cases xs) fastforce+
qed

lemma readable_iff_conforms:
  "check_readable d expected_version = Inr () \<longleftrightarrow>
     (\<exists>versions v. cg_history d = Some versions \<and> cg_readable d \<and> v \<in> set versions \<and> 1 \<le> v \<and> expected_version \<le> v)
     \<and> conforms d"
proof (cases "applied_migration_versions d")
  case (Inl e)
  then show ?thesis by (auto simp: check_readable_def applied_migration_versions_def split: option.splits if_splits)
next
  case (Inr applied)
  then have m: "set applied = {v. \<exists>versions. cg_history d = Some versions \<and> cg_readable d \<and> v \<in> set versions \<and> 1 \<le> v}"
    by (auto simp: applied_migration_versions_def split: option.splits if_splits)
  let ?highest = "foldr max (tl applied) (hd applied)"
  have "check_readable d expected_version = Inr () \<longleftrightarrow> applied \<noteq> [] \<and> expected_version \<le> ?highest \<and> conforms d"
    using Inr by (auto simp: check_readable_def Let_def schema_problems_iff split: sum.split)
  also have "\<dots> \<longleftrightarrow> (\<exists>v \<in> set applied. expected_version \<le> v) \<and> conforms d"
    using fold_max_in [of applied] fold_max_ge [of _ applied] by (metis empty_iff list.set(1) order_trans)
  finally show ?thesis unfolding m by blast
qed

text \<open>
  The guard of the reading commands lets them through exactly when the migration history can be read
  and holds a version at least as new as this build's, and the tables conform to what it expects.
\<close>

theorem readable_iff:
  "check_readable d expected_version = Inr () \<longleftrightarrow>
     (\<exists>versions v. cg_history d = Some versions \<and> cg_readable d \<and> v \<in> set versions \<and> 1 \<le> v \<and> expected_version \<le> v)
     \<and> conforms d"
  by (rule readable_iff_conforms)

lemma present_ng_tables_set:
  "set (present_ng_tables d) = {t \<in> fst ` set (cg_tables d). prefix ''ng_'' t}"
  by (auto simp: present_ng_tables_def Let_def)


definition half_built :: catalog where
  "half_built = \<lparr>cg_tables = [(''ng_devices'', []), (''ng_state'', []), (''other'', [])], cg_history = Some [], cg_readable = True\<rparr>"


subsection \<open>What the migrations build\<close>


text \<open>The migration library as documented: what is not recorded yet runs in order, and is recorded.\<close>

fun apply_pending :: "(int \<times> ddl list) list \<Rightarrow> runner" where
  "apply_pending [] d = (d\<lparr>cg_history := Some (case cg_history d of Some vs \<Rightarrow> vs | None \<Rightarrow> [])\<rparr>, True)" |
  "apply_pending ((v, ss) # ms) d =
     (let done = (case cg_history d of Some vs \<Rightarrow> vs | None \<Rightarrow> []) in
      if v \<in> set done then apply_pending ms d
      else case run_ddls ss (cg_tables d) of
        None \<Rightarrow> (d\<lparr>cg_history := Some done\<rparr>, False)
      | Some ts \<Rightarrow> apply_pending ms (d\<lparr>cg_tables := ts, cg_history := Some (done @ [v])\<rparr>))"

text \<open>
  Once the migrate command succeeds, the database serves every reading command of this build, and
  the command can be run again on every start: it succeeds and changes nothing. The library is relied on
  to record, in a table this role can read, the versions it ran, and to do nothing when none is pending.
\<close>

theorem migrated_means_readable:
  assumes records: "\<And>d d1. runner d = (d1, True) \<Longrightarrow> cg_readable d1 \<and> (\<exists>vs. cg_history d1 = Some vs \<and> set (map fst MIGRATIONS) \<subseteq> set vs)"
    and idle: "\<And>d vs. cg_readable d \<Longrightarrow> cg_history d = Some vs \<Longrightarrow> set (map fst MIGRATIONS) \<subseteq> set vs \<Longrightarrow> runner d = (d, True)"
    and ok: "migrate_command runner d = (d1, Inr ())"
  shows "require_schema d1 = Inr () \<and> migrate_command runner d1 = (d1, Inr ())"
proof -
  have run: "runner d = (d1, True)" "health_check d1 = Inr ()" "preflight d1 = Inr ()"
    using ok by (auto simp: migrate_command_def migrate_def split: sum.splits prod.splits if_splits)
  obtain vs where vs: "cg_readable d1" "cg_history d1 = Some vs" "set (map fst MIGRATIONS) \<subseteq> set vs"
    using records [OF run(1)] by blast
  have "3 \<in> set vs" using vs(3) by (simp add: MIGRATIONS_def)
  then have "require_schema d1 = Inr ()"
    using vs run(3) by (auto simp: require_schema_def readable_iff_conforms preflight_iff embedded_max_version_def MIGRATIONS_def)
  moreover have applied: "applied_migration_versions d1 = Inr (sort (filter (\<lambda>v. v \<ge> 1) vs))"
    using vs by (simp add: applied_migration_versions_def)
  have "3 \<in> set (sort (filter (\<lambda>v. v \<ge> 1) vs))" using \<open>3 \<in> set vs\<close> by simp
  then have "check_daemon_migrated_first d1 = Inr ()"
    unfolding check_daemon_migrated_first_def applied by (auto simp del: set_sort)
  ultimately show ?thesis using idle [OF vs] run by (simp add: migrate_command_def migrate_def)
qed

lemma apply_pending_idle:
  "cg_history d = Some vs \<Longrightarrow> set (map fst ms) \<subseteq> set vs \<Longrightarrow> apply_pending ms d = (d, True)"
  by (induction ms) (auto simp: Let_def)

lemma apply_pending_records:
  "apply_pending ms d = (d1, True) \<Longrightarrow> cg_readable d1 = cg_readable d \<and> (\<exists>vs. cg_history d1 = Some vs
     \<and> set (map fst ms) \<subseteq> set vs \<and> (\<forall>vs0. cg_history d = Some vs0 \<longrightarrow> set vs0 \<subseteq> set vs))"
proof (induction ms arbitrary: d)
  case (Cons m ms)
  obtain v ss where m: "m = (v, ss)" by (rule prod.exhaust)
  let ?done = "case cg_history d of Some vs \<Rightarrow> vs | None \<Rightarrow> []"
  show ?case
  proof (cases "v \<in> set ?done")
    case True
    then have "apply_pending ms d = (d1, True)" using Cons.prems by (simp add: m Let_def)
    then show ?thesis using Cons.IH [of d] True by (cases "cg_history d") (auto simp: m)
  next
    case False
    then obtain ts where "apply_pending ms (d\<lparr>cg_tables := ts, cg_history := Some (?done @ [v])\<rparr>) = (d1, True)"
      using Cons.prems by (auto simp: m Let_def split: option.splits if_splits)
    then show ?thesis using Cons.IH by (fastforce simp: m split: option.splits)
  qed
qed (auto split: option.splits)

definition documented_runner :: runner where
  "documented_runner d = (if cg_readable d then apply_pending MIGRATIONS d else (d, False))"

definition fresh_catalog :: catalog where
  "fresh_catalog = \<lparr>cg_tables = [], cg_history = None, cg_readable = True\<rparr>"

theorem migrated_means_readable_witness:
  "snd (migrate_command documented_runner fresh_catalog) = Inr ()
   \<and> require_schema (fst (migrate_command documented_runner fresh_catalog)) = Inr ()"
proof -
  have ok: "snd (migrate_command documented_runner fresh_catalog) = Inr ()" by code_simp
  have "require_schema (fst (migrate_command documented_runner fresh_catalog)) = Inr ()"
  proof (rule migrated_means_readable [THEN conjunct1])
    show "migrate_command documented_runner fresh_catalog = (fst (migrate_command documented_runner fresh_catalog), Inr ())"
      using ok by (metis prod.collapse)
    show "cg_readable d1 \<and> (\<exists>vs. cg_history d1 = Some vs \<and> set (map fst MIGRATIONS) \<subseteq> set vs)"
      if "documented_runner d = (d1, True)" for d d1
      using that apply_pending_records [of MIGRATIONS d d1] by (auto simp: documented_runner_def split: if_splits)
    show "documented_runner d = (d, True)"
      if "cg_readable d" "cg_history d = Some vs" "set (map fst MIGRATIONS) \<subseteq> set vs" for d vs
      using that apply_pending_idle by (simp add: documented_runner_def)
  qed
  then show ?thesis using ok by simp
qed

end
