(* ===== verification/Runtime.thy ===== *)
theory Runtime
  imports Daemon
begin

text \<open>
  \<^verbatim>\<open>src/runtime/mod.rs\<close>, with \<open>write_status\<close> of \<^verbatim>\<open>src/daemon.rs\<close>: the status the daemon publishes in a
  file for another process to read. The file system is a map from paths to contents; a write may be cut
  off anywhere. The JSON encoding is a parameter, and so is what the operating system tells: the
  process id, and the text of \<^verbatim>\<open>/proc/self/status\<close>.
\<close>

definition STALE_AFTER_INTERVALS :: nat where "STALE_AFTER_INTERVALS = 3"

record enricher_counters =
  ec_polls :: u64
  ec_failures :: u64

record status =
  ru_version :: string
  ru_pid :: u32
  ru_started_at :: time
  ru_updated_at :: time
  ru_learning :: bool
  ru_observations :: u64
  ru_duplicates :: u64
  ru_events :: u64
  ru_security_events :: u64
  ru_unattributed_names :: u64
  ru_proxy_arp_addresses :: nat
  ru_devices :: nat
  ru_online :: nat
  ru_idle :: nat
  ru_offline :: nat
  ru_sources :: "(string \<times> u64) list"
  ru_enrichers :: "(string \<times> enricher_counters) list"
  ru_resident_bytes :: "u64 option"

definition new_status :: "string \<Rightarrow> u32 \<Rightarrow> time \<Rightarrow> status" where
  "new_status version pid started_at =
     \<lparr>ru_version = version, ru_pid = pid, ru_started_at = started_at, ru_updated_at = started_at, ru_learning = False,
      ru_observations = 0, ru_duplicates = 0, ru_events = 0, ru_security_events = 0, ru_unattributed_names = 0,
      ru_proxy_arp_addresses = 0, ru_devices = 0, ru_online = 0, ru_idle = 0, ru_offline = 0, ru_sources = [],
      ru_enrichers = [], ru_resident_bytes = None\<rparr>"

definition uptime :: "status \<Rightarrow> int" where
  "uptime s = ru_updated_at s - ru_started_at s"

text \<open>
  Multiplying a duration panics past its greatest number of seconds, which is \<open>None\<close> here.
\<close>

definition interval_times :: "duration \<Rightarrow> nat \<Rightarrow> duration option" where
  "interval_times d n = (if d * n < 2 ^ 64 * 1000000000 then Some (d * n) else None)"

definition is_stale :: "status \<Rightarrow> time \<Rightarrow> duration \<Rightarrow> bool option" where
  "is_stale s now interval =
     map_option
       (\<lambda>d. now - ru_updated_at s > (case from_std d of Some allowance \<Rightarrow> allowance | None \<Rightarrow> int (secs 300)))
       (interval_times interval STALE_AFTER_INTERVALS)"

text \<open>The rates, with the quotient of two floats as a quotient of rationals.\<close>

definition num_milliseconds :: "int \<Rightarrow> int" where
  "num_milliseconds d = sgn d * (\<bar>d\<bar> div 1000000)"

definition source_rates :: "status \<Rightarrow> (string \<times> u64 \<times> rat) list" where
  "source_rates s =
     (let seconds = of_int (max 1 (num_milliseconds (uptime s))) / 1000 in
      map (\<lambda>(name, count). (name, count, of_nat (unat count) / seconds)) (ru_sources s))"

subsection \<open>The file\<close>

text \<open>A path is its directory and its file name.\<close>

type_synonym path = "string \<times> string"

type_synonym files = "path \<rightharpoonup> byte list"

definition temporary_path :: "path \<Rightarrow> path" where
  "temporary_path p = (fst p, snd p @ ''.tmp'')"

text \<open>What can go wrong on the way, and how much of the temporary file is there by then.\<close>

datatype write_fault = NoDirectory | CutOff nat | NotRenamed

text \<open>
  \<open>status_write\<close> ends with the files as they are and whether it succeeded; a process killed on the way
  leaves the files as after the fault at that place.
\<close>

definition status_write :: "(status \<Rightarrow> byte list) \<Rightarrow> write_fault option \<Rightarrow> status \<Rightarrow> path \<Rightarrow> files \<Rightarrow> files \<times> bool" where
  "status_write enc fault s p fs =
     (let json = enc s; tmp = temporary_path p in
      case fault of
        Some NoDirectory \<Rightarrow> (fs, False)
      | Some (CutOff n) \<Rightarrow> (fs(tmp \<mapsto> take n json), False)
      | Some NotRenamed \<Rightarrow> (fs(tmp \<mapsto> json), False)
      | None \<Rightarrow> ((fs(tmp := None))(p \<mapsto> json), True))"

definition status_read :: "(byte list \<Rightarrow> status option) \<Rightarrow> path \<Rightarrow> files \<Rightarrow> status option" where
  "status_read dec p fs = Option.bind (fs p) dec"

text \<open>The name of the kernel's file holds the resident set in kibibytes; the product keeps its width.\<close>

function first_word :: "string \<Rightarrow> string" where
  "first_word s =
     (if s = [] \<or> list_ex (\<lambda>w. prefix w s) white_space then [] else hd s # first_word (tl s))"
  by auto
termination
  by (relation "measure length") auto

definition split_whitespace_first :: "string \<Rightarrow> string option" where
  "split_whitespace_first s = (let w = first_word (trim_start s) in if w = [] then None else Some w)"

fun resident_of :: "string list \<Rightarrow> u64 option" where
  "resident_of [] = None" |
  "resident_of (line # lines) =
     (case strip_prefix line ''VmRSS:'' of
        None \<Rightarrow> resident_of lines
      | Some rest \<Rightarrow> map_option (\<lambda>kb. of_nat kb * 1024) (Option.bind (split_whitespace_first rest) parse_u64))"

definition resident_bytes :: "string option \<Rightarrow> u64 option" where
  "resident_bytes proc_status = Option.bind proc_status (resident_of \<circ> str_lines)"

definition human_duration_text :: "int \<Rightarrow> string" where
  "human_duration_text delta =
     (let total = nat (max 0 (num_seconds delta));
          days = total div 86400; hours = total mod 86400 div 3600; minutes = total mod 3600 div 60; seconds = total mod 60 in
      if days > 0 then show_nat days @ ''d '' @ show_nat hours @ ''h '' @ show_nat minutes @ ''m''
      else if hours > 0 then show_nat hours @ ''h '' @ show_nat minutes @ ''m''
      else if minutes > 0 then show_nat minutes @ ''m '' @ show_nat seconds @ ''s''
      else show_nat seconds @ ''s'')"

subsection \<open>What the daemon publishes\<close>

definition status_of ::
  "string \<Rightarrow> u32 \<Rightarrow> time \<Rightarrow> time \<Rightarrow> world \<Rightarrow> (string \<times> u64 \<times> u64) list \<Rightarrow> u64 option \<Rightarrow> status"
where
  "status_of version pid started_at now w enricher_counters resident =
     (let (online, idle, offline) = state_counts (wd_manager w) in
      (new_status version pid started_at)\<lparr>
        ru_updated_at := now,
        ru_learning := mg_learning (wd_manager w),
        ru_observations := rs_observations (wd_summary w),
        ru_duplicates := duplicates_suppressed (wd_dedup w),
        ru_events := rs_events (wd_summary w),
        ru_security_events := rs_security_events (wd_summary w),
        ru_unattributed_names := mg_unattributed_claims (wd_manager w),
        ru_proxy_arp_addresses := length (gw_proxied (cx_gateway (ch_context (wd_chain w)))),
        ru_devices := manager_len (wd_manager w),
        ru_online := online, ru_idle := idle, ru_offline := offline,
        ru_sources := rs_sources (wd_summary w),
        ru_enrichers := fold (\<lambda>(name, polls, failures). bt_insert name \<lparr>ec_polls = polls, ec_failures = failures\<rparr>)
                          enricher_counters [],
        ru_resident_bytes := resident\<rparr>)"

definition write_status ::
  "(status \<Rightarrow> byte list) \<Rightarrow> write_fault option \<Rightarrow> path \<Rightarrow> status \<Rightarrow> files \<Rightarrow> files"
where
  "write_status enc fault p s fs = fst (status_write enc fault s p fs)"

subsection \<open>Properties\<close>

lemma temporary_path_other [simp]: "temporary_path p \<noteq> p"
  by (cases p) (simp add: temporary_path_def)

text \<open>
  C30: Whatever goes wrong while the status is written, and wherever the process is killed, the file
  reads as the status before or as the new one, complete; and no other file but the temporary one is touched.
\<close>

theorem status_file_is_never_half:
  assumes "dec (enc s) = Some s"
  shows "status_read dec p (write_status enc fault p s fs) = (if fault = None then Some s else status_read dec p fs)
    \<and> (\<forall>q. q \<noteq> p \<and> q \<noteq> temporary_path p \<longrightarrow> write_status enc fault p s fs q = fs q)"
  using assms temporary_path_other [of p] temporary_path_other [of p, symmetric]
  by (auto simp: write_status_def status_write_def status_read_def Let_def split: option.split write_fault.split)

theorem status_file_is_never_half_witness:
  "let s = new_status ''0.4'' 7 0; dec = (\<lambda>bs. if bs = [1, 2, 3] then Some s else None); p = (''/run'', ''status.json'') in
    status_read dec p (write_status (\<lambda>_. [1, 2, 3]) None p s Map.empty) = Some s
    \<and> status_read dec p (write_status (\<lambda>_. [1, 2, 3]) (Some (CutOff 1)) p s Map.empty) = None"
  using status_file_is_never_half [THEN conjunct1, of "\<lambda>bs. if bs = [1, 2, 3] then Some (new_status ''0.4'' 7 0) else None"
      "\<lambda>_. [1, 2, 3]" "new_status ''0.4'' 7 0" "(''/run'', ''status.json'')" _ Map.empty]
  by (simp add: Let_def status_read_def [of _ _ Map.empty])

text \<open>A healthy daemon is never called stale, and one that stopped is, three intervals after its last write.\<close>

lemma stale_iff:
  assumes "3 * interval \<le> delta_max"
  shows "is_stale s now interval = Some (now - ru_updated_at s > 3 * int interval)"
proof -
  have "interval * 3 < 2 ^ 64 * 1000000000" using assms by (simp add: delta_max_def)
  then show ?thesis using assms
    by (simp add: is_stale_def interval_times_def STALE_AFTER_INTERVALS_def from_std_def mult.commute)
qed

text \<open>An interval that the configuration accepts can make the reader panic.\<close>

lemma huge_interval_panics: "is_stale s now (from_secs (2 ^ 63)) = None"
  by (simp add: is_stale_def interval_times_def STALE_AFTER_INTERVALS_def from_secs_def secs_def)

lemma fold_count_state:
  "fold count_state es (a, b, c) = (a', b', c') \<Longrightarrow> a' + b' + c' = a + b + c + length es"
proof (induction es arbitrary: a b c)
  case (Cons e es)
  obtain m d where e: "e = (m, d)" by (rule prod.exhaust)
  show ?case
  proof (cases "dv_state d")
    case Online
    then show ?thesis using Cons.IH [of "a + 1" b c] Cons.prems by (simp add: e)
  next
    case Idle
    then show ?thesis using Cons.IH [of a "b + 1" c] Cons.prems by (simp add: e)
  next
    case Offline
    then show ?thesis using Cons.IH [of a b "c + 1"] Cons.prems by (simp add: e)
  qed
qed simp

text \<open>
  The numbers a status publishes add up: every device of the table is counted once, as online, idle
  or offline.
\<close>

theorem published_devices_add_up:
  "ru_online (status_of version pid started now w cs resident) + ru_idle (status_of version pid started now w cs resident)
     + ru_offline (status_of version pid started now w cs resident)
   = ru_devices (status_of version pid started now w cs resident)"
  using fold_count_state [of "mg_devices (wd_manager w)" 0 0 0]
  by (auto simp: status_of_def state_counts_def manager_len_def new_status_def split: prod.split)

end
