(* ===== verification/Cli_Table.thy ===== *)
theory Cli_Table
  imports Tables People
begin

text \<open>
  \<^verbatim>\<open>src/cli/table.rs\<close>: the plain-text tables the commands print. Widths count characters, as the source
  does. The Unicode lower case of a name and the text of a JSON value are parameters.
\<close>

definition MAX_CELL :: nat where "MAX_CELL = 32"

text \<open>\<^verbatim>\<open>chars().take(n)\<close> on the bytes of a text: the continuation bytes go with their character.\<close>

fun chars_take :: "nat \<Rightarrow> string \<Rightarrow> string" where
  "chars_take n [] = []" |
  "chars_take n (c # cs) =
     (if cont (ordc c) then c # chars_take n cs else case n of 0 \<Rightarrow> [] | Suc m \<Rightarrow> c # chars_take m cs)"

definition truncate :: "string \<Rightarrow> nat \<Rightarrow> string" where
  "truncate s n = (if chars_count s \<le> n then s else chars_take (n - 1) s @ bytes_str [0xE2, 0x80, 0xA6])"

definition widen :: "string list \<Rightarrow> nat list \<Rightarrow> nat list" where
  "widen row ws = map (\<lambda>(i, w). if i < length row then max w (chars_count (row ! i)) else w) (enumerate 0 ws)"

definition column_widths :: "string list \<Rightarrow> string list list \<Rightarrow> nat list" where
  "column_widths headers truncated = fold widen truncated (map chars_count headers)"

definition padded :: "nat list \<Rightarrow> nat \<times> string \<Rightarrow> string" where
  "padded widths = (\<lambda>(i, cell).
     cell @ replicate ((if i < length widths then widths ! i else 0) - chars_count cell) (CHR '' '') @ ''  '')"

definition push_row :: "string list \<Rightarrow> nat list \<Rightarrow> string" where
  "push_row cells widths =
     concat (map (\<lambda>(i, cell). if i = length cells - 1 then cell else padded widths (i, cell)) (enumerate 0 cells)) @ [chr 10]"

definition render_table :: "string list \<Rightarrow> string list list \<Rightarrow> string" where
  "render_table headers rows =
     (let truncated = map (map (\<lambda>c. truncate c MAX_CELL)) rows; widths = column_widths headers truncated in
      push_row headers widths @ join ''  '' (map (\<lambda>w. replicate w (CHR ''-'')) widths) @ [chr 10]
      @ concat (map (\<lambda>row. push_row row widths) truncated))"

definition ago :: "time \<Rightarrow> time \<Rightarrow> string" where
  "ago earlier now =
     (let s = num_seconds (now - earlier); n = nat s in
      if s < 0 then ''just now''
      else if n \<le> 4 then ''just now''
      else if n \<le> 89 then show_nat n @ ''s ago''
      else if n \<le> 5399 then show_nat (n div 60) @ ''m ago''
      else if n \<le> 172799 then show_nat (n div 3600) @ ''h ago''
      else show_nat (n div 86400) @ ''d ago'')"

definition or_dash :: "string option \<Rightarrow> string" where
  "or_dash v = (case v of Some s \<Rightarrow> s | None \<Rightarrow> ''-'')"

definition device_table :: "device_snapshot list \<Rightarrow> time \<Rightarrow> string" where
  "device_table devices now =
     render_table [''NAME'', ''VENDOR'', ''IP'', ''STATE'', ''LAST SEEN'']
       (map (\<lambda>d. [display d, or_dash (sn_vendor d), or_dash (sn_last_ip d), device_state_str (sn_state d),
                  ago (sn_last_seen_at d) now]) devices)"

definition device_record_table :: "device_record list \<Rightarrow> time \<Rightarrow> string" where
  "device_record_table devices now =
     render_table [''NAME'', ''VENDOR'', ''IP'', ''STATE'', ''LAST SEEN'', ''MAC'']
       (map (\<lambda>d. [record_display d, or_dash (dr_vendor d), or_dash (dr_last_ip d), device_state_str (dr_state d),
                  ago (dr_last_seen_at d) now, show_mac (dr_mac d)]) devices)"

definition DETAIL_KEYS :: "string list" where
  "DETAIL_KEYS =
     [''previous_ip'', ''new_ip'', ''previous_name'', ''new_source'', ''silent_for_secs'', ''claimed_ip'',
      ''previous_holder'', ''gateway_impersonation'', ''distinct_targets'', ''announcements'',
      ''other_mac'', ''expected_server'', ''message_type'', ''previous_device_type'', ''device_type'',
      ''category_change'', ''location'', ''previous_location'', ''movement'', ''person'', ''via'',
      ''interface'']"

definition detail_summary :: "(json \<Rightarrow> string) \<Rightarrow> json \<Rightarrow> string" where
  "detail_summary show_json details =
     (case details of
        JObj _ \<Rightarrow>
          join '' '' (List.map_filter
            (\<lambda>key. case Alert.field details key of
               None \<Rightarrow> None
             | Some v \<Rightarrow>
                 (let rendered = (case v of JStr s \<Rightarrow> s | _ \<Rightarrow> show_json v) in
                  if rendered \<noteq> ''null'' \<and> rendered \<noteq> [] then Some (key @ ''='' @ rendered) else None))
            DETAIL_KEYS)
      | _ \<Rightarrow> [])"

definition event_table :: "(json \<Rightarrow> string) \<Rightarrow> event_record list \<Rightarrow> time \<Rightarrow> string" where
  "event_table show_json events now =
     render_table [''WHEN'', ''EVENT'', ''DEVICE'', ''NOTIFIED'', ''DETAIL'']
       (map (\<lambda>e. [ago (vr_timestamp e) now, vr_event_type e, or_dash (vr_device_label e),
                  if vr_notified e then ''yes'' else ''no'', detail_summary show_json (vr_details e)]) events)"

text \<open>Home first, then by name: a stable sort by the second key and then by the first.\<close>

definition by_presence :: "(string \<Rightarrow> string) \<Rightarrow> person_row list \<Rightarrow> person_row list" where
  "by_presence lowercase people = sort_key (\<lambda>p. pw_state p \<noteq> ''home'') (sort_key (\<lambda>p. map ordc (lowercase (pw_name p))) people)"

definition people_table :: "(string \<Rightarrow> string) \<Rightarrow> person_row list \<Rightarrow> time \<Rightarrow> string" where
  "people_table lowercase people now =
     render_table [''PERSON'', ''STATE'', ''LOCATION'', ''SINCE'']
       (map (\<lambda>p. [pw_name p, pw_state p, or_dash (pw_current_location p),
                  case (if pw_state p = ''home'' then pw_last_arrived_at p else pw_last_departed_at p) of
                    None \<Rightarrow> ''never'' | Some moment \<Rightarrow> ago moment now])
         (by_presence lowercase people))"

subsection \<open>The columns of a table line up\<close>

lemma chars_count_append [simp]: "chars_count (s @ t) = chars_count s + chars_count t"
  by (simp add: chars_count_def)

lemma chars_count_Nil [simp]: "chars_count [] = 0"
  by (simp add: chars_count_def)

lemma chars_count_Cons: "chars_count (c # s) = (if cont (ordc c) then 0 else 1) + chars_count s"
  by (simp add: chars_count_def cont_def)

lemma chars_count_take: "chars_count (chars_take n s) = min n (chars_count s)"
  by (induction n s rule: chars_take.induct) (auto simp: chars_count_Cons split: nat.split)

lemma ellipsis_count: "chars_count (bytes_str [0xE2, 0x80, 0xA6]) = 1"
  by code_simp

text \<open>A cell is cut to its limit, the mark of the cut included, and a cell that fits is not changed.\<close>

lemma truncate_fits: "0 < n \<Longrightarrow> chars_count (truncate s n) \<le> n"
  by (simp add: truncate_def chars_count_take ellipsis_count)

lemma spaces_count: "chars_count (replicate n (CHR '' '')) = n"
proof -
  have "\<not> cont (ordc (CHR '' ''))" by code_simp
  then show ?thesis by (induction n) (simp_all add: chars_count_Cons)
qed

lemma length_widen [simp]: "length (widen row ws) = length ws"
  by (simp add: widen_def)

lemma nth_widen: "i < length ws \<Longrightarrow> widen row ws ! i = (if i < length row then max (ws ! i) (chars_count (row ! i)) else ws ! i)"
  by (simp add: widen_def nth_enumerate_eq)

lemma length_widened [simp]: "length (fold widen rows ws) = length ws"
  by (induction rows arbitrary: ws) simp_all

lemma widened_ge:
  "i < length ws \<Longrightarrow> ws ! i \<le> fold widen rows ws ! i
    \<and> (\<forall>row \<in> set rows. i < length row \<longrightarrow> chars_count (row ! i) \<le> fold widen rows ws ! i)"
proof (induction rows arbitrary: ws)
  case (Cons row rows)
  have "widen row ws ! i \<le> fold widen rows (widen row ws) ! i
      \<and> (\<forall>r \<in> set rows. i < length r \<longrightarrow> chars_count (r ! i) \<le> fold widen rows (widen row ws) ! i)"
    using Cons.IH [of "widen row ws"] Cons.prems by simp
  then show ?case using Cons.prems nth_widen [of i ws row] by (auto split: if_splits)
qed simp

lemma padded_count:
  "i < length ws \<Longrightarrow> chars_count cell \<le> ws ! i \<Longrightarrow> chars_count (padded ws (i, cell)) = ws ! i + 2"
  using spaces_count [of 2] by (simp add: padded_def spaces_count numeral_2_eq_2)

lemma push_row_at:
  assumes "j < length cells" "j \<le> length ws" "\<forall>i < length ws. i < length cells \<longrightarrow> chars_count (cells ! i) \<le> ws ! i"
  shows "\<exists>before rest. push_row cells ws = before @ cells ! j @ rest
    \<and> chars_count before = sum_list (map (\<lambda>w. w + 2) (take j ws))"
proof -
  let ?f = "\<lambda>(i, cell). if i = length cells - 1 then cell else padded ws (i, cell)"
  let ?e = "enumerate 0 cells"
  let ?before = "concat (map ?f (take j ?e))"
  have "?e = take j ?e @ (j, cells ! j) # drop (Suc j) ?e"
    using assms(1) id_take_nth_drop [of j ?e] by (simp add: nth_enumerate_eq)
  then have row: "push_row cells ws = ?before @ ?f (j, cells ! j) @ concat (map ?f (drop (Suc j) ?e)) @ [chr 10]"
    unfolding push_row_def by (metis (no_types, lifting) append_assoc concat.simps(2) concat_append list.simps(9) map_append)
  obtain more where more: "?f (j, cells ! j) = cells ! j @ more" by (force simp: padded_def)
  have "chars_count (concat (map ?f (take k ?e))) = sum_list (map (\<lambda>w. w + 2) (take k ws))" if "k \<le> j" for k
    using that
  proof (induction k)
    case (Suc k)
    have t: "take (Suc k) ?e = take k ?e @ [(k, cells ! k)]" "take (Suc k) ws = take k ws @ [ws ! k]"
      using Suc.prems assms(1,2) by (simp_all add: take_Suc_conv_app_nth nth_enumerate_eq)
    have "k \<noteq> length cells - 1" "k < length ws" "k < length cells" using Suc.prems assms(1,2) by linarith+
    then have "chars_count (?f (k, cells ! k)) = ws ! k + 2" using padded_count [of k ws "cells ! k"] assms(3) by simp
    then show ?case unfolding t map_append concat_append chars_count_append using Suc by simp
  qed simp
  then have "chars_count ?before = sum_list (map (\<lambda>w. w + 2) (take j ws))" by blast
  moreover have "push_row cells ws = ?before @ cells ! j @ (more @ concat (map ?f (drop (Suc j) ?e)) @ [chr 10])"
    unfolding row more by simp
  ultimately show ?thesis by blast
qed

text \<open>
  The columns of every table line up: in the header and in each row, however long or foreign the
  names in it are, the text before a cell is as many characters wide as the columns before it with
  their gaps; and no cell is wider than the limit.
\<close>

theorem columns_line_up:
  assumes "truncated = map (map (\<lambda>c. truncate c MAX_CELL)) rows" "row = headers \<or> row \<in> set truncated"
    and "j < length row" "j \<le> length headers"
  shows "\<exists>before rest. push_row row (column_widths headers truncated) = before @ row ! j @ rest
    \<and> chars_count before = sum_list (map (\<lambda>w. w + 2) (take j (column_widths headers truncated)))"
    and "row \<in> set truncated \<longrightarrow> chars_count (row ! j) \<le> MAX_CELL"
proof -
  let ?ws = "column_widths headers truncated"
  have "\<forall>i < length ?ws. i < length row \<longrightarrow> chars_count (row ! i) \<le> ?ws ! i"
    using assms(2) widened_ge [of _ "map chars_count headers" truncated] by (auto simp: column_widths_def)
  then show "\<exists>before rest. push_row row ?ws = before @ row ! j @ rest
    \<and> chars_count before = sum_list (map (\<lambda>w. w + 2) (take j ?ws))"
    using push_row_at [of j row ?ws] assms(3,4) by (simp add: column_widths_def)
  show "row \<in> set truncated \<longrightarrow> chars_count (row ! j) \<le> MAX_CELL"
    using assms(1,3) truncate_fits [of MAX_CELL] by (auto simp: MAX_CELL_def)
qed

theorem columns_line_up_witness:
  "\<exists>before rest. push_row [''Kit'', ''x''] (column_widths [''A'', ''B''] [[''Kit'', ''x'']]) = before @ ''x'' @ rest \<and> chars_count before = 5"
proof -
  have t: "[[''Kit'', ''x'']] = map (map (\<lambda>c. truncate c MAX_CELL)) [[''Kit'', ''x'']]" by code_simp
  have w: "sum_list (map (\<lambda>w. w + 2) (take 1 (column_widths [''A'', ''B''] [[''Kit'', ''x'']]))) = 5" by code_simp
  show ?thesis using columns_line_up(1) [OF t, of "[''Kit'', ''x'']" "[''A'', ''B'']" 1] w by simp
qed

text \<open>An age is never shown as none of its unit: the number in it is at least one.\<close>

lemma ago_units:
  "n \<ge> 90 \<Longrightarrow> 1 \<le> n div (60::nat)" "n \<ge> 5400 \<Longrightarrow> 1 \<le> n div (3600::nat)" "n \<ge> 172800 \<Longrightarrow> 2 \<le> n div (86400::nat)"
  by linarith+

text \<open>Everybody who is home is listed before everybody who is not.\<close>

lemma home_first:
  "sorted (map (\<lambda>p. pw_state p \<noteq> ''home'') (by_presence lowercase people)) \<and> set (by_presence lowercase people) = set people"
  by (simp add: by_presence_def)

end
