(* ===== verification/Cli.thy ===== *)
theory Cli
  imports Cli_Table Schema Runtime Unifi
begin

text \<open>
  \<^verbatim>\<open>src/cli/mod.rs\<close>: the commands that read the database and print one table, the dry run of the
  nightly jobs, the download of a fingerprint table, and the overrides the flags imply. Each command is
  a function from what it reads to what it prints or why it refuses. \<open>stats\<close>, whose lines need dates,
  floats and the size of relations, is left out.
\<close>

subsection \<open>Arguments\<close>

record override =
  ov_key :: string
  ov_value :: json

record run_args =
  ra_interface :: "string list"
  ra_learn :: bool
  ra_learn_duration :: "string option"
  ra_no_table :: bool
  ra_no_notify :: bool

datatype command =
    Run run_args
  | Devices "string option"
  | Events int bool
  | People
  | Stats
  | Migrate
  | Maintain bool
  | UpdateFingerprints "string option" "string option" bool

definition overrides :: "string option \<Rightarrow> command \<Rightarrow> override list" where
  "overrides database_url command =
     (case database_url of Some url \<Rightarrow> [\<lparr>ov_key = ''database.url'', ov_value = JStr url\<rparr>] | None \<Rightarrow> [])
     @ (case command of
          Run args \<Rightarrow>
            (if ra_interface args \<noteq> []
             then [\<lparr>ov_key = ''capture.interfaces'', ov_value = JArr (map JStr (ra_interface args))\<rparr>] else [])
            @ (case ra_learn_duration args of
                 Some d \<Rightarrow> [\<lparr>ov_key = ''learning.duration'', ov_value = JStr d\<rparr>] | None \<Rightarrow> [])
            @ (if ra_no_notify args then [\<lparr>ov_key = ''notify.enabled'', ov_value = JBool False\<rparr>] else [])
        | _ \<Rightarrow> [])"

record run_options =
  ro_learn :: bool
  ro_no_table :: bool

definition run_options_of :: "run_args \<Rightarrow> run_options" where
  "run_options_of args = \<lparr>ro_learn = ra_learn args, ro_no_table = ra_no_table args\<rparr>"

subsection \<open>Commands that print a table\<close>

datatype cli_error = BadState string | BadLimit | SchemaRefused schema_error | Unreadable

definition line :: "string \<Rightarrow> string" where "line s = s @ [chr 10]"

definition bad_state :: "string option \<Rightarrow> string option" where
  "bad_state state =
     (case state of Some s \<Rightarrow> if s \<in> {''online'', ''idle'', ''offline''} then None else Some s | None \<Rightarrow> None)"

definition devices :: "catalog \<Rightarrow> tables \<Rightarrow> string option \<Rightarrow> time \<Rightarrow> cli_error + string" where
  "devices cat d state now =
     (case bad_state state of
        Some s \<Rightarrow> Inl (BadState s)
      | None \<Rightarrow>
          (case require_schema cat of
             Inl e \<Rightarrow> Inl (SchemaRefused e)
           | Inr _ \<Rightarrow>
               (case load_devices d of
                  None \<Rightarrow> Inl Unreadable
                | Some all \<Rightarrow>
                    (let records = (case state of Some s \<Rightarrow> filter (\<lambda>r. device_state_str (dr_state r) = s) all | None \<Rightarrow> all) in
                     Inr (if records = [] then line ''No devices recorded yet.'' else device_record_table records now)))))"

definition events :: "(json \<Rightarrow> string) \<Rightarrow> catalog \<Rightarrow> tables \<Rightarrow> int \<Rightarrow> bool \<Rightarrow> time \<Rightarrow> cli_error + string" where
  "events show_json cat d limit security now =
     (if limit \<le> 0 then Inl BadLimit
      else case require_schema cat of
        Inl e \<Rightarrow> Inl (SchemaRefused e)
      | Inr _ \<Rightarrow>
          (let records = (if security then recent_security_events d (nat limit) else recent_events d (nat limit)) in
           Inr (if records = []
                then line (if security then ''No security events recorded yet.'' else ''No events recorded yet.'')
                else event_table show_json records now)))"

definition people_command ::
  "(string \<Rightarrow> string) \<Rightarrow> (string \<Rightarrow> string \<Rightarrow> bool) \<Rightarrow> catalog \<Rightarrow> tables \<Rightarrow> time \<Rightarrow> cli_error + string"
where
  "people_command lowercase before cat d now =
     (case require_schema cat of
        Inl e \<Rightarrow> Inl (SchemaRefused e)
      | Inr _ \<Rightarrow>
          (let rows = load_people before d in
           Inr (if rows = []
                then line (''Nobody is tracked yet. Add a [[people]] block to netgrasp.toml, or let the ''
                           @ ''Trovato plugin fill ng_devices.owner_item_id.'')
                else people_table lowercase rows now)))"

definition plural :: "nat \<Rightarrow> string \<Rightarrow> string" where
  "plural n noun = (if n = 1 then ''1 '' @ noun else show_nat n @ '' '' @ noun @ ''s'')"

subsection \<open>The dry run of the nightly jobs\<close>

text \<open>The three counting queries, from their SQL.\<close>

record dry_run =
  dy_presence :: nat
  dy_location :: nat
  dy_events :: nat

definition maintain_dry_run :: "tables \<Rightarrow> maintenance_config \<Rightarrow> time \<Rightarrow> dry_run" where
  "maintain_dry_run d config now =
     (let rollup_before = cutoff now (ma_rollup_after_days config);
          events_before = cutoff now (ma_event_retention_days config) in
      \<lparr>dy_presence = length (filter (\<lambda>r. pr_is_summary r = False \<and> pr_ended_at r \<noteq> None \<and> pr_started_at r < rollup_before)
                       (tb_presence d)),
       dy_location = length (filter (\<lambda>r. lo_is_summary r = False \<and> lo_ended_at r \<noteq> None \<and> lo_started_at r < rollup_before)
                       (tb_locations d)),
       dy_events = length (filter (\<lambda>r. er_timestamp r < events_before) (tb_events d))\<rparr>)"

text \<open>The command changes nothing on a dry run, and otherwise runs the jobs.\<close>

definition maintain ::
  "catalog \<Rightarrow> nat option \<Rightarrow> tables \<Rightarrow> maintenance_config \<Rightarrow> bool \<Rightarrow> time \<Rightarrow> tables \<times> (cli_error + dry_run + report)"
where
  "maintain cat fault d config dry now =
     (case require_schema cat of
        Inl e \<Rightarrow> (d, Inl (SchemaRefused e))
      | Inr _ \<Rightarrow>
          if dry then (d, Inr (Inl (maintain_dry_run d config now)))
          else (case run fault d config now of
                  (d1, None) \<Rightarrow> (d1, Inl Unreadable) | (d1, Some r) \<Rightarrow> (d1, Inr (Inr r))))"

subsection \<open>A fresh fingerprint table\<close>

datatype update_error =
    NoUrl
  | Unreached string
  | BadStatus nat
  | BodyUnreadable
  | NotATable fingerprint_error
  | NotWritten

text \<open>The directory cannot be made, or the write is cut off after so many bytes.\<close>

datatype file_fault = DirectoryRefused | WriteCut nat

definition nonblank :: "string option \<Rightarrow> string option" where
  "nonblank v = (case v of Some u \<Rightarrow> if trim u = [] then None else Some u | None \<Rightarrow> None)"

definition update_url :: "identity_config \<Rightarrow> string option \<Rightarrow> string option" where
  "update_url cfg url =
     (case nonblank url of Some u \<Rightarrow> Some u | None \<Rightarrow> nonblank (Some (id_fingerprint_url cfg)))"

definition update_path :: "identity_config \<Rightarrow> string option \<Rightarrow> string" where
  "update_path cfg output = (case output of Some p \<Rightarrow> p | None \<Rightarrow> id_fingerprint_path cfg)"

text \<open>The server answers with a status and a body, the latter \<open>None\<close> when it cannot be read to its end.\<close>

definition update_fingerprints ::
  "identity_config \<Rightarrow> string option \<Rightarrow> string option \<Rightarrow> bool \<Rightarrow> (string \<Rightarrow> (nat \<times> string option) option)
     \<Rightarrow> file_fault option \<Rightarrow> (string \<rightharpoonup> string) \<Rightarrow> (string \<rightharpoonup> string) \<times> (update_error + unit)"
where
  "update_fingerprints cfg url output dry fetch fault files =
     (case update_url cfg url of
        None \<Rightarrow> (files, Inl NoUrl)
      | Some u \<Rightarrow>
          (case fetch u of
             None \<Rightarrow> (files, Inl (Unreached u))
           | Some (s, body) \<Rightarrow>
               if \<not> is_success s then (files, Inl (BadStatus s))
               else case body of
                 None \<Rightarrow> (files, Inl BodyUnreadable)
               | Some downloaded \<Rightarrow>
                   (case parse_fingerprints downloaded of
                      Inl e \<Rightarrow> (files, Inl (NotATable e))
                    | Inr _ \<Rightarrow>
                        if dry then (files, Inr ())
                        else case fault of
                          Some DirectoryRefused \<Rightarrow> (files, Inl NotWritten)
                        | Some (WriteCut n) \<Rightarrow> (files(update_path cfg output \<mapsto> take n downloaded), Inl NotWritten)
                        | None \<Rightarrow> (files(update_path cfg output \<mapsto> downloaded), Inr ()))))"

subsection \<open>Properties\<close>

text \<open>
  C29: The dry run tells the truth: on well formed tables its three numbers are those the run itself
  reports, and the dry run leaves the tables alone.
\<close>

theorem dry_run_tells_the_truth:
  assumes "tables_ok d" "run None d config now = (d1, Some r)" "require_schema cat = Inr ()"
  shows "maintain cat fault d config True now = (d, Inr (Inl
    \<lparr>dy_presence = rp_presence_compacted r, dy_location = rp_location_compacted r, dy_events = rp_events_pruned r\<rparr>))"
proof -
  let ?before = "cutoff now (ma_rollup_after_days config)"
  have ids: "numbered pr_id (tb_presence_seq d) (tb_presence d)" "numbered lo_id (tb_location_seq d) (tb_locations d)"
    using assms(1) by (simp_all add: tables_ok_def)
  obtain d2 n where p: "roll_up_presence d ?before = (d2, length (filter (presence_victim ?before) (tb_presence d)), n)"
    and d2: "tb_locations d2 = tb_locations d" "tb_location_seq d2 = tb_location_seq d" "tb_events d2 = tb_events d"
    using roll_up_presence_eq [OF ids(1), of ?before] by (simp add: Let_def)
  obtain d3 m where l: "roll_up_location_history d2 ?before = (d3, length (filter (location_victim ?before) (tb_locations d)), m)"
    and d3: "tb_events d3 = tb_events d"
    using roll_up_location_eq [of d2 ?before] ids(2) d2 by (simp add: Let_def)
  have "rp_presence_compacted r = length (filter (presence_victim ?before) (tb_presence d))"
    "rp_location_compacted r = length (filter (location_victim ?before) (tb_locations d))"
    "rp_events_pruned r = length (filter (\<lambda>x. er_timestamp x < cutoff now (ma_event_retention_days config)) (tb_events d))"
    using assms(2) by (auto simp: run_def Let_def p l d3 prune_events_def length_removed split: prod.splits if_splits)
  then show ?thesis
    using assms(3) by (simp add: maintain_def maintain_dry_run_def presence_victim_def [abs_def] location_victim_def [abs_def] Let_def)
qed

definition served :: catalog where
  "served = fst (migrate_command documented_runner fresh_catalog)"

lemma served_is_readable: "require_schema served = Inr ()"
  by code_simp

theorem dry_run_tells_the_truth_witness:
  "snd (maintain served None sample_tables default_maintenance True 99999999999999999)
     = Inr (Inl \<lparr>dy_presence = 2, dy_location = 0, dy_events = 0\<rparr>)"
proof -
  let ?run = "run None sample_tables default_maintenance 99999999999999999"
  have n: "map_option (\<lambda>r. (rp_presence_compacted r, rp_location_compacted r, rp_events_pruned r)) (snd ?run) = Some (2, 0, 0)"
    by code_simp
  then obtain r where r: "snd ?run = Some r"
    "rp_presence_compacted r = 2" "rp_location_compacted r = 0" "rp_events_pruned r = 0" by auto
  have "?run = (fst ?run, Some r)" using r(1) by (metis prod.collapse)
  from dry_run_tells_the_truth [OF sample_tables_ok this served_is_readable] show ?thesis using r by simp
qed


definition sample_text :: string where
  "sample_text = ''[a]'' @ [chr 10] @ ''fingerprints=1,3''"

lemma sample_text_parses: "\<exists>db. parse_fingerprints sample_text = Inr db"
  unfolding sample_text_def using sample_table by blast


text \<open>
  The check cannot tell a table from its beginning: a download that ends early and still parses replaces
  the longer table it was meant to refresh.
\<close>

lemma truncated_download_is_installed:
  assumes "files ''p'' = Some (sample_text @ tail_part)" "tail_part \<noteq> []"
  shows "fst (update_fingerprints default_identity (Some ''u'') (Some ''p'') False (\<lambda>_. Some (200, Some sample_text)) None files) ''p''
    = Some sample_text"
proof -
  obtain db where db: "parse_fingerprints sample_text = Inr db" using sample_text_parses by blast
  have "trim ''u'' = ''u''" by (rule trim_plain) code_simp
  then show ?thesis by (simp add: update_fingerprints_def update_url_def nonblank_def is_success_def db update_path_def)
qed

text \<open>A filter that matches nothing is answered as if the table were empty.\<close>

lemma empty_filter_denies_the_table:
  assumes "require_schema cat = Inr ()" "load_devices d = Some all" "\<forall>r \<in> set all. dr_state r = Online"
  shows "devices cat d (Some ''idle'') now = Inr (line ''No devices recorded yet.'')"
proof -
  have "filter (\<lambda>r. device_state_str (dr_state r) = ''idle'') all = []"
    using assms(3) by (simp add: filter_empty_conv)
  then show ?thesis using assms(1,2) by (simp add: devices_def bad_state_def)
qed

text \<open>A flag that is not given leaves the layer beneath it alone.\<close>

lemma no_flags_no_overrides:
  "overrides None (Run \<lparr>ra_interface = [], ra_learn = l, ra_learn_duration = None, ra_no_table = t, ra_no_notify = False\<rparr>) = []"
  by (simp add: overrides_def)

end
