(* ===== verification/Daemon_Tasks.thy ===== *)
theory Daemon_Tasks
  imports Ntfy Capture Schema
begin

text \<open>
  \<^verbatim>\<open>src/daemon.rs\<close>, what surrounds the main loop: everything \<open>run\<close> does before its loop in its order, the
  installation of the fingerprint table, and the two tasks that run beside the loop, the notifier and
  the enricher. A task is a function on the list of what its channels and timers gave it; the channels
  themselves are the runtime's.
\<close>

subsection \<open>The fingerprint table\<close>

text \<open>
  \<open>INSTALLED\<close> is written once. A file is absent, there and unreadable, or there with its text; the text
  compiled into the program is an argument, and a program whose own table does not parse panics.
\<close>

type_synonym fingerprint_file = "string option option"

definition from_file :: "string option \<Rightarrow> fingerprint_db option" where
  "from_file content =
     (case content of
        None \<Rightarrow> None
      | Some body \<Rightarrow> (case parse_fingerprints body of Inl e \<Rightarrow> None | Inr db \<Rightarrow> Some db))"

definition embedded :: "string \<Rightarrow> fingerprint_db option" where
  "embedded EMBEDDED = (case parse_fingerprints EMBEDDED of Inl e \<Rightarrow> None | Inr db \<Rightarrow> Some db)"

definition install :: "fingerprint_db option \<Rightarrow> fingerprint_db \<Rightarrow> fingerprint_db option \<times> bool" where
  "install installed db = (case installed of None \<Rightarrow> (Some db, True) | Some old \<Rightarrow> (Some old, False))"

definition installed_table :: "string \<Rightarrow> fingerprint_db option \<Rightarrow> fingerprint_db option" where
  "installed_table EMBEDDED installed = (case installed of Some db \<Rightarrow> Some db | None \<Rightarrow> embedded EMBEDDED)"

text \<open>The outer option of the result is the panic.\<close>

definition install_fingerprints :: "string \<Rightarrow> fingerprint_file \<Rightarrow> fingerprint_db option \<Rightarrow> fingerprint_db option option" where
  "install_fingerprints EMBEDDED file installed =
     do {
       table \<leftarrow> (case file of
           None \<Rightarrow> embedded EMBEDDED
         | Some content \<Rightarrow> (case from_file content of Some t \<Rightarrow> Some t | None \<Rightarrow> embedded EMBEDDED));
       Some (fst (install installed table))
     }"

subsection \<open>Before the loop\<close>

definition orchestrator_from_config :: "enrichment_config \<Rightarrow> nat \<Rightarrow> bool \<Rightarrow> orchestrator option" where
  "orchestrator_from_config cfg now client_builds =
     (if un_enabled (en_unifi cfg)
      then (if client_builds
            then Some (with_enrichers (en_enabled cfg) now
                   [(''unifi'', Some (ue_poll_interval (new_unifi_enricher (en_unifi cfg))))])
            else None)
      else Some (with_enrichers (en_enabled cfg) now []))"

text \<open>
  What the surroundings answer: whether the pool can be built, what the migration library does, whether
  the devices and their signals can be read, whether the statement that ends stale stays and each one
  about a configured person succeed, the interfaces there are, which of them may be captured on, and
  whether an HTTP client can be built.
\<close>

record host =
  ho_connects :: bool
  ho_runner :: runner
  ho_readable :: bool
  ho_closing :: bool
  ho_uuid :: "nat \<Rightarrow> string"
  ho_person_ok :: "string \<Rightarrow> bool"
  ho_before :: "string \<Rightarrow> string \<Rightarrow> bool"
  ho_people_ok :: bool
  ho_devices :: "pcap_device list option"
  ho_permits :: "string \<Rightarrow> bool"
  ho_http_client :: bool

datatype start_error =
    NotConnected
  | SchemaRefused schema_error
  | FingerprintPanic
  | DevicesNotLoaded
  | InterfacesRefused interface_error
  | NothingToCaptureOn
  | CaptureRefused string
  | SourceRefused string
  | EnricherRefused

record started =
  go_world :: world
  go_interfaces :: "string list"
  go_sources :: "pcap_source list"
  go_orchestrator :: orchestrator
  go_location_map :: location_map
  go_fingerprints :: "fingerprint_db option"

text \<open>From the configuration and a restored world to a running daemon; nothing here writes.\<close>

definition open_capture :: "host \<Rightarrow> (string \<Rightarrow> string) \<Rightarrow> config \<Rightarrow> nat \<Rightarrow> fingerprint_db option \<Rightarrow> world \<Rightarrow> start_error + started" where
  "open_capture h lc cfg clock table w =
     (case resolve_interfaces (ho_devices h) (cap_interfaces (c_capture cfg)) of
        Inl e \<Rightarrow> Inl (InterfacesRefused e)
      | Inr [] \<Rightarrow> Inl NothingToCaptureOn
      | Inr (first # rest) \<Rightarrow>
          if \<not> ho_permits h first then Inl (CaptureRefused first)
          else (case build_sources (c_capture cfg) (first # rest) of
            Inl name \<Rightarrow> Inl (SourceRefused name)
          | Inr sources \<Rightarrow>
              (case orchestrator_from_config (c_enrichment cfg) clock (ho_http_client h) of
                 None \<Rightarrow> Inl EnricherRefused
               | Some enrichers \<Rightarrow>
                   Inr \<lparr>go_world = w, go_interfaces = first # rest, go_sources = sources,
                        go_orchestrator = enrichers,
                        go_location_map = from_unifi lc (en_unifi (c_enrichment cfg)),
                        go_fingerprints = table\<rparr>)))"

definition run_start ::
  "host \<Rightarrow> (string \<Rightarrow> string) \<Rightarrow> (string \<Rightarrow> string) \<Rightarrow> string \<Rightarrow> fingerprint_file \<Rightarrow> config \<Rightarrow> bool \<Rightarrow> time \<Rightarrow> nat
     \<Rightarrow> catalog \<times> tables \<Rightarrow> (catalog \<times> tables) \<times> (start_error + started)"
where
  "run_start h lc fold_case EMBEDDED file cfg learn now clock db =
     (if \<not> ho_connects h then (db, Inl NotConnected)
      else case migrate (ho_runner h) (fst db) of
        (c, Inl e) \<Rightarrow> ((c, snd db), Inl (SchemaRefused e))
      | (c, Inr _) \<Rightarrow>
          (case health_check c of
             Inl e \<Rightarrow> ((c, snd db), Inl (SchemaRefused e))
           | Inr _ \<Rightarrow>
          (case preflight c of
             Inl e \<Rightarrow> ((c, snd db), Inl (SchemaRefused e))
           | Inr _ \<Rightarrow>
          (case install_fingerprints EMBEDDED file None of
             None \<Rightarrow> ((c, snd db), Inl FingerprintPanic)
           | Some table \<Rightarrow>
              if \<not> ho_readable h then ((c, snd db), Inl DevicesNotLoaded)
              else (case startup fold_case (ho_uuid h) (ho_person_ok h) (ho_before h) (ho_people_ok h) (ho_closing h)
                           cfg learn now (snd db) of
                 None \<Rightarrow> ((c, snd db), Inl DevicesNotLoaded)
               | Some w \<Rightarrow> ((c, wd_tables w), open_capture h lc cfg clock table w))))))"

subsection \<open>The notifier task\<close>

text \<open>A configuration without a usable topic has no notifier; the daemon runs on without one.\<close>

definition build_notifiers :: "(time \<Rightarrow> string) \<Rightarrow> ntfy_server \<Rightarrow> notify_config \<Rightarrow> notifier list" where
  "build_notifiers fmt srv cfg =
     (case no_ntfy cfg of
        None \<Rightarrow> []
      | Some ntfy \<Rightarrow>
          (case new_ntfy_notifier ntfy of None \<Rightarrow> [] | Some n \<Rightarrow> [(ntfy_send fmt n srv, ntfy_send_batch fmt n srv)]))"

datatype notifier_input =
    ShutdownChanged bool
  | BusReceived recorded_event time
  | BusLagged nat
  | BusClosed
  | DispatchTick time

text \<open>
  One turn of the task's loop: the dispatcher after it, what is handed to the notifiers, and whether
  the task ends.
\<close>

fun notifier_turn :: "dispatcher \<Rightarrow> notifier_input \<Rightarrow> dispatcher \<times> delivery list \<times> bool" where
  "notifier_turn d (ShutdownChanged stopping) =
     (if stopping then (let (d1, ds) = drain d in (d1, ds, True)) else (d, [], False))" |
  "notifier_turn d (BusReceived e now) = (let (d1, ds) = offer d e now in (d1, ds, False))" |
  "notifier_turn d (BusLagged skipped) = (d, [], False)" |
  "notifier_turn d BusClosed = (let (d1, ds) = drain d in (d1, ds, True))" |
  "notifier_turn d (DispatchTick now) = (let (d1, ds) = tick d now in (d1, ds, False))"

text \<open>The task: the dispatcher, the tables, all that was handed on, and whether it has ended.\<close>

fun notifier_task ::
  "(delivery list \<Rightarrow> tables \<Rightarrow> tables) \<Rightarrow> dispatcher \<Rightarrow> tables \<Rightarrow> notifier_input list
     \<Rightarrow> dispatcher \<times> tables \<times> delivery list \<times> bool"
where
  "notifier_task deliver_all d t [] = (d, t, [], False)" |
  "notifier_task deliver_all d t (i # inputs) =
     (case notifier_turn d i of
        (d1, ds, True) \<Rightarrow> (d1, deliver_all ds t, ds, True)
      | (d1, ds, False) \<Rightarrow>
          (case notifier_task deliver_all d1 (deliver_all ds t) inputs of
             (d2, t2, ds2, ended) \<Rightarrow> (d2, t2, ds @ ds2, ended)))"

definition spawn_notifier ::
  "(time \<Rightarrow> string) \<Rightarrow> ntfy_server \<Rightarrow> (delivery \<Rightarrow> bool) \<Rightarrow> (int \<Rightarrow> bool) \<Rightarrow> config \<Rightarrow> int \<Rightarrow> tables \<Rightarrow> notifier_input list
     \<Rightarrow> dispatcher \<times> tables \<times> delivery list \<times> bool"
where
  "spawn_notifier fmt srv up mark_ok cfg offset t inputs =
     notifier_task (send_all (build_notifiers fmt srv (c_notify cfg)) up mark_ok)
       (new_dispatcher (c_notify cfg) (sc_notifications (c_security cfg)) offset) t inputs"

subsection \<open>The enricher task\<close>

text \<open>
  Each device list taken from the channel is a round at an instant; \<open>takes\<close> says whether the loop still
  takes the answer. The task ends when its input does, or with the first answer not taken.
\<close>

type_synonym enriched = "enrichment list \<times> (string \<times> u64 \<times> u64) list"

fun enricher_task :: "(nat \<Rightarrow> string \<Rightarrow> answer) \<Rightarrow> orchestrator \<Rightarrow> (nat \<times> bool) list \<Rightarrow> enriched list" where
  "enricher_task replies oc [] = []" |
  "enricher_task replies oc ((now, takes) # rounds) =
     (let (oc1, enrichments) = poll_due (replies now) now oc in
      if takes then (enrichments, counters oc1) # enricher_task replies oc1 rounds else [])"

subsection \<open>What is ready when the loop begins\<close>

lemma run_start_cases:
  assumes "run_start h lc fold_case EMBEDDED file cfg learn now clock db = (db1, r)"
  shows "snd db1 = snd db \<and> (\<forall>go. r \<noteq> Inr go)
    \<or> (\<exists>w table. conforms (fst db1) \<and> wd_tables w = snd db1
         \<and> startup fold_case (ho_uuid h) (ho_person_ok h) (ho_before h) (ho_people_ok h) (ho_closing h) cfg learn now (snd db) = Some w
         \<and> install_fingerprints EMBEDDED file None = Some table
         \<and> r = open_capture h lc cfg clock table w)"
  using assms
  by (auto simp: run_start_def preflight_iff split: if_splits prod.splits sum.splits option.splits)

lemma open_capture_ready:
  assumes "open_capture h lc cfg clock table w = Inr go"
  shows "go_world go = w \<and> go_fingerprints go = table
    \<and> go_interfaces go \<noteq> [] \<and> ho_permits h (hd (go_interfaces go))
    \<and> map ps_name (go_sources go) = cap_sources (c_capture cfg)
    \<and> (\<forall>src \<in> set (go_sources go). (ps_name src, ps_filter src, ps_parser src) \<in> set SOURCES
         \<and> ps_interfaces src = go_interfaces go)"
proof -
  obtain first rest where i: "resolve_interfaces (ho_devices h) (cap_interfaces (c_capture cfg)) = Inr (first # rest)"
    and permitted: "ho_permits h first"
    using assms by (auto simp: open_capture_def split: sum.splits list.splits if_splits)
  then obtain sources where "build_sources (c_capture cfg) (first # rest) = Inr sources"
    "go_world go = w" "go_fingerprints go = table" "go_interfaces go = first # rest" "go_sources go = sources"
    using assms by (auto simp: open_capture_def split: sum.splits option.splits)
  then show ?thesis
    using build_from_cases [where cfg = "c_capture cfg" and interfaces = "first # rest" and names = "cap_sources (c_capture cfg)"]
      permitted by (simp add: build_sources_def)
qed

lemma fingerprints_always_usable:
  assumes "embedded EMBEDDED = Some own"
  shows "\<exists>table. install_fingerprints EMBEDDED file None = Some (Some table)
    \<and> installed_table EMBEDDED (Some table) = Some table
    \<and> (table = own \<or> (\<exists>body. file = Some (Some body) \<and> parse_fingerprints body = Inr table))"
  using assms
  by (auto simp: install_fingerprints_def install_def installed_table_def from_file_def split: option.split sum.split)


definition sample_host :: host where
  "sample_host =
     \<lparr>ho_connects = True, ho_runner = documented_runner, ho_readable = True, ho_closing = True, ho_uuid = (\<lambda>_. []),
      ho_person_ok = (\<lambda>_. True), ho_before = (\<lambda>_ _. False), ho_people_ok = True,
      ho_devices = Some [\<lparr>pd_name = ''lo'', pd_loopback = True, pd_up = True, pd_addressed = True\<rparr>,
                        \<lparr>pd_name = ''eth0'', pd_loopback = False, pd_up = True, pd_addressed = True\<rparr>],
      ho_permits = (\<lambda>name. name = ''eth0''), ho_http_client = True\<rparr>"

definition one_class :: string where
  "one_class = ''[a]'' @ [chr 10] @ ''fingerprints=1,3''"

lemma sample_host_answers:
  "ho_connects sample_host" "ho_runner sample_host = documented_runner" "ho_readable sample_host" "ho_closing sample_host"
  "ho_uuid sample_host = (\<lambda>_. [])" "ho_person_ok sample_host = (\<lambda>_. True)"
  "ho_before sample_host = (\<lambda>_ _. False)" "ho_people_ok sample_host"
  by (simp_all add: sample_host_def)

lemma one_class_parses: "\<exists>own. embedded one_class = Some own"
  using sample_table by (auto simp: embedded_def one_class_def)


subsection \<open>What the notifier leaves behind\<close>

text \<open>The dispatcher's operations that a task's inputs amount to; nothing is done after the end.\<close>

fun turn_ops :: "notifier_input \<Rightarrow> dispatch_op list" where
  "turn_ops (ShutdownChanged stopping) = (if stopping then [Drain] else [])" |
  "turn_ops (BusReceived e now) = [Offer e now]" |
  "turn_ops (BusLagged skipped) = []" |
  "turn_ops BusClosed = [Drain]" |
  "turn_ops (DispatchTick now) = [Tick now]"

definition ends_notifier :: "notifier_input \<Rightarrow> bool" where
  "ends_notifier i \<longleftrightarrow> i = ShutdownChanged True \<or> i = BusClosed"

fun notifier_ops :: "notifier_input list \<Rightarrow> dispatch_op list" where
  "notifier_ops [] = []" |
  "notifier_ops (i # inputs) = turn_ops i @ (if ends_notifier i then [] else notifier_ops inputs)"

lemma notifier_turn_refines:
  "notifier_turn d i = (d1, ds, ended)
     \<Longrightarrow> machine_run dispatch_step d (turn_ops i) = (d1, ds) \<and> ended = ends_notifier i \<and> (ended \<longrightarrow> dp_pending d1 = [])"
  by (cases i) (auto simp: ends_notifier_def case_prod_beta Let_def split: if_splits)

lemma send_all_append: "send_all ns up mark_ok (ds @ ds') d = send_all ns up mark_ok ds' (send_all ns up mark_ok ds d)"
  by (simp add: send_all_def)

lemma send_all_Nil [simp]: "send_all ns up mark_ok [] d = d"
  by (simp add: send_all_def)

lemma notifier_task_refines:
  "notifier_task (send_all ns up mark_ok) d t inputs = (d1, t1, ds, ended)
     \<Longrightarrow> machine_run dispatch_step d (notifier_ops inputs) = (d1, ds) \<and> t1 = send_all ns up mark_ok ds t
       \<and> (ended \<longleftrightarrow> list_ex ends_notifier inputs) \<and> (ended \<longrightarrow> dp_pending d1 = [])"
proof (induction inputs arbitrary: d t d1 t1 ds ended)
  case (Cons i inputs)
  obtain d2 ds2 e where turn: "notifier_turn d i = (d2, ds2, e)" by (rule prod_cases3)
  note one = notifier_turn_refines [OF turn]
  show ?case
  proof (cases e)
    case True
    then show ?thesis using Cons.prems one by (auto simp: turn)
  next
    case False
    obtain d3 t3 ds3 e3 where later: "notifier_task (send_all ns up mark_ok) d2 (send_all ns up mark_ok ds2 t) inputs = (d3, t3, ds3, e3)"
      by (rule prod_cases4)
    show ?thesis
      using Cons.prems Cons.IH [OF later] one False
      by (auto simp: turn later machine_run_append send_all_append)
  qed
qed simp

text \<open>
  C13: A notifier that is told to stop, or whose bus closes, stops, with nothing held back: every event it
  took from the bus was handed to the notifiers exactly once or counted as suppressed, and the rows it
  marked are those of handing on just these.
\<close>

theorem notifier_stops_empty_handed:
  assumes "list_ex ends_notifier inputs"
    and "spawn_notifier fmt srv up mark_ok cfg offset t inputs = (d, t1, ds, ended)"
    and "start = new_dispatcher (c_notify cfg) (sc_notifications (c_security cfg)) offset"
  shows "ended \<and> dp_pending d = []
    \<and> mset (sent ds) = mset (admitted start (notifier_ops inputs))
    \<and> suppressed_total (dp_suppressed d) + length (sent ds) = length (offered (notifier_ops inputs))
    \<and> t1 = send_all (build_notifiers fmt srv (c_notify cfg)) up mark_ok ds t"
proof -
  have task: "machine_run dispatch_step start (notifier_ops inputs) = (d, ds)"
    "t1 = send_all (build_notifiers fmt srv (c_notify cfg)) up mark_ok ds t" "ended" "dp_pending d = []"
    using notifier_task_refines [OF assms(2) [unfolded spawn_notifier_def]] assms(1,3) by simp_all
  note kept = run_conserves [of start "notifier_ops inputs"]
  have "dp_pending start = []" and none: "suppressed_total (dp_suppressed start) = 0"
    by (simp_all add: assms(3) new_dispatcher_def suppressed_total_def no_suppression_def)
  with kept task have m: "mset (sent ds) = mset (admitted start (notifier_ops inputs))" by simp
  have "suppressed_total (dp_suppressed d) + length (sent ds) = length (offered (notifier_ops inputs))"
    using kept task none mset_eq_length [OF m] by simp
  then show ?thesis using task m by simp
qed

theorem notifier_stops_empty_handed_witness:
  "case spawn_notifier (\<lambda>t. []) (\<lambda>po. None) (\<lambda>dl. True) (\<lambda>i. True) default_config 0 empty_tables
      [BusReceived (sample_event NewDevice) 5, ShutdownChanged False, BusLagged 2, ShutdownChanged True, BusClosed] of
     (d, t1, ds, ended) \<Rightarrow> ended \<and> dp_pending d = [] \<and> t1 = empty_tables \<and> suppressed_total (dp_suppressed d) + length (sent ds) = 1"
proof -
  let ?in = "[BusReceived (sample_event NewDevice) 5, ShutdownChanged False, BusLagged 2, ShutdownChanged True, BusClosed]"
  have stop: "list_ex ends_notifier ?in" by (simp add: ends_notifier_def)
  obtain d t1 ds ended where r:
    "spawn_notifier (\<lambda>t. []) (\<lambda>po. None) (\<lambda>dl. True) (\<lambda>i. True) default_config 0 empty_tables ?in = (d, t1, ds, ended)"
    by (rule prod_cases4)
  note kept = notifier_stops_empty_handed [OF stop r refl]
  have "send_all [] up mark_ok ds empty_tables = empty_tables" for up mark_ok
    by (induction ds) (simp_all add: send_all_def send_one_def)
  moreover have "build_notifiers fmt srv (c_notify default_config) = []" for fmt srv
    by (simp add: build_notifiers_def default_config_def default_notify_def)
  ultimately have "t1 = empty_tables" using kept by simp
  moreover have "length (offered (notifier_ops ?in)) = 1" by (simp add: ends_notifier_def)
  ultimately show ?thesis unfolding r using kept by simp
qed

text \<open>What is still on the bus when the notifier is told to stop is not offered.\<close>

lemma queued_at_shutdown_is_not_offered:
  "notifier_task send d t (ShutdownChanged True # inputs) = notifier_task send d t [ShutdownChanged True]"
  by (simp add: case_prod_beta Let_def)

end
