(* ===== verification/Restart.thy ===== *)
theory Restart
  imports Daemon_Invariant
begin

text \<open>
  What survives a restart. The program ends with a flush and begins by reading its devices back; in
  between, the only memory is the database. \<open>lifetime\<close> are the worlds a daemon can be in over any number
  of runs, as long as its database takes what it is sent: in each of them the tables show the table of
  devices, every device that is not waiting for a flush is stored as it is, and so a daemon that is
  stopped and started again finds every device, session and stay where it left them.
\<close>

subsection \<open>What a row keeps of its device\<close>

definition row_states :: "tables \<Rightarrow> (string \<times> string \<times> string option) set" where
  "row_states d = (\<lambda>r. (rw_mac r, rw_state r, rw_current_ap r)) ` set (tb_devices d)"

text \<open>Where an offline device was last does not matter: it is read back as nowhere.\<close>

definition stored_as :: "tables \<Rightarrow> mac_addr \<Rightarrow> entry \<Rightarrow> bool" where
  "stored_as d mac e \<longleftrightarrow>
     (\<exists>ap. (show_mac mac, device_state_str (dv_state e), ap) \<in> row_states d \<and> (dv_state e = Offline \<or> ap = dv_current_ap e))"

definition saved :: "world \<Rightarrow> bool" where
  "saved w \<longleftrightarrow> (\<forall>mac e. device (wd_manager w) mac = Some e \<longrightarrow> dv_dirty e \<or> stored_as (wd_tables w) mac e)"

definition all_saved :: "world \<Rightarrow> bool" where
  "all_saved w \<longleftrightarrow> (\<forall>mac e. device (wd_manager w) mac = Some e \<longrightarrow> stored_as (wd_tables w) mac e)"

text \<open>An operation of the table changes what a row keeps only for entries it marks.\<close>

definition marks :: "manager \<Rightarrow> manager \<Rightarrow> bool" where
  "marks m m' \<longleftrightarrow> (\<forall>mac e'. device m' mac = Some e' \<longrightarrow> dv_dirty e'
     \<or> (\<exists>e. device m mac = Some e \<and> \<not> dv_dirty e \<and> dv_state e = dv_state e' \<and> dv_current_ap e = dv_current_ap e'))"

lemma marks_refl: "mg_devices m' = mg_devices m \<Longrightarrow> marks m m'"
  by (simp add: marks_def device_def)

lemma marks_trans: "marks m1 m2 \<Longrightarrow> marks m2 m3 \<Longrightarrow> marks m1 m3"
  unfolding marks_def by metis

lemma marks_put:
  "dv_dirty e' \<or> (\<exists>e. device m mac = Some e \<and> \<not> dv_dirty e \<and> dv_state e = dv_state e' \<and> dv_current_ap e = dv_current_ap e')
     \<Longrightarrow> marks m (put_device m mac e')"
  unfolding marks_def by auto

lemma marks_cong: "mg_devices m1 = mg_devices m2 \<Longrightarrow> marks m m1 = marks m m2"
  by (simp add: marks_def device_def)

lemma marks_from: "mg_devices m1 = mg_devices m2 \<Longrightarrow> marks m1 m = marks m2 m"
  by (simp add: marks_def device_def)

lemma dirty_frames [simp]:
  "dv_dirty (fst (record_signals e ss)) = dv_dirty e"
  "dv_dirty (fst (rescore e now)) = dv_dirty e"
  "dv_dirty (fst (reclassify db e now)) = dv_dirty e"
  "dv_dirty (record_ipv6 e a) = dv_dirty e"
  "dv_dirty (fst (step_presence learning obs e)) = dv_dirty e"
  "dv_dirty (fst (step_ipv4 learning obs ip e)) = dv_dirty e"
  by (simp_all add: record_signals_def rescore_def reclassify_def record_ipv6_def step_presence_def step_ipv4_def
      Let_def case_prod_beta split: verdict.split device_state.split option.split)

lemma observe_entry_dirty:
  assumes "observe_entry db learning obs mine effects e = (e', es, changes)"
  shows "dv_dirty e'"
proof -
  have address: "dv_dirty (fst (step_address learning obs e)) = dv_dirty e" for e
    by (simp add: step_address_def Let_def case_prod_beta split: option.split ip_addr.split)
  have evidence: "dv_dirty (fst (step_evidence learning obs mine effects e)) = dv_dirty e" for effects e
    by (simp add: step_evidence_def Let_def case_prod_beta)
  have "e' = fst (observe_entry db learning obs mine effects e)" using assms by simp
  then show ?thesis
    by (simp add: observe_entry_def Let_def case_prod_beta address evidence) (simp add: note_sighting_def)
qed

lemma add_signal_marks: "marks m (fst (add_signal db m mac s now))"
proof (cases "trim (sig_value s) = [] \<or> device m mac = None")
  case True
  then show ?thesis by (auto simp: add_signal_def marks_refl)
next
  case False
  then obtain e where e: "device m mac = Some e" by auto
  let ?e1 = "(fst (record_signals e [s]))\<lparr>dv_dirty := True\<rparr>"
  let ?r = "if snd (record_signals e [s]) then rescore ?e1 now else (?e1, None)"
  have "marks m (put_device m mac (fst (reclassify db (fst ?r) now)))" by (rule marks_put) simp
  then show ?thesis using False e
    by (subst (asm) marks_cong [of _ "fst (add_signal db m mac s now)"])
      (simp_all add: add_signal_def Let_def case_prod_beta)
qed

lemma add_others_marks: "marks m (fst (add_others db m others now))"
proof (induction others arbitrary: m)
  case (Cons x rest)
  obtain mac s where x: "x = (mac, s)" by force
  show ?case using marks_trans [OF add_signal_marks Cons.IH] by (simp add: x case_prod_beta)
qed (simp add: marks_refl)

lemma observe_marks: "marks m (fst (observe t db m obs))"
proof (cases "is_group (obs_mac obs) \<or> is_zero (obs_mac obs)")
  case True
  then show ?thesis by (auto simp: observe_def marks_refl)
next
  case False
  let ?d = "if device m (obs_mac obs) = None then discover t m obs else (m, [])"
  let ?m2 = "index_address (fst ?d) obs"
  let ?at = "attribute_claims ?m2 obs"
  let ?m3 = "?m2\<lparr>mg_unattributed_claims := mg_unattributed_claims ?m2 + at_unattributed ?at\<rparr>"
  have "marks m (fst ?d)"
    by (auto simp: discover_def Let_def discovered_entry_def marks_refl intro: marks_put)
  moreover have "mg_devices ?m3 = mg_devices (fst ?d)" by simp
  ultimately have d: "marks m ?m3" using marks_cong [of ?m3 "fst ?d" m] by simp
  have "device (fst ?d) (obs_mac obs) \<noteq> None" by (simp add: discover_def Let_def)
  then obtain e where e: "device ?m3 (obs_mac obs) = Some e" by auto
  obtain e1 es changes where r:
    "observe_entry db (mg_learning ?m3) obs (at_mine ?at) (snd ?d) e = (e1, es, changes)"
    by (metis prod_cases3)
  let ?m4 = "(put_device ?m3 (obs_mac obs) e1)\<lparr>mg_reclassifications := mg_reclassifications ?m3 @ changes\<rparr>"
  have "marks ?m3 (put_device ?m3 (obs_mac obs) e1)" by (rule marks_put) (simp add: observe_entry_dirty [OF r])
  then have "marks ?m3 ?m4" using marks_cong [of ?m4 "put_device ?m3 (obs_mac obs) e1"] by simp
  from marks_trans [OF marks_trans [OF d this] add_others_marks]
  have "marks m (fst (add_others db ?m4 (at_others ?at) (obs_at obs)))" .
  moreover have "fst (observe t db m obs) = fst (add_others db ?m4 (at_others ?at) (obs_at obs))"
    using False e r by (simp add: observe_def Let_def case_prod_beta)
  ultimately show ?thesis by simp
qed

lemma set_location_marks: "marks m (fst (set_location m mac place movement tel now))"
  by (auto simp: set_location_def Let_def marks_refl intro: marks_put split: option.split)

lemma sweep_marks: "marks m (fst (Manager.sweep m now))"
proof -
  let ?f = "\<lambda>e. fst (sweep_entry (mg_config m) (mg_learning m) now e)"
  have entry: "dv_dirty (?f e) \<or> ?f e = e" for e
    by (auto simp: sweep_entry_def go_offline_def Let_def split: option.split)
  have swept: "device (fst (Manager.sweep m now)) mac = map_option ?f (device m mac)" for mac
    by (simp add: device_def Manager.sweep_def map_of_map)
  show ?thesis unfolding marks_def
  proof (intro allI impI)
    fix mac e'
    assume "device (fst (Manager.sweep m now)) mac = Some e'"
    then obtain e where e: "device m mac = Some e" "e' = ?f e" unfolding swept by blast
    then show "dv_dirty e' \<or> (\<exists>e. device m mac = Some e \<and> \<not> dv_dirty e \<and> dv_state e = dv_state e' \<and> dv_current_ap e = dv_current_ap e')"
      using entry [of e] by (cases "dv_dirty e'") simp_all
  qed
qed

lemma apply_setting_marks: "marks m (fst (apply_setting (m, changes) setting))"
proof (cases "device m (us_mac setting)")
  case None
  then show ?thesis by (simp add: apply_setting_def marks_refl)
next
  case (Some e)
  have "dv_dirty (fst (foldl (apply_column setting) (e, changes) USER_OWNED_COLUMNS)) = dv_dirty e" for changes
    by (simp add: USER_OWNED_COLUMNS_def apply_column_def apply_display_name_def apply_notify_def)
  then show ?thesis using Some by (auto simp: apply_setting_def case_prod_beta apply_columns_frame intro!: marks_put)
qed

lemma apply_user_settings_marks: "marks m (fst (apply_user_settings m settings))"
proof -
  have "marks m (fst (foldl apply_setting (m, changes) settings))" for changes
  proof (induction settings arbitrary: m changes)
    case (Cons x rest)
    show ?case using marks_trans [OF apply_setting_marks [of m changes x] Cons.IH [of _ "snd (apply_setting (m, changes) x)"]]
      by simp
  qed (simp add: marks_refl)
  then show ?thesis by (simp add: apply_user_settings_def)
qed

subsection \<open>What the loop carries\<close>

text \<open>Nothing but a flush takes a stored state away.\<close>

lemma insert_device_states: "row_states d \<subseteq> row_states (fst (insert_device d new))"
proof (cases "row_of_mac (d\<lparr>tb_device_seq := tb_device_seq d + 1\<rparr>) (show_mac (nd_mac new))")
  case None
  then show ?thesis by (auto simp: insert_device_def Let_def row_states_def)
next
  case (Some r)
  let ?h = "\<lambda>r. if rw_mac r = show_mac (nd_mac new)
    then r\<lparr>rw_last_seen_at := nd_seen_at new, rw_sync_state := ''dirty''\<rparr> else r"
  have same: "rw_mac (?h r) = rw_mac r" "rw_state (?h r) = rw_state r" "rw_current_ap (?h r) = rw_current_ap r" for r by simp_all
  have "tb_devices (fst (insert_device d new)) = map ?h (tb_devices d)"
    using Some by (simp add: insert_device_def Let_def)
  then have "row_states (fst (insert_device d new)) = row_states d"
    unfolding row_states_def by (simp only: set_map image_image same)
  then show ?thesis by simp
qed

lemma row_states_cong: "tb_devices d' = tb_devices d \<Longrightarrow> row_states d' = row_states d"
  by (simp add: row_states_def)

lemma apply_effect_states: "row_states (snd st) \<subseteq> row_states (snd (fst (apply_effect st x)))"
proof -
  obtain ids d where st: "st = (ids, d)" by force
  have "tb_devices (snd (fst (apply_effect (ids, d) x))) = tb_devices d" if "\<forall>s. x \<noteq> Discovered s"
    using that by (cases x) (simp_all add: with_row_def statement_frames case_prod_beta split: option.split)
  moreover have "row_states d \<subseteq> row_states (snd (fst (apply_effect (ids, d) (Discovered s))))" for s
    using insert_device_states by (simp add: case_prod_beta)
  ultimately show ?thesis using row_states_cong unfolding st by (metis order_refl snd_conv)
qed

lemma half_applied_states: "row_states (half_applied ids d x n) = row_states d"
  by (cases x) (simp_all add: row_states_def with_row_def statement_frames split: option.split)

lemma apply_effects_states: "row_states (snd st) \<subseteq> row_states (snd (fst (apply_effects fault st es)))"
proof (induction es arbitrary: st)
  case (Cons x xs)
  have "row_states (snd st) \<subseteq> row_states (snd (fst (apply_effects fault (fst (apply_effect st x)) xs)))"
    using apply_effect_states [of st x] Cons.IH [of "fst (apply_effect st x)"] by (rule order_trans)
  then show ?case
    by (simp add: case_prod_beta half_applied_states del: apply_effect.simps split: option.split)
qed simp

definition carries :: "world \<Rightarrow> world \<Rightarrow> bool" where
  "carries w w' \<longleftrightarrow> row_states (wd_tables w) \<subseteq> row_states (wd_tables w') \<and> marks (wd_manager w) (wd_manager w')"

lemma carries_saved: "carries w w' \<Longrightarrow> saved w \<Longrightarrow> saved w'"
proof -
  assume c: "carries w w'" and s: "saved w"
  show "saved w'" unfolding saved_def
  proof (intro allI impI)
    fix mac e'
    assume "device (wd_manager w') mac = Some e'"
    then consider "dv_dirty e'" | e where "device (wd_manager w) mac = Some e" "\<not> dv_dirty e" "dv_state e = dv_state e'"
        "dv_current_ap e = dv_current_ap e'"
      using c unfolding carries_def marks_def by blast
    then show "dv_dirty e' \<or> stored_as (wd_tables w') mac e'"
    proof cases
      case 2
      then have "stored_as (wd_tables w) mac e" using s unfolding saved_def by blast
      then show ?thesis using c 2(3,4) unfolding carries_def stored_as_def by auto
    qed simp
  qed
qed

lemma carries_refl: "wd_manager w' = wd_manager w \<Longrightarrow> wd_tables w' = wd_tables w \<Longrightarrow> carries w w'"
  by (simp add: carries_def marks_refl)

lemma carries_trans: "carries u v \<Longrightarrow> carries v w \<Longrightarrow> carries u w"
  unfolding carries_def using marks_trans by blast

lemma carries_manager: "marks (wd_manager w) m \<Longrightarrow> carries w (w\<lparr>wd_manager := m\<rparr>)"
  by (simp add: carries_def)

lemma carries_shown: "same_shown w w' \<Longrightarrow> wd_manager w' = wd_manager w \<Longrightarrow> carries w w'"
  by (simp add: carries_def same_shown_def ledger_columns_def marks_refl row_states_def)

lemma carries_fields [simp]:
  "carries w (summarise f v) = carries w v" "carries w (ask_reverse se obs v) = carries w v"
  "carries w (v\<lparr>wd_registry := r\<rparr>) = carries w v" "carries w (v\<lparr>wd_dedup := dd\<rparr>) = carries w v"
  "carries w (v\<lparr>wd_chain := ch\<rparr>) = carries w v" "carries w (v\<lparr>wd_last_maintenance := lm\<rparr>) = carries w v"
  by (simp_all add: carries_def summarise_def ask_reverse_def split: option.split ip_addr.split)

lemma apply_db_carries: "carries w (fst (apply_db l es w))"
  using apply_effects_states [of "(wd_persister w, wd_tables w)" "lk_fault l" es]
  by (auto simp: apply_db_def carries_def marks_refl Let_def case_prod_beta split: sum.split)

lemma record_people_carries: "carries w (fst (record_people l oc w))"
  using record_people_shown [of w l oc] by (simp add: carries_shown)

lemma apply_and_track_carries: "carries w (fst (apply_and_track l es w))"
proof -
  have "carries w ((fst (apply_db l es w))\<lparr>wd_registry := r\<rparr>)" for r by (simp add: apply_db_carries)
  from carries_trans [OF this record_people_carries] show ?thesis
    by (simp add: apply_and_track_def Let_def case_prod_beta apply_db_carries)
qed

lemma record_alerts_carries: "carries w (fst (record_alerts l t alerts w))"
  using record_alerts_shown [of w l t alerts] by (simp add: carries_shown)

lemma feed_reclassifications_carries: "carries w (fst (feed_reclassifications l t cs w))"
proof (induction cs arbitrary: w)
  case (Cons c cs)
  let ?r = "chain_reclassified (wd_chain w) c"
  let ?w = "w\<lparr>wd_chain := snd ?r\<rparr>"
  have "carries w ?w" by (simp add: carries_refl)
  from carries_trans [OF carries_trans [OF this record_alerts_carries] Cons.IH] show ?case
    by (simp add: case_prod_beta Let_def)
qed (simp add: carries_refl)

lemma drain_carries: "carries w (fst (drain_reclassifications l t w))"
proof -
  have "carries w (w\<lparr>wd_manager := fst (take_reclassifications (wd_manager w))\<rparr>)"
    by (rule carries_manager) (simp add: take_reclassifications_def marks_refl)
  from carries_trans [OF this feed_reclassifications_carries] show ?thesis
    by (simp add: drain_reclassifications_def case_prod_beta)
qed

lemma analyze_carries: "carries w (fst (analyze l t obs w))"
proof -
  let ?c = "chain_observe (wd_chain w) obs"
  have "carries w (w\<lparr>wd_chain := snd ?c\<rparr>)" by (simp add: carries_refl)
  from carries_trans [OF carries_trans [OF this record_alerts_carries] drain_carries] show ?thesis
    by (simp add: analyze_def case_prod_beta Let_def)
qed

lemma on_admitted_carries: "carries w (on_admitted se l obs w)"
proof -
  let ?w1 = "ask_reverse se obs (summarise (\<lambda>s. s\<lparr>rs_observations := rs_observations s + 1\<rparr>) w)"
  let ?w2 = "?w1\<lparr>wd_registry := device_seen (wd_registry ?w1) (obs_mac obs) (obs_at obs)\<rparr>"
  have "carries w ?w2" by (simp add: carries_refl)
  from carries_trans [OF carries_trans [OF this carries_manager [OF observe_marks]] apply_and_track_carries]
  show ?thesis by (simp add: on_admitted_def Let_def case_prod_beta)
qed

lemma on_observation_carries: "carries w (on_observation se l obs w)"
proof -
  let ?w = "summarise (count_source (obs_source obs)) w"
  let ?w2 = "?w\<lparr>wd_dedup := fst (admit (se_hash se) (wd_dedup ?w) obs)\<rparr>"
  have "carries w ?w2" by (simp add: carries_refl)
  then have "carries w (if fresh then on_admitted se l obs ?w2 else ?w2)" for fresh
    using carries_trans [OF _ on_admitted_carries] by simp
  from carries_trans [OF this analyze_carries] show ?thesis
    by (simp add: on_observation_def Let_def case_prod_beta)
qed

lemma on_signal_carries: "carries w (on_signal se l mac s now w)"
proof -
  note sent = carries_trans [OF carries_manager [OF add_signal_marks] apply_db_carries]
  have "carries w (summarise f (fst (apply_db l es (w\<lparr>wd_manager := fst (add_signal db (wd_manager w) mac s now)\<rparr>))))"
    for f es db using sent by simp
  from carries_trans [OF this drain_carries] show ?thesis
    by (simp add: on_signal_def Let_def case_prod_beta)
qed

lemma on_sweep_carries: "carries w (on_sweep l now w)"
  using carries_trans [OF carries_manager [OF sweep_marks] apply_and_track_carries]
  by (simp add: on_sweep_def Let_def case_prod_beta)

lemma apply_enrichment_carries: "carries (fst acc) (fst (apply_enrichment l lc aps now e acc))"
proof -
  obtain w ad where acc: "acc = (w, ad)" by force
  note moved = carries_manager [OF set_location_marks, of w]
  have "carries w (fst (apply_db l es (w\<lparr>wd_manager := fst (set_location (wd_manager w) mac place movement tel now)\<rparr>)))"
    for es mac place movement tel by (rule carries_trans [OF moved apply_db_carries])
  then show ?thesis using moved
    by (simp add: acc apply_enrichment_def Let_def case_prod_beta carries_refl split: option.split)
qed

lemma apply_enrichments_carries: "carries w (fst (apply_enrichments l lc aps es now w))"
proof -
  have "carries (fst acc) (fst (fold (apply_enrichment l lc aps now) es acc))" for acc
  proof (induction es arbitrary: acc)
    case (Cons e es)
    show ?case using carries_trans [OF apply_enrichment_carries Cons.IH] by simp
  qed (simp add: carries_refl)
  from this [of "(w, \<lparr>ad_locations = 0, ad_events = 0, ad_outcome = no_outcome\<rparr>)"]
  show ?thesis using carries_trans [OF _ record_people_carries]
    by (simp add: apply_enrichments_def Let_def case_prod_beta)
qed

lemma reconcile_carries: "carries w (reconcile_user_state l dbg before w)"
  using carries_manager [OF apply_user_settings_marks, of w]
  by (simp add: reconcile_user_state_def Let_def case_prod_beta carries_refl split: option.split)

lemma on_maintenance_carries:
  assumes "tables_ok (wd_tables w)"
  shows "carries w (on_maintenance se l now w)"
proof -
  have "tb_devices (fst (run fault (wd_tables w) config now)) = tb_devices (wd_tables w)" for fault config
    using run_keeps_columns [OF assms, of fault config now] by (simp add: ledger_columns_def)
  then show ?thesis
    by (simp add: on_maintenance_def run_maintenance_def carries_def marks_refl row_states_def)
qed

subsection \<open>What a flush stores\<close>

lemma db_ok_row: "db_ok ids d \<Longrightarrow> r \<in> set (tb_devices d) \<Longrightarrow> \<exists>mac. rw_mac r = show_mac mac \<and> ids mac = Some (rw_id r)"
  unfolding db_ok_def by blast

lemma db_ok_has: "db_ok ids d \<Longrightarrow> ids mac = Some i \<Longrightarrow> \<exists>r \<in> set (tb_devices d). rw_id r = i \<and> rw_mac r = show_mac mac"
  unfolding db_ok_def by blast

lemma flush_snapshot_states:
  assumes "db_ok ids d" "ids (sn_mac s) = Some i"
  shows "row_states (fst (flush_snapshot ids None s d))
    = insert (show_mac (sn_mac s), device_state_str (sn_state s), sn_current_ap s)
        {t \<in> row_states d. fst t \<noteq> show_mac (sn_mac s)}"
    and "snd (flush_snapshot ids None s d)" and "db_ok ids (fst (flush_snapshot ids None s d))"
proof -
  let ?u = "update_of_snapshot i s"
  have "rw_id r = i \<longleftrightarrow> rw_mac r = show_mac (sn_mac s)" if "r \<in> set (tb_devices d)" for r
  proof
    assume "rw_id r = i"
    then obtain mac where "rw_mac r = show_mac mac" "ids mac = Some i"
      using db_ok_row [OF assms(1) \<open>r \<in> set (tb_devices d)\<close>] by blast
    then show "rw_mac r = show_mac (sn_mac s)" using db_ok_inject [OF assms(1) _ assms(2)] by blast
  next
    assume "rw_mac r = show_mac (sn_mac s)"
    moreover obtain mac where "rw_mac r = show_mac mac" "ids mac = Some (rw_id r)"
      using db_ok_row [OF assms(1) \<open>r \<in> set (tb_devices d)\<close>] by blast
    ultimately show "rw_id r = i" using assms(2) by simp
  qed
  then have rows: "map (\<lambda>r. if rw_id r = du_id ?u then updated_row ?u r else r) (tb_devices d)
      = map (\<lambda>r. if rw_mac r = show_mac (sn_mac s) then updated_row ?u r else r) (tb_devices d)"
    by (intro map_cong) (simp_all add: update_of_snapshot_def)
  have devices: "tb_devices (fst (flush_snapshot ids None s d))
      = map (\<lambda>r. if rw_mac r = show_mac (sn_mac s) then updated_row ?u r else r) (tb_devices d)"
    using assms(2) rows
    by (simp add: flush_snapshot_def id_for_def Let_def bump_presence_def update_device_def)
  obtain r0 where r0: "r0 \<in> set (tb_devices d)" "rw_mac r0 = show_mac (sn_mac s)"
    using db_ok_has [OF assms] by blast
  show "row_states (fst (flush_snapshot ids None s d))
    = insert (show_mac (sn_mac s), device_state_str (sn_state s), sn_current_ap s)
        {t \<in> row_states d. fst t \<noteq> show_mac (sn_mac s)}"
  proof -
    let ?T = "(show_mac (sn_mac s), device_state_str (sn_state s), sn_current_ap s)"
    let ?triple = "\<lambda>r. (rw_mac r, rw_state r, rw_current_ap r)"
    have "?triple (if rw_mac r = show_mac (sn_mac s) then updated_row ?u r else r)
        = (if rw_mac r = show_mac (sn_mac s) then ?T else ?triple r)" for r
      by (simp add: updated_row_def update_of_snapshot_def)
    then have "row_states (fst (flush_snapshot ids None s d))
        = (\<lambda>r. if rw_mac r = show_mac (sn_mac s) then ?T else ?triple r) ` set (tb_devices d)"
      unfolding row_states_def devices by (simp only: set_map image_image)
    also have "\<dots> = insert ?T {t \<in> row_states d. fst t \<noteq> show_mac (sn_mac s)}"
    proof (intro equalityI subsetI)
      fix t assume "t \<in> (\<lambda>r. if rw_mac r = show_mac (sn_mac s) then ?T else ?triple r) ` set (tb_devices d)"
      then obtain r where "r \<in> set (tb_devices d)" "t = (if rw_mac r = show_mac (sn_mac s) then ?T else ?triple r)" by blast
      then show "t \<in> insert ?T {t \<in> row_states d. fst t \<noteq> show_mac (sn_mac s)}"
        by (cases "rw_mac r = show_mac (sn_mac s)") (auto simp: row_states_def)
    next
      fix t assume "t \<in> insert ?T {t \<in> row_states d. fst t \<noteq> show_mac (sn_mac s)}"
      then consider "t = ?T" | r where "r \<in> set (tb_devices d)" "t = ?triple r" "rw_mac r \<noteq> show_mac (sn_mac s)"
        by (auto simp: row_states_def)
      then show "t \<in> (\<lambda>r. if rw_mac r = show_mac (sn_mac s) then ?T else ?triple r) ` set (tb_devices d)"
        using r0 by cases (auto intro!: image_eqI)
    qed
    finally show ?thesis .
  qed
  show "snd (flush_snapshot ids None s d)"
    using assms(2) by (simp add: flush_snapshot_def id_for_def Let_def)
  have "shows_ledger (ids, fst (flush_snapshot ids None s d)) (ledger_of_db ids d)
      = shows_ledger (ids, d) (ledger_of_db ids d)"
    by (simp add: flush_snapshot_def Let_def update_device_shows bump_presence_shows split: option.split)
  then show "db_ok ids (fst (flush_snapshot ids None s d))"
    using assms(1) by (simp add: shows_ledger_def)
qed

lemma flush_states:
  assumes "db_ok ids d" "\<forall>s \<in> set ss. ids (sn_mac s) \<noteq> None" "distinct (map sn_mac ss)"
  shows "row_states (fst (flush (\<lambda>_. None) ids d ss))
    = (\<lambda>s. (show_mac (sn_mac s), device_state_str (sn_state s), sn_current_ap s)) ` set ss
      \<union> {t \<in> row_states d. fst t \<notin> (\<lambda>s. show_mac (sn_mac s)) ` set ss}"
  using assms
proof (induction ss arbitrary: d)
  case (Cons s ss)
  obtain i where i: "ids (sn_mac s) = Some i" using Cons.prems(2) by auto
  note one = flush_snapshot_states [OF Cons.prems(1) i]
  let ?d = "fst (flush_snapshot ids None s d)"
  have "flush (\<lambda>_. None) ids d (s # ss) = flush (\<lambda>_. None) ids ?d ss"
    using one(2) by (cases "flush_snapshot ids None s d") simp
  moreover have "row_states (fst (flush (\<lambda>_. None) ids ?d ss))
    = (\<lambda>s. (show_mac (sn_mac s), device_state_str (sn_state s), sn_current_ap s)) ` set ss
      \<union> {t \<in> row_states ?d. fst t \<notin> (\<lambda>s. show_mac (sn_mac s)) ` set ss}"
    using Cons.prems by (intro Cons.IH one(3)) simp_all
  ultimately show ?case using Cons.prems(3) unfolding one(1) by auto
qed simp

text \<open>A link on which nothing the daemon sends is lost; people, settings and jobs may still fail.\<close>

definition loses_nothing :: "link \<Rightarrow> bool" where
  "loses_nothing l \<longleftrightarrow> records_effects l \<and> lk_flush_up l \<and> lk_flush_fault l = (\<lambda>_. None)"

lemma snapshot_fields:
  "sn_mac (entry_snapshot e) = dv_mac e" "sn_state (entry_snapshot e) = dv_state e"
  "sn_current_ap (entry_snapshot e) = dv_current_ap e"
  by (simp_all add: entry_snapshot_def)

lemma flush_devices_saves:
  assumes "world_ok w" "saved w" "lk_flush_up l" "lk_flush_fault l = (\<lambda>_. None)"
  shows "all_saved (flush_devices l w)"
proof -
  let ?m = "wd_manager w" and ?d = "wd_tables w" and ?ids = "wd_persister w"
  let ?dirty = "filter (\<lambda>(mac, e). dv_dirty e) (mg_devices ?m)"
  let ?ss = "map (\<lambda>(mac, e). entry_snapshot e) ?dirty"
  have m: "manager_ok ?m" and shown: "shows_ledger (?ids, ?d) (ledger_of ?m)"
    using assms(1) by (simp_all add: world_ok_def)
  have db: "db_ok ?ids ?d" and known: "dom ?ids = {mac. device ?m mac \<noteq> None}"
    using shown by (auto simp: shows_ledger_def ledger_of_db_def ledger_of_def)
  have mac: "dv_mac e = mac" "device ?m mac = Some e" if "(mac, e) \<in> set (mg_devices ?m)" for mac e
    using m that by (auto simp: manager_ok_def device_def)
  have macs: "map sn_mac ?ss = map fst ?dirty"
    using mac(1) by (auto simp: entry_snapshot_def)
  have "distinct (map fst (mg_devices ?m))" using m by (simp add: manager_ok_def)
  then have "distinct (map sn_mac ?ss)" unfolding macs by (rule distinct_map_filter)
  moreover have "\<forall>s \<in> set ?ss. ?ids (sn_mac s) \<noteq> None"
  proof
    fix s assume "s \<in> set ?ss"
    then obtain mac e where "(mac, e) \<in> set (mg_devices ?m)" "s = entry_snapshot e" by auto
    then show "?ids (sn_mac s) \<noteq> None" using mac known by (auto simp: entry_snapshot_def)
  qed
  ultimately have states: "row_states (fst (flush (\<lambda>_. None) ?ids ?d ?ss))
    = (\<lambda>s. (show_mac (sn_mac s), device_state_str (sn_state s), sn_current_ap s)) ` set ?ss
      \<union> {t \<in> row_states ?d. fst t \<notin> (\<lambda>s. show_mac (sn_mac s)) ` set ?ss}"
    by (intro flush_states [OF db])
  have tables: "wd_tables (flush_devices l w) = fst (flush (\<lambda>_. None) ?ids ?d ?ss)"
    using assms(3,4) by (simp add: flush_devices_def take_dirty_def Let_def)
  have manager: "wd_manager (flush_devices l w) = fst (take_dirty ?m)"
    by (simp add: flush_devices_def Let_def case_prod_beta)
  let ?clean = "\<lambda>e. if dv_dirty e then e\<lparr>dv_dirty := False, dv_observations_since_flush := 0\<rparr> else e"
  have device: "device (fst (take_dirty ?m)) mac = map_option ?clean (device ?m mac)" for mac
    by (simp add: device_def take_dirty_def map_of_map)
  show ?thesis unfolding all_saved_def manager tables
  proof (intro allI impI)
    fix mac e'
    assume "device (fst (take_dirty ?m)) mac = Some e'"
    then obtain e where e: "device ?m mac = Some e" "e' = ?clean e" unfolding device by blast
    have mem: "(mac, e) \<in> set (mg_devices ?m)" using e(1) by (auto simp: device_def dest: map_of_SomeD)
    have same: "dv_state e' = dv_state e" "dv_current_ap e' = dv_current_ap e" using e(2) by simp_all
    show "stored_as (fst (flush (\<lambda>_. None) ?ids ?d ?ss)) mac e'"
    proof (cases "dv_dirty e")
      case True
      then have "entry_snapshot e \<in> set ?ss" using mem by force
      then have "(show_mac (sn_mac (entry_snapshot e)), device_state_str (sn_state (entry_snapshot e)), sn_current_ap (entry_snapshot e))
          \<in> row_states (fst (flush (\<lambda>_. None) ?ids ?d ?ss))"
        unfolding states by (intro UnI1 imageI)
      then have "(show_mac mac, device_state_str (dv_state e), dv_current_ap e) \<in> row_states (fst (flush (\<lambda>_. None) ?ids ?d ?ss))"
        using mac(1) [OF mem] by (simp only: snapshot_fields)
      then show ?thesis using same unfolding stored_as_def by auto
    next
      case False
      have "show_mac mac \<notin> (\<lambda>s. show_mac (sn_mac s)) ` set ?ss"
      proof
        assume "show_mac mac \<in> (\<lambda>s. show_mac (sn_mac s)) ` set ?ss"
        then obtain mac2 e2 where "(mac2, e2) \<in> set (mg_devices ?m)" "dv_dirty e2" "dv_mac e2 = mac"
          by (auto simp: entry_snapshot_def)
        then show False using mac [of mac2 e2] e(1) False by simp
      qed
      moreover have "stored_as ?d mac e" using assms(2) e(1) False unfolding saved_def by blast
      moreover obtain ap where "(show_mac mac, device_state_str (dv_state e), ap) \<in> row_states ?d"
        and "dv_state e = Offline \<or> ap = dv_current_ap e"
        using calculation(2) unfolding stored_as_def by blast
      ultimately show ?thesis unfolding stored_as_def states same
        by (intro exI [of _ ap] conjI UnI2 CollectI) simp_all
    qed
  qed
qed

lemma all_saved_saved: "all_saved w \<Longrightarrow> saved w"
  by (simp add: all_saved_def saved_def)

lemma daemon_step_saved:
  assumes "world_ok w" "saved w" "loses_nothing l"
  shows "saved (daemon_step se w (l, i))"
proof -
  have tables: "tables_ok (wd_tables w)" using assms(1) by (simp add: world_ok_def)
  have "saved (flush_devices l w)"
    using assms flush_devices_saves by (simp add: loses_nothing_def all_saved_saved)
  moreover have "carries w (on_enriched se l es now w)" for es now
    using apply_enrichments_carries by (simp add: on_enriched_def case_prod_beta carries_refl)
  moreover have "carries w (if mg_learning (wd_manager w) then w\<lparr>wd_manager := end_learning (wd_manager w)\<rparr> else w)"
    by (simp add: carries_def marks_refl end_learning_def)
  moreover have "carries w (on_maintenance se l now w)" for now
    using tables by (rule on_maintenance_carries)
  ultimately show ?thesis
    using carries_saved [OF _ assms(2)] on_observation_carries on_signal_carries on_sweep_carries reconcile_carries
    by (cases i) simp_all
qed

subsection \<open>What a start reads back\<close>

lemma device_state_read: "device_state_from_db (device_state_str st) = st"
  by (cases st) (simp_all add: device_state_from_db_def)

lemma device_state_offline: "device_state_str st = ''offline'' \<longleftrightarrow> st = Offline"
  by (cases st) simp_all

text \<open>Every device the loop knows has its row, which says what the device is.\<close>

lemma row_of_device:
  assumes "world_ok w" "all_saved w" "device (wd_manager w) mac = Some e"
  shows "\<exists>r \<in> set (tb_devices (wd_tables w)). rw_mac r = show_mac mac \<and> wd_persister w mac = Some (rw_id r)
    \<and> rw_state r = device_state_str (dv_state e) \<and> (dv_state e = Offline \<or> rw_current_ap r = dv_current_ap e)"
proof -
  have db: "db_ok (wd_persister w) (wd_tables w)" using assms(1) by (simp add: world_ok_def shows_ledger_def)
  obtain r ap where r: "r \<in> set (tb_devices (wd_tables w))" "rw_mac r = show_mac mac"
    "rw_state r = device_state_str (dv_state e)" "rw_current_ap r = ap" "dv_state e = Offline \<or> ap = dv_current_ap e"
    using assms(2,3) unfolding all_saved_def stored_as_def row_states_def by (auto dest!: spec)
  then show ?thesis using db_ok_row [OF db r(1)] by (intro bexI [of _ r]) auto
qed

lemma device_of_row:
  assumes "world_ok w" "r \<in> set (tb_devices (wd_tables w))"
  shows "\<exists>mac e. rw_mac r = show_mac mac \<and> wd_persister w mac = Some (rw_id r) \<and> device (wd_manager w) mac = Some e"
proof -
  have shown: "shows_ledger (wd_persister w, wd_tables w) (ledger_of (wd_manager w))"
    using assms(1) by (simp add: world_ok_def)
  then have known: "dom (wd_persister w) = {mac. device (wd_manager w) mac \<noteq> None}"
    by (auto simp: shows_ledger_def ledger_of_db_def ledger_of_def)
  obtain mac where "rw_mac r = show_mac mac" "wd_persister w mac = Some (rw_id r)"
    using db_ok_row [OF _ assms(2)] shown unfolding shows_ledger_def fst_conv snd_conv by blast
  then show ?thesis using known by blast
qed

definition reads :: "device_row \<Rightarrow> device_record \<Rightarrow> bool" where
  "reads r rec \<longleftrightarrow> rw_mac r = show_mac (dr_mac rec) \<and> dr_id rec = rw_id r
     \<and> dr_state rec = device_state_from_db (rw_state r) \<and> dr_current_ap rec = rw_current_ap r"

lemma load_devices_reads:
  assumes "db_ok ids d"
  shows "\<exists>records. load_devices d = Some records
    \<and> (\<forall>rec \<in> set records. \<exists>r \<in> set (tb_devices d). reads r rec)
    \<and> (\<forall>r \<in> set (tb_devices d). \<exists>rec \<in> set records. reads r rec)"
proof -
  let ?rows = "sort_key (\<lambda>r. - rw_last_seen_at r) (tb_devices d)"
  have some: "collect (map f xs) = Some (map (\<lambda>x. the (f x)) xs)" if "\<forall>x \<in> set xs. f x \<noteq> None"
    for f :: "device_row \<Rightarrow> device_record option" and xs
    using that by (induction xs) auto
  have row: "\<exists>rec. record_of_row r = Some rec \<and> reads r rec" if "r \<in> set (tb_devices d)" for r
  proof -
    obtain mac where "rw_mac r = show_mac mac" using db_ok_row [OF assms \<open>r \<in> set (tb_devices d)\<close>] by blast
    then show ?thesis by (simp add: record_of_row_def reads_def)
  qed
  then have "load_devices d = Some (map (\<lambda>r. the (record_of_row r)) ?rows)"
    unfolding load_devices_def by (intro some) force
  moreover have "reads r (the (record_of_row r))" if "r \<in> set (tb_devices d)" for r
    using row [OF that] by auto
  ultimately show ?thesis by auto
qed

lemma restore_cases:
  "(\<exists>rec \<in> set records. \<exists>stored. dr_mac rec = mac \<and> device (fst (foldl restore_record (m, signals) records)) mac = Some (restored_entry rec stored))
   \<or> (mac \<notin> dr_mac ` set records \<and> device (fst (foldl restore_record (m, signals) records)) mac = device m mac)"
proof (induction records arbitrary: m signals)
  case (Cons rec records)
  obtain m1 signals1 where one: "restore_record (m, signals) rec = (m1, signals1)" by force
  have "device m1 mac = (if mac = dr_mac rec then Some (restored_entry rec (case signals (dr_id rec) of Some s \<Rightarrow> s | None \<Rightarrow> []))
      else device m mac)"
    using one by (auto simp: restore_record_def Let_def)
  then show ?case using Cons.IH [of m1 signals1] one
    by (cases "mac = dr_mac rec") (auto intro: exI [of _ "case signals (dr_id rec) of Some s \<Rightarrow> s | None \<Rightarrow> []"])
qed simp

lemma restore_ok: "manager_ok m \<Longrightarrow> manager_ok (fst (foldl restore_record (m, signals) records))"
proof (induction records arbitrary: m signals)
  case (Cons rec records)
  obtain m1 signals1 where one: "restore_record (m, signals) rec = (m1, signals1)" by force
  have "manager_ok (m\<lparr>mg_addresses := ad\<rparr>)" for ad using Cons.prems manager_ok_cong [of "m\<lparr>mg_addresses := ad\<rparr>" m] by simp
  then have "manager_ok m1"
    using one by (auto simp: restore_record_def Let_def restored_entry_def intro!: manager_ok_put)
  then show ?case using Cons.IH one by simp
qed simp

lemma seed_cases:
  "(\<exists>rec \<in> set records. dr_mac rec = mac \<and> seed_persister ids records mac = Some (dr_id rec))
   \<or> (mac \<notin> dr_mac ` set records \<and> seed_persister ids records mac = ids mac)"
  unfolding seed_persister_def
proof (induction records arbitrary: ids)
  case (Cons rec records)
  show ?case using Cons.IH [of "ids(dr_mac rec \<mapsto> dr_id rec)"] by auto
qed simp

text \<open>Ending the stays of offline devices, and adopting the configured people.\<close>

lemma filter_stale:
  "filter (stay_open i) (map (\<lambda>r. if lo_ended_at r = None \<and> \<not> lo_is_summary r \<and> device_offline_row d (lo_device_id r)
      then r\<lparr>lo_ended_at := Some now\<rparr> else r) rs)
    = (if device_offline_row d i then [] else filter (stay_open i) rs)"
proof (induction rs)
  case (Cons r rs)
  show ?case
  proof (cases "stay_open i r")
    case True
    then have "lo_ended_at r = None" "\<not> lo_is_summary r" "lo_device_id r = i" by (simp_all add: stay_open_def)
    then show ?thesis using Cons True by simp
  next
    case False
    then show ?thesis using Cons by simp
  qed
qed simp

lemma stay_at_stale: "stay_at (close_stale_location_stays d now) i = (if device_offline_row d i then None else stay_at d i)"
  by (simp add: stay_at_def close_stale_location_stays_def find_filter filter_stale)

lemma stale_ok:
  assumes "tables_ok d" "db_ok ids d"
  shows "tables_ok (close_stale_location_stays d now) \<and> db_ok ids (close_stale_location_stays d now)"
proof -
  let ?d = "close_stale_location_stays d now"
  have frame: "tb_devices ?d = tb_devices d" "tb_device_seq ?d = tb_device_seq d" "open_ids ?d = open_ids d"
    by (simp_all add: close_stale_location_stays_def open_ids_def)
  have one: "one_open ?d"
    using assms(1) by (simp add: tables_ok_def one_open_def close_stale_location_stays_def filter_stale)
  have "db_ok ids ?d"
    by (rule db_ok_frame [OF assms(2) frame(1,2)]) (simp_all add: frame(3) stay_at_stale one split: if_splits)
  moreover have "tables_ok ?d"
    using assms(1) one by (simp add: tables_ok_def close_stale_location_stays_def)
  ultimately show ?thesis by simp
qed

lemma adopt_people_frame: "\<exists>ps. fst (adopt_people fold_case uuid ok n people d) = d\<lparr>tb_people := ps\<rparr>"
proof (induction people arbitrary: n d)
  case Nil
  show ?case by (intro exI [of _ "tb_people d"]) simp
next
  case (Cons p people)
  have "\<exists>ps. fst (ensure_person fold_case u d name a b) = d\<lparr>tb_people := ps\<rparr>" for u name a b
    by (cases "List.find (\<lambda>r. fold_case (pw_name r) = fold_case name) (tb_people d)")
      (auto simp: ensure_person_def intro: exI [of _ "tb_people d"])
  then obtain ps where ps: "fst (ensure_person fold_case (uuid n) d (trim (pc_name p)) (pc_notify_arrive p) (pc_notify_depart p))
      = d\<lparr>tb_people := ps\<rparr>" by blast
  show ?case using Cons.IH [of "n + 1" d] Cons.IH [of "n + 1" "d\<lparr>tb_people := ps\<rparr>"]
    by (auto simp: Let_def case_prod_beta ps)
qed

lemma build_registry_frame: "\<exists>ps. fst (build_registry fold_case uuid ok before people_ok people records d) = d\<lparr>tb_people := ps\<rparr>"
  using adopt_people_frame [of fold_case uuid ok 0 people d] by (simp add: build_registry_def Let_def case_prod_beta)

text \<open>What a restart makes of a ledger: everything, except that an offline device is nowhere.\<close>

definition offline_nowhere :: "ledger \<Rightarrow> ledger" where
  "offline_nowhere L = L\<lparr>lg_stays := (\<lambda>mac. if mac \<in> lg_open L then lg_stays L mac else None)\<rparr>"

definition states_of :: "manager \<Rightarrow> mac_addr \<Rightarrow> device_state option" where
  "states_of m mac = map_option dv_state (device m mac)"

definition recalls :: "world \<Rightarrow> device_record \<Rightarrow> bool" where
  "recalls w rec \<longleftrightarrow>
     (\<exists>e. device (wd_manager w) (dr_mac rec) = Some e \<and> wd_persister w (dr_mac rec) = Some (dr_id rec)
       \<and> dr_state rec = dv_state e \<and> (dv_state e = Offline \<or> dr_current_ap rec = dv_current_ap e)
       \<and> (show_mac (dr_mac rec), device_state_str (dr_state rec), dr_current_ap rec) \<in> row_states (wd_tables w))"

lemma load_remembers:
  assumes ok: "world_ok w" and stored: "all_saved w"
  shows "\<exists>records. load_devices (wd_tables w) = Some records \<and> (\<forall>rec \<in> set records. recalls w rec)
    \<and> (\<forall>mac. mac \<in> dr_mac ` set records \<longleftrightarrow> device (wd_manager w) mac \<noteq> None)"
proof -
  let ?rows = "set (tb_devices (wd_tables w))"
  have db: "db_ok (wd_persister w) (wd_tables w)" using ok by (simp add: world_ok_def shows_ledger_def)
  then have inj: "inj_on rw_mac ?rows" by (simp add: db_ok_def distinct_map)
  obtain records where load: "load_devices (wd_tables w) = Some records"
    and from_row: "\<forall>rec \<in> set records. \<exists>r \<in> ?rows. reads r rec"
    and of_row: "\<forall>r \<in> ?rows. \<exists>rec \<in> set records. reads r rec"
    using load_devices_reads [OF db] by blast
  have "recalls w rec" if rec: "rec \<in> set records" for rec
  proof -
    obtain r where r: "r \<in> ?rows" "reads r rec" using from_row rec by blast
    obtain mac e where mac: "rw_mac r = show_mac mac" "device (wd_manager w) mac = Some e"
      using device_of_row [OF ok r(1)] by blast
    obtain r' where r': "r' \<in> ?rows" "rw_mac r' = show_mac mac" "wd_persister w mac = Some (rw_id r')"
      "rw_state r' = device_state_str (dv_state e)" "dv_state e = Offline \<or> rw_current_ap r' = dv_current_ap e"
      using row_of_device [OF ok stored mac(2)] by blast
    have "r' = r" using inj r(1) r'(1,2) mac(1) unfolding inj_on_def by metis
    moreover have "(rw_mac r, rw_state r, rw_current_ap r) \<in> row_states (wd_tables w)" using r(1) by (simp add: row_states_def)
    ultimately show ?thesis unfolding recalls_def using r(2) mac r'
      by (intro exI [of _ e]) (auto simp: reads_def device_state_read)
  qed
  moreover have "mac \<in> dr_mac ` set records" if "device (wd_manager w) mac = Some e" for mac e
  proof -
    obtain r where r: "r \<in> ?rows" "rw_mac r = show_mac mac"
      using row_of_device [OF ok stored \<open>device (wd_manager w) mac = Some e\<close>] by blast
    then obtain rec where "rec \<in> set records" "reads r rec" using of_row by blast
    then show ?thesis using r(2) by (auto simp: reads_def)
  qed
  ultimately show ?thesis using load by (auto simp: recalls_def) blast
qed

text \<open>The restored table beside the one it was stored from.\<close>

definition resembles :: "world \<Rightarrow> manager \<Rightarrow> bool" where
  "resembles w m' \<longleftrightarrow> (\<forall>mac. case device m' mac of
       None \<Rightarrow> device (wd_manager w) mac = None
     | Some e' \<Rightarrow> (\<exists>e. device (wd_manager w) mac = Some e \<and> dv_state e' = dv_state e \<and> stored_as (wd_tables w) mac e'
         \<and> dv_current_ap e' = (if dv_state e = Offline then None else dv_current_ap e)))"

lemma restore_resembles:
  assumes "\<forall>rec \<in> set records. recalls w rec" "\<forall>mac. mac \<in> dr_mac ` set records \<longleftrightarrow> device (wd_manager w) mac \<noteq> None"
    and "mg_devices m0 = []"
  shows "resembles w (restore m0 records signals) \<and> manager_ok (restore m0 records signals)"
proof -
  have "case device (restore m0 records signals) mac of
       None \<Rightarrow> device (wd_manager w) mac = None
     | Some e' \<Rightarrow> (\<exists>e. device (wd_manager w) mac = Some e \<and> dv_state e' = dv_state e \<and> stored_as (wd_tables w) mac e'
         \<and> dv_current_ap e' = (if dv_state e = Offline then None else dv_current_ap e))" for mac
    using restore_cases [of records mac m0 signals]
  proof (elim disjE bexE exE conjE)
    fix rec stored
    assume rec: "rec \<in> set records" "dr_mac rec = mac"
      and e': "device (fst (foldl restore_record (m0, signals) records)) mac = Some (restored_entry rec stored)"
    have fields: "dv_state (restored_entry rec stored) = dr_state rec"
      "dv_current_ap (restored_entry rec stored) = (if dr_state rec = Offline then None else dr_current_ap rec)"
      by (simp_all add: restored_entry_def Let_def)
    obtain e where e: "device (wd_manager w) mac = Some e" "dr_state rec = dv_state e"
      "dv_state e = Offline \<or> dr_current_ap rec = dv_current_ap e"
      "(show_mac mac, device_state_str (dr_state rec), dr_current_ap rec) \<in> row_states (wd_tables w)"
      using assms(1) rec unfolding recalls_def by blast
    then have "stored_as (wd_tables w) mac (restored_entry rec stored)"
      unfolding stored_as_def fields by (intro exI [of _ "dr_current_ap rec"]) simp
    then show ?thesis using e e' by (auto simp: restore_def fields)
  next
    assume "mac \<notin> dr_mac ` set records" "device (fst (foldl restore_record (m0, signals) records)) mac = device m0 mac"
    then show ?thesis using assms(2,3) by (simp add: restore_def device_def)
  qed
  moreover have "manager_ok (restore m0 records signals)"
    unfolding restore_def using assms(3) by (intro restore_ok) (simp add: manager_ok_def)
  ultimately show ?thesis by (simp add: resembles_def)
qed

lemma resembles_ledger:
  assumes "resembles w m'"
  shows "states_of m' = states_of (wd_manager w) \<and> ledger_of m' = offline_nowhere (ledger_of (wd_manager w))"
proof -
  let ?m = "wd_manager w"
  have entry: "(device m' mac = None \<and> device ?m mac = None) \<or> (\<exists>e' e. device m' mac = Some e' \<and> device ?m mac = Some e
      \<and> dv_state e' = dv_state e \<and> dv_current_ap e' = (if dv_state e = Offline then None else dv_current_ap e))" for mac
    using assms [unfolded resembles_def, rule_format, of mac] by (cases "device m' mac") auto
  have "states_of m' mac = states_of ?m mac" for mac
    using entry [of mac] by (auto simp: states_of_def)
  moreover have "device m' mac = None \<longleftrightarrow> device ?m mac = None" "open_now (device m' mac) = open_now (device ?m mac)"
    "Option.bind (device m' mac) dv_current_ap = (if open_now (device ?m mac) then Option.bind (device ?m mac) dv_current_ap else None)" for mac
    using entry [of mac] by (auto simp: open_now_def)
  ultimately show ?thesis by (simp add: ledger_of_def offline_nowhere_def fun_eq_iff)
qed

lemma resembles_stored: "resembles w m' \<Longrightarrow> device m' mac = Some e' \<Longrightarrow> stored_as (wd_tables w) mac e'"
  unfolding resembles_def by (drule spec [of _ mac]) auto

lemma seed_remembers:
  assumes "world_ok w" "\<forall>rec \<in> set records. recalls w rec"
    and "\<forall>mac. mac \<in> dr_mac ` set records \<longleftrightarrow> device (wd_manager w) mac \<noteq> None"
  shows "seed_persister Map.empty records = wd_persister w"
proof
  fix mac
  have "ledger_of_db (wd_persister w) (wd_tables w) = ledger_of (wd_manager w)"
    using assms(1) by (simp add: world_ok_def shows_ledger_def)
  then have "dom (wd_persister w) = {mac. device (wd_manager w) mac \<noteq> None}"
    by (auto simp: ledger_of_db_def ledger_of_def)
  then have "wd_persister w mac = None" if "mac \<notin> dr_mac ` set records"
    using that assms(3) by blast
  then show "seed_persister Map.empty records mac = wd_persister w mac"
    using seed_cases [of records mac Map.empty] assms(2) unfolding recalls_def by auto
qed

lemma stale_shows:
  assumes ok: "world_ok w" and stored: "all_saved w"
  shows "shows_ledger (wd_persister w, close_stale_location_stays (wd_tables w) now) (offline_nowhere (ledger_of (wd_manager w)))"
proof -
  let ?d = "wd_tables w" and ?ids = "wd_persister w" and ?L = "ledger_of (wd_manager w)"
  have db: "db_ok ?ids ?d" "tables_ok ?d" and shown: "ledger_of_db ?ids ?d = ?L"
    using ok by (simp_all add: world_ok_def shows_ledger_def)
  have offline: "device_offline_row ?d i \<longleftrightarrow> mac \<notin> lg_open ?L" if i: "?ids mac = Some i" for mac i
  proof -
    have "mac \<in> lg_known ?L" using i by (auto simp: shown [symmetric] ledger_of_db_def)
    then obtain e where e: "device (wd_manager w) mac = Some e" by (auto simp: ledger_of_def)
    obtain r where r: "r \<in> set (tb_devices ?d)" "?ids mac = Some (rw_id r)" "rw_state r = device_state_str (dv_state e)"
      using row_of_device [OF ok stored e] by blast
    have "inj_on rw_id (set (tb_devices ?d))" using db by (simp add: db_ok_def distinct_map)
    then have "device_offline_row ?d i \<longleftrightarrow> rw_state r = ''offline''"
      using r(1,2) i by (auto simp: device_offline_row_def list_ex_iff inj_on_def)
    then show ?thesis using e by (simp add: r(3) device_state_offline ledger_of_def open_now_def)
  qed
  have open_same: "open_ids (close_stale_location_stays ?d now) = open_ids ?d"
    by (simp add: close_stale_location_stays_def open_ids_def)
  have "Option.bind (?ids mac) (stay_at (close_stale_location_stays ?d now))
      = (if mac \<in> lg_open ?L then Option.bind (?ids mac) (stay_at ?d) else None)" for mac
    using offline [of mac] by (cases "?ids mac") (auto simp: stay_at_stale)
  then have "ledger_of_db ?ids (close_stale_location_stays ?d now) = (ledger_of_db ?ids ?d)\<lparr>lg_stays :=
      \<lambda>mac. if mac \<in> lg_open ?L then lg_stays (ledger_of_db ?ids ?d) mac else None\<rparr>"
    by (simp add: ledger_of_db_def open_same cong: if_cong)
  then have "ledger_of_db ?ids (close_stale_location_stays ?d now) = offline_nowhere ?L"
    unfolding shown offline_nowhere_def .
  then show ?thesis using stale_ok [OF db(2,1)] by (simp add: shows_ledger_def)
qed

lemma startup_restores:
  assumes ok: "world_ok w" and stored: "all_saved w"
  shows "\<exists>v. startup fold_case uuid ok' before people_ok True cfg learn now (wd_tables w) = Some v
    \<and> world_ok v \<and> saved v \<and> states_of (wd_manager v) = states_of (wd_manager w)
    \<and> ledger_of (wd_manager v) = offline_nowhere (ledger_of (wd_manager w))"
proof -
  let ?d = "close_stale_location_stays (wd_tables w) now"
  obtain records where load: "load_devices (wd_tables w) = Some records"
    and rem: "\<forall>rec \<in> set records. recalls w rec" "\<forall>mac. mac \<in> dr_mac ` set records \<longleftrightarrow> device (wd_manager w) mac \<noteq> None"
    using load_remembers [OF assms] by blast
  let ?new = "restore (new_manager (c_state cfg) (learn \<or> ln_on_first_run (c_learning cfg) \<and> length records = 0))
    records (load_all_signals (wd_tables w))"
  obtain ps where ps: "fst (build_registry fold_case uuid ok' before people_ok (c_people cfg) records ?d) = ?d\<lparr>tb_people := ps\<rparr>"
    using build_registry_frame by blast
  obtain v where v: "startup fold_case uuid ok' before people_ok True cfg learn now (wd_tables w) = Some v"
    "wd_manager v = ?new" "wd_persister v = wd_persister w" "wd_tables v = ?d\<lparr>tb_people := ps\<rparr>"
  proof -
    have some: "\<exists>v. startup fold_case uuid ok' before people_ok True cfg learn now (wd_tables w) = Some v"
      by (simp add: startup_def load Let_def case_prod_beta)
    then obtain v where "startup fold_case uuid ok' before people_ok True cfg learn now (wd_tables w) = Some v" ..
    then show ?thesis using that [of v] ps seed_remembers [OF ok rem]
      by (simp add: startup_def load Let_def case_prod_beta) (drule sym, simp)
  qed
  have new: "resembles w ?new" "manager_ok ?new"
    using restore_resembles [OF rem, of "new_manager (c_state cfg) (learn \<or> ln_on_first_run (c_learning cfg) \<and> length records = 0)"
        "load_all_signals (wd_tables w)"] by (simp_all add: new_manager_def)
  note same = resembles_ledger [OF new(1)]
  have columns: "ledger_columns (wd_tables v) = ledger_columns ?d" by (simp add: v(4) ledger_columns_def)
  have "shows_ledger (wd_persister w, wd_tables v) (ledger_of ?new)"
    unfolding shows_ledger_columns [OF columns] conjunct2 [OF same] by (rule stale_shows [OF assms])
  moreover have "tables_ok (wd_tables v)"
    using ok stale_ok [of "wd_tables w" "wd_persister w" now]
    by (simp add: v(4) world_ok_def shows_ledger_def tables_ok_def one_open_def)
  ultimately have "world_ok v" using new(2) by (simp add: world_ok_def v(2,3))
  moreover have "saved v"
  proof -
    have "row_states (wd_tables v) = row_states (wd_tables w)"
      by (simp add: row_states_def v(4) close_stale_location_stays_def)
    then have "stored_as (wd_tables v) = stored_as (wd_tables w)" by (simp add: stored_as_def fun_eq_iff)
    then show ?thesis using resembles_stored [OF new(1)] by (simp add: saved_def v(2))
  qed
  ultimately show ?thesis using v same by auto
qed

subsection \<open>Any number of runs\<close>

text \<open>
  A first start finds an empty database; then the loop takes its inputs, and now and again the program
  is told to stop and started once more, with whatever configuration. The link of each step loses nothing.
\<close>

inductive lifetime :: "setting \<Rightarrow> world \<Rightarrow> bool" for se where
  first_start: "startup fold_case uuid ok before people_ok closing cfg learn now empty_tables = Some w \<Longrightarrow> lifetime se w"
| loop_step: "lifetime se w \<Longrightarrow> loses_nothing l \<Longrightarrow> lifetime se (daemon_step se w (l, i))"
| restarted: "lifetime se w \<Longrightarrow> loses_nothing l
    \<Longrightarrow> startup fold_case uuid ok before people_ok True cfg learn now (wd_tables (shut_down l w)) = Some v \<Longrightarrow> lifetime se v"

lemma first_start_ok:
  assumes "startup fold_case uuid ok before people_ok closing cfg learn now empty_tables = Some w"
  shows "world_ok w \<and> saved w"
proof -
  have empty: "load_devices empty_tables = Some []" by (simp add: load_devices_def empty_tables_def)
  let ?d = "if closing then close_stale_location_stays empty_tables now else empty_tables"
  obtain ps where ps: "fst (build_registry fold_case uuid ok before people_ok (c_people cfg) [] ?d) = ?d\<lparr>tb_people := ps\<rparr>"
    using build_registry_frame by blast
  have "?d = empty_tables" by (simp add: close_stale_location_stays_def empty_tables_def)
  then have w: "wd_persister w = Map.empty" "wd_tables w = empty_tables\<lparr>tb_people := ps\<rparr>"
    "wd_manager w = new_manager (c_state cfg) (learn \<or> ln_on_first_run (c_learning cfg))"
    using assms ps by (auto simp: startup_def empty Let_def case_prod_beta seed_persister_def restore_def)
  have columns: "ledger_columns (wd_tables w) = ledger_columns empty_tables" by (simp add: w(2) ledger_columns_def)
  have "shows_ledger (wd_persister w, wd_tables w) (ledger_of (wd_manager w))"
    unfolding shows_ledger_columns [OF columns] w(1,3) by (rule empty_shows)
  moreover have "tables_ok (wd_tables w)" using tables_ok_empty by (simp add: w(2) tables_ok_def one_open_def)
  moreover have "mg_devices (wd_manager w) = []" by (simp add: w(3) new_manager_def)
  ultimately show ?thesis by (simp add: world_ok_def saved_def manager_ok_def device_def)
qed

lemma shut_down_saves:
  assumes "world_ok w" "saved w" "loses_nothing l"
  shows "world_ok (shut_down l w) \<and> all_saved (shut_down l w)"
  using assms flush_devices_ok flush_devices_saves by (simp add: shut_down_def loses_nothing_def)

lemma lifetime_ok: "lifetime se w \<Longrightarrow> world_ok w \<and> saved w"
proof (induction rule: lifetime.induct)
  case (first_start fold_case uuid ok before people_ok closing cfg learn now w)
  then show ?case by (rule first_start_ok)
next
  case (loop_step w l i)
  then show ?case using daemon_step_ok daemon_step_saved by (simp add: loses_nothing_def)
next
  case (restarted w l fold_case uuid ok before people_ok cfg learn now v)
  then show ?case
    using startup_restores [of "shut_down l w" fold_case uuid ok before people_ok cfg learn now] shut_down_saves by auto
qed

lemma shut_down_ledger:
  assumes "world_ok w"
  shows "ledger_of (wd_manager (shut_down l w)) = ledger_of (wd_manager w)
    \<and> states_of (wd_manager (shut_down l w)) = states_of (wd_manager w)"
proof -
  have "wd_manager (shut_down l w) = fst (take_dirty (wd_manager w))"
    by (simp add: shut_down_def flush_devices_def Let_def case_prod_beta)
  moreover have "states_of (fst (take_dirty m)) = states_of m" for m
    by (auto simp: states_of_def device_def take_dirty_def map_of_map fun_eq_iff option.map_comp comp_def
        intro: option.map_cong0)
  ultimately show ?thesis using silent_op(2) [of "wd_manager w"] assms by (simp add: world_ok_def)
qed


lemma fresh_lifetime: "lifetime se fresh_world"
proof -
  have "startup (\<lambda>s. s) (\<lambda>_. []) (\<lambda>_. True) (\<lambda>_ _. False) True True default_config False 0 empty_tables = Some fresh_world"
    by (simp add: fresh_world_def startup_def load_devices_def empty_tables_def case_prod_beta Let_def)
  then show ?thesis by (rule lifetime.first_start)
qed

lemma healthy_loses_nothing: "loses_nothing healthy"
  by (simp add: loses_nothing_def healthy_records) (simp add: healthy_def)


text \<open>
  Without the last flush the sessions and the states fall apart: a sweep ends a session in the database
  at once, but the row of the device keeps its old state until the next flush. A program killed between
  the two reads back a device that is online, with no session open.
\<close>

lemma killed_before_the_flush:
  assumes "all_saved w" "device (wd_manager w) mac = Some e"
  shows "stored_as (wd_tables (on_sweep l now w)) mac e"
  using assms on_sweep_carries [of w l now] unfolding all_saved_def carries_def stored_as_def by blast

end
