(* ===== verification/Spec2Isabelle.thy ===== *)
theory Spec2Isabelle
  imports Chain Config Names Ethernet DnsWire ArpFrames Ndp DhcpFrames Scorer Vendor Rdns
    Location People Ip_Text Attribution Sightings Naming Persist
    Dispatch Compaction Dedup Enrich Daemon Daemon_Invariant
    Udp_Frames Nbns Ssdp Mdns Unifi
    Ntfy Capture Schema Runtime Cli_Table Cli Daemon_Tasks Restart
begin

text \<open>
  A model of \<^verbatim>\<open>netgraspd\<close>, a passive network monitor written in Rust, with the theorems that make it
  correct. The daemon captures frames, turns each into an observation, keeps a table of the devices it has
  heard, watches for attacks, writes what changes to PostgreSQL, and notifies. Paths are those of
  \<^verbatim>\<open>src/\<close> of the crate.

  \<^bold>\<open>How a frame travels.\<close> A capture loop reads an interface and gives each packet to the parser of its
  source; the main loop drops repeats, gives what is left to the device table, applies the effects the
  table reports to the database, follows them in the registry of people, publishes the recorded events on
  the bus, and shows every observation to the chain of analyzers, whose alerts become events too. Timers
  sweep, flush, reconcile, enrich, run the nightly jobs and publish the status; a second task takes events
  from the bus through the dispatcher to the notifiers.

  \<^bold>\<open>The theories\<close>, in the order they build on each other:

  \<^item> \<open>Prelude\<close>, \<open>Containers\<close>, \<open>Text\<close>: machine types and clock readings, slices, association lists, ordered
    maps, and the operations of \<^verbatim>\<open>str\<close> the program uses. \<open>Machine\<close>: what it is for a state machine to refine
    a specification (locale \<open>simulation\<close>).
  \<^item> \<open>Net\<close>, \<open>Types\<close>, \<open>Ip_Text\<close>: \<^verbatim>\<open>types.rs\<close> and the addresses of the standard library. \<open>Config\<close>: \<^verbatim>\<open>config.rs\<close>.
  \<^item> \<open>Ethernet\<close>, \<open>ArpFrames\<close>, \<open>Ndp\<close>, \<open>DnsWire\<close>, \<open>Names\<close>, \<open>Mdns\<close>, \<open>DhcpFrames\<close>, \<open>Nbns\<close>, \<open>Ssdp\<close>, \<open>Udp_Frames\<close>
    (sample frames), \<open>Dedup\<close>, \<open>Capture\<close>: \<^verbatim>\<open>capture/\<close>. Every parser interprets the locale \<open>frame_parser\<close>: what
    it returns is a usable sighting, stamped with the given time, interface and source. \<open>Capture\<close> carries that
    contract through the loop of a thread.
  \<^item> \<open>Window\<close>, \<open>Gateway\<close>, \<open>Alert\<close>, \<open>Arp_Scan\<close>, \<open>Arp_Spoof\<close>, \<open>Rogue_Dhcp\<close>, \<open>Ip_Conflict\<close>, \<open>Gratuitous_Arp\<close>,
    \<open>Identity_Change\<close>, \<open>Chain\<close>: \<^verbatim>\<open>analyze/\<close>. The bounded map interprets \<open>bounded_store\<close>; the six analyzers
    interpret \<open>slot_analyzer\<close> or \<open>roster_analyzer\<close>, both sublocales of \<open>cooling_analyzer\<close>: only its own
    kind of alert, about what it was shown, and none inside the cooldown.
  \<^item> \<open>Fingerprint\<close>, \<open>Classify\<close>, \<open>Scorer\<close>, \<open>Vendor\<close>, \<open>Rdns\<close>: \<^verbatim>\<open>identity/\<close>.
  \<^item> \<open>Device_Entry\<close>, \<open>Manager\<close>: \<^verbatim>\<open>device/mod.rs\<close>, a table of entries and operations that return effects.
    \<open>Ledger\<close> is its contract with the database: known devices, open sessions, open stays; the locale
    \<open>simulation\<close> is interpreted as \<open>table\<close>. \<open>Attribution\<close>, \<open>Sightings\<close> and \<open>Naming\<close> hold the laws of single
    operations.
  \<^item> \<open>Location\<close>, \<open>People\<close>: \<^verbatim>\<open>location/mod.rs\<close>, \<^verbatim>\<open>people/mod.rs\<close>; \<open>People\<close> interprets \<open>simulation\<close> as \<open>presence\<close>
    against a specification of who is home.
  \<^item> \<open>Tables\<close>, \<open>Persist\<close>, \<open>Table_Invariant\<close>: \<^verbatim>\<open>db/queries.rs\<close> and \<^verbatim>\<open>device/persist.rs\<close>: statements as functions on
    tables, the persister, and what keys and indexes promise. \<open>Schema\<close>: \<^verbatim>\<open>db/schema.rs\<close>, \<^verbatim>\<open>db/mod.rs\<close> and the
    three migrations. \<open>Maintenance\<close>, \<open>Compaction\<close>: \<^verbatim>\<open>maintenance/mod.rs\<close>; the locale \<open>rollup\<close> is interpreted on
    sessions and on stays.
  \<^item> \<open>Dispatch\<close>, \<open>Ntfy\<close>: \<^verbatim>\<open>notify/\<close>. \<open>Enrich\<close>, \<open>Unifi\<close>: \<^verbatim>\<open>enrich/\<close>. \<open>Runtime\<close>: \<^verbatim>\<open>runtime/mod.rs\<close>.
  \<^item> \<open>Daemon\<close>, \<open>Daemon_Invariant\<close>, \<open>Daemon_Tasks\<close>, \<open>Restart\<close>: \<^verbatim>\<open>daemon.rs\<close>: the handlers of the loop on a \<open>world\<close>,
    what they keep, what comes before the loop and runs beside it, and what survives a restart.
    \<open>Cli_Table\<close>, \<open>Cli\<close>: \<^verbatim>\<open>cli/\<close>.

  \<^bold>\<open>How state and operations correspond.\<close> A struct is a record and an enum a datatype with the source's
  constructors; a method that changes its object returns it updated. Strings are the lists of their UTF-8
  bytes as characters. Instants are \<open>int\<close> nanoseconds and durations \<open>nat\<close> nanoseconds, with the ranges and
  saturations of the libraries written out where a result depends on them. The counters of the daemon keep
  their width as words and wrap as a release build does; those of the dispatcher are natural numbers. A \<^verbatim>\<open>HashMap\<close> that is iterated is an association list, one that is only
  looked up a map, a \<^verbatim>\<open>BTreeMap\<close> a sorted association list. The floating-point confidences are rational
  numbers; none of the theorems depends on their rounding. A table is the list of its rows in the order of
  insertion, with the counter of its identity column; each statement is translated from its SQL. An error is
  a value: a sum or an option at every early return. What a panic would be is \<open>None\<close>.

  \<^bold>\<open>Faults.\<close> A database may be gone at any handler and any single statement of a batch may fail
  (\<open>lk_fault x = Some n\<close>: the n-th statement of effect \<open>x\<close>); files may be cut off at any byte; a controller
  or a server may answer anything or nothing.

  \<^bold>\<open>What is shown.\<close>

  \<^item> End to end: the chain reports an impersonated gateway and is silent about exempt devices; the effects
    of the table are accepted by the ledger; the database follows the daemon through every input; a restart
    changes nothing; the loop begins only when schema, interfaces and sources are in order.
  \<^item> Capture: parsers respect the limits of hostile names and buffers, name claims go to the right device,
    a loop adds nothing and loses nothing it read, the deduper is a window over the last keys.
  \<^item> Analyzers: exactly when each reports, and the bounds of what they remember.
  \<^item> Device table: sweeps, names that settle, who is credited with evidence, which events may notify.
  \<^item> Database: rollups conserve what they compact, recent rows are left alone, statements keep the
    tables well formed, migrations build what the checks expect and never touch a foreign schema.
  \<^item> Delivery: what is offered is sent once or counted, nothing waits longer than the window, security events
    leave at once, the notifier stops with nothing held back; headers cannot be split and decode to
    what was encoded; refused posts mark nothing.
  \<^item> Commands and files: the dry run tells the truth, the status file is never half written, only a
    table replaces the fingerprint table, an accepted configuration meets every constraint.
  \<^item> Where the code does not do what it or its comments say, a lemma shows the behaviour as it is:
    \<open>failed_flush_is_lost\<close>, \<open>killed_before_the_flush\<close>, \<open>reconcile_strands_person\<close>, \<open>exempt_claim_masks_spoof\<close>,
    \<open>shared_service_is_credited_once\<close>, \<open>departures_are_announced_as_arrivals\<close>, \<open>huge_interval_panics\<close>,
    \<open>truncated_download_is_installed\<close>, \<open>empty_filter_denies_the_table\<close>.

  \<^bold>\<open>Recursion and bounds.\<close> Loops are structural recursions or have a termination proof; nothing runs
  on fuel. A compressed name follows at most \<open>MAX_POINTERS\<close> pointers and \<open>MAX_LABELS\<close> labels, as the source
  bounds it, and the recursion decreases with them. The loop that encodes a header is a \<open>while_option\<close>, proved to
  give a result on every input. Endless loops (the threads, the tasks, the main loop) are functions on the list of
  what they are given, so a theorem about them holds after any number of turns.

  \<^bold>\<open>Parameters.\<close> What is not in the repository is an argument: case folding beyond ASCII, the debug
  quoting and the rendering of instants, the hash of the deduper, the registry of vendors and the built-in
  fingerprint text, the resolver, the collation, case folding and generated identifiers of PostgreSQL, the answers
  of a UniFi controller and of an ntfy server, the migration library, the JSON codec, and the packets a
  handle returns. Hypotheses about them are named where they are used: that the codec reads back what it wrote
  (in \<open>Runtime\<close>), that the migration library records what it applied and has nothing to do when
  all is applied (in \<open>Schema\<close>).

  \<^bold>\<open>Not modelled.\<close> The threads and channels of the runtime, its timers and its broadcast bus; pcap itself; TLS,
  HTTP and sockets; the connection pool; the reading of TOML and of the command line; log lines, the live table on
  the terminal and the statistics page, which only print; database sizes, read from the catalogue; the
  capture fixtures, which are test data. Constraints and indexes of the schema other than columns and
  their types are in \<open>Table_Invariant\<close> as an invariant, not read from the migrations.
\<close>

end
